(* ===== verification/Prelude.thy ===== *)
theory Prelude
  imports Main "HOL-Library.Word" "HOL-Library.Monad_Syntax"
begin

text \<open>
  Shared vocabulary of the development: the integer widths of the C++ sources, arrays and byte
  buffers whose accesses are checked, and the collections of facts the component theories share.

  An access outside an array or a buffer is undefined behaviour in the C++ and the value
  \<open>None\<close> here.  Every operation of the model that dereferences an index or a pointer therefore has
  an \<open>option\<close> result, and a theorem that such an operation returns \<open>Some\<close> is a memory-safety
  statement about the code.  Loops that could follow a cyclic chain forever are
  \<^theory_text>\<open>partial_function (option)\<close>, so \<open>Some\<close> also says that they terminate.
\<close>

unbundle bit_operations_syntax

section \<open>Integer widths\<close>

type_synonym u8 = "8 word"
type_synonym u16 = "16 word"
type_synonym u32 = "32 word"
type_synonym u64 = "64 word"

section \<open>Collections of facts\<close>

named_theorems frame_simps \<open>fields an operation leaves alone\<close>
named_theorems step_inv \<open>operations that keep a component's invariant\<close>
named_theorems size_simps \<open>lengths of buffers and arrays\<close>

text \<open>Signed division of C, towards zero.\<close>

definition trunc_div :: "int \<Rightarrow> int \<Rightarrow> int" where
  "trunc_div a b = (if a < 0 then - ((- a) div b) else a div b)"

section \<open>Arrays and buffers with checked accesses\<close>

definition aget :: "'a list \<Rightarrow> int \<Rightarrow> 'a option" where
  "aget xs i = (if 0 \<le> i \<and> i < int (length xs) then Some (xs ! nat i) else None)"

definition aset :: "'a list \<Rightarrow> int \<Rightarrow> 'a \<Rightarrow> 'a list option" where
  "aset xs i v = (if 0 \<le> i \<and> i < int (length xs) then Some (xs[nat i := v]) else None)"

text \<open>Reading \<open>n\<close> elements at \<open>p + off\<close>, and \<^verbatim>\<open>memcpy(dst + off, src, length src)\<close>.\<close>

definition slice :: "'a list \<Rightarrow> nat \<Rightarrow> nat \<Rightarrow> 'a list option" where
  "slice p off n = (if off + n \<le> length p then Some (take n (drop off p)) else None)"

definition memcpy :: "'a list \<Rightarrow> nat \<Rightarrow> 'a list \<Rightarrow> 'a list option" where
  "memcpy dst off src =
     (if off + length src \<le> length dst
      then Some (take off dst @ src @ drop (off + length src) dst) else None)"

lemma aget_in [simp]: "0 \<le> i \<Longrightarrow> i < int (length xs) \<Longrightarrow> aget xs i = Some (xs ! nat i)"
  by (simp add: aget_def)

lemma aget_int [simp]: "i < length xs \<Longrightarrow> aget xs (int i) = Some (xs ! i)"
  by (simp add: aget_def)

lemma aset_in [simp]: "0 \<le> i \<Longrightarrow> i < int (length xs) \<Longrightarrow> aset xs i v = Some (xs[nat i := v])"
  by (simp add: aset_def)

lemma aset_int [simp]: "i < length xs \<Longrightarrow> aset xs (int i) v = Some (xs[i := v])"
  by (simp add: aset_def)

lemma aget_neg [simp]: "i < 0 \<Longrightarrow> aget xs i = None"
  by (simp add: aget_def)

lemma aget_SomeD: "aget xs i = Some v \<Longrightarrow> 0 \<le> i \<and> i < int (length xs) \<and> v = xs ! nat i"
  by (simp add: aget_def split: if_splits)

lemma aset_length [size_simps]: "aset xs i v = Some ys \<Longrightarrow> length ys = length xs"
  by (auto simp: aset_def split: if_splits)

lemma slice_in [simp]: "off + n \<le> length p \<Longrightarrow> slice p off n = Some (take n (drop off p))"
  by (simp add: slice_def)

lemma slice_length: "slice p off n = Some q \<Longrightarrow> length q = n"
  by (auto simp: slice_def split: if_splits)

lemma memcpy_in [simp]:
  "off + length src \<le> length dst \<Longrightarrow>
   memcpy dst off src = Some (take off dst @ src @ drop (off + length src) dst)"
  by (simp add: memcpy_def)

lemma memcpy_length [size_simps]: "memcpy dst off src = Some d \<Longrightarrow> length d = length dst"
  by (auto simp: memcpy_def split: if_splits)

section \<open>Words\<close>

lemma bit_u8_ge [simp]: "8 \<le> n \<Longrightarrow> \<not> bit (a :: u8) n"
  by (auto dest: bit_imp_le_length)

lemma bit_u16_ge [simp]: "16 \<le> n \<Longrightarrow> \<not> bit (a :: u16) n"
  by (auto dest: bit_imp_le_length)

lemma bit_u32_ge [simp]: "32 \<le> n \<Longrightarrow> \<not> bit (a :: u32) n"
  by (auto dest: bit_imp_le_length)

lemma unat_u8_less [simp]: "unat (a :: u8) < 256"
  by (rule order_less_le_trans [OF unsigned_less]) simp

lemma unat_u16_less [simp]: "unat (a :: u16) < 65536"
  by (rule order_less_le_trans [OF unsigned_less]) simp

lemma unat_u32_less [simp]: "unat (a :: u32) < 4294967296"
  by (rule order_less_le_trans [OF unsigned_less]) simp

lemma unat_u8_u16 [simp]: "unat (ucast (a :: u8) :: u16) = unat a"
  by (simp add: unsigned_ucast_eq take_bit_nat_eq_self order_less_trans [OF unat_u8_less])

lemma unat_u8_u32 [simp]: "unat (ucast (a :: u8) :: u32) = unat a"
  by (simp add: unsigned_ucast_eq take_bit_nat_eq_self order_less_trans [OF unat_u8_less])

lemma unat_u16_u32 [simp]: "unat (ucast (a :: u16) :: u32) = unat a"
  by (simp add: unsigned_ucast_eq take_bit_nat_eq_self order_less_trans [OF unat_u16_less])

lemma unat_of_nat16: "n < 65536 \<Longrightarrow> unat (of_nat n :: u16) = n"
  by (simp add: unsigned_of_nat take_bit_nat_eq_self)

lemma unat_of_nat32: "n < 4294967296 \<Longrightarrow> unat (of_nat n :: u32) = n"
  by (simp add: unsigned_of_nat take_bit_nat_eq_self)

lemma word_succ_unat: "unat (w + 1 :: 'a::len word) = (unat w + 1) mod 2 ^ LENGTH('a)"
  by (simp add: unat_word_ariths)

lemma nat_shift:
  "8 \<le> n \<Longrightarrow> 8 + (n - 8) = (n :: nat)"
  "16 \<le> n \<Longrightarrow> 16 + (n - 16) = (n :: nat)"
  "24 \<le> n \<Longrightarrow> 24 + (n - 24) = (n :: nat)"
  by arith+

section \<open>Lists\<close>

lemma nth_update_if: "xs[i := v] ! j = (if i = j \<and> i < length xs then v else xs ! j)"
  by (cases "i < length xs") (simp_all add: nth_list_update list_update_beyond)

text \<open>The first index at which a predicate holds: the shape of the sources' table searches.\<close>

primrec find_index :: "('a \<Rightarrow> bool) \<Rightarrow> 'a list \<Rightarrow> nat option" where
  "find_index P [] = None"
| "find_index P (x # xs) = (if P x then Some 0 else map_option Suc (find_index P xs))"

lemma find_index_SomeD:
  "find_index P xs = Some i \<Longrightarrow> i < length xs \<and> P (xs ! i) \<and> (\<forall>j < i. \<not> P (xs ! j))"
proof (induction xs arbitrary: i)
  case Nil
  then show ?case by simp
next
  case (Cons x xs)
  show ?case
  proof (cases "P x")
    case True
    with Cons.prems show ?thesis by simp
  next
    case False
    with Cons.prems obtain k where k: "find_index P xs = Some k" "i = Suc k" by auto
    have IH: "k < length xs" "P (xs ! k)" "\<forall>j<k. \<not> P (xs ! j)"
      using Cons.IH [OF k(1)] by auto
    have "\<not> P ((x # xs) ! j)" if "j < Suc k" for j
      using that IH(3) False by (cases j) auto
    with IH k(2) show ?thesis by auto
  qed
qed

lemma find_index_None_iff: "find_index P xs = None \<longleftrightarrow> (\<forall>x \<in> set xs. \<not> P x)"
  by (induction xs) auto

lemma find_index_None_nth: "find_index P xs = None \<Longrightarrow> i < length xs \<Longrightarrow> \<not> P (xs ! i)"
  by (simp add: find_index_None_iff)

lemma find_index_ex: "i < length xs \<Longrightarrow> P (xs ! i) \<Longrightarrow> \<exists>k. find_index P xs = Some k \<and> k \<le> i"
proof -
  assume i: "i < length xs" "P (xs ! i)"
  then obtain k where k: "find_index P xs = Some k"
    by (cases "find_index P xs") (auto simp: find_index_None_iff)
  with i find_index_SomeD [OF k] show ?thesis
    by (metis not_le_imp_less)
qed

end
