(* ===== verification/Bytes.thy ===== *)
theory Bytes
  imports Prelude
begin

text \<open>
  \<^verbatim>\<open>source/net/net.hpp\<close>: byte order, unaligned loads and stores, the RFC 1071 checksum, the MAC
  conversions and the header offsets.  Loads and stores go through little-endian memory and a byte
  swap, as the code's \<^verbatim>\<open>memcpy\<close> followed by \<^verbatim>\<open>ntoh\<close> does on the target; the lemmas show that the
  result is the big-endian value.
\<close>

section \<open>Byte order\<close>

definition hton16 :: "u16 \<Rightarrow> u16" where
  "hton16 v = push_bit 8 v OR drop_bit 8 v"

definition ntoh16 :: "u16 \<Rightarrow> u16" where
  "ntoh16 v = hton16 v"

definition hton32 :: "u32 \<Rightarrow> u32" where
  "hton32 v = push_bit 24 (v AND 0x000000FF) OR push_bit 8 (v AND 0x0000FF00) OR
              drop_bit 8 (v AND 0x00FF0000) OR drop_bit 24 (v AND 0xFF000000)"

definition ntoh32 :: "u32 \<Rightarrow> u32" where
  "ntoh32 v = hton32 v"

text \<open>The bytes of a word in the target's memory order, and back.\<close>

definition le16_bytes :: "u16 \<Rightarrow> u8 list" where
  "le16_bytes v = [ucast v, ucast (drop_bit 8 v)]"

definition le16_load :: "u8 \<Rightarrow> u8 \<Rightarrow> u16" where
  "le16_load a b = ucast a OR push_bit 8 (ucast b)"

definition le32_bytes :: "u32 \<Rightarrow> u8 list" where
  "le32_bytes v = [ucast v, ucast (drop_bit 8 v), ucast (drop_bit 16 v), ucast (drop_bit 24 v)]"

definition le32_load :: "u8 \<Rightarrow> u8 \<Rightarrow> u8 \<Rightarrow> u8 \<Rightarrow> u32" where
  "le32_load a b c d =
     ucast a OR push_bit 8 (ucast b) OR push_bit 16 (ucast c) OR push_bit 24 (ucast d)"

section \<open>Unaligned access\<close>

definition rd8 :: "u8 list \<Rightarrow> nat \<Rightarrow> u8 option" where
  "rd8 p off = (if off < length p then Some (p ! off) else None)"

definition rd16 :: "u8 list \<Rightarrow> nat \<Rightarrow> u16 option" where
  "rd16 p off = do { a \<leftarrow> rd8 p off; b \<leftarrow> rd8 p (off + 1); Some (ntoh16 (le16_load a b)) }"

definition rd32 :: "u8 list \<Rightarrow> nat \<Rightarrow> u32 option" where
  "rd32 p off = do {
     a \<leftarrow> rd8 p off; b \<leftarrow> rd8 p (off + 1); c \<leftarrow> rd8 p (off + 2); d \<leftarrow> rd8 p (off + 3);
     Some (ntoh32 (le32_load a b c d)) }"

definition wr8 :: "u8 list \<Rightarrow> nat \<Rightarrow> u8 \<Rightarrow> u8 list option" where
  "wr8 p off v = memcpy p off [v]"

definition wr16 :: "u8 list \<Rightarrow> nat \<Rightarrow> u16 \<Rightarrow> u8 list option" where
  "wr16 p off v = memcpy p off (le16_bytes (hton16 v))"

definition wr32 :: "u8 list \<Rightarrow> nat \<Rightarrow> u32 \<Rightarrow> u8 list option" where
  "wr32 p off v = memcpy p off (le32_bytes (hton32 v))"

text \<open>The big-endian view the proofs use.\<close>

definition be16 :: "u8 \<Rightarrow> u8 \<Rightarrow> u16" where
  "be16 a b = push_bit 8 (ucast a) OR ucast b"

definition be32 :: "u8 \<Rightarrow> u8 \<Rightarrow> u8 \<Rightarrow> u8 \<Rightarrow> u32" where
  "be32 a b c d =
     push_bit 24 (ucast a) OR push_bit 16 (ucast b) OR push_bit 8 (ucast c) OR ucast d"

definition be16_bytes :: "u16 \<Rightarrow> u8 list" where
  "be16_bytes v = [ucast (drop_bit 8 v), ucast v]"

definition be32_bytes :: "u32 \<Rightarrow> u8 list" where
  "be32_bytes v = [ucast (drop_bit 24 v), ucast (drop_bit 16 v), ucast (drop_bit 8 v), ucast v]"

lemma ntoh16_load: "ntoh16 (le16_load a b) = be16 a b"
  by (rule bit_word_eqI)
     (auto simp: ntoh16_def hton16_def le16_load_def be16_def bit_simps dest: bit_imp_le_length)

lemma be_and_masks32:
  "(v :: u32) AND 0x000000FF = take_bit 8 v"
  "(v :: u32) AND 0x0000FF00 = push_bit 8 (take_bit 8 (drop_bit 8 v))"
  "(v :: u32) AND 0x00FF0000 = push_bit 16 (take_bit 8 (drop_bit 16 v))"
  "(v :: u32) AND 0xFF000000 = push_bit 24 (take_bit 8 (drop_bit 24 v))"
proof -
  have m: "(0xFF :: u32) = mask 8" by (simp add: mask_eq_exp_minus_1)
  have p: "(0xFF00 :: u32) = push_bit 8 (mask 8)" "(0xFF0000 :: u32) = push_bit 16 (mask 8)"
    "(0xFF000000 :: u32) = push_bit 24 (mask 8)"
    by (simp_all add: mask_eq_exp_minus_1 push_bit_eq_mult)
  show "v AND 0xFF = take_bit 8 v" by (simp add: m take_bit_eq_mask)
  show "v AND 0xFF00 = push_bit 8 (take_bit 8 (drop_bit 8 v))"
    unfolding p by (rule bit_word_eqI) (auto simp: bit_simps)
  show "v AND 0xFF0000 = push_bit 16 (take_bit 8 (drop_bit 16 v))"
    unfolding p by (rule bit_word_eqI) (auto simp: bit_simps)
  show "v AND 0xFF000000 = push_bit 24 (take_bit 8 (drop_bit 24 v))"
    unfolding p by (rule bit_word_eqI) (auto simp: bit_simps)
qed

lemma hton32_alt:
  "hton32 v = push_bit 24 (take_bit 8 v) OR push_bit 16 (take_bit 8 (drop_bit 8 v)) OR
              push_bit 8 (take_bit 8 (drop_bit 16 v)) OR take_bit 8 (drop_bit 24 v)"
  unfolding hton32_def be_and_masks32
  by (rule bit_word_eqI) (auto simp: bit_simps)

lemma le32_load_pieces:
  "take_bit 8 (le32_load a b c d) = ucast a"
  "take_bit 8 (drop_bit 8 (le32_load a b c d)) = ucast b"
  "take_bit 8 (drop_bit 16 (le32_load a b c d)) = ucast c"
  "take_bit 8 (drop_bit 24 (le32_load a b c d)) = ucast d"
     apply (rule bit_word_eqI; auto simp add: le32_load_def bit_simps)
    apply (rule bit_word_eqI; auto simp add: le32_load_def bit_simps)
   apply (rule bit_word_eqI; auto simp add: le32_load_def bit_simps)
  apply (rule bit_word_eqI, simp add: le32_load_def bit_simps)
  apply (metis bit_u8_ge not_le add.commute)
  done

lemma ntoh32_load: "ntoh32 (le32_load a b c d) = be32 a b c d"
  by (simp add: ntoh32_def hton32_alt le32_load_pieces be32_def)

lemma be32_of_bytes:
  "be32 (ucast (drop_bit 24 v)) (ucast (drop_bit 16 v)) (ucast (drop_bit 8 v)) (ucast v) = v"
proof (rule bit_word_eqI)
  fix n assume "n < LENGTH(32)"
  then have n: "n < 32" by simp
  consider "n < 8" | "8 \<le> n" "n < 16" | "16 \<le> n" "n < 24" | "24 \<le> n" by linarith
  then show "bit (be32 (ucast (drop_bit 24 v)) (ucast (drop_bit 16 v)) (ucast (drop_bit 8 v))
                       (ucast v)) n = bit v n"
    by cases (use n in \<open>auto simp: be32_def bit_simps nat_shift\<close>)
qed

lemma be16_of_bytes: "be16 (ucast (drop_bit 8 v)) (ucast v) = v"
proof (rule bit_word_eqI)
  fix n assume "n < LENGTH(16)"
  then have n: "n < 16" by simp
  consider "n < 8" | "8 \<le> n" by linarith
  then show "bit (be16 (ucast (drop_bit 8 v)) (ucast v)) n = bit v n"
    by cases (use n in \<open>auto simp: be16_def bit_simps nat_shift\<close>)
qed

lemma le16_bytes_hton: "le16_bytes (hton16 v) = be16_bytes v"
  by (auto simp: le16_bytes_def be16_bytes_def hton16_def bit_simps intro!: bit_word_eqI
           dest: bit_imp_le_length)

lemma le32_bytes_hton: "le32_bytes (hton32 v) = be32_bytes v"
  unfolding hton32_alt
  by (auto simp: le32_bytes_def be32_bytes_def bit_simps intro!: bit_word_eqI)

text \<open>Loads and stores, in the big-endian view.\<close>

lemma be16_bytes_length [simp]: "length (be16_bytes v) = 2"
  by (simp add: be16_bytes_def)

lemma be32_bytes_length [simp]: "length (be32_bytes v) = 4"
  by (simp add: be32_bytes_def)

lemma rd8_in [simp]: "off < length p \<Longrightarrow> rd8 p off = Some (p ! off)"
  by (simp add: rd8_def)

lemma rd16_in [simp]: "off + 1 < length p \<Longrightarrow> rd16 p off = Some (be16 (p ! off) (p ! (off + 1)))"
  by (simp add: rd16_def ntoh16_load)

lemma rd32_in [simp]:
  "off + 3 < length p \<Longrightarrow>
   rd32 p off = Some (be32 (p ! off) (p ! (off + 1)) (p ! (off + 2)) (p ! (off + 3)))"
  by (simp add: rd32_def ntoh32_load)

lemma wr16_eq: "wr16 p off v = memcpy p off (be16_bytes v)"
  by (simp add: wr16_def le16_bytes_hton)

lemma wr32_eq: "wr32 p off v = memcpy p off (be32_bytes v)"
  by (simp add: wr32_def le32_bytes_hton)

section \<open>The checksum\<close>

fun csum_words :: "u8 list \<Rightarrow> u32 \<Rightarrow> u32" where
  "csum_words (a # b # p) s = csum_words p (s + (push_bit 8 (ucast a) OR ucast b))"
| "csum_words [a] s = s + push_bit 8 (ucast a)"
| "csum_words [] s = s"

lemma drop_bit16_unat: "unat (drop_bit 16 (s :: u32)) = unat s div 65536"
  by (subst unat_drop_bit_eq) (simp add: drop_bit_eq_div)

lemma and_mask16_unat: "unat ((s :: u32) AND 0xFFFF) = unat s mod 65536"
proof -
  have "(0xFFFF :: u32) = mask 16" by (simp add: mask_eq_exp_minus_1)
  then have "s AND 0xFFFF = take_bit 16 s" by (simp only: take_bit_eq_mask)
  then have "unat (s AND 0xFFFF) = take_bit 16 (unat s)" by (simp only: unsigned_take_bit_eq)
  then show ?thesis by (simp add: take_bit_eq_mod)
qed

lemma csum_fold_step_unat:
  "unat ((s AND 0xFFFF) + drop_bit 16 (s :: u32)) = unat s mod 65536 + unat s div 65536"
proof -
  have "unat s div 65536 < 65536"
    by (rule less_mult_imp_div_less, rule order_less_le_trans [OF unat_u32_less]) simp
  moreover have "unat s mod 65536 < 65536" by simp
  ultimately have "unat s mod 65536 + unat s div 65536 < 4294967296" by linarith
  then show ?thesis by (simp add: unat_word_ariths and_mask16_unat drop_bit16_unat)
qed

function csum_fold :: "u32 \<Rightarrow> u32" where
  "csum_fold s =
     (if drop_bit 16 s \<noteq> 0 then csum_fold ((s AND 0xFFFF) + drop_bit 16 s) else s)"
  by pat_completeness auto
termination
proof (relation "measure unat")
  show "wf (measure (unat :: u32 \<Rightarrow> nat))" by simp
next
  fix s :: u32
  assume "drop_bit 16 s \<noteq> 0"
  then have "unat s div 65536 \<noteq> 0"
    by (metis drop_bit16_unat unsigned_eq_0_iff)
  then have "0 < unat s div 65536" by simp
  moreover have "unat s = 65536 * (unat s div 65536) + unat s mod 65536" by simp
  ultimately have "unat s mod 65536 + unat s div 65536 < unat s" by linarith
  then show "((s AND 0xFFFF) + drop_bit 16 s, s) \<in> measure unat"
    by (simp only: in_measure csum_fold_step_unat)
qed

declare csum_fold.simps [simp del]

definition checksum16 :: "u8 list \<Rightarrow> u32 \<Rightarrow> u16" where
  "checksum16 p initial = ucast (NOT (csum_fold (csum_words p initial)) AND 0xFFFF)"

text \<open>
  The reference: the sum of RFC 1071 with the carry brought round after every addition, over the
  big-endian 16-bit words of the data, an odd last byte padded with zero on the right.
\<close>

fun be_words :: "u8 list \<Rightarrow> nat list" where
  "be_words (a # b # p) = (256 * unat a + unat b) # be_words p"
| "be_words [a] = [256 * unat a]"
| "be_words [] = []"

definition oc_add :: "nat \<Rightarrow> nat \<Rightarrow> nat" where
  "oc_add a b = (if a + b < 65536 then a + b else a + b - 65535)"

definition oc_sum :: "nat list \<Rightarrow> nat" where
  "oc_sum ws = foldl oc_add 0 ws"

text \<open>Its closed form: one representative of the residue class modulo 65535, zero only for zero.\<close>

definition oc_norm :: "nat \<Rightarrow> nat" where
  "oc_norm n = (if n = 0 then 0 else (n - 1) mod 65535 + 1)"

lemma oc_norm_less: "oc_norm n < 65536"
  by (simp add: oc_norm_def less_Suc_eq_le)

lemma oc_norm_id: "n < 65536 \<Longrightarrow> oc_norm n = n"
  by (auto simp: oc_norm_def)

lemma oc_norm_sub: "65536 \<le> n \<Longrightarrow> oc_norm (n - 65535) = oc_norm n"
proof -
  assume n: "65536 \<le> n"
  then have "(n - 1) mod 65535 = (n - 1 - 65535) mod 65535"
    by (simp add: le_mod_geq)
  moreover have "n - 1 - 65535 = n - 65535 - 1" by simp
  ultimately show ?thesis using n by (simp add: oc_norm_def)
qed

lemma oc_norm_eq_0_iff [simp]: "oc_norm n = 0 \<longleftrightarrow> n = 0"
  by (simp add: oc_norm_def)

lemma oc_norm_mod: "oc_norm n mod 65535 = n mod 65535"
proof (cases "n = 0")
  case False
  then have "((n - 1) mod 65535 + 1) mod 65535 = (n - 1 + 1) mod 65535"
    by (rule_tac mod_add_left_eq)
  with False show ?thesis by (simp add: oc_norm_def)
qed (simp add: oc_norm_def)

lemma oc_norm_cong:
  assumes "m mod 65535 = n mod 65535" and "m = 0 \<longleftrightarrow> n = 0"
  shows "oc_norm m = oc_norm n"
proof (cases "m = 0")
  case False
  let ?x = "oc_norm m" and ?y = "oc_norm n"
  have eq: "?x mod 65535 = ?y mod 65535" using assms(1) by (simp only: oc_norm_mod)
  have pos: "?x \<noteq> 0" "?y \<noteq> 0" using False assms(2) by simp_all
  have "?x \<le> 65535" "?y \<le> 65535" using oc_norm_less [of m] oc_norm_less [of n] by linarith+
  then consider "?x < 65535" "?y < 65535" | "?x = 65535" | "?y = 65535" by linarith
  then show ?thesis
  proof cases
    case 1
    with eq show ?thesis by simp
  next
    case 2
    with eq have "?y mod 65535 = 0" by simp
    with pos(2) \<open>?y \<le> 65535\<close> have "?y = 65535"
      by (cases "?y < 65535") auto
    with 2 show ?thesis by simp
  next
    case 3
    with eq have "?x mod 65535 = 0" by simp
    with pos(1) \<open>?x \<le> 65535\<close> have "?x = 65535"
      by (cases "?x < 65535") auto
    with 3 show ?thesis by simp
  qed
qed (use assms in simp)

lemma oc_norm_add: "oc_norm (oc_norm m + k) = oc_norm (m + k)"
  by (rule oc_norm_cong) (auto simp: oc_norm_mod intro: mod_add_cong)

lemma oc_add_norm:
  assumes "a < 65536" "b < 65536" shows "oc_add a b = oc_norm (a + b)"
proof (cases "a + b < 65536")
  case True
  then show ?thesis by (simp add: oc_add_def oc_norm_id)
next
  case False
  then have "oc_norm (a + b) = oc_norm (a + b - 65535)" by (simp add: oc_norm_sub)
  also have "\<dots> = a + b - 65535" using assms by (intro oc_norm_id) linarith
  finally show ?thesis using False by (simp add: oc_add_def)
qed

lemma be_words_less: "w \<in> set (be_words p) \<Longrightarrow> w < 65536"
proof (induction p rule: be_words.induct)
  case (1 a b p)
  have "256 * unat a + unat b < 65536"
    using unat_u8_less [of a] unat_u8_less [of b] by linarith
  with 1 show ?case by auto
next
  case (2 a)
  then show ?case using unat_u8_less [of a] by (simp del: unat_u8_less)
qed simp

lemma foldl_oc_add:
  "\<forall>w \<in> set ws. w < 65536 \<Longrightarrow> foldl oc_add (oc_norm a) ws = oc_norm (a + sum_list ws)"
proof (induction ws arbitrary: a)
  case Nil
  then show ?case by simp
next
  case (Cons w ws)
  have "oc_add (oc_norm a) w = oc_norm (a + w)"
    using Cons.prems by (simp add: oc_add_norm oc_norm_less oc_norm_add)
  with Cons.IH [of "a + w"] Cons.prems show ?case by (simp add: add.assoc)
qed

lemma oc_sum_closed: "oc_sum (be_words p) = oc_norm (sum_list (be_words p))"
  using foldl_oc_add [of "be_words p" 0] be_words_less
  by (simp add: oc_sum_def oc_norm_id)

lemma csum_fold_norm: "unat (csum_fold s) = oc_norm (unat s)"
proof (induction s rule: csum_fold.induct)
  case (1 s)
  show ?case
  proof (cases "drop_bit 16 s = 0")
    case True
    then have "unat s div 65536 = 0" by (metis drop_bit16_unat unsigned_0)
    then have "unat s < 65536" by simp
    with True show ?thesis by (simp add: csum_fold.simps [of s] oc_norm_id)
  next
    case False
    have "unat s = 65535 * (unat s div 65536) + (unat s mod 65536 + unat s div 65536)" by simp
    then have m: "(unat s mod 65536 + unat s div 65536) mod 65535 = unat s mod 65535"
      by (metis mod_mult_self4)
    have z: "unat s mod 65536 + unat s div 65536 = 0 \<longleftrightarrow> unat s = 0" by auto
    from False have "unat (csum_fold s) = unat (csum_fold ((s AND 0xFFFF) + drop_bit 16 s))"
      by (simp add: csum_fold.simps [of s])
    also have "\<dots> = oc_norm (unat ((s AND 0xFFFF) + drop_bit 16 s))"
      using 1 [OF False] .
    also have "\<dots> = oc_norm (unat s)"
      unfolding csum_fold_step_unat using m z by (rule oc_norm_cong)
    finally show ?thesis .
  qed
qed

lemma be16_unat: "unat (be16 a b) = 256 * unat a + unat b"
proof -
  have "be16 a b = push_bit 8 (ucast a) + ucast b"
    unfolding be16_def by (subst disjunctive_add) (auto simp: bit_simps)
  moreover have "unat (push_bit 8 (ucast a) :: u16) = 256 * unat a"
    using unat_u8_less [of a]
    by (simp add: push_bit_eq_mult unat_word_ariths del: unat_u8_less)
  moreover have "256 * unat a + unat b < 65536"
    using unat_u8_less [of a] unat_u8_less [of b] by linarith
  ultimately show ?thesis by (simp add: unat_word_ariths)
qed

lemma csum_word_unat:
  "unat (push_bit 8 (ucast a) OR ucast b :: u32) = 256 * unat (a :: u8) + unat (b :: u8)"
proof -
  have "push_bit 8 (ucast a) OR ucast b = (push_bit 8 (ucast a) + ucast b :: u32)"
    by (subst disjunctive_add) (auto simp: bit_simps)
  moreover have "unat (push_bit 8 (ucast a) :: u32) = 256 * unat a"
    using unat_u8_less [of a]
    by (simp add: push_bit_eq_mult unat_word_ariths del: unat_u8_less)
  moreover have "256 * unat a + unat b < 4294967296"
    using unat_u8_less [of a] unat_u8_less [of b] by linarith
  ultimately show ?thesis by (simp add: unat_word_ariths)
qed

lemma csum_words_unat:
  "unat s + sum_list (be_words p) < 4294967296 \<Longrightarrow>
   unat (csum_words p s) = unat s + sum_list (be_words p)"
proof (induction p s rule: csum_words.induct)
  case (1 a b p s)
  let ?w = "push_bit 8 (ucast a) OR ucast b :: u32"
  have "unat (s + ?w) = unat s + (256 * unat a + unat b)"
    using 1(2) by (simp add: unat_word_ariths csum_word_unat)
  with 1 show ?case by simp
next
  case (2 a s)
  then show ?case using csum_word_unat [of a 0] by (simp add: unat_word_ariths)
qed simp

lemma not_low16_unat: "unat (ucast (NOT s AND 0xFFFF) :: u16) = 65535 - unat s"
  if "unat (s :: u32) < 65536"
proof -
  have m: "(0xFFFF :: u32) = mask 16" by (simp add: mask_eq_exp_minus_1)
  have "ucast (NOT s AND 0xFFFF) = (NOT (ucast s) :: u16)"
    unfolding m by (rule bit_word_eqI) (auto simp: bit_simps)
  moreover have "unat (ucast s :: u16) = unat s"
    using that by (simp add: unsigned_ucast_eq take_bit_nat_eq_self)
  moreover have "unat (NOT w) = 65535 - unat w" for w :: u16
  proof -
    have "NOT w = - 1 - w" by (simp add: not_eq_complement)
    moreover have "unat (- 1 - w) = unat (- 1 :: u16) - unat w"
      by (rule unat_sub) (rule word_order.extremum)
    ultimately show ?thesis by (simp add: unsigned_minus_1_eq_mask mask_eq_exp_minus_1)
  qed
  ultimately show ?thesis by simp
qed

theorem checksum16_norm:
  assumes "unat initial + sum_list (be_words p) < 4294967296"
  shows "unat (checksum16 p initial) = 65535 - oc_norm (unat initial + sum_list (be_words p))"
proof -
  have "unat (csum_fold (csum_words p initial)) = oc_norm (unat initial + sum_list (be_words p))"
    by (simp only: csum_fold_norm csum_words_unat [OF assms])
  moreover have "unat (csum_fold (csum_words p initial)) < 65536"
    by (simp only: csum_fold_norm oc_norm_less)
  ultimately show ?thesis by (simp add: checksum16_def not_low16_unat)
qed

lemma sum_be_words_le: "sum_list (be_words p) \<le> 65535 * ((length p + 1) div 2)"
proof (induction p rule: be_words.induct)
  case (1 a b p)
  have "256 * unat a + unat b \<le> 65535"
    using unat_u8_less [of a] unat_u8_less [of b] by linarith
  with 1 show ?case by simp
next
  case (2 a)
  then show ?case using unat_u8_less [of a] by (simp del: unat_u8_less)
qed simp

text \<open>
  C30. The deferred-carry checksum of \<^verbatim>\<open>checksum16\<close> is the RFC 1071 checksum: for any buffer
  shorter than 128 KB the value returned is the 16-bit complement of the sum with end-around carry
  after every addition.
\<close>

theorem checksum16_rfc1071:
  assumes "length p \<le> 131000"
  shows "unat (checksum16 p 0) = 65535 - oc_sum (be_words p)"
proof -
  have "65535 * ((length p + 1) div 2) \<le> 65535 * 65536" using assms by (intro mult_le_mono2) simp
  then have "65535 * ((length p + 1) div 2) < 4294967296" by linarith
  with sum_be_words_le [of p] have "sum_list (be_words p) < 4294967296" by linarith
  then show ?thesis by (simp add: checksum16_norm oc_sum_closed)
qed

theorem checksum16_rfc1071_witness:
  "unat (checksum16 [0x45, 0x00, 0xFF, 0xFF, 0x80] 0) = 65535 - oc_sum (be_words [0x45, 0x00, 0xFF, 0xFF, 0x80])"
  by (rule checksum16_rfc1071) simp

text \<open>
  Verifying what was sealed: the words of the data with the checksum added sum to a value whose
  checksum is zero.
\<close>

lemma checksum16_zero:
  assumes "unat initial + sum_list (be_words p) < 4294967296"
    and "(unat initial + sum_list (be_words p)) mod 65535 = 0"
    and "unat initial + sum_list (be_words p) \<noteq> 0"
  shows "checksum16 p initial = 0"
proof -
  have "oc_norm (unat initial + sum_list (be_words p)) = oc_norm 65535"
    using assms(2,3) by (intro oc_norm_cong) simp_all
  then have "unat (checksum16 p initial) = 0"
    by (simp add: checksum16_norm [OF assms(1)] oc_norm_id)
  then show ?thesis by (simp add: unsigned_eq_0_iff)
qed

lemma oc_complement_mod: "(n + (65535 - oc_norm n)) mod 65535 = 0"
proof -
  have "oc_norm n \<le> 65535" using oc_norm_less [of n] by linarith
  then have "oc_norm n + (65535 - oc_norm n) = 65535" by simp
  then have "(oc_norm n + (65535 - oc_norm n)) mod 65535 = 0" by simp
  then show ?thesis by (metis mod_add_left_eq oc_norm_mod)
qed

lemma be_words_append: "even (length p) \<Longrightarrow> be_words (p @ q) = be_words p @ be_words q"
  by (induction p rule: be_words.induct) auto

lemma be_words_be16 [simp]: "be_words (be16_bytes v @ q) = unat v # be_words q"
  using be16_unat [of "ucast (drop_bit 8 v)" "ucast v"]
  by (simp add: be16_bytes_def be16_of_bytes)

text \<open>
  Sealing: with a value \<open>c\<close> in the checksum field that brings the sum to a multiple of 65535 the
  data verifies.
\<close>

lemma checksum_seal:
  fixes p q :: "u8 list" and c initial
  defines "n \<equiv> unat initial + sum_list (be_words (p @ be16_bytes 0 @ q))"
  assumes even: "even (length p)" and small: "n + 65536 \<le> 4294967296"
    and c: "c = checksum16 (p @ be16_bytes 0 @ q) initial \<or>
            c = 0xFFFF \<and> checksum16 (p @ be16_bytes 0 @ q) initial = 0"
  shows "checksum16 (p @ be16_bytes c @ q) initial = 0"
proof -
  have cs: "unat (checksum16 (p @ be16_bytes 0 @ q) initial) = 65535 - oc_norm n"
    using small unfolding n_def by (intro checksum16_norm) linarith
  have sum: "unat initial + sum_list (be_words (p @ be16_bytes c @ q)) = n + unat c"
    using even by (simp add: n_def be_words_append)
  have nc: "(n + unat c) mod 65535 = 0 \<and> n + unat c \<noteq> 0"
    using c
  proof
    assume "c = checksum16 (p @ be16_bytes 0 @ q) initial"
    then have "unat c = 65535 - oc_norm n" using cs by simp
    moreover from this have "n + unat c \<noteq> 0" by (cases "n = 0") (auto simp: oc_norm_def)
    ultimately show ?thesis using oc_complement_mod [of n] by simp
  next
    assume a: "c = 0xFFFF \<and> checksum16 (p @ be16_bytes 0 @ q) initial = 0"
    then have "65535 - oc_norm n = 0" using cs by simp
    with a show ?thesis using oc_complement_mod [of n] by simp
  qed
  have "n + unat c < 4294967296" using small unat_u16_less [of c] by linarith
  then show ?thesis using nc sum by (intro checksum16_zero) simp_all
qed

section \<open>MAC addresses\<close>

definition MacBroadcast :: u64 where "MacBroadcast = 0xFFFFFFFFFFFF"

definition macToBytes :: "u64 \<Rightarrow> u8 list" where
  "macToBytes mac =
     [ucast (drop_bit 40 mac), ucast (drop_bit 32 mac), ucast (drop_bit 24 mac),
      ucast (drop_bit 16 mac), ucast (drop_bit 8 mac), ucast mac]"

definition macFromBytes :: "u8 list \<Rightarrow> nat \<Rightarrow> u64 option" where
  "macFromBytes p off = do {
     b0 \<leftarrow> rd8 p off; b1 \<leftarrow> rd8 p (off + 1); b2 \<leftarrow> rd8 p (off + 2);
     b3 \<leftarrow> rd8 p (off + 3); b4 \<leftarrow> rd8 p (off + 4); b5 \<leftarrow> rd8 p (off + 5);
     Some (push_bit 40 (ucast b0) OR push_bit 32 (ucast b1) OR push_bit 24 (ucast b2) OR
           push_bit 16 (ucast b3) OR push_bit 8 (ucast b4) OR ucast b5) }"

lemma macToBytes_length [simp]: "length (macToBytes mac) = 6"
  by (simp add: macToBytes_def)

lemma macFromBytes_Some: "off + 5 < length p \<Longrightarrow> \<exists>m. macFromBytes p off = Some m"
  by (simp add: macFromBytes_def)

lemma mac_roundtrip: "macFromBytes (macToBytes mac) 0 = Some (take_bit 48 mac)"
proof -
  let ?r = "push_bit 40 (ucast (ucast (drop_bit 40 mac) :: u8)) OR
      push_bit 32 (ucast (ucast (drop_bit 32 mac) :: u8)) OR
      push_bit 24 (ucast (ucast (drop_bit 24 mac) :: u8)) OR
      push_bit 16 (ucast (ucast (drop_bit 16 mac) :: u8)) OR
      push_bit 8 (ucast (ucast (drop_bit 8 mac) :: u8)) OR ucast (ucast mac :: u8) :: u64"
  have "?r = take_bit 48 mac"
  proof (rule bit_word_eqI)
    fix n assume "n < LENGTH(64)"
    have s: "32 \<le> n \<Longrightarrow> 32 + (n - 32) = n" "40 \<le> n \<Longrightarrow> 40 + (n - 40) = n" by arith+
    consider "n < 8" | "8 \<le> n" "n < 16" | "16 \<le> n" "n < 24" | "24 \<le> n" "n < 32" |
      "32 \<le> n" "n < 40" | "40 \<le> n" "n < 48" | "48 \<le> n" by linarith
    then show "bit ?r n = bit (take_bit 48 mac) n"
      by cases (use \<open>n < LENGTH(64)\<close> in \<open>auto simp: bit_simps nat_shift s\<close>)
  qed
  then show ?thesis by (simp add: macFromBytes_def macToBytes_def)
qed

section \<open>Constants\<close>

definition EtherType_IPv4 :: u16 where "EtherType_IPv4 = 0x0800"
definition EtherType_ARP :: u16 where "EtherType_ARP = 0x0806"
definition IpProto_ICMP :: u8 where "IpProto_ICMP = 1"
definition IpProto_UDP :: u8 where "IpProto_UDP = 17"
definition IpBroadcast :: u32 where "IpBroadcast = 0xFFFFFFFF"

text \<open>Header offsets and flags, with the prefix of their namespace.\<close>

abbreviation (input) "ip4_VerIhl \<equiv> 0 :: nat"
abbreviation (input) "ip4_Tos \<equiv> 1 :: nat"
abbreviation (input) "ip4_TotalLen \<equiv> 2 :: nat"
abbreviation (input) "ip4_Id \<equiv> 4 :: nat"
abbreviation (input) "ip4_FlagsFrag \<equiv> 6 :: nat"
abbreviation (input) "ip4_Ttl \<equiv> 8 :: nat"
abbreviation (input) "ip4_Proto \<equiv> 9 :: nat"
abbreviation (input) "ip4_Csum \<equiv> 10 :: nat"
abbreviation (input) "ip4_Src \<equiv> 12 :: nat"
abbreviation (input) "ip4_Dst \<equiv> 16 :: nat"
abbreviation (input) "ip4_MinHeader \<equiv> 20 :: nat"
abbreviation (input) "ip4_FlagMoreFragments \<equiv> 0x2000 :: u16"
abbreviation (input) "ip4_FragOffsetMask \<equiv> 0x1FFF :: u16"
abbreviation (input) "udp4_SrcPort \<equiv> 0 :: nat"
abbreviation (input) "udp4_DstPort \<equiv> 2 :: nat"
abbreviation (input) "udp4_Length \<equiv> 4 :: nat"
abbreviation (input) "udp4_Csum \<equiv> 6 :: nat"
abbreviation (input) "udp4_Header \<equiv> 8 :: nat"
abbreviation (input) "icmp4_Type \<equiv> 0 :: nat"
abbreviation (input) "icmp4_Code \<equiv> 1 :: nat"
abbreviation (input) "icmp4_Csum \<equiv> 2 :: nat"
abbreviation (input) "icmp4_EchoRequest \<equiv> 8 :: u8"
abbreviation (input) "icmp4_EchoReply \<equiv> 0 :: u8"
abbreviation (input) "arp4_HwType \<equiv> 0 :: nat"
abbreviation (input) "arp4_ProtoType \<equiv> 2 :: nat"
abbreviation (input) "arp4_HwLen \<equiv> 4 :: nat"
abbreviation (input) "arp4_ProtoLen \<equiv> 5 :: nat"
abbreviation (input) "arp4_Op \<equiv> 6 :: nat"
abbreviation (input) "arp4_SenderMac \<equiv> 8 :: nat"
abbreviation (input) "arp4_SenderIp \<equiv> 14 :: nat"
abbreviation (input) "arp4_TargetMac \<equiv> 18 :: nat"
abbreviation (input) "arp4_TargetIp \<equiv> 24 :: nat"
abbreviation (input) "arp4_Size \<equiv> 28 :: nat"
abbreviation (input) "arp4_OpRequest \<equiv> 1 :: u16"
abbreviation (input) "arp4_OpReply \<equiv> 2 :: u16"

end
