(* ===== verification/VNetState.thy ===== *)
theory VNetState
  imports Bytes "HOL-Library.Multiset"
begin

text \<open>
  \<^verbatim>\<open>source/net/vnet.hpp\<close> and the lifecycle and packet-pool parts of \<^verbatim>\<open>source/net/vnet.cpp\<close>: the
  state of the virtual interface, \<^verbatim>\<open>reset\<close>, \<^verbatim>\<open>configure\<close>, the address predicates, and the pool of 32
  packets.  A packet is in the free list or in the queue of one socket, both chains through the
  \<^verbatim>\<open>next\<close> fields ended by -1.  The ghost predicate \<open>layout v fl qs\<close> says which packets are where; the
  components above update it instead of reasoning about \<^verbatim>\<open>next\<close> links.
\<close>

section \<open>Sizes and state\<close>

definition MaxSockets :: nat where "MaxSockets = 8"
definition PoolPackets :: nat where "PoolPackets = 32"
definition MaxDatagram :: nat where "MaxDatagram = 2048"
definition ArpEntries :: nat where "ArpEntries = 16"
definition ReasmSlots :: nat where "ReasmSlots = 4"
definition ReasmMax :: nat where "ReasmMax = 2176"
definition MaxFrame :: nat where "MaxFrame = 1520"
definition InvalidSocket :: int where "InvalidSocket = -1"

lemmas vnet_sizes = MaxSockets_def PoolPackets_def MaxDatagram_def ArpEntries_def ReasmSlots_def
  ReasmMax_def MaxFrame_def

record Pkt =
  pk_len :: u16
  pk_srcIp :: u32
  pk_srcPort :: u16
  pk_next :: int
  pk_data :: "u8 list"

record Socket =
  s_used :: bool
  s_broadcast :: bool
  s_localIp :: u32
  s_localPort :: u16
  s_qHead :: int
  s_qTail :: int
  s_qCount :: int

record ArpEntry =
  a_ip :: u32
  a_mac :: u64
  a_lastUsed :: u32

record Reasm =
  r_used :: bool
  r_srcIp :: u32
  r_dstIp :: u32
  r_id :: u16
  r_proto :: u8
  r_received :: u16
  r_total :: u16
  r_age :: u32
  r_data :: "u8 list"

record Stats =
  rxFrames :: u32
  rxIp :: u32
  rxUdp :: u32
  rxArp :: u32
  rxIcmp :: u32
  txFrames :: u32
  txUdp :: u32
  txArp :: u32
  txIcmp :: u32
  dropNotForUs :: u32
  dropBadChecksum :: u32
  dropNoSocket :: u32
  dropNoBuffer :: u32
  dropTooBig :: u32
  dropMalformed :: u32
  dropReasm :: u32
  lastNoSocketSrcIp :: u32
  lastNoSocketSrcPort :: u16
  lastNoSocketDstPort :: u16
  lastNoSocketLen :: u16

text \<open>
  A frame handed to the emit callback: destination MAC, ethertype, payload.  The callback is the
  port's \<^verbatim>\<open>cbEmit\<close>, which only queues (theory FrameQueue); here the calls are a log.
\<close>

type_synonym frame = "u64 \<times> u16 \<times> u8 list"

record VNet =
  m_emit :: bool
  m_emitted :: "frame list"
  m_configured :: bool
  m_mac :: u64
  m_ip :: u32
  m_netmask :: u32
  m_mtu :: u16
  m_echoSeq :: u16
  m_ipId :: u16
  m_nextEphemeral :: u16
  m_tick :: u32
  m_socks :: "Socket list"
  m_pool :: "Pkt list"
  m_freeList :: int
  m_arp :: "ArpEntry list"
  m_reasm :: "Reasm list"
  m_stats :: Stats

definition zero_sock :: Socket where
  "zero_sock = \<lparr>s_used = False, s_broadcast = False, s_localIp = 0, s_localPort = 0,
     s_qHead = 0, s_qTail = 0, s_qCount = 0\<rparr>"

definition empty_sock :: Socket where
  "empty_sock = zero_sock\<lparr>s_qHead := -1, s_qTail := -1\<rparr>"

definition zero_pkt :: Pkt where
  "zero_pkt = \<lparr>pk_len = 0, pk_srcIp = 0, pk_srcPort = 0, pk_next = 0,
     pk_data = replicate MaxDatagram 0\<rparr>"

definition zero_arp :: ArpEntry where
  "zero_arp = \<lparr>a_ip = 0, a_mac = 0, a_lastUsed = 0\<rparr>"

definition zero_reasm :: Reasm where
  "zero_reasm = \<lparr>r_used = False, r_srcIp = 0, r_dstIp = 0, r_id = 0, r_proto = 0, r_received = 0,
     r_total = 0, r_age = 0, r_data = replicate ReasmMax 0\<rparr>"

definition zero_stats :: Stats where
  "zero_stats = \<lparr>rxFrames = 0, rxIp = 0, rxUdp = 0, rxArp = 0, rxIcmp = 0, txFrames = 0, txUdp = 0,
     txArp = 0, txIcmp = 0, dropNotForUs = 0, dropBadChecksum = 0, dropNoSocket = 0,
     dropNoBuffer = 0, dropTooBig = 0, dropMalformed = 0, dropReasm = 0, lastNoSocketSrcIp = 0,
     lastNoSocketSrcPort = 0, lastNoSocketDstPort = 0, lastNoSocketLen = 0\<rparr>"

text \<open>The object as its member initialisers leave it, before any call.\<close>

definition vnet_fresh :: VNet where
  "vnet_fresh = \<lparr>m_emit = False, m_emitted = [], m_configured = False, m_mac = 0, m_ip = 0,
     m_netmask = 0, m_mtu = 1500, m_echoSeq = 0, m_ipId = 1, m_nextEphemeral = 49152, m_tick = 0,
     m_socks = replicate MaxSockets zero_sock, m_pool = replicate PoolPackets zero_pkt,
     m_freeList = 0, m_arp = replicate ArpEntries zero_arp,
     m_reasm = replicate ReasmSlots zero_reasm, m_stats = zero_stats\<rparr>"

definition bump :: "(Stats \<Rightarrow> Stats) \<Rightarrow> VNet \<Rightarrow> VNet" where
  "bump f v = v\<lparr>m_stats := f (m_stats v)\<rparr>"

section \<open>Lifecycle and addresses\<close>

definition reset :: "VNet \<Rightarrow> VNet" where
  "reset v = v\<lparr>
     m_configured := False,
     m_mac := 0, m_ip := 0, m_netmask := 0, m_mtu := 1500,
     m_ipId := 1, m_nextEphemeral := 49152, m_tick := 0,
     m_socks := map (\<lambda>s. zero_sock\<lparr>s_qHead := -1, s_qTail := -1\<rparr>) (m_socks v),
     m_pool := map (\<lambda>i. (m_pool v ! i)
                      \<lparr>pk_next := if i + 1 < PoolPackets then int (i + 1) else -1\<rparr>)
                  [0..<PoolPackets],
     m_freeList := 0,
     m_arp := map (\<lambda>a. zero_arp) (m_arp v),
     m_reasm := map (\<lambda>r. r\<lparr>r_used := False\<rparr>) (m_reasm v),
     m_stats := zero_stats\<rparr>"

definition configure :: "u64 \<Rightarrow> u32 \<Rightarrow> u32 \<Rightarrow> u16 \<Rightarrow> VNet \<Rightarrow> VNet" where
  "configure mac ip netmask mtu v = v\<lparr>
     m_mac := mac, m_ip := ip, m_netmask := netmask,
     m_mtu := (if 576 \<le> mtu \<and> unat mtu \<le> MaxFrame - 14 then mtu else 1500),
     m_configured := True\<rparr>"

definition setEmit :: "bool \<Rightarrow> VNet \<Rightarrow> VNet" where
  "setEmit fn v = v\<lparr>m_emit := fn\<rparr>"

definition broadcastIp :: "VNet \<Rightarrow> u32" where
  "broadcastIp v = m_ip v OR NOT (m_netmask v)"

definition isBroadcast :: "VNet \<Rightarrow> u32 \<Rightarrow> bool" where
  "isBroadcast v dstIp \<longleftrightarrow>
     dstIp = IpBroadcast \<or> (m_netmask v \<noteq> 0 \<and> dstIp = (m_ip v OR NOT (m_netmask v)))"

definition isForUs :: "VNet \<Rightarrow> u32 \<Rightarrow> bool" where
  "isForUs v dstIp \<longleftrightarrow> dstIp = m_ip v \<or> isBroadcast v dstIp"

section \<open>Packet pool\<close>

definition allocPkt :: "VNet \<Rightarrow> (VNet \<times> int) option" where
  "allocPkt v =
     (if m_freeList v < 0 then Some (v, -1)
      else do {
        let idx = m_freeList v;
        pk \<leftarrow> aget (m_pool v) idx;
        pool \<leftarrow> aset (m_pool v) idx (pk\<lparr>pk_next := -1\<rparr>);
        Some (v\<lparr>m_freeList := pk_next pk, m_pool := pool\<rparr>, idx) })"

definition freePkt :: "int \<Rightarrow> VNet \<Rightarrow> VNet option" where
  "freePkt idx v =
     (if idx < 0 \<or> int PoolPackets \<le> idx then Some v
      else do {
        pk \<leftarrow> aget (m_pool v) idx;
        pool \<leftarrow> aset (m_pool v) idx (pk\<lparr>pk_next := m_freeList v\<rparr>);
        Some (v\<lparr>m_pool := pool, m_freeList := idx\<rparr>) })"

section \<open>Where the packets are\<close>

primrec chain :: "Pkt list \<Rightarrow> int \<Rightarrow> nat list \<Rightarrow> bool" where
  "chain p h [] \<longleftrightarrow> h = -1"
| "chain p h (x # xs) \<longleftrightarrow> h = int x \<and> x < length p \<and> chain p (pk_next (p ! x)) xs"

text \<open>The chain from an index, computed; 32 links are all there can be.\<close>

primrec walk :: "nat \<Rightarrow> Pkt list \<Rightarrow> int \<Rightarrow> nat list" where
  "walk 0 p h = []"
| "walk (Suc n) p h = (if h < 0 then [] else nat h # walk n p (pk_next (p ! nat h)))"

lemma chain_walk: "chain p h xs \<Longrightarrow> length xs \<le> n \<Longrightarrow> walk n p h = xs"
proof (induction xs arbitrary: h n)
  case Nil
  then show ?case by (cases n) simp_all
next
  case (Cons x xs)
  then show ?case by (cases n) auto
qed

lemma chain_update: "x \<notin> set xs \<Longrightarrow> chain (p[x := y]) h xs = chain p h xs"
  by (induction xs arbitrary: h) auto

lemma chain_in_range: "chain p h xs \<Longrightarrow> x \<in> set xs \<Longrightarrow> x < length p"
  by (induction xs arbitrary: h) auto

lemma chain_neg: "chain p h xs \<Longrightarrow> (h < 0 \<longleftrightarrow> xs = [])"
  by (cases xs) auto

lemma chain_snoc:
  "chain p h xs \<Longrightarrow> xs \<noteq> [] \<Longrightarrow> distinct xs \<Longrightarrow> x \<notin> set xs \<Longrightarrow> x < length p \<Longrightarrow> pk_next (p ! x) = -1 \<Longrightarrow>
   chain (p[last xs := (p ! last xs)\<lparr>pk_next := int x\<rparr>]) h (xs @ [x])"
proof (induction xs arbitrary: h)
  case (Cons y ys)
  then show ?case
  proof (cases "ys = []")
    case True
    with Cons.prems show ?thesis by auto
  next
    case False
    with Cons have "chain (p[last ys := (p ! last ys)\<lparr>pk_next := int x\<rparr>]) (pk_next (p ! y)) (ys @ [x])"
      by simp
    moreover from False Cons.prems have "last ys \<noteq> y" by (metis distinct.simps(2) last_in_set)
    ultimately show ?thesis using False Cons.prems by simp
  qed
qed simp

definition sizes_ok :: "VNet \<Rightarrow> bool" where
  "sizes_ok v \<longleftrightarrow> length (m_socks v) = MaxSockets \<and> length (m_pool v) = PoolPackets \<and>
     length (m_arp v) = ArpEntries \<and> length (m_reasm v) = ReasmSlots \<and>
     (\<forall>pk \<in> set (m_pool v). length (pk_data pk) = MaxDatagram \<and> unat (pk_len pk) \<le> MaxDatagram) \<and>
     (\<forall>r \<in> set (m_reasm v). length (r_data r) = ReasmMax \<and> unat (r_total r) \<le> ReasmMax)"

definition sock_ok :: "Pkt list \<Rightarrow> Socket \<Rightarrow> nat list \<Rightarrow> bool" where
  "sock_ok p s q \<longleftrightarrow> chain p (s_qHead s) q \<and>
     s_qTail s = (if q = [] then -1 else int (last q)) \<and> s_qCount s = int (length q) \<and>
     (\<not> s_used s \<longrightarrow> q = [])"

text \<open>
  \<open>lay p h ss lost fl qs\<close>: in the pool \<open>p\<close> with free-list head \<open>h\<close> and sockets \<open>ss\<close>, the free list
  runs through \<open>fl\<close>, the queue of socket \<open>i\<close> through \<open>qs ! i\<close>, and the packets of \<open>lost\<close> are the
  ones an operation has taken out and not yet put back.  Together they are all the packets, each
  once.
\<close>

definition lay ::
  "Pkt list \<Rightarrow> int \<Rightarrow> Socket list \<Rightarrow> nat list \<Rightarrow> nat list \<Rightarrow> nat list list \<Rightarrow> bool" where
  "lay p h ss lost fl qs \<longleftrightarrow> chain p h fl \<and> list_all2 (sock_ok p) ss qs \<and>
     mset (lost @ fl @ concat qs) = mset [0..<length p]"

definition layout :: "VNet \<Rightarrow> nat list \<Rightarrow> nat list list \<Rightarrow> bool" where
  "layout v fl qs \<longleftrightarrow> sizes_ok v \<and> lay (m_pool v) (m_freeList v) (m_socks v) [] fl qs"

text \<open>The layout read off the state, and the queues as the client sees them.\<close>

definition free_idx :: "VNet \<Rightarrow> nat list" where
  "free_idx v = walk PoolPackets (m_pool v) (m_freeList v)"

definition queue_idx :: "VNet \<Rightarrow> nat \<Rightarrow> nat list" where
  "queue_idx v i = walk PoolPackets (m_pool v) (s_qHead (m_socks v ! i))"

type_synonym datagram = "u32 \<times> u16 \<times> u8 list"

definition pkt_datagram :: "Pkt \<Rightarrow> datagram" where
  "pkt_datagram pk = (pk_srcIp pk, pk_srcPort pk, take (unat (pk_len pk)) (pk_data pk))"

definition sock_queue :: "VNet \<Rightarrow> nat \<Rightarrow> datagram list" where
  "sock_queue v i = map (\<lambda>k. pkt_datagram (m_pool v ! k)) (queue_idx v i)"

definition pool_inv :: "VNet \<Rightarrow> bool" where
  "pool_inv v \<longleftrightarrow> (\<exists>fl qs. layout v fl qs)"

section \<open>Moving packets\<close>

lemma lay_distinct: "lay p h ss lost fl qs \<Longrightarrow> distinct (lost @ fl @ concat qs)"
  unfolding lay_def by (metis distinct_upt mset_eq_imp_distinct_iff)

lemma lay_set: "lay p h ss lost fl qs \<Longrightarrow> set (lost @ fl @ concat qs) = {0..<length p}"
  unfolding lay_def by (metis mset_eq_setD set_upt)

lemma lay_length: "lay p h ss lost fl qs \<Longrightarrow> length ss = length qs"
  by (auto simp: lay_def dest: list_all2_lengthD)

lemma lay_sock: "lay p h ss lost fl qs \<Longrightarrow> i < length ss \<Longrightarrow> sock_ok p (ss ! i) (qs ! i)"
  by (auto simp: lay_def list_all2_conv_all_nth)

lemma concat_update_mset:
  "i < length qs \<Longrightarrow> mset (concat (qs[i := q])) + mset (qs ! i) = mset (concat qs) + mset q"
proof -
  assume i: "i < length qs"
  have "mset (concat qs) = mset (concat (take i qs @ qs ! i # drop (Suc i) qs))"
    using i by (simp flip: id_take_nth_drop)
  moreover have "mset (concat (qs[i := q])) = mset (concat (take i qs @ q # drop (Suc i) qs))"
    using i by (simp add: upd_conv_take_nth_drop)
  ultimately show ?thesis by (simp add: ac_simps)
qed

lemma nth_in_concat: "i < length qs \<Longrightarrow> x \<in> set (qs ! i) \<Longrightarrow> x \<in> set (concat qs)"
  by force

lemma distinct_concat_nth: "distinct (concat qs) \<Longrightarrow> i < length qs \<Longrightarrow> distinct (qs ! i)"
proof (induction qs arbitrary: i)
  case (Cons q qs)
  then show ?case by (cases i) auto
qed simp

lemma distinct_concat_disjoint:
  "distinct (concat qs) \<Longrightarrow> i < length qs \<Longrightarrow> j < length qs \<Longrightarrow> i \<noteq> j \<Longrightarrow> set (qs ! i) \<inter> set (qs ! j) = {}"
proof (induction qs arbitrary: i j)
  case (Cons q qs)
  show ?case
  proof (cases i)
    case 0
    with Cons.prems obtain k where "j = Suc k" "k < length qs" by (cases j) auto
    with 0 Cons.prems show ?thesis using nth_mem [of k qs] by fastforce
  next
    case (Suc l)
    show ?thesis
    proof (cases j)
      case 0
      with Suc Cons.prems show ?thesis using nth_mem [of l qs] by fastforce
    next
      case (Suc k)
      with \<open>i = Suc l\<close> Cons show ?thesis by simp
    qed
  qed
qed simp

lemma sock_ok_update:
  "sock_ok p s q \<Longrightarrow> x \<notin> set q \<Longrightarrow> sock_ok (p[x := y]) s q"
  by (simp add: sock_ok_def chain_update)

text \<open>A packet in limbo can be overwritten freely.\<close>

lemma lay_write_lost:
  assumes "lay p h ss lost fl qs" "x \<in> set lost"
  shows "lay (p[x := y]) h ss lost fl qs"
proof -
  have d: "distinct (lost @ fl @ concat qs)" using assms(1) by (rule lay_distinct)
  then have "x \<notin> set fl" "x \<notin> set (concat qs)" using assms(2) by auto
  moreover from this(2) have "\<And>i. i < length qs \<Longrightarrow> x \<notin> set (qs ! i)" using nth_in_concat by metis
  ultimately show ?thesis using assms(1)
    by (auto simp: lay_def chain_update list_all2_conv_all_nth intro: sock_ok_update)
qed

lemma lay_pop_free:
  "lay p h ss lost (x # fl) qs \<Longrightarrow> lay p (pk_next (p ! x)) ss (x # lost) fl qs"
  by (auto simp: lay_def)

lemma lay_push_free:
  assumes "lay p h ss (x # lost) fl qs"
  shows "lay (p[x := (p ! x)\<lparr>pk_next := h\<rparr>]) (int x) ss lost (x # fl) qs"
proof -
  have "x < length p" using lay_set [OF assms] by auto
  moreover have "x \<notin> set fl" using lay_distinct [OF assms] by simp
  moreover have "lay (p[x := (p ! x)\<lparr>pk_next := h\<rparr>]) h ss (x # lost) fl qs"
    using assms by (rule lay_write_lost) simp
  ultimately show ?thesis by (auto simp: lay_def chain_update)
qed

lemma lay_replace_sock:
  assumes "lay p h ss lost fl qs" "i < length ss" "sock_ok p s q"
    and "mset lost + mset (qs ! i) = mset lost' + mset q"
  shows "lay p h (ss[i := s]) lost' fl (qs[i := q])"
proof -
  have i: "i < length qs" using assms(1,2) by (simp add: lay_length)
  have "mset lost' + mset fl + (mset (concat (qs[i := q])) + mset (qs ! i))
      = mset lost' + mset q + (mset fl + mset (concat qs))"
    unfolding concat_update_mset [OF i] by (simp add: ac_simps)
  also have "\<dots> = (mset lost + mset fl + mset (concat qs)) + mset (qs ! i)"
    unfolding assms(4) [symmetric] by (simp add: ac_simps)
  finally have "mset lost' + mset fl + mset (concat (qs[i := q]))
      = mset lost + mset fl + mset (concat qs)"
    by (simp add: add.assoc [symmetric])
  with assms i show ?thesis
    by (simp add: lay_def list_all2_conv_all_nth nth_list_update add.assoc)
qed

lemma layout_nth_le:
  "lay p h ss lost fl qs \<Longrightarrow> i < length ss \<Longrightarrow> length (qs ! i) \<le> length p"
proof -
  assume l: "lay p h ss lost fl qs" and i: "i < length ss"
  have "length (qs ! i) = card (set (qs ! i))"
    using distinct_concat_nth [of qs i] lay_distinct [OF l] i lay_length [OF l]
    by (simp add: distinct_card)
  also have "\<dots> \<le> card {0..<length p}"
    using lay_set [OF l] nth_in_concat [of i qs] i lay_length [OF l]
    by (intro card_mono) auto
  finally show ?thesis by simp
qed

lemma layout_queue_idx:
  assumes "layout v fl qs" "i < MaxSockets" shows "queue_idx v i = qs ! i"
proof -
  have l: "lay (m_pool v) (m_freeList v) (m_socks v) [] fl qs"
    and sz: "length (m_socks v) = MaxSockets" "length (m_pool v) = PoolPackets"
    using assms(1) by (simp_all add: layout_def sizes_ok_def)
  show ?thesis
    using lay_sock [OF l, of i] layout_nth_le [OF l, of i] assms(2) sz
    by (simp add: queue_idx_def sock_ok_def chain_walk)
qed

lemma layout_sock_queue:
  "layout v fl qs \<Longrightarrow> i < MaxSockets \<Longrightarrow>
   sock_queue v i = map (\<lambda>k. pkt_datagram (m_pool v ! k)) (qs ! i)"
  by (simp add: sock_queue_def layout_queue_idx)

lemma layout_free_idx: "layout v fl qs \<Longrightarrow> free_idx v = fl"
proof -
  assume "layout v fl qs"
  then have l: "lay (m_pool v) (m_freeList v) (m_socks v) [] fl qs"
    and sz: "length (m_pool v) = PoolPackets"
    by (simp_all add: layout_def sizes_ok_def)
  have "length fl \<le> length (m_pool v)"
    using l by (auto simp: lay_def dest: arg_cong [where f = size])
  with l sz show ?thesis by (simp add: free_idx_def lay_def chain_walk)
qed

section \<open>The initial layout\<close>

lemma chain_reset:
  assumes "\<And>i. i < n \<Longrightarrow> pk_next (p ! i) = (if i + 1 < n then int (i + 1) else -1)"
    and "length p = n" "k \<le> n"
  shows "chain p (if k < n then int k else -1) [k..<n]"
  using assms(3)
proof (induction rule: inc_induct)
  case (step k)
  then have "[k..<n] = k # [Suc k..<n]" by (simp add: upt_conv_Cons)
  moreover have "pk_next (p ! k) = (if Suc k < n then int (Suc k) else -1)"
    using assms(1) [of k] step(2) by simp
  ultimately show ?case using step(2,3) assms(2) by (simp only: chain.simps if_True)
qed simp

lemma sizes_ok_fresh: "sizes_ok vnet_fresh"
  by (simp add: sizes_ok_def vnet_fresh_def zero_pkt_def zero_reasm_def)

lemma layout_reset:
  assumes "sizes_ok v"
  shows "layout (reset v) [0..<PoolPackets] (replicate MaxSockets [])"
proof -
  have "sizes_ok (reset v)"
    using assms by (fastforce simp: sizes_ok_def reset_def)
  moreover have "chain (m_pool (reset v)) 0 [0..<PoolPackets]"
    using chain_reset [of PoolPackets "m_pool (reset v)" 0]
    by (simp add: reset_def PoolPackets_def)
  moreover have "list_all2 (sock_ok (m_pool (reset v))) (m_socks (reset v)) (replicate MaxSockets [])"
    using assms by (auto simp: list_all2_conv_all_nth reset_def sizes_ok_def sock_ok_def zero_sock_def)
  moreover have "m_freeList (reset v) = 0" "length (m_pool (reset v)) = PoolPackets"
    by (simp_all add: reset_def)
  ultimately show ?thesis by (simp add: layout_def lay_def)
qed

end
