(* ===== verification/Interfaces.thy ===== *)
theory Interfaces
  imports Prelude "HOL-Library.Sublist"
begin

text \<open>
  The contracts between the components, as locales: what a client relies on, with the consequences
  proved once.  Each is interpreted on the model of the component that provides it.
\<close>

section \<open>Queues of messages over a shared store\<close>

text \<open>
  A family of FIFO queues that draw on one store of limited capacity: the sockets of the virtual
  interface over the packet pool.  \<open>room\<close> is what the store can still take, \<open>fits\<close> the messages it
  accepts.
\<close>

locale message_queues =
  fixes inv :: "'s \<Rightarrow> bool"
    and live :: "'s \<Rightarrow> 'i \<Rightarrow> bool"
    and room :: "'s \<Rightarrow> nat"
    and fits :: "'d \<Rightarrow> bool"
    and contents :: "'s \<Rightarrow> 'i \<Rightarrow> 'd list"
    and push :: "'i \<Rightarrow> 'd \<Rightarrow> 's \<Rightarrow> 's option"
    and pop :: "'i \<Rightarrow> 's \<Rightarrow> ('d \<times> 's) option"
  assumes push_step: "inv s \<Longrightarrow> live s i \<Longrightarrow> fits d \<Longrightarrow> 0 < room s \<Longrightarrow>
      \<exists>t. push i d s = Some t \<and> inv t \<and> live t = live s \<and> Suc (room t) = room s \<and>
          contents t = (contents s)(i := contents s i @ [d])"
    and push_full: "inv s \<Longrightarrow> live s i \<Longrightarrow> fits d \<Longrightarrow> room s = 0 \<Longrightarrow>
      \<exists>t. push i d s = Some t \<and> inv t \<and> live t = live s \<and> room t = 0 \<and> contents t = contents s"
    and pop_step: "inv s \<Longrightarrow> live s i \<Longrightarrow> contents s i = d # ds \<Longrightarrow>
      \<exists>t. pop i s = Some (d, t) \<and> inv t \<and> live t = live s \<and> room t = Suc (room s) \<and>
          contents t = (contents s)(i := ds)"
    and pop_empty: "inv s \<Longrightarrow> live s i \<Longrightarrow> contents s i = [] \<Longrightarrow> pop i s = None"
begin

primrec push_all :: "'i \<Rightarrow> 'd list \<Rightarrow> 's \<Rightarrow> 's option" where
  "push_all i [] s = Some s"
| "push_all i (d # ds) s = do { t \<leftarrow> push i d s; push_all i ds t }"

primrec pop_n :: "nat \<Rightarrow> 'i \<Rightarrow> 's \<Rightarrow> ('d list \<times> 's) option" where
  "pop_n 0 i s = Some ([], s)"
| "pop_n (Suc n) i s = do { (d, t) \<leftarrow> pop i s; (ds, u) \<leftarrow> pop_n n i t; Some (d # ds, u) }"

text \<open>A burst: as much of it as there is room for is queued, in order; the rest is dropped.\<close>

lemma push_all_contents:
  "inv s \<Longrightarrow> live s i \<Longrightarrow> list_all fits ds \<Longrightarrow>
   \<exists>t. push_all i ds s = Some t \<and> inv t \<and> live t = live s \<and> room t = room s - length ds \<and>
       contents t = (contents s)(i := contents s i @ take (room s) ds)"
proof (induction ds arbitrary: s)
  case Nil
  then show ?case by simp
next
  case (Cons d ds)
  show ?case
  proof (cases "room s")
    case 0
    with push_full [of s i d] Cons.prems obtain t where
      t: "push i d s = Some t" "inv t" "live t = live s" "room t = 0" "contents t = contents s"
      by auto
    with Cons.IH [of t] Cons.prems 0 show ?thesis by auto
  next
    case (Suc n)
    with push_step [of s i d] Cons.prems obtain t where
      t: "push i d s = Some t" "inv t" "live t = live s" "room t = n"
        "contents t = (contents s)(i := contents s i @ [d])"
      by auto
    with Cons.IH [of t] Cons.prems Suc show ?thesis by (auto simp: fun_eq_iff)
  qed
qed

lemma pop_n_contents:
  "inv s \<Longrightarrow> live s i \<Longrightarrow> n \<le> length (contents s i) \<Longrightarrow>
   \<exists>t. pop_n n i s = Some (take n (contents s i), t) \<and> inv t \<and> live t = live s \<and>
       room t = room s + n \<and> contents t = (contents s)(i := drop n (contents s i))"
proof (induction n arbitrary: s)
  case 0
  then show ?case by simp
next
  case (Suc n)
  then obtain d ds where c: "contents s i = d # ds" by (cases "contents s i") auto
  with pop_step [of s i d ds] Suc.prems obtain t where
    t: "pop i s = Some (d, t)" "inv t" "live t = live s" "room t = Suc (room s)"
      "contents t = (contents s)(i := ds)"
    by auto
  with Suc.IH [of t] Suc.prems c show ?case by (auto simp: fun_eq_iff)
qed

text \<open>FIFO: a burst that fits comes out after what was there, unchanged and in order.\<close>

lemma burst_fifo:
  assumes "inv s" "live s i" "list_all fits ds" "length ds \<le> room s"
  shows "\<exists>t u. push_all i ds s = Some t \<and>
           pop_n (length (contents s i) + length ds) i t = Some (contents s i @ ds, u) \<and>
           inv u \<and> room u = room s + length (contents s i) \<and> contents u = (contents s)(i := [])"
proof -
  from push_all_contents [OF assms(1-3)] assms(4) obtain t where
    t: "push_all i ds s = Some t" "inv t" "live t = live s" "room t = room s - length ds"
      "contents t = (contents s)(i := contents s i @ ds)"
    by auto
  with pop_n_contents [of t i "length (contents s i) + length ds"] assms
  show ?thesis by auto
qed

end

section \<open>Caches of observed bindings\<close>

text \<open>
  A bounded cache of the last binding observed for each key: it may forget a key, never invent or
  keep a superseded value.  The neighbour table of the virtual interface.
\<close>

locale binding_cache =
  fixes cinv :: "'s \<Rightarrow> bool"
    and usable :: "'k \<Rightarrow> 'v \<Rightarrow> bool"
    and find :: "'s \<Rightarrow> 'k \<Rightarrow> 'v option"
    and learn :: "'k \<Rightarrow> 'v \<Rightarrow> 's \<Rightarrow> 's"
  assumes learn_inv: "cinv s \<Longrightarrow> cinv (learn k x s)"
    and learn_unusable: "\<not> usable k x \<Longrightarrow> learn k x s = s"
    and learn_same: "cinv s \<Longrightarrow> usable k x \<Longrightarrow> find (learn k x s) k = Some x"
    and learn_other: "cinv s \<Longrightarrow> k' \<noteq> k \<Longrightarrow> find (learn k x s) k' = Some y \<Longrightarrow> find s k' = Some y"
begin

definition observe :: "('k \<times> 'v) list \<Rightarrow> 's \<Rightarrow> 's" where
  "observe obs s = fold (\<lambda>(k, x). learn k x) obs s"

lemma observe_snoc: "observe (obs @ [(k, x)]) s = learn k x (observe obs s)"
  by (simp add: observe_def)

lemma observe_inv: "cinv s \<Longrightarrow> cinv (observe obs s)"
proof (induction obs rule: rev_induct)
  case (snoc ob obs)
  then show ?case by (cases ob) (simp add: observe_snoc learn_inv)
qed (simp add: observe_def)

text \<open>The values seen for a key, oldest first.\<close>

definition seen :: "'k \<Rightarrow> ('k \<times> 'v) list \<Rightarrow> 'v list" where
  "seen k obs = map snd (filter (\<lambda>(k', x). k' = k \<and> usable k x) obs)"

text \<open>An answer is the last usable value observed for the key, or what the cache held before.\<close>

lemma find_observed:
  assumes "cinv s" "find (observe obs s) k = Some y"
  shows "y = (if seen k obs = [] then the (find s k) else last (seen k obs))"
  using assms(2)
proof (induction obs rule: rev_induct)
  case Nil
  then show ?case by (simp add: observe_def seen_def)
next
  case (snoc ob obs)
  obtain k' x where ob: "ob = (k', x)" by fastforce
  note inv = observe_inv [OF assms(1), of obs]
  show ?case
  proof (cases "k' = k \<and> usable k x")
    case True
    with snoc.prems have "y = x" using learn_same [OF inv, of k x] by (simp add: ob observe_snoc)
    with True show ?thesis by (simp add: ob seen_def)
  next
    case False
    have "find (observe obs s) k = Some y"
    proof (cases "k' = k")
      case True
      with False snoc.prems show ?thesis by (simp add: ob observe_snoc learn_unusable)
    next
      case False
      then show ?thesis using learn_other [OF inv, of k k' x y] snoc.prems by (simp add: ob observe_snoc)
    qed
    with snoc.IH False show ?thesis by (auto simp: ob seen_def)
  qed
qed

end

section \<open>Bounded queues that drop\<close>

text \<open>
  A queue of limited capacity that drops what does not fit instead of blocking its producers, and
  can be emptied at once: the ring of outbound frames.  Producers, the consumer and the flush each
  run under one lock, so a run is a sequence of these steps in any order.
\<close>

datatype 'd queue_step = Put 'd | Get | Clear

locale bounded_queue =
  fixes qinv :: "'s \<Rightarrow> bool"
    and cap :: nat
    and small :: "'d \<Rightarrow> bool"
    and queue :: "'s \<Rightarrow> 'd list"
    and put :: "'d \<Rightarrow> 's \<Rightarrow> 's option"
    and get :: "'s \<Rightarrow> ('d \<times> 's) option option"
    and clear :: "'s \<Rightarrow> 's"
  assumes put_step: "qinv s \<Longrightarrow> \<exists>t. put d s = Some t \<and> qinv t \<and>
      queue t = (if small d \<and> length (queue s) < cap then queue s @ [d] else queue s)"
    and get_empty: "qinv s \<Longrightarrow> queue s = [] \<Longrightarrow> get s = Some None"
    and get_step: "qinv s \<Longrightarrow> queue s = d # ds \<Longrightarrow>
      \<exists>t. get s = Some (Some (d, t)) \<and> qinv t \<and> queue t = ds"
    and clear_step: "qinv s \<Longrightarrow> qinv (clear s) \<and> queue (clear s) = []"
begin

fun qrun :: "'d queue_step list \<Rightarrow> 's \<Rightarrow> ('d list \<times> 's) option" where
  "qrun [] s = Some ([], s)"
| "qrun (Put d # ops) s = do { t \<leftarrow> put d s; qrun ops t }"
| "qrun (Get # ops) s =
     do { r \<leftarrow> get s;
          case r of None \<Rightarrow> qrun ops s
          | Some (d, t) \<Rightarrow> do { (out, u) \<leftarrow> qrun ops t; Some (d # out, u) } }"
| "qrun (Clear # ops) s = qrun ops (clear s)"

text \<open>The abstract queue: a list of at most \<open>cap\<close> items.\<close>

fun arun :: "'d queue_step list \<Rightarrow> 'd list \<Rightarrow> 'd list \<times> 'd list" where
  "arun [] q = ([], q)"
| "arun (Put d # ops) q = arun ops (if small d \<and> length q < cap then q @ [d] else q)"
| "arun (Get # ops) [] = arun ops []"
| "arun (Get # ops) (d # q) = (case arun ops q of (out, u) \<Rightarrow> (d # out, u))"
| "arun (Clear # ops) q = arun ops []"

lemma qrun_refines:
  "qinv s \<Longrightarrow> \<exists>u. qrun ops s = Some (fst (arun ops (queue s)), u) \<and> qinv u \<and>
     queue u = snd (arun ops (queue s))"
proof (induction ops arbitrary: s)
  case (Cons x ops)
  show ?case
  proof (cases x)
    case (Put d)
    from put_step [OF Cons.prems, of d] obtain t where
      t: "put d s = Some t" "qinv t"
        "queue t = (if small d \<and> length (queue s) < cap then queue s @ [d] else queue s)" by auto
    from Cons.IH [OF t(2)] Put t show ?thesis by auto
  next
    case Get
    show ?thesis
    proof (cases "queue s")
      case Nil
      with get_empty [OF Cons.prems] Cons.IH [OF Cons.prems] Get show ?thesis by auto
    next
      case (Cons d ds)
      from get_step [OF Cons.prems Cons] obtain t where
        t: "get s = Some (Some (d, t))" "qinv t" "queue t = ds" by auto
      from Cons.IH [OF t(2)] Get t Cons show ?thesis by (auto split: prod.split)
    qed
  next
    case Clear
    with clear_step [OF Cons.prems] Cons.IH [of "clear s"] show ?thesis by auto
  qed
qed simp

text \<open>What was put, as the producers gave it.\<close>

definition offered :: "'d queue_step list \<Rightarrow> 'd list" where
  "offered ops = List.map_filter (\<lambda>x. case x of Put d \<Rightarrow> Some d | _ \<Rightarrow> None) ops"

lemma offered_simps [simp]:
  "offered [] = []" "offered (Put d # ops) = d # offered ops" "offered (Get # ops) = offered ops"
  "offered (Clear # ops) = offered ops"
  by (simp_all add: offered_def List.map_filter_def)

text \<open>Nothing is invented, repeated or reordered.\<close>

lemma arun_subseq: "subseq (fst (arun ops q) @ snd (arun ops q)) (q @ offered ops)"
proof (induction ops q rule: arun.induct)
  case (2 d ops q)
  show ?case
  proof (cases "small d \<and> length q < cap")
    case True
    with 2 show ?thesis by simp
  next
    case False
    have "subseq (q @ offered ops) (q @ d # offered ops)"
      by (rule list_emb_append_mono) auto
    with False 2 show ?thesis by (auto intro: subseq_order.trans)
  qed
next
  case (5 ops q)
  have "subseq (offered ops) (q @ offered ops)" by (rule list_emb_append2) simp
  with 5 show ?case by (auto intro: subseq_order.trans)
qed (auto split: prod.split)

text \<open>Nothing is lost while it fits.\<close>

lemma arun_lossless:
  "list_all small (offered ops) \<Longrightarrow> Clear \<notin> set ops \<Longrightarrow> length q + length (offered ops) \<le> cap \<Longrightarrow>
   fst (arun ops q) @ snd (arun ops q) = q @ offered ops"
  by (induction ops q rule: arun.induct) (auto split: prod.split)

lemma arun_append:
  "arun (a @ b) q = (case arun a q of (out, r) \<Rightarrow> case arun b r of (out2, r2) \<Rightarrow> (out @ out2, r2))"
  by (induction a q rule: arun.induct) (auto split: prod.split)

text \<open>After a flush only what is put later comes out.\<close>

lemma arun_flush: "arun (a @ Clear # b) q = (fst (arun a q) @ fst (arun b []), snd (arun b []))"
  by (simp add: arun_append split: prod.split)

end

end
