(* ===== verification/VNetSock.thy ===== *)
theory VNetSock
  imports VNetState Interfaces
begin

text \<open>
  The socket table of \<^verbatim>\<open>source/net/vnet.cpp\<close>: \<^verbatim>\<open>pushToSocket\<close> on the receive side and the socket
  API the bsd:u interposer drives.  Each operation is shown to keep the packet layout and to act on
  the queues of datagrams as on plain lists.
\<close>

section \<open>Operations\<close>

definition vfd_ok :: "VNet \<Rightarrow> int \<Rightarrow> bool" where
  "vfd_ok v vfd \<longleftrightarrow> \<not> (vfd < 0 \<or> int MaxSockets \<le> vfd \<or> \<not> s_used (m_socks v ! nat vfd))"

definition pushToSocket :: "nat \<Rightarrow> u32 \<Rightarrow> u16 \<Rightarrow> u8 list \<Rightarrow> VNet \<Rightarrow> VNet option" where
  "pushToSocket sockIdx srcIp srcPort data v =
     (if MaxDatagram < length data then Some (bump (dropTooBig_update ((+) 1)) v)
      else do {
        (v1, idx) \<leftarrow> allocPkt v;
        if idx < 0 then Some (bump (dropNoBuffer_update ((+) 1)) v1)
        else do {
          pk \<leftarrow> aget (m_pool v1) idx;
          bytes \<leftarrow> (if data \<noteq> [] then memcpy (pk_data pk) 0 data else Some (pk_data pk));
          pool \<leftarrow> aset (m_pool v1) idx
                   (pk\<lparr>pk_len := of_nat (length data), pk_srcIp := srcIp,
                       pk_srcPort := srcPort, pk_next := -1, pk_data := bytes\<rparr>);
          s \<leftarrow> aget (m_socks v1) (int sockIdx);
          if s_qTail s < 0 then do {
            socks \<leftarrow> aset (m_socks v1) (int sockIdx)
                      (s\<lparr>s_qHead := idx, s_qTail := idx, s_qCount := s_qCount s + 1\<rparr>);
            Some (v1\<lparr>m_pool := pool, m_socks := socks\<rparr>)
          } else do {
            tl \<leftarrow> aget pool (s_qTail s);
            pool2 \<leftarrow> aset pool (s_qTail s) (tl\<lparr>pk_next := idx\<rparr>);
            socks \<leftarrow> aset (m_socks v1) (int sockIdx)
                      (s\<lparr>s_qTail := idx, s_qCount := s_qCount s + 1\<rparr>);
            Some (v1\<lparr>m_pool := pool2, m_socks := socks\<rparr>)
          } } })"

definition udpOpen :: "VNet \<Rightarrow> VNet \<times> int" where
  "udpOpen v =
     (case find_index (\<lambda>s. \<not> s_used s) (m_socks v) of
        Some i \<Rightarrow>
          (v\<lparr>m_socks := (m_socks v)[i := zero_sock\<lparr>s_used := True, s_qHead := -1, s_qTail := -1\<rparr>]\<rparr>,
           int i)
      | None \<Rightarrow> (v, InvalidSocket))"

text \<open>The search for an ephemeral port: at most the given number of tries; port 0 when it fails.\<close>

definition port_taken :: "VNet \<Rightarrow> u16 \<Rightarrow> bool" where
  "port_taken v port \<longleftrightarrow> list_ex (\<lambda>s. s_used s \<and> s_localPort s = port) (m_socks v)"

fun bind_tries :: "nat \<Rightarrow> VNet \<Rightarrow> VNet \<times> u16" where
  "bind_tries 0 v = (v, 0)"
| "bind_tries (Suc n) v =
     (let candidate = m_nextEphemeral v;
          next = m_nextEphemeral v + 1;
          v1 = v\<lparr>m_nextEphemeral := (if next = 0 then 49152 else next)\<rparr>
      in if \<not> port_taken v1 candidate then (v1, candidate) else bind_tries n v1)"

definition udpBind :: "int \<Rightarrow> u32 \<Rightarrow> u16 \<Rightarrow> VNet \<Rightarrow> VNet \<times> int" where
  "udpBind vfd ip port v =
     (if \<not> vfd_ok v vfd then (v, -1)
      else
        let (v1, port1) = (if port = 0 then bind_tries 4096 v else (v, port)) in
        if port1 = 0 then (v1, -1)
        else
          (v1\<lparr>m_socks := (m_socks v1)[nat vfd := (m_socks v1 ! nat vfd)
                 \<lparr>s_localIp := (if ip = m_ip v1 then 0 else ip), s_localPort := port1\<rparr>]\<rparr>, 0))"

definition udpSetBroadcast :: "int \<Rightarrow> bool \<Rightarrow> VNet \<Rightarrow> VNet" where
  "udpSetBroadcast vfd on v =
     (if vfd_ok v vfd
      then v\<lparr>m_socks := (m_socks v)[nat vfd := (m_socks v ! nat vfd)\<lparr>s_broadcast := on\<rparr>]\<rparr>
      else v)"

definition udpLocalPort :: "int \<Rightarrow> VNet \<Rightarrow> u16" where
  "udpLocalPort vfd v = (if \<not> vfd_ok v vfd then 0 else s_localPort (m_socks v ! nat vfd))"

definition udpReadable :: "int \<Rightarrow> VNet \<Rightarrow> bool" where
  "udpReadable vfd v \<longleftrightarrow> vfd_ok v vfd \<and> 0 < s_qCount (m_socks v ! nat vfd)"

text \<open>\<^verbatim>\<open>if (n && buf) memcpy(buf, src, n)\<close>.\<close>

definition copy_out :: "u8 list option \<Rightarrow> u8 list \<Rightarrow> nat \<Rightarrow> u8 list option option" where
  "copy_out buf src n =
     (case buf of
        None \<Rightarrow> Some None
      | Some b \<Rightarrow>
          if n = 0 then Some (Some b)
          else do { bytes \<leftarrow> slice src 0 n; b1 \<leftarrow> memcpy b 0 bytes; Some (Some b1) })"

text \<open>
  \<^verbatim>\<open>udpRecvFrom\<close>: the new state, the return value, the caller's buffer afterwards (\<open>None\<close> for a null
  pointer) and what is stored through \<^verbatim>\<open>srcIp\<close> and \<^verbatim>\<open>srcPort\<close> where these are not null.
\<close>

definition udpRecvFrom ::
  "int \<Rightarrow> u8 list option \<Rightarrow> nat \<Rightarrow> bool \<Rightarrow> VNet \<Rightarrow>
   (VNet \<times> int \<times> u8 list option \<times> (u32 \<times> u16) option) option" where
  "udpRecvFrom vfd buf maxlen peek v =
     (if \<not> vfd_ok v vfd then Some (v, -1, buf, None)
      else do {
        s \<leftarrow> aget (m_socks v) vfd;
        if s_qHead s < 0 then Some (v, -1, buf, None)
        else do {
          let idx = s_qHead s;
          pk \<leftarrow> aget (m_pool v) idx;
          let n = min (unat (pk_len pk)) maxlen;
          out \<leftarrow> copy_out buf (pk_data pk) n;
          let from = (pk_srcIp pk, pk_srcPort pk);
          if peek then Some (v, int n, out, Some from)
          else do {
            let h = pk_next pk;
            socks \<leftarrow> aset (m_socks v) vfd
                      (s\<lparr>s_qHead := h, s_qTail := (if h < 0 then -1 else s_qTail s),
                         s_qCount := s_qCount s - 1\<rparr>);
            v1 \<leftarrow> freePkt idx (v\<lparr>m_socks := socks\<rparr>);
            Some (v1, int n, out, Some from) } } })"

partial_function (option) close_drain :: "int \<Rightarrow> VNet \<Rightarrow> VNet option" where
  "close_drain idx v =
     (if idx < 0 then Some v
      else do {
        pk \<leftarrow> aget (m_pool v) idx;
        v1 \<leftarrow> freePkt idx v;
        close_drain (pk_next pk) v1 })"

declare close_drain.simps [code]

definition udpClose :: "int \<Rightarrow> VNet \<Rightarrow> VNet option" where
  "udpClose vfd v =
     (if \<not> vfd_ok v vfd then Some v
      else do {
        v1 \<leftarrow> close_drain (s_qHead (m_socks v ! nat vfd)) v;
        socks \<leftarrow> aset (m_socks v1) vfd (zero_sock\<lparr>s_qHead := -1, s_qTail := -1\<rparr>);
        Some (v1\<lparr>m_socks := socks\<rparr>) })"

section \<open>Pushing\<close>

lemma vfd_ok_range: "vfd_ok v vfd \<Longrightarrow> 0 \<le> vfd \<and> nat vfd < MaxSockets \<and> s_used (m_socks v ! nat vfd)"
  by (simp add: vfd_ok_def nat_less_iff)

lemma vfd_ok_int [simp]: "i < MaxSockets \<Longrightarrow> vfd_ok v (int i) \<longleftrightarrow> s_used (m_socks v ! i)"
  by (simp add: vfd_ok_def)

lemma layout_pool_inv: "layout v fl qs \<Longrightarrow> pool_inv v"
  unfolding pool_inv_def by blast

lemma layout_lay: "layout v fl qs \<Longrightarrow> lay (m_pool v) (m_freeList v) (m_socks v) [] fl qs"
  by (simp add: layout_def)

lemma layout_sizes: "layout v fl qs \<Longrightarrow> sizes_ok v"
  by (simp add: layout_def)

lemma layout_lengths:
  assumes "layout v fl qs"
  shows "length (m_socks v) = MaxSockets" "length (m_pool v) = PoolPackets" "length qs = MaxSockets"
  using layout_sizes [OF assms] lay_length [OF layout_lay [OF assms]] by (simp_all add: sizes_ok_def)

text \<open>The packet \<^verbatim>\<open>pushToSocket\<close> builds.\<close>

definition new_pkt :: "u32 \<Rightarrow> u16 \<Rightarrow> u8 list \<Rightarrow> Pkt \<Rightarrow> Pkt" where
  "new_pkt srcIp srcPort data pk =
     pk\<lparr>pk_len := of_nat (length data), pk_srcIp := srcIp, pk_srcPort := srcPort, pk_next := -1,
        pk_data := data @ drop (length data) (pk_data pk)\<rparr>"

lemma new_pkt_datagram:
  "length data \<le> MaxDatagram \<Longrightarrow> pkt_datagram (new_pkt ip port data pk) = (ip, port, data)"
  by (simp add: pkt_datagram_def new_pkt_def unat_of_nat16 MaxDatagram_def)

lemma pkt_datagram_next [simp]: "pkt_datagram (pk\<lparr>pk_next := n\<rparr>) = pkt_datagram pk"
  by (simp add: pkt_datagram_def)

lemma sizes_ok_write:
  assumes "sizes_ok v" "length ss = MaxSockets" "x < PoolPackets"
    and "length (pk_data pk) = MaxDatagram" "unat (pk_len pk) \<le> MaxDatagram"
  shows "sizes_ok (v\<lparr>m_pool := (m_pool v)[x := pk], m_freeList := h, m_socks := ss\<rparr>)"
  using assms by (auto simp: sizes_ok_def dest: set_update_subset_insert [THEN subsetD])

text \<open>Appending a packet that is in limbo to the queue of a socket.\<close>

definition link_tail :: "Pkt list \<Rightarrow> Socket \<Rightarrow> nat \<Rightarrow> Pkt list" where
  "link_tail p s x =
     (if s_qTail s < 0 then p
      else p[nat (s_qTail s) := (p ! nat (s_qTail s))\<lparr>pk_next := int x\<rparr>])"

definition link_sock :: "Socket \<Rightarrow> nat \<Rightarrow> Socket" where
  "link_sock s x =
     s\<lparr>s_qHead := (if s_qTail s < 0 then int x else s_qHead s), s_qTail := int x,
       s_qCount := s_qCount s + 1\<rparr>"

text \<open>Linking a packet behind the last of a queue.\<close>

lemma lay_enqueue_behind:
  assumes l: "lay p h ss (x # lost) fl qs" and i: "i < length ss" and u: "s_used (ss ! i)"
    and n: "pk_next (p ! x) = -1" and ne: "qs ! i \<noteq> []"
  shows "lay (link_tail p (ss ! i) x) h (ss[i := link_sock (ss ! i) x]) lost fl (qs[i := qs ! i @ [x]])"
proof -
  let ?s = "ss ! i" and ?q = "qs ! i"
  have iq: "i < length qs" using i lay_length [OF l] by simp
  have s: "sock_ok p ?s ?q" using l i by (rule lay_sock)
  have d: "distinct ((x # lost) @ fl @ concat qs)" using l by (rule lay_distinct)
  have dq: "distinct ?q" using d iq by (simp add: distinct_concat_nth)
  have xq: "x \<notin> set ?q" using d nth_in_concat [OF iq] by auto
  have x: "x < length p" using lay_set [OF l] by auto
  define t where "t = last ?q"
  have tq: "t \<in> set ?q" using ne by (simp add: t_def)
  have tl: "s_qTail ?s = int t" using s ne by (simp add: sock_ok_def t_def)
  have tp: "t < length p" using s tq by (auto simp: sock_ok_def intro: chain_in_range)
  let ?p = "p[t := (p ! t)\<lparr>pk_next := int x\<rparr>]"
  have c: "chain ?p (s_qHead ?s) (?q @ [x])"
    using chain_snoc [of p "s_qHead ?s" ?q x] s ne dq xq x n by (simp add: sock_ok_def t_def)
  have fl: "chain ?p h fl"
  proof -
    have "t \<in> set (concat qs)" using iq tq by (rule nth_in_concat)
    with d have "t \<notin> set fl" by (auto simp del: set_concat)
    with l show ?thesis by (simp add: lay_def chain_update)
  qed
  have other: "sock_ok ?p (ss ! j) (qs ! j)" if j: "j < length ss" "j \<noteq> i" for j
  proof -
    have "t \<notin> set (qs ! j)"
      using distinct_concat_disjoint [of qs i j] d iq j lay_length [OF l] tq by auto
    with lay_sock [OF l j(1)] show ?thesis by (rule sock_ok_update)
  qed
  have me: "sock_ok ?p (link_sock ?s x) (?q @ [x])"
    using c s u ne tl by (simp add: sock_ok_def link_sock_def)
  have all: "list_all2 (sock_ok ?p) (ss[i := link_sock ?s x]) (qs[i := ?q @ [x]])"
    using me other i iq lay_length [OF l] by (auto simp: list_all2_conv_all_nth nth_list_update)
  have "mset (concat (qs[i := ?q @ [x]])) + mset ?q = mset (concat qs) + mset (?q @ [x])"
    by (rule concat_update_mset [OF iq])
  then have "mset (concat (qs[i := ?q @ [x]])) = mset (concat qs) + {#x#}"
    by simp
  then have "mset (lost @ fl @ concat (qs[i := ?q @ [x]])) = mset [0..<length p]"
    using l by (simp add: lay_def)
  with fl all tl show ?thesis by (simp add: lay_def link_tail_def)
qed

lemma lay_enqueue:
  assumes l: "lay p h ss (x # lost) fl qs" and i: "i < length ss" and u: "s_used (ss ! i)"
    and n: "pk_next (p ! x) = -1"
  shows "lay (link_tail p (ss ! i) x) h (ss[i := link_sock (ss ! i) x]) lost fl (qs[i := qs ! i @ [x]])"
proof (cases "qs ! i = []")
  case True
  have s: "sock_ok p (ss ! i) (qs ! i)" using l i by (rule lay_sock)
  then have t: "s_qTail (ss ! i) = -1" using True by (simp add: sock_ok_def)
  have "x < length p" using lay_set [OF l] by auto
  then have "sock_ok p (link_sock (ss ! i) x) (qs ! i @ [x])"
    using True s t u n by (simp add: sock_ok_def link_sock_def)
  with l i have "lay p h (ss[i := link_sock (ss ! i) x]) lost fl (qs[i := qs ! i @ [x]])"
    by (rule lay_replace_sock) simp
  with t show ?thesis by (simp add: link_tail_def)
qed (use lay_enqueue_behind [OF l i u n] in simp)

text \<open>What \<^verbatim>\<open>pushToSocket\<close> does, case by case.\<close>

lemma pushToSocket_big: "MaxDatagram < length data \<Longrightarrow>
  pushToSocket i ip port data v = Some (bump (dropTooBig_update ((+) 1)) v)"
  by (simp add: pushToSocket_def)

lemma layout_free_empty: "layout v [] qs \<Longrightarrow> m_freeList v = -1"
  by (simp add: layout_def lay_def)

lemma pushToSocket_full: "layout v [] qs \<Longrightarrow> length data \<le> MaxDatagram \<Longrightarrow>
  pushToSocket i ip port data v = Some (bump (dropNoBuffer_update ((+) 1)) v)"
  by (simp add: pushToSocket_def allocPkt_def layout_free_empty)

text \<open>With a free packet: the whole effect, and the layout afterwards.\<close>

definition push_state :: "nat \<Rightarrow> nat \<Rightarrow> u32 \<Rightarrow> u16 \<Rightarrow> u8 list \<Rightarrow> VNet \<Rightarrow> VNet" where
  "push_state i x ip port data v =
     (let p = (m_pool v)[x := new_pkt ip port data (m_pool v ! x)] in
      v\<lparr>m_freeList := pk_next (m_pool v ! x), m_pool := link_tail p (m_socks v ! i) x,
        m_socks := (m_socks v)[i := link_sock (m_socks v ! i) x]\<rparr>)"

lemma link_tail_length [simp]: "length (link_tail p s x) = length p"
  by (simp add: link_tail_def)

lemma link_tail_data:
  "k < length p \<Longrightarrow> pk_data (link_tail p s x ! k) = pk_data (p ! k) \<and>
   pk_len (link_tail p s x ! k) = pk_len (p ! k) \<and>
   pkt_datagram (link_tail p s x ! k) = pkt_datagram (p ! k)"
  by (cases "k = nat (s_qTail s)") (simp_all add: link_tail_def)

lemma sizes_ok_all:
  assumes "sizes_ok v" "length p = PoolPackets" "length ss = MaxSockets"
    and "\<And>k. k < PoolPackets \<Longrightarrow>
           length (pk_data (p ! k)) = MaxDatagram \<and> unat (pk_len (p ! k)) \<le> MaxDatagram"
  shows "sizes_ok (v\<lparr>m_freeList := h, m_pool := p, m_socks := ss\<rparr>)"
  using assms by (auto simp: sizes_ok_def in_set_conv_nth)

lemma sizes_ok_pkt:
  "sizes_ok v \<Longrightarrow> k < PoolPackets \<Longrightarrow>
   length (pk_data (m_pool v ! k)) = MaxDatagram \<and> unat (pk_len (m_pool v ! k)) \<le> MaxDatagram"
  by (auto simp: sizes_ok_def)

lemma push_ok:
  assumes l: "layout v (x # fl) qs" and i: "i < MaxSockets" and u: "s_used (m_socks v ! i)"
    and len: "length data \<le> MaxDatagram"
  shows "pushToSocket i ip port data v = Some (push_state i x ip port data v)"
    and "layout (push_state i x ip port data v) fl (qs[i := qs ! i @ [x]])"
proof -
  note ln = layout_lengths [OF l]
  have h: "m_freeList v = int x" and x: "x < PoolPackets"
    using l ln by (auto simp: layout_def lay_def)
  have sz: "sizes_ok v" using l by (rule layout_sizes)
  have pd: "length (pk_data (m_pool v ! x)) = MaxDatagram" using sizes_ok_pkt [OF sz x] by simp
  have s: "sock_ok (m_pool v) (m_socks v ! i) (qs ! i)"
    using layout_lay [OF l] i ln by (intro lay_sock) simp_all
  have xq: "x \<notin> set (qs ! i)"
    using lay_distinct [OF layout_lay [OF l]] nth_in_concat [of i qs x] i ln
    by (auto simp del: set_concat)
  have tl: "s_qTail (m_socks v ! i) < int PoolPackets" "s_qTail (m_socks v ! i) \<noteq> int x"
    using s chain_in_range [of "m_pool v" _ "qs ! i"] ln xq last_in_set [of "qs ! i"]
    by (auto simp: sock_ok_def)
  show "pushToSocket i ip port data v = Some (push_state i x ip port data v)"
    using tl i u len x h ln pd
    by (simp add: pushToSocket_def allocPkt_def push_state_def Let_def link_tail_def link_sock_def
          new_pkt_def nat_less_iff aget_def aset_def)
  let ?p = "(m_pool v)[x := new_pkt ip port data (m_pool v ! x)]"
  have "lay (m_pool v) (pk_next (m_pool v ! x)) (m_socks v) [x] fl qs"
    using layout_lay [OF l] by (rule lay_pop_free)
  then have "lay ?p (pk_next (m_pool v ! x)) (m_socks v) [x] fl qs"
    by (rule lay_write_lost) simp
  then have "lay (link_tail ?p (m_socks v ! i) x) (pk_next (m_pool v ! x))
      ((m_socks v)[i := link_sock (m_socks v ! i) x]) [] fl (qs[i := qs ! i @ [x]])"
    by (rule lay_enqueue) (use i u x ln in \<open>simp_all add: new_pkt_def\<close>)
  moreover have "sizes_ok (push_state i x ip port data v)"
    unfolding push_state_def Let_def
  proof (rule sizes_ok_all [OF sz])
    fix k assume k: "k < PoolPackets"
    have "length (pk_data (?p ! k)) = MaxDatagram \<and> unat (pk_len (?p ! k)) \<le> MaxDatagram"
      using sizes_ok_pkt [OF sz k] pd len k ln x
      by (auto simp: nth_list_update new_pkt_def unat_of_nat16 MaxDatagram_def)
    with k ln show "length (pk_data (link_tail ?p (m_socks v ! i) x ! k)) = MaxDatagram \<and>
        unat (pk_len (link_tail ?p (m_socks v ! i) x ! k)) \<le> MaxDatagram"
      by (simp add: link_tail_data)
  qed (use ln in simp_all)
  ultimately show "layout (push_state i x ip port data v) fl (qs[i := qs ! i @ [x]])"
    by (simp add: layout_def push_state_def Let_def)
qed

text \<open>On the queues of datagrams: one more at the end of queue \<open>i\<close>, the others as they were.\<close>

lemma push_queue:
  assumes l: "layout v (x # fl) qs" and i: "i < MaxSockets" and u: "s_used (m_socks v ! i)"
    and len: "length data \<le> MaxDatagram" and j: "j < MaxSockets"
  shows "sock_queue (push_state i x ip port data v) j =
           (if j = i then sock_queue v i @ [(ip, port, data)] else sock_queue v j)"
proof -
  let ?v = "push_state i x ip port data v"
  let ?p = "(m_pool v)[x := new_pkt ip port data (m_pool v ! x)]"
  note ln = layout_lengths [OF l]
  have l': "layout ?v fl (qs[i := qs ! i @ [x]])" using l i u len by (rule push_ok)
  have x: "x < PoolPackets" using l ln by (auto simp: layout_def lay_def)
  have pool: "pkt_datagram (m_pool ?v ! k) = pkt_datagram (?p ! k)" if "k < PoolPackets" for k
    using that ln by (simp add: push_state_def Let_def link_tail_data)
  have rng: "k < PoolPackets \<and> k \<noteq> x" if "k \<in> set (qs ! j)" "j < MaxSockets" for k j
  proof -
    have "k \<in> set (concat qs)" using nth_in_concat [of j qs k] that ln by simp
    then show ?thesis
      using lay_set [OF layout_lay [OF l]] lay_distinct [OF layout_lay [OF l]] ln
      by (auto simp del: set_concat)
  qed
  have same: "map (\<lambda>k. pkt_datagram (m_pool ?v ! k)) (qs ! j)
      = map (\<lambda>k. pkt_datagram (m_pool v ! k)) (qs ! j)" if "j < MaxSockets" for j
  proof (rule map_cong [OF refl])
    fix k assume "k \<in> set (qs ! j)"
    with that have "k < PoolPackets" "k \<noteq> x" using rng by blast+
    then show "pkt_datagram (m_pool ?v ! k) = pkt_datagram (m_pool v ! k)"
      using pool [of k] by simp
  qed
  have new: "pkt_datagram (m_pool ?v ! x) = (ip, port, data)"
    using pool [OF x] x ln len by (simp add: new_pkt_datagram)
  show ?thesis
    using same [OF i] same [OF j] new i j ln
    by (simp add: layout_sock_queue [OF l'] layout_sock_queue [OF l] nth_list_update)
qed

section \<open>Receiving\<close>

text \<open>What the caller finds in its buffer: the first \<open>n\<close> bytes of the datagram, the rest untouched.\<close>

definition recv_buf :: "u8 list option \<Rightarrow> u8 list \<Rightarrow> u8 list option" where
  "recv_buf buf bytes = map_option (\<lambda>b. bytes @ drop (length bytes) b) buf"

definition pop_state :: "nat \<Rightarrow> nat \<Rightarrow> VNet \<Rightarrow> VNet" where
  "pop_state i x v =
     (let s = m_socks v ! i; n = pk_next (m_pool v ! x) in
      v\<lparr>m_freeList := int x, m_pool := (m_pool v)[x := (m_pool v ! x)\<lparr>pk_next := m_freeList v\<rparr>],
        m_socks := (m_socks v)[i := s\<lparr>s_qHead := n, s_qTail := (if n < 0 then -1 else s_qTail s),
                                     s_qCount := s_qCount s - 1\<rparr>]\<rparr>)"

lemma recv_empty:
  assumes "layout v fl qs" "i < MaxSockets" "qs ! i = []"
  shows "udpRecvFrom (int i) buf maxlen peek v = Some (v, -1, buf, None)"
proof -
  have "sock_ok (m_pool v) (m_socks v ! i) (qs ! i)"
    using layout_lay [OF assms(1)] assms(2) layout_lengths [OF assms(1)] by (intro lay_sock) simp_all
  then show ?thesis using assms layout_lengths [OF assms(1)]
    by (simp add: udpRecvFrom_def sock_ok_def)
qed

lemma recv_closed: "\<not> vfd_ok v vfd \<Longrightarrow> udpRecvFrom vfd buf maxlen peek v = Some (v, -1, buf, None)"
  by (simp add: udpRecvFrom_def)

lemma pop_layout:
  assumes l: "layout v fl qs" and i: "i < MaxSockets" and u: "s_used (m_socks v ! i)" and q: "qs ! i = x # q"
  shows "layout (pop_state i x v) (x # fl) (qs[i := q])"
proof -
  note ln = layout_lengths [OF l]
  have s: "sock_ok (m_pool v) (m_socks v ! i) (qs ! i)"
    using layout_lay [OF l] i ln by (intro lay_sock) simp_all
  then have x: "x < PoolPackets" using q ln by (simp add: sock_ok_def)
  have sz: "sizes_ok v" using l by (rule layout_sizes)
  have "lay (m_pool v) (m_freeList v) ((m_socks v)[i := (m_socks v ! i)
       \<lparr>s_qHead := pk_next (m_pool v ! x),
        s_qTail := (if pk_next (m_pool v ! x) < 0 then -1 else s_qTail (m_socks v ! i)),
        s_qCount := s_qCount (m_socks v ! i) - 1\<rparr>]) [x] fl (qs[i := q])" (is "lay _ _ ?ss _ _ _")
    using layout_lay [OF l]
  proof (rule lay_replace_sock)
    show "i < length (m_socks v)" using i ln by simp
    show "mset [] + mset (qs ! i) = mset [x] + mset q" using q by simp
    show "sock_ok (m_pool v) ((m_socks v ! i)
       \<lparr>s_qHead := pk_next (m_pool v ! x),
        s_qTail := (if pk_next (m_pool v ! x) < 0 then -1 else s_qTail (m_socks v ! i)),
        s_qCount := s_qCount (m_socks v ! i) - 1\<rparr>) q"
      using s q u chain_neg [of "m_pool v" "pk_next (m_pool v ! x)" q]
      by (auto simp: sock_ok_def)
  qed
  then have "lay ((m_pool v)[x := (m_pool v ! x)\<lparr>pk_next := m_freeList v\<rparr>]) (int x) ?ss [] (x # fl) (qs[i := q])"
    by (rule lay_push_free)
  moreover have "sizes_ok (pop_state i x v)"
    unfolding pop_state_def Let_def
    by (rule sizes_ok_all [OF sz]) (use sizes_ok_pkt [OF sz] ln x in \<open>auto simp: nth_list_update\<close>)
  ultimately show ?thesis
    by (simp add: layout_def pop_state_def Let_def)
qed

lemma recv_ok:
  assumes l: "layout v fl qs" and i: "i < MaxSockets" and u: "s_used (m_socks v ! i)"
    and q: "qs ! i = x # q" and buf: "\<And>b. buf = Some b \<Longrightarrow> maxlen \<le> length b"
    and dg: "pkt_datagram (m_pool v ! x) = (ip, port, data)"
  shows "udpRecvFrom (int i) buf maxlen peek v =
           Some (if peek then v else pop_state i x v, int (min (length data) maxlen),
                 recv_buf buf (take maxlen data), Some (ip, port))"
    and "layout (pop_state i x v) (x # fl) (qs[i := q])"
proof -
  note ln = layout_lengths [OF l]
  have s: "sock_ok (m_pool v) (m_socks v ! i) (qs ! i)"
    using layout_lay [OF l] i ln by (intro lay_sock) simp_all
  then have h: "s_qHead (m_socks v ! i) = int x" and x: "x < PoolPackets"
    using q ln by (simp_all add: sock_ok_def)
  have sz: "sizes_ok v" using l by (rule layout_sizes)
  have pd: "length (pk_data (m_pool v ! x)) = MaxDatagram" "unat (pk_len (m_pool v ! x)) \<le> MaxDatagram"
    using sizes_ok_pkt [OF sz x] by simp_all
  have dl: "length data = unat (pk_len (m_pool v ! x))"
    and dt: "take n data = take (min n (unat (pk_len (m_pool v ! x)))) (pk_data (m_pool v ! x))" for n
    using dg pd by (auto simp: pkt_datagram_def min_def take_all)
  let ?n = "min (length data) maxlen"
  have out: "copy_out buf (pk_data (m_pool v ! x)) ?n = Some (recv_buf buf (take maxlen data))"
  proof (cases buf)
    case (Some b)
    then have "?n \<le> length b" using buf [OF Some] by simp
    moreover have "?n \<le> length (pk_data (m_pool v ! x))" using dl pd by simp
    moreover have "take ?n (pk_data (m_pool v ! x)) = take maxlen data"
      using dt [of maxlen] dl by (simp add: min.commute)
    ultimately show ?thesis using Some
      by (auto simp: copy_out_def recv_buf_def min_def split: if_splits)
  qed (simp add: recv_buf_def copy_out_def)
  have src: "pk_srcIp (m_pool v ! x) = ip" "pk_srcPort (m_pool v ! x) = port"
    using dg by (simp_all add: pkt_datagram_def)
  show "udpRecvFrom (int i) buf maxlen peek v =
           Some (if peek then v else pop_state i x v, int ?n,
                 recv_buf buf (take maxlen data), Some (ip, port))"
    using i u h x ln
    by (simp add: udpRecvFrom_def dl [symmetric] out src pop_state_def Let_def freePkt_def)
  show "layout (pop_state i x v) (x # fl) (qs[i := q])" using l i u q by (rule pop_layout)
qed

lemma pop_queue:
  assumes l: "layout v fl qs" and i: "i < MaxSockets" and u: "s_used (m_socks v ! i)"
    and q: "qs ! i = x # q" and j: "j < MaxSockets"
  shows "sock_queue (pop_state i x v) j = (if j = i then tl (sock_queue v i) else sock_queue v j)"
proof -
  note ln = layout_lengths [OF l]
  obtain ip port data where "pkt_datagram (m_pool v ! x) = (ip, port, data)" by (metis prod_cases3)
  with l i u q have l': "layout (pop_state i x v) (x # fl) (qs[i := q])"
    by (intro recv_ok(2) [where buf = None and maxlen = 0]) simp_all
  have "pkt_datagram (m_pool (pop_state i x v) ! k) = pkt_datagram (m_pool v ! k)" for k
    by (cases "k = x \<and> x < length (m_pool v)") (auto simp: pop_state_def Let_def list_update_beyond)
  with i j q ln show ?thesis
    by (simp add: layout_sock_queue [OF l'] layout_sock_queue [OF l] nth_list_update)
qed

section \<open>Opening and closing\<close>

lemma layout_socks_update:
  assumes l: "layout v fl qs" and i: "i < MaxSockets" and ok: "sock_ok (m_pool v) s (qs ! i)"
  shows "layout (v\<lparr>m_socks := (m_socks v)[i := s]\<rparr>) fl qs"
proof -
  have "lay (m_pool v) (m_freeList v) ((m_socks v)[i := s]) [] fl (qs[i := qs ! i])"
    using layout_lay [OF l] i ok layout_lengths [OF l] by (intro lay_replace_sock) simp_all
  then show ?thesis using layout_sizes [OF l] by (simp add: layout_def sizes_ok_def)
qed

text \<open>An operation that writes none of the fields the layout and the queues are read off.\<close>

definition same_pool :: "VNet \<Rightarrow> VNet \<Rightarrow> bool" where
  "same_pool v w \<longleftrightarrow> m_pool w = m_pool v \<and> m_freeList w = m_freeList v"

lemma sock_queue_cong:
  "m_pool w = m_pool v \<Longrightarrow> s_qHead (m_socks w ! i) = s_qHead (m_socks v ! i) \<Longrightarrow>
   sock_queue w i = sock_queue v i"
  by (simp add: sock_queue_def queue_idx_def)

lemma drain_ok:
  assumes "chain (m_pool v) h lost"
    and "lay (m_pool v) (m_freeList v) ss (lost @ lost') fl qs"
    and "length (m_pool v) = PoolPackets"
  shows "\<exists>p fh. close_drain h v = Some (v\<lparr>m_pool := p, m_freeList := fh\<rparr>) \<and>
           lay p fh ss lost' (rev lost @ fl) qs \<and> length p = PoolPackets \<and>
           (\<forall>k. pk_data (p ! k) = pk_data (m_pool v ! k) \<and> pk_len (p ! k) = pk_len (m_pool v ! k) \<and>
                pkt_datagram (p ! k) = pkt_datagram (m_pool v ! k))"
  using assms
proof (induction lost arbitrary: v h fl)
  case Nil
  then show ?case
    by (intro exI [of _ "m_pool v"] exI [of _ "m_freeList v"]) (simp add: close_drain.simps)
next
  case (Cons x lost)
  let ?p = "(m_pool v)[x := (m_pool v ! x)\<lparr>pk_next := m_freeList v\<rparr>]"
  let ?v = "v\<lparr>m_pool := ?p, m_freeList := int x\<rparr>"
  have h: "h = int x" and x: "x < PoolPackets"
    and c: "chain (m_pool v) (pk_next (m_pool v ! x)) lost" using Cons.prems by auto
  have "x \<notin> set lost" using lay_distinct [OF Cons.prems(2)] by simp
  with c have c': "chain (m_pool ?v) (pk_next (m_pool v ! x)) lost" by (simp add: chain_update)
  have l: "lay (m_pool ?v) (m_freeList ?v) ss (lost @ lost') (x # fl) qs"
    using Cons.prems(2) by (simp add: lay_push_free)
  have "length (m_pool ?v) = PoolPackets" using Cons.prems(3) by simp
  from Cons.IH [OF c' l this] obtain p fh where
    d: "close_drain (pk_next (m_pool v ! x)) ?v = Some (?v\<lparr>m_pool := p, m_freeList := fh\<rparr>)"
    and r: "lay p fh ss lost' (rev lost @ x # fl) qs" "length p = PoolPackets"
      "\<forall>k. pk_data (p ! k) = pk_data (m_pool ?v ! k) \<and> pk_len (p ! k) = pk_len (m_pool ?v ! k) \<and>
           pkt_datagram (p ! k) = pkt_datagram (m_pool ?v ! k)"
    by blast
  have "pk_data (?p ! k) = pk_data (m_pool v ! k) \<and> pk_len (?p ! k) = pk_len (m_pool v ! k) \<and>
        pkt_datagram (?p ! k) = pkt_datagram (m_pool v ! k)" for k
    using x Cons.prems(3) by (cases "k = x") simp_all
  moreover have "close_drain h v = Some (v\<lparr>m_pool := p, m_freeList := fh\<rparr>)"
    unfolding h using d x Cons.prems(3)
    by (subst close_drain.simps) (simp add: freePkt_def)
  ultimately show ?case using r
    by (intro exI [of _ p] exI [of _ fh]) simp
qed

lemma close_ok:
  assumes l: "layout v fl qs" and i: "i < MaxSockets" and u: "s_used (m_socks v ! i)"
  shows "\<exists>p fh. udpClose (int i) v =
             Some (v\<lparr>m_pool := p, m_freeList := fh, m_socks := (m_socks v)[i := empty_sock]\<rparr>) \<and>
           layout (v\<lparr>m_pool := p, m_freeList := fh, m_socks := (m_socks v)[i := empty_sock]\<rparr>)
             (rev (qs ! i) @ fl) (qs[i := []]) \<and>
           (\<forall>k. pkt_datagram (p ! k) = pkt_datagram (m_pool v ! k))"
proof -
  note ln = layout_lengths [OF l]
  have s: "sock_ok (m_pool v) (m_socks v ! i) (qs ! i)"
    using layout_lay [OF l] i ln by (intro lay_sock) simp_all
  then have c: "chain (m_pool v) (s_qHead (m_socks v ! i)) (qs ! i)" by (simp add: sock_ok_def)
  have "lay (m_pool v) (m_freeList v) ((m_socks v)[i := empty_sock]) (qs ! i @ []) fl (qs[i := []])"
    using layout_lay [OF l]
    by (rule lay_replace_sock) (use i ln in \<open>simp_all add: sock_ok_def empty_sock_def zero_sock_def\<close>)
  from drain_ok [OF c this] ln obtain p fh where
    d: "close_drain (s_qHead (m_socks v ! i)) v = Some (v\<lparr>m_pool := p, m_freeList := fh\<rparr>)"
    and r: "lay p fh ((m_socks v)[i := empty_sock]) [] (rev (qs ! i) @ fl) (qs[i := []])"
      "length p = PoolPackets"
      "\<And>k. pk_data (p ! k) = pk_data (m_pool v ! k)" "\<And>k. pk_len (p ! k) = pk_len (m_pool v ! k)"
      "\<And>k. pkt_datagram (p ! k) = pkt_datagram (m_pool v ! k)"
    by auto
  have "udpClose (int i) v =
      Some (v\<lparr>m_pool := p, m_freeList := fh, m_socks := (m_socks v)[i := empty_sock]\<rparr>)"
    using i u d ln by (simp add: udpClose_def empty_sock_def)
  moreover have "sizes_ok (v\<lparr>m_freeList := fh, m_pool := p, m_socks := (m_socks v)[i := empty_sock]\<rparr>)"
    by (rule sizes_ok_all [OF layout_sizes [OF l]])
       (use r ln sizes_ok_pkt [OF layout_sizes [OF l]] in simp_all)
  ultimately show ?thesis using r
    by (intro exI [of _ p] exI [of _ fh]) (simp add: layout_def sizes_ok_def)
qed

lemma open_ok:
  assumes l: "layout v fl qs"
  shows "layout (fst (udpOpen v)) fl qs"
proof (cases "find_index (\<lambda>s. \<not> s_used s) (m_socks v)")
  case None
  with l show ?thesis by (simp add: udpOpen_def)
next
  case (Some i)
  note ln = layout_lengths [OF l]
  have i: "i < MaxSockets" "\<not> s_used (m_socks v ! i)"
    using find_index_SomeD [OF Some] ln by simp_all
  have "sock_ok (m_pool v) (m_socks v ! i) (qs ! i)"
    using layout_lay [OF l] i ln by (intro lay_sock) simp_all
  then have "qs ! i = []" using i by (simp add: sock_ok_def)
  then have "sock_ok (m_pool v) (zero_sock\<lparr>s_used := True, s_qHead := -1, s_qTail := -1\<rparr>) (qs ! i)"
    by (simp add: sock_ok_def zero_sock_def)
  with l i show ?thesis
    by (simp add: udpOpen_def Some layout_socks_update)
qed

lemma set_sock_ok:
  assumes "layout v fl qs" "i < MaxSockets"
    and "s_used s = s_used (m_socks v ! i)" "s_qHead s = s_qHead (m_socks v ! i)"
      "s_qTail s = s_qTail (m_socks v ! i)" "s_qCount s = s_qCount (m_socks v ! i)"
  shows "layout (v\<lparr>m_socks := (m_socks v)[i := s]\<rparr>) fl qs"
proof -
  have "sock_ok (m_pool v) (m_socks v ! i) (qs ! i)"
    using layout_lay [OF assms(1)] assms(2) layout_lengths [OF assms(1)]
    by (intro lay_sock) simp_all
  then have "sock_ok (m_pool v) s (qs ! i)" using assms by (simp add: sock_ok_def)
  with assms(1,2) show ?thesis by (rule layout_socks_update)
qed

section \<open>Binding\<close>

lemma bind_tries_frame:
  "bind_tries n v = (w, p) \<Longrightarrow> \<exists>e. w = v\<lparr>m_nextEphemeral := e\<rparr>"
proof (induction n arbitrary: v)
  case 0
  then show ?case by (intro exI [of _ "m_nextEphemeral v"]) simp
next
  case (Suc n)
  then show ?case by (fastforce simp: Let_def split: if_splits)
qed

lemma layout_ephemeral [simp]: "layout (v\<lparr>m_nextEphemeral := e\<rparr>) fl qs = layout v fl qs"
  by (simp add: layout_def sizes_ok_def)

lemma bind_ok:
  assumes l: "layout v fl qs" shows "layout (fst (udpBind vfd ip port v)) fl qs"
proof (cases "vfd_ok v vfd")
  case True
  obtain w p where b: "(if port = 0 then bind_tries 4096 v else (v, port)) = (w, p)" by fastforce
  then obtain e where w: "w = v\<lparr>m_nextEphemeral := e\<rparr>"
    using bind_tries_frame [of 4096 v w p] by (cases "port = 0") (auto intro: that [of "m_nextEphemeral v"])
  have "layout w fl qs" using l w by simp
  moreover have "nat vfd < MaxSockets" using vfd_ok_range [OF True] by simp
  ultimately show ?thesis using True b
    by (auto simp: udpBind_def Let_def intro: set_sock_ok)
qed (use l in \<open>simp add: udpBind_def\<close>)

section \<open>A concrete interface\<close>

text \<open>
  A configured interface with one open socket, for the instances that show the theorems apply:
  address 10.0.0.1/24, MTU 1500, emitting.
\<close>

definition demo :: VNet where
  "demo = fst (udpOpen (configure 0x020000000001 0x0A000001 0xFFFFFF00 1500 (setEmit True (reset vnet_fresh))))"

lemma socks_eight: "replicate MaxSockets x = [x, x, x, x, x, x, x, x]"
  by (simp add: MaxSockets_def eval_nat_numeral)

lemma demo_fields:
  "m_socks demo = (replicate MaxSockets empty_sock)[0 := empty_sock\<lparr>s_used := True\<rparr>]"
  "m_emit demo" "m_emitted demo = []" "m_configured demo" "m_mac demo = 0x020000000001"
  "m_ip demo = 0x0A000001" "m_netmask demo = 0xFFFFFF00" "m_mtu demo = 1500" "m_ipId demo = 1"
  "m_nextEphemeral demo = 49152" "m_arp demo = replicate ArpEntries zero_arp"
  "m_reasm demo = replicate ReasmSlots zero_reasm" "m_echoSeq demo = 0"
  by (simp_all add: demo_def udpOpen_def configure_def setEmit_def reset_def vnet_fresh_def socks_eight
        empty_sock_def zero_sock_def zero_reasm_def MaxFrame_def map_replicate_const)

lemma layout_demo: "layout demo [0..<PoolPackets] (replicate MaxSockets [])"
proof -
  have "layout (reset vnet_fresh) [0..<PoolPackets] (replicate MaxSockets [])"
    by (rule layout_reset [OF sizes_ok_fresh])
  then have "layout (configure 0x020000000001 0x0A000001 0xFFFFFF00 1500 (setEmit True (reset vnet_fresh)))
      [0..<PoolPackets] (replicate MaxSockets [])"
    by (simp add: layout_def sizes_ok_def configure_def setEmit_def)
  then show ?thesis unfolding demo_def by (rule open_ok)
qed

lemma demo_inv: "pool_inv demo"
  using layout_demo by (rule layout_pool_inv)

lemma demo_vfd: "vfd_ok demo 0"
  by (simp add: vfd_ok_def demo_fields socks_eight) (simp add: MaxSockets_def)

section \<open>The ephemeral range\<close>

definition eph_next :: "u16 \<Rightarrow> u16" where
  "eph_next e = (if e + 1 = 0 then 49152 else e + 1)"

lemma eph_next_unat:
  "unat (eph_next e) = (if unat e = 65535 then 49152 else unat e + 1)"
proof (cases "unat e = 65535")
  case True
  then have "unat (e + 1) = 0" by (simp add: word_succ_unat)
  then have "e + 1 = 0" by (simp only: unsigned_eq_0_iff)
  with True show ?thesis by (simp add: eph_next_def)
next
  case False
  have "unat e < 65536" by simp
  with False have "unat (e + 1) = unat e + 1" by (simp add: word_succ_unat del: unat_u16_less)
  moreover from this have "e + 1 \<noteq> 0" by (metis Suc_eq_plus1 Zero_not_Suc unsigned_0)
  ultimately show ?thesis using False by (simp add: eph_next_def)
qed

lemma eph_iter_unat:
  "49152 \<le> unat e \<Longrightarrow> unat ((eph_next ^^ k) e) = 49152 + (unat e - 49152 + k) mod 16384"
proof (induction k)
  case 0
  have "unat e < 65536" by simp
  with 0 show ?case by (simp del: unat_u16_less)
next
  case (Suc k)
  let ?m = "(unat e - 49152 + k) mod 16384"
  have "?m < 16384" by simp
  have "(unat e - 49152 + Suc k) mod 16384 = (if ?m = 16383 then 0 else ?m + 1)"
    by (simp add: mod_Suc)
  with Suc \<open>?m < 16384\<close> show ?case by (simp add: eph_next_unat)
qed

lemma eph_iter_inj:
  assumes "49152 \<le> unat e" "n \<le> 16384" shows "inj_on (\<lambda>k. (eph_next ^^ k) e) {..<n}"
proof (rule inj_onI)
  fix a b assume ab: "a \<in> {..<n}" "b \<in> {..<n}" and eq: "(eph_next ^^ a) e = (eph_next ^^ b) e"
  let ?d = "unat e - 49152"
  have "(?d + a) mod 16384 = (?d + b) mod 16384"
    using arg_cong [OF eq, of unat] assms(1) by (simp add: eph_iter_unat)
  then have "(16384 dvd (a - b) \<and> b \<le> a) \<or> (16384 dvd (b - a) \<and> a \<le> b)"
    by (metis add_diff_cancel_left add_le_cancel_left mod_eq_dvd_iff_nat nat_le_linear)
  moreover have "a < 16384" "b < 16384" using ab assms(2) by auto
  ultimately show "a = b" using dvd_imp_le [of 16384 "a - b"] dvd_imp_le [of 16384 "b - a"]
    by (cases "a = b") auto
qed

lemma port_taken_ephemeral [simp]: "port_taken (v\<lparr>m_nextEphemeral := e\<rparr>) p = port_taken v p"
  by (simp add: port_taken_def)

lemma bind_tries_Suc:
  "bind_tries (Suc n) v =
     (if port_taken v (m_nextEphemeral v)
      then bind_tries n (v\<lparr>m_nextEphemeral := eph_next (m_nextEphemeral v)\<rparr>)
      else (v\<lparr>m_nextEphemeral := eph_next (m_nextEphemeral v)\<rparr>, m_nextEphemeral v))"
  by (simp add: Let_def eph_next_def)

text \<open>The search returns the first candidate that no open socket holds.\<close>

lemma bind_tries_first:
  "k < n \<Longrightarrow> \<not> port_taken v ((eph_next ^^ k) (m_nextEphemeral v)) \<Longrightarrow>
   (\<And>j. j < k \<Longrightarrow> port_taken v ((eph_next ^^ j) (m_nextEphemeral v))) \<Longrightarrow>
   bind_tries n v = (v\<lparr>m_nextEphemeral := (eph_next ^^ Suc k) (m_nextEphemeral v)\<rparr>,
                     (eph_next ^^ k) (m_nextEphemeral v))"
proof (induction n arbitrary: k v)
  case 0
  then show ?case by simp
next
  case (Suc n)
  let ?w = "v\<lparr>m_nextEphemeral := eph_next (m_nextEphemeral v)\<rparr>"
  have shift: "(eph_next ^^ j) (eph_next (m_nextEphemeral v)) = (eph_next ^^ Suc j) (m_nextEphemeral v)" for j
    by (simp add: funpow_swap1)
  show ?case
  proof (cases k)
    case 0
    with Suc.prems show ?thesis by (simp add: bind_tries_Suc del: bind_tries.simps)
  next
    case (Suc k')
    have "bind_tries n ?w = (?w\<lparr>m_nextEphemeral := (eph_next ^^ Suc k') (m_nextEphemeral ?w)\<rparr>,
                     (eph_next ^^ k') (m_nextEphemeral ?w))"
    proof (rule Suc.IH)
      show "k' < n" using Suc.prems(1) Suc by simp
      show "\<not> port_taken ?w ((eph_next ^^ k') (m_nextEphemeral ?w))"
        using Suc.prems(2) Suc by (simp add: shift)
      fix j assume "j < k'"
      then show "port_taken ?w ((eph_next ^^ j) (m_nextEphemeral ?w))"
        using Suc.prems(3) [of "Suc j"] Suc by (simp add: shift)
    qed
    moreover have "port_taken v (m_nextEphemeral v)" using Suc.prems(3) [of 0] Suc by simp
    ultimately show ?thesis using Suc
      by (simp add: bind_tries_Suc shift del: bind_tries.simps funpow.simps)
  qed
qed

lemma free_candidate:
  assumes "49152 \<le> unat (m_nextEphemeral v)" "length (m_socks v) = MaxSockets"
  shows "\<exists>k \<le> MaxSockets. \<not> port_taken v ((eph_next ^^ k) (m_nextEphemeral v))"
proof (rule ccontr)
  assume "\<not> ?thesis"
  then have t: "\<And>k. k \<le> MaxSockets \<Longrightarrow> port_taken v ((eph_next ^^ k) (m_nextEphemeral v))" by blast
  let ?f = "\<lambda>k. (eph_next ^^ k) (m_nextEphemeral v)"
  have "?f ` {..<9} \<subseteq> s_localPort ` set (m_socks v)"
  proof (rule image_subsetI)
    fix k :: nat assume "k \<in> {..<9}"
    then have "port_taken v (?f k)" using t [of k] by (simp add: MaxSockets_def)
    then obtain s where "s \<in> set (m_socks v)" "s_localPort s = ?f k"
      by (auto simp: port_taken_def list_ex_iff)
    then show "?f k \<in> s_localPort ` set (m_socks v)" by force
  qed
  then have "card (?f ` {..<9}) \<le> card (s_localPort ` set (m_socks v))" by (intro card_mono) auto
  also have "\<dots> \<le> length (m_socks v)"
    using card_image_le [of "set (m_socks v)" s_localPort] card_length [of "m_socks v"] by simp
  finally show False
    using card_image [OF eph_iter_inj [OF assms(1), of 9]] assms(2) by (simp add: MaxSockets_def)
qed

text \<open>
  Binding to port 0 always succeeds: a socket that is open gets a port of the ephemeral range
  that no open socket holds, within nine of the 4096 tries the code allows itself.
\<close>

theorem udpBind_ephemeral:
  assumes "pool_inv v" and "49152 \<le> unat (m_nextEphemeral v)" and "vfd_ok v vfd"
  shows "\<exists>w p. udpBind vfd ip 0 v = (w, 0) \<and> udpLocalPort vfd w = p \<and> 49152 \<le> unat p \<and>
           \<not> port_taken v p \<and> pool_inv w \<and> 49152 \<le> unat (m_nextEphemeral w)"
proof -
  from assms(1) obtain fl qs where l: "layout v fl qs" by (auto simp: pool_inv_def)
  note ln = layout_lengths [OF l]
  let ?e = "m_nextEphemeral v"
  let ?P = "\<lambda>k. \<not> port_taken v ((eph_next ^^ k) ?e)"
  define k where "k = (LEAST k. ?P k)"
  obtain k0 where k0: "k0 \<le> MaxSockets" "?P k0" using free_candidate [OF assms(2) ln(1)] by blast
  have k: "?P k" "k \<le> MaxSockets"
    using LeastI [of ?P, OF k0(2)] Least_le [of ?P, OF k0(2)] k0(1) by (auto simp: k_def)
  have below: "port_taken v ((eph_next ^^ j) ?e)" if "j < k" for j
    using not_less_Least [of j ?P] that by (auto simp: k_def)
  define p where "p = (eph_next ^^ k) ?e"
  define e where "e = (eph_next ^^ Suc k) ?e"
  have p: "49152 \<le> unat p" "49152 \<le> unat e"
    using eph_iter_unat [OF assms(2)] unfolding p_def e_def by (simp_all del: funpow.simps)
  have t: "bind_tries 4096 v = (v\<lparr>m_nextEphemeral := e\<rparr>, p)"
    unfolding p_def e_def using k below by (intro bind_tries_first) (auto simp: MaxSockets_def)
  have "p \<noteq> 0" using p by auto
  with t assms(3) have b: "udpBind vfd ip 0 v =
     (v\<lparr>m_nextEphemeral := e, m_socks := (m_socks v)[nat vfd := (m_socks v ! nat vfd)
                 \<lparr>s_localIp := (if ip = m_ip v then 0 else ip), s_localPort := p\<rparr>]\<rparr>, 0)"
    by (simp add: udpBind_def)
  have "pool_inv (fst (udpBind vfd ip 0 v))" using bind_ok [OF l] unfolding pool_inv_def by blast
  then show ?thesis
    using p vfd_ok_range [OF assms(3)] ln k(1) unfolding b
    by (auto simp: udpLocalPort_def vfd_ok_def p_def)
qed

theorem udpBind_ephemeral_witness:
  "\<exists>w p. udpBind 0 0x0A000001 0 demo = (w, 0) \<and> udpLocalPort 0 w = p \<and> 49152 \<le> unat p \<and>
     \<not> port_taken demo p \<and> pool_inv w \<and> 49152 \<le> unat (m_nextEphemeral w)"
  by (rule udpBind_ephemeral [OF demo_inv _ demo_vfd]) (simp add: demo_fields)

section \<open>The socket queues as message queues\<close>

definition sock_live :: "VNet \<Rightarrow> nat \<Rightarrow> bool" where
  "sock_live v i \<longleftrightarrow> i < MaxSockets \<and> s_used (m_socks v ! i)"

definition pool_room :: "VNet \<Rightarrow> nat" where
  "pool_room v = length (free_idx v)"

definition dgram_fits :: "datagram \<Rightarrow> bool" where
  "dgram_fits d \<longleftrightarrow> length (snd (snd d)) \<le> MaxDatagram"

definition push_dgram :: "nat \<Rightarrow> datagram \<Rightarrow> VNet \<Rightarrow> VNet option" where
  "push_dgram i d v = (case d of (ip, port, data) \<Rightarrow> pushToSocket i ip port data v)"

definition pop_dgram :: "nat \<Rightarrow> VNet \<Rightarrow> (datagram \<times> VNet) option" where
  "pop_dgram i v =
     (case udpRecvFrom (int i) (Some (replicate MaxDatagram 0)) MaxDatagram False v of
        Some (w, n, Some buf, Some (ip, port)) \<Rightarrow> Some ((ip, port, take (nat n) buf), w)
      | _ \<Rightarrow> None)"

definition queue_of :: "VNet \<Rightarrow> nat \<Rightarrow> datagram list" where
  "queue_of v i = (if i < MaxSockets then sock_queue v i else [])"

lemma layout_bump [simp]: "layout (bump f v) fl qs = layout v fl qs"
  by (simp add: layout_def bump_def sizes_ok_def)

lemma sock_queue_bump [simp]: "sock_queue (bump f v) i = sock_queue v i"
  by (simp add: sock_queue_def queue_idx_def bump_def)

lemma pool_room_layout: "layout v fl qs \<Longrightarrow> pool_room v = length fl"
  by (simp add: pool_room_def layout_free_idx)

lemma sock_live_push [simp]: "sock_live (push_state i x ip port data v) = sock_live v"
  by (rule ext) (auto simp: sock_live_def push_state_def Let_def link_sock_def nth_update_if)

lemma sock_live_pop [simp]: "sock_live (pop_state i x v) = sock_live v"
  by (rule ext) (auto simp: sock_live_def pop_state_def Let_def nth_update_if)

lemma pop_dgram_ok:
  assumes l: "layout v fl qs" and i: "sock_live v i" and q: "qs ! i = x # q"
    and dg: "pkt_datagram (m_pool v ! x) = (ip, port, data)"
  shows "pop_dgram i v = Some ((ip, port, data), pop_state i x v)"
proof -
  note ln = layout_lengths [OF l]
  have "sock_ok (m_pool v) (m_socks v ! i) (x # q)"
    using lay_sock [OF layout_lay [OF l], of i] i ln q by (simp add: sock_live_def)
  then have "x < PoolPackets" using ln by (simp add: sock_ok_def)
  with dg have "length data \<le> MaxDatagram"
    using sizes_ok_pkt [OF layout_sizes [OF l], of x] by (auto simp: pkt_datagram_def)
  then show ?thesis
    using recv_ok(1) [OF l _ _ q _ dg, of "Some (replicate MaxDatagram 0)" MaxDatagram False] i
    by (simp add: pop_dgram_def sock_live_def recv_buf_def)
qed

interpretation vq: message_queues pool_inv sock_live pool_room dgram_fits queue_of push_dgram pop_dgram
proof
  fix v i d
  assume a: "pool_inv v" "sock_live v i" "dgram_fits d" "0 < pool_room v"
  from a(1) obtain fl qs where l0: "layout v fl qs" by (auto simp: pool_inv_def)
  with a(4) obtain x fl' where "fl = x # fl'" by (cases fl) (auto simp: pool_room_layout)
  with l0 have l: "layout v (x # fl') qs" by simp
  obtain ip port data where d: "d = (ip, port, data)" by (metis prod_cases3)
  have i: "i < MaxSockets" "s_used (m_socks v ! i)" and len: "length data \<le> MaxDatagram"
    using a(2,3) by (simp_all add: sock_live_def dgram_fits_def d)
  let ?w = "push_state i x ip port data v"
  have "queue_of ?w = (queue_of v)(i := queue_of v i @ [d])"
    using push_queue [OF l i len] i by (auto simp: queue_of_def d fun_eq_iff)
  then show "\<exists>w. push_dgram i d v = Some w \<and> pool_inv w \<and> sock_live w = sock_live v \<and>
      Suc (pool_room w) = pool_room v \<and> queue_of w = (queue_of v)(i := queue_of v i @ [d])"
    using push_ok [OF l i len, of ip port]
    by (auto simp: push_dgram_def d pool_inv_def pool_room_layout [OF l] pool_room_layout)
next
  fix v i d
  assume a: "pool_inv v" "sock_live v i" "dgram_fits d" "pool_room v = 0"
  from a(1) obtain fl qs where l0: "layout v fl qs" by (auto simp: pool_inv_def)
  with a(4) have l: "layout v [] qs" by (simp add: pool_room_layout)
  obtain ip port data where d: "d = (ip, port, data)" by (metis prod_cases3)
  let ?w = "bump (dropNoBuffer_update ((+) 1)) v"
  have "layout ?w [] qs" using l by simp
  moreover have "queue_of ?w = queue_of v" by (simp add: queue_of_def fun_eq_iff)
  moreover have "sock_live ?w = sock_live v" by (simp add: sock_live_def bump_def fun_eq_iff)
  ultimately show "\<exists>w. push_dgram i d v = Some w \<and> pool_inv w \<and> sock_live w = sock_live v \<and>
      pool_room w = 0 \<and> queue_of w = queue_of v"
    using pushToSocket_full [OF l, of data i ip port] a(3) layout_pool_inv
    by (auto simp: push_dgram_def d dgram_fits_def pool_room_layout)
next
  fix v i d ds
  assume a: "pool_inv v" "sock_live v i" "queue_of v i = d # ds"
  from a(1) obtain fl qs where l: "layout v fl qs" by (auto simp: pool_inv_def)
  have i: "i < MaxSockets" "s_used (m_socks v ! i)" using a(2) by (simp_all add: sock_live_def)
  from a(3) i obtain x q where q: "qs ! i = x # q" "pkt_datagram (m_pool v ! x) = d"
    by (auto simp: queue_of_def layout_sock_queue [OF l])
  obtain ip port data where d: "d = (ip, port, data)" by (metis prod_cases3)
  have "queue_of (pop_state i x v) = (queue_of v)(i := ds)"
    using pop_queue [OF l i q(1)] i a(3) by (auto simp: queue_of_def fun_eq_iff)
  moreover have "layout (pop_state i x v) (x # fl) (qs[i := q])"
    using recv_ok(2) [OF l i q(1), of None 0] q(2) d by simp
  ultimately show "\<exists>w. pop_dgram i v = Some (d, w) \<and> pool_inv w \<and> sock_live w = sock_live v \<and>
      pool_room w = Suc (pool_room v) \<and> queue_of w = (queue_of v)(i := ds)"
    using pop_dgram_ok [OF l a(2) q(1)] q(2) d
    by (auto simp: pool_inv_def pool_room_layout [OF l] pool_room_layout)
next
  fix v i
  assume a: "pool_inv v" "sock_live v i" "queue_of v i = []"
  from a(1) obtain fl qs where l: "layout v fl qs" by (auto simp: pool_inv_def)
  have i: "i < MaxSockets" using a(2) by (simp add: sock_live_def)
  with a(3) have "qs ! i = []" by (simp add: queue_of_def layout_sock_queue [OF l])
  then show "pop_dgram i v = None" using recv_empty [OF l i] by (simp add: pop_dgram_def)
qed

text \<open>
  C9. Datagrams are delivered in order and whole: a burst pushed to an open socket while the pool
  has room is read back, after what was queued before, byte for byte, by one receive per datagram;
  every packet taken is back in the pool and no other socket's queue has changed.
\<close>

theorem socket_fifo:
  assumes "pool_inv v" "sock_live v i" "list_all dgram_fits ds" "length ds \<le> pool_room v"
  shows "\<exists>w u. vq.push_all i ds v = Some w \<and>
           vq.pop_n (length (queue_of v i) + length ds) i w = Some (queue_of v i @ ds, u) \<and>
           pool_inv u \<and> pool_room u = pool_room v + length (queue_of v i) \<and>
           queue_of u = (queue_of v)(i := [])"
  using assms by (rule vq.burst_fifo)

lemma demo_live: "sock_live demo 0" "pool_room demo = 32" "queue_of demo 0 = []"
  using layout_demo demo_vfd
  by (simp_all add: sock_live_def demo_fields socks_eight MaxSockets_def pool_room_layout
        PoolPackets_def queue_of_def layout_sock_queue)

theorem socket_fifo_witness:
  "\<exists>w u. vq.push_all 0 [(1, 2, [3]), (4, 5, [])] demo = Some w \<and>
     vq.pop_n (length (queue_of demo 0) + length [(1, 2, [3]) :: datagram, (4, 5, [])]) 0 w =
       Some (queue_of demo 0 @ [(1, 2, [3]), (4, 5, [])], u) \<and>
     pool_inv u \<and> pool_room u = pool_room demo + length (queue_of demo 0) \<and>
     queue_of u = (queue_of demo)(0 := [])"
  by (rule socket_fifo [OF demo_inv demo_live(1)])
     (simp_all add: demo_live dgram_fits_def MaxDatagram_def)

end
