(* ===== verification/VNetArp.thy ===== *)
theory VNetArp
  imports VNetState Interfaces
begin

text \<open>
  The neighbour table of \<^verbatim>\<open>source/net/vnet.cpp\<close> (\<^verbatim>\<open>lookupMac\<close>, \<^verbatim>\<open>learnMac\<close>): sixteen entries, learned
  from received frames, the least recently learned one replaced when all are taken.
\<close>

section \<open>Operations\<close>

fun arp_find :: "ArpEntry list \<Rightarrow> u32 \<Rightarrow> u64" where
  "arp_find [] ip = 0"
| "arp_find (e # es) ip = (if a_mac e \<noteq> 0 \<and> a_ip e = ip then a_mac e else arp_find es ip)"

definition lookupMac :: "VNet \<Rightarrow> u32 \<Rightarrow> u64" where
  "lookupMac v ip = (if isBroadcast v ip then MacBroadcast else arp_find (m_arp v) ip)"

text \<open>
  The loop of \<^verbatim>\<open>learnMac\<close> from index \<open>i\<close>: \<open>Inl\<close> the entry of this address, \<open>Inr\<close> the entry to take.
\<close>

function learn_scan :: "ArpEntry list \<Rightarrow> u32 \<Rightarrow> nat \<Rightarrow> nat \<Rightarrow> nat + nat" where
  "learn_scan es ip i oldest =
     (if i < length es then
        if a_mac (es ! i) \<noteq> 0 \<and> a_ip (es ! i) = ip then Inl i
        else if a_mac (es ! i) = 0 then Inr i
        else learn_scan es ip (i + 1)
               (if a_lastUsed (es ! i) < a_lastUsed (es ! oldest) then i else oldest)
      else Inr oldest)"
  by pat_completeness auto
termination by (relation "measure (\<lambda>(es, ip, i, oldest). length es - i)") auto

declare learn_scan.simps [simp del]

definition learnMac :: "u32 \<Rightarrow> u64 \<Rightarrow> VNet \<Rightarrow> VNet" where
  "learnMac ip mac v =
     (if ip = 0 \<or> mac = 0 \<or> mac = MacBroadcast then v
      else
        let tick = m_tick v + 1 in
        case learn_scan (m_arp v) ip 0 0 of
          Inl i \<Rightarrow>
            v\<lparr>m_arp := (m_arp v)[i := (m_arp v ! i)\<lparr>a_mac := mac, a_lastUsed := tick\<rparr>],
              m_tick := tick\<rparr>
        | Inr oldest \<Rightarrow>
            v\<lparr>m_arp := (m_arp v)[oldest := (m_arp v ! oldest)
                                 \<lparr>a_ip := ip, a_mac := mac, a_lastUsed := tick\<rparr>],
              m_tick := tick\<rparr>)"

section \<open>The table\<close>

text \<open>Taken entries come first and have different addresses.\<close>

definition arp_ok :: "ArpEntry list \<Rightarrow> bool" where
  "arp_ok es \<longleftrightarrow> length es = ArpEntries \<and>
     (\<forall>i j. i < j \<longrightarrow> j < length es \<longrightarrow> a_mac (es ! j) \<noteq> 0 \<longrightarrow>
        a_mac (es ! i) \<noteq> 0 \<and> a_ip (es ! i) \<noteq> a_ip (es ! j))"

lemma arp_find_zero_iff:
  "arp_find es ip = 0 \<longleftrightarrow> (\<forall>i < length es. \<not> (a_mac (es ! i) \<noteq> 0 \<and> a_ip (es ! i) = ip))"
proof (induction es)
  case (Cons e es)
  show ?case
  proof (cases "a_mac e \<noteq> 0 \<and> a_ip e = ip")
    case True
    then show ?thesis by (auto intro: exI [of _ 0])
  next
    case False
    with Cons show ?thesis by (auto simp: nth_Cons less_Suc_eq_0_disj split: nat.splits)
  qed
qed simp

lemma arp_find_at:
  assumes "arp_ok es" "i < length es" "a_mac (es ! i) \<noteq> 0"
  shows "arp_find es (a_ip (es ! i)) = a_mac (es ! i)"
proof -
  have "arp_find es ip = a_mac (es ! i)"
    if "i < length es" "a_mac (es ! i) \<noteq> 0" "a_ip (es ! i) = ip"
      "\<And>j. j < i \<Longrightarrow> a_ip (es ! j) \<noteq> ip" for es ip
    using that
  proof (induction es arbitrary: i)
    case (Cons e es)
    show ?case
    proof (cases i)
      case (Suc k)
      with Cons.prems(4) [of 0] have "a_ip e \<noteq> ip" by simp
      with Cons.prems Cons.IH [of k] Suc Cons.prems(4) [of "Suc j" for j] show ?thesis by force
    qed (use Cons.prems in auto)
  qed simp
  moreover have "a_ip (es ! j) \<noteq> a_ip (es ! i)" if "j < i" for j
    using assms that unfolding arp_ok_def by blast
  ultimately show ?thesis using assms(2,3) by blast
qed

text \<open>The value for an address is the one value of its entry.\<close>

lemma arp_find_iff:
  assumes "arp_ok es" "m \<noteq> 0"
  shows "arp_find es ip = m \<longleftrightarrow> (\<exists>i < length es. a_ip (es ! i) = ip \<and> a_mac (es ! i) = m)"
  using assms arp_find_at [OF assms(1)] arp_find_zero_iff [of es ip] by (metis (no_types, lifting))

lemma learn_scan_spec:
  assumes "\<And>j. j < i \<Longrightarrow> a_mac (es ! j) \<noteq> 0 \<and> a_ip (es ! j) \<noteq> ip"
    and "\<And>j. j < i \<Longrightarrow> a_lastUsed (es ! oldest) \<le> a_lastUsed (es ! j)"
    and "i = 0 \<longrightarrow> oldest = 0" "0 < i \<longrightarrow> oldest < i" "i \<le> length es" "es \<noteq> []"
  shows "case learn_scan es ip i oldest of
      Inl k \<Rightarrow> k < length es \<and> a_mac (es ! k) \<noteq> 0 \<and> a_ip (es ! k) = ip
    | Inr k \<Rightarrow> k < length es \<and>
        ((a_mac (es ! k) = 0 \<and> (\<forall>j < k. a_mac (es ! j) \<noteq> 0 \<and> a_ip (es ! j) \<noteq> ip)) \<or>
         (\<forall>j < length es. a_mac (es ! j) \<noteq> 0 \<and> a_ip (es ! j) \<noteq> ip \<and>
            a_lastUsed (es ! k) \<le> a_lastUsed (es ! j)))"
  using assms
proof (induction es ip i oldest rule: learn_scan.induct)
  case (1 es ip i oldest)
  show ?case
  proof (cases "i < length es \<and> a_mac (es ! i) \<noteq> 0 \<and> a_ip (es ! i) \<noteq> ip")
    case True
    let ?o = "if a_lastUsed (es ! i) < a_lastUsed (es ! oldest) then i else oldest"
    have "learn_scan es ip i oldest = learn_scan es ip (i + 1) ?o"
      using True by (simp add: learn_scan.simps [of es ip i])
    moreover have "case learn_scan es ip (i + 1) ?o of
      Inl k \<Rightarrow> k < length es \<and> a_mac (es ! k) \<noteq> 0 \<and> a_ip (es ! k) = ip
    | Inr k \<Rightarrow> k < length es \<and>
        ((a_mac (es ! k) = 0 \<and> (\<forall>j < k. a_mac (es ! j) \<noteq> 0 \<and> a_ip (es ! j) \<noteq> ip)) \<or>
         (\<forall>j < length es. a_mac (es ! j) \<noteq> 0 \<and> a_ip (es ! j) \<noteq> ip \<and>
            a_lastUsed (es ! k) \<le> a_lastUsed (es ! j)))"
    proof (rule 1(1))
      fix j assume "j < i + 1"
      then show "a_mac (es ! j) \<noteq> 0 \<and> a_ip (es ! j) \<noteq> ip"
        using True "1.prems"(1) [of j] by (cases "j = i") auto
    next
      fix j assume "j < i + 1"
      then show "a_lastUsed (es ! ?o) \<le> a_lastUsed (es ! j)"
        using "1.prems"(2) [of j] by (cases "j = i") auto
    qed (use True "1.prems" in auto)
    ultimately show ?thesis by simp
  next
    case False
    with "1.prems" show ?thesis by (auto simp: learn_scan.simps [of es ip i])
  qed
qed

lemmas learn_scan_start = learn_scan_spec [where i = 0 and oldest = 0, simplified]

section \<open>Learning\<close>

definition mac_usable :: "u32 \<Rightarrow> u64 \<Rightarrow> bool" where
  "mac_usable ip mac \<longleftrightarrow> ip \<noteq> 0 \<and> mac \<noteq> 0 \<and> mac \<noteq> MacBroadcast"

definition arp_inv :: "VNet \<Rightarrow> bool" where
  "arp_inv v \<longleftrightarrow> arp_ok (m_arp v)"

definition arp_full :: "VNet \<Rightarrow> bool" where
  "arp_full v \<longleftrightarrow> (\<forall>e \<in> set (m_arp v). a_mac e \<noteq> 0)"

lemma learnMac_unusable: "\<not> mac_usable ip mac \<Longrightarrow> learnMac ip mac v = v"
  by (auto simp: learnMac_def mac_usable_def)

text \<open>
  The entry \<^verbatim>\<open>learnMac\<close> may take for an address: its own, else the first free one, else one that is
  least recently learned.
\<close>

definition put_slot :: "ArpEntry list \<Rightarrow> u32 \<Rightarrow> nat \<Rightarrow> bool" where
  "put_slot es ip k \<longleftrightarrow> k < length es \<and>
     ((a_mac (es ! k) \<noteq> 0 \<and> a_ip (es ! k) = ip) \<or>
      (a_mac (es ! k) = 0 \<and> (\<forall>j < k. a_mac (es ! j) \<noteq> 0 \<and> a_ip (es ! j) \<noteq> ip)) \<or>
      (\<forall>j < length es. a_mac (es ! j) \<noteq> 0 \<and> a_ip (es ! j) \<noteq> ip \<and>
         a_lastUsed (es ! k) \<le> a_lastUsed (es ! j)))"

lemma learnMac_entry:
  assumes "arp_inv v" "mac_usable ip mac"
  obtains k where "put_slot (m_arp v) ip k" and
    "learnMac ip mac v = v\<lparr>m_arp := (m_arp v)[k := \<lparr>a_ip = ip, a_mac = mac, a_lastUsed = m_tick v + 1\<rparr>],
                           m_tick := m_tick v + 1\<rparr>"
proof -
  have len: "length (m_arp v) = ArpEntries" using assms(1) by (simp add: arp_inv_def arp_ok_def)
  then have ne: "m_arp v \<noteq> []" by (auto simp: ArpEntries_def)
  have rec: "e\<lparr>a_ip := i, a_mac := m, a_lastUsed := t\<rparr> = \<lparr>a_ip = i, a_mac = m, a_lastUsed = t\<rparr>"
    "e\<lparr>a_mac := m, a_lastUsed := t\<rparr> = \<lparr>a_ip = a_ip e, a_mac = m, a_lastUsed = t\<rparr>" for e i m t
    by (cases e, simp)+
  show thesis
  proof (cases "learn_scan (m_arp v) ip 0 0")
    case (Inl k)
    with learn_scan_start [OF ne, of ip] assms(2) show ?thesis
      by (intro that [of k]) (auto simp: put_slot_def learnMac_def mac_usable_def rec Let_def)
  next
    case (Inr k)
    with learn_scan_start [OF ne, of ip] assms(2) show ?thesis
      by (intro that [of k]) (auto simp: put_slot_def learnMac_def mac_usable_def rec Let_def)
  qed
qed

lemma arp_ok_put:
  assumes "arp_ok es" "put_slot es ip k" "m \<noteq> 0"
  shows "arp_ok (es[k := \<lparr>a_ip = ip, a_mac = m, a_lastUsed = t\<rparr>])"
proof -
  let ?e = "es[k := \<lparr>a_ip = ip, a_mac = m, a_lastUsed = t\<rparr>]"
  have k: "k < length es" using assms(2) by (simp add: put_slot_def)
  have ok: "a_mac (es ! i) \<noteq> 0 \<and> a_ip (es ! i) \<noteq> a_ip (es ! j)"
    if "i < j" "j < length es" "a_mac (es ! j) \<noteq> 0" for i j
    using assms(1) that unfolding arp_ok_def by blast
  have before: "a_mac (es ! i) \<noteq> 0 \<and> a_ip (es ! i) \<noteq> ip" if "i < k" for i
    using assms(2) unfolding put_slot_def
    by (elim conjE disjE) (use that ok [of i k] in auto)
  have after: "a_ip (es ! j) \<noteq> ip" if "k < j" "j < length es" "a_mac (es ! j) \<noteq> 0" for j
    using assms(2) unfolding put_slot_def
    by (elim conjE disjE) (use that ok [of k j] in auto)
  have "a_mac (?e ! i) \<noteq> 0 \<and> a_ip (?e ! i) \<noteq> a_ip (?e ! j)"
    if ij: "i < j" "j < length es" "a_mac (?e ! j) \<noteq> 0" for i j
  proof -
    consider "j = k" | "i = k" | "i \<noteq> k" "j \<noteq> k" by blast
    then show ?thesis
    proof cases
      case 1
      with ij k before [of i] show ?thesis by (simp add: nth_update_if)
    next
      case 2
      with ij k assms(3) after [of j] show ?thesis by (simp add: nth_update_if)
    next
      case 3
      with ij ok [of i j] show ?thesis by (simp add: nth_update_if)
    qed
  qed
  with assms(1) show ?thesis by (simp add: arp_ok_def)
qed

definition arp_lookup :: "VNet \<Rightarrow> u32 \<Rightarrow> u64 option" where
  "arp_lookup v ip = (if arp_find (m_arp v) ip = 0 then None else Some (arp_find (m_arp v) ip))"

lemma arp_lookup_iff:
  "arp_inv v \<Longrightarrow> arp_lookup v ip = Some m \<longleftrightarrow>
   m \<noteq> 0 \<and> (\<exists>i < length (m_arp v). a_ip (m_arp v ! i) = ip \<and> a_mac (m_arp v ! i) = m)"
  using arp_find_iff [of "m_arp v" m ip] by (auto simp: arp_lookup_def arp_inv_def)

interpretation ac: binding_cache arp_inv mac_usable arp_lookup learnMac
proof
  fix v ip mac
  assume inv: "arp_inv v"
  show inv': "arp_inv (learnMac ip mac v)"
  proof (cases "mac_usable ip mac")
    case True
    obtain k where "put_slot (m_arp v) ip k" "m_arp (learnMac ip mac v) = (m_arp v)[k :=
        \<lparr>a_ip = ip, a_mac = mac, a_lastUsed = m_tick v + 1\<rparr>]"
      by (rule learnMac_entry [OF inv True]) simp
    with inv True show ?thesis by (simp add: arp_inv_def mac_usable_def arp_ok_put)
  qed (simp add: learnMac_unusable inv)
  show "arp_lookup (learnMac ip mac v) ip = Some mac" if use: "mac_usable ip mac"
  proof -
    obtain k where k: "put_slot (m_arp v) ip k" "m_arp (learnMac ip mac v) = (m_arp v)[k :=
        \<lparr>a_ip = ip, a_mac = mac, a_lastUsed = m_tick v + 1\<rparr>]"
      by (rule learnMac_entry [OF inv use]) simp
    then have "k < length (m_arp v)" by (simp add: put_slot_def)
    with k(2) use show ?thesis
      by (auto simp: arp_lookup_iff [OF inv'] mac_usable_def intro!: exI [of _ k])
  qed
  show "arp_lookup v ip' = Some m"
    if "ip' \<noteq> ip" "arp_lookup (learnMac ip mac v) ip' = Some m" for ip' m
  proof (cases "mac_usable ip mac")
    case True
    obtain k where "m_arp (learnMac ip mac v) = (m_arp v)[k :=
        \<lparr>a_ip = ip, a_mac = mac, a_lastUsed = m_tick v + 1\<rparr>]"
      by (rule learnMac_entry [OF inv True]) simp
    with that show ?thesis
      by (auto simp: arp_lookup_iff [OF inv'] arp_lookup_iff [OF inv] nth_update_if split: if_splits)
  qed (use that in \<open>simp add: learnMac_unusable\<close>)
next
  show "\<not> mac_usable ip mac \<Longrightarrow> learnMac ip mac v = v" for v ip mac
    by (rule learnMac_unusable)
qed

text \<open>Nothing is forgotten while there is a free entry.\<close>

lemma learn_keeps:
  assumes inv: "arp_inv v" and free: "\<not> arp_full v" and m: "arp_lookup v ip' = Some m" and ne: "ip' \<noteq> ip"
  shows "arp_lookup (learnMac ip mac v) ip' = Some m"
proof (cases "mac_usable ip mac")
  case True
  obtain k where k: "put_slot (m_arp v) ip k" "m_arp (learnMac ip mac v) = (m_arp v)[k :=
      \<lparr>a_ip = ip, a_mac = mac, a_lastUsed = m_tick v + 1\<rparr>]"
    by (rule learnMac_entry [OF inv True]) simp
  from m obtain i where i: "m \<noteq> 0" "i < length (m_arp v)" "a_ip (m_arp v ! i) = ip'" "a_mac (m_arp v ! i) = m"
    by (auto simp: arp_lookup_iff [OF inv])
  from free obtain j where "j < length (m_arp v)" "a_mac (m_arp v ! j) = 0"
    by (auto simp: arp_full_def in_set_conv_nth)
  with k(1) i ne have "i \<noteq> k" unfolding put_slot_def by metis
  with i k(2) show ?thesis
    by (auto simp: arp_lookup_iff [OF ac.learn_inv [OF inv]] nth_update_if intro!: exI [of _ i])
qed (use m in \<open>simp add: learnMac_unusable\<close>)

lemma lookupMac_arp: "\<not> isBroadcast v ip \<Longrightarrow> arp_lookup v ip = Some m \<Longrightarrow> lookupMac v ip = m"
  by (auto simp: lookupMac_def arp_lookup_def split: if_splits)

lemma lookupMac_zero_iff: "lookupMac v ip = 0 \<longleftrightarrow> \<not> isBroadcast v ip \<and> arp_lookup v ip = None"
  by (simp add: lookupMac_def arp_lookup_def MacBroadcast_def)

lemma learnMac_frame [frame_simps]:
  "m_emit (learnMac ip mac v) = m_emit v" "m_emitted (learnMac ip mac v) = m_emitted v"
  "m_configured (learnMac ip mac v) = m_configured v" "m_mac (learnMac ip mac v) = m_mac v"
  "m_ip (learnMac ip mac v) = m_ip v" "m_netmask (learnMac ip mac v) = m_netmask v"
  "m_mtu (learnMac ip mac v) = m_mtu v" "m_ipId (learnMac ip mac v) = m_ipId v"
  "m_nextEphemeral (learnMac ip mac v) = m_nextEphemeral v"
  "m_socks (learnMac ip mac v) = m_socks v" "m_pool (learnMac ip mac v) = m_pool v"
  "m_freeList (learnMac ip mac v) = m_freeList v" "m_reasm (learnMac ip mac v) = m_reasm v"
  "m_stats (learnMac ip mac v) = m_stats v" "m_echoSeq (learnMac ip mac v) = m_echoSeq v"
  "length (m_arp (learnMac ip mac v)) = length (m_arp v)"
  by (simp_all add: learnMac_def Let_def split: sum.splits)

text \<open>
  Neighbours: after any sequence of observations the table is well formed, a lookup that answers
  gives the MAC observed last for that address, the address observed last is known, and while an
  entry is free nothing is forgotten.
\<close>

theorem learn_lookup:
  assumes "arp_inv v"
  shows "arp_inv (ac.observe obs v) \<and>
    (\<forall>ip m. arp_lookup (ac.observe obs v) ip = Some m \<longrightarrow>
       m = (if ac.seen ip obs = [] then the (arp_lookup v ip) else last (ac.seen ip obs))) \<and>
    (\<forall>ip' m'. mac_usable ip' m' \<longrightarrow>
       arp_lookup (learnMac ip' m' (ac.observe obs v)) ip' = Some m') \<and>
    (\<forall>ip m ip' m'. \<not> arp_full (ac.observe obs v) \<longrightarrow> ip \<noteq> ip' \<longrightarrow>
       arp_lookup (ac.observe obs v) ip = Some m \<longrightarrow>
       arp_lookup (learnMac ip' m' (ac.observe obs v)) ip = Some m)"
  using ac.observe_inv [OF assms] ac.find_observed [OF assms] ac.learn_same learn_keeps
  by blast

lemma arp_inv_reset: "sizes_ok v \<Longrightarrow> arp_inv (reset v)"
  by (simp add: arp_inv_def arp_ok_def reset_def zero_arp_def sizes_ok_def)

theorem learn_lookup_witness:
  "arp_lookup (learnMac 0x0A000003 7 (ac.observe [(0x0A000002, 5), (0x0A000002, 6)] (reset vnet_fresh)))
     0x0A000003 = Some 7"
proof -
  have "mac_usable 0x0A000003 7" by (simp add: mac_usable_def MacBroadcast_def)
  with learn_lookup [OF arp_inv_reset [OF sizes_ok_fresh], of "[(0x0A000002, 5), (0x0A000002, 6)]"]
  show ?thesis by blast
qed

end
