(* ===== verification/VNetSend.thy ===== *)
theory VNetSend
  imports VNetSock VNetArp
begin

text \<open>
  The outbound half of \<^verbatim>\<open>source/net/vnet.cpp\<close>: UDP and ICMP assembly, IPv4 fragmentation, the header
  checksum and ARP requests.  Packets are assembled by checked writes into a buffer, in the order
  of the code; the lemmas give the bytes that reach the emit callback.
\<close>

section \<open>Operations\<close>

text \<open>
  An uninitialised automatic buffer.  Its contents are indeterminate in C++; the assembly lemmas
  hold for any contents, so none of them reaches a frame.
\<close>

definition stackbuf :: "nat \<Rightarrow> u8 list" where
  "stackbuf n = replicate n 0"

definition emit :: "u64 \<Rightarrow> u16 \<Rightarrow> u8 list \<Rightarrow> VNet \<Rightarrow> VNet" where
  "emit dstMac etherType payload v = v\<lparr>m_emitted := m_emitted v @ [(dstMac, etherType, payload)]\<rparr>"

definition build_ip ::
  "u8 list \<Rightarrow> u32 \<Rightarrow> u32 \<Rightarrow> u8 \<Rightarrow> u16 \<Rightarrow> u16 \<Rightarrow> bool \<Rightarrow> u8 list \<Rightarrow> u8 list option" where
  "build_ip pkt srcIp dstIp proto ident fragOffsetBlocks mf payload = do {
     pkt \<leftarrow> wr8 pkt ip4_VerIhl 0x45;
     pkt \<leftarrow> wr8 pkt ip4_Tos 0;
     pkt \<leftarrow> wr16 pkt ip4_TotalLen (of_nat (ip4_MinHeader + length payload));
     pkt \<leftarrow> wr16 pkt ip4_Id ident;
     pkt \<leftarrow> wr16 pkt ip4_FlagsFrag ((if mf then ip4_FlagMoreFragments else 0) OR fragOffsetBlocks);
     pkt \<leftarrow> wr8 pkt ip4_Ttl 64;
     pkt \<leftarrow> wr8 pkt ip4_Proto proto;
     pkt \<leftarrow> wr16 pkt ip4_Csum 0;
     pkt \<leftarrow> wr32 pkt ip4_Src srcIp;
     pkt \<leftarrow> wr32 pkt ip4_Dst dstIp;
     hdr \<leftarrow> slice pkt 0 ip4_MinHeader;
     pkt \<leftarrow> wr16 pkt ip4_Csum (checksum16 hdr 0);
     memcpy pkt ip4_MinHeader payload }"

definition emitIpFragment ::
  "u64 \<Rightarrow> u32 \<Rightarrow> u8 \<Rightarrow> u16 \<Rightarrow> u16 \<Rightarrow> bool \<Rightarrow> u8 list \<Rightarrow> VNet \<Rightarrow> VNet option" where
  "emitIpFragment dstMac dstIp proto ident fragOffsetBlocks mf payload v =
     (if \<not> m_emit v then Some v
      else if MaxFrame < ip4_MinHeader + length payload
      then Some (bump (dropTooBig_update ((+) 1)) v)
      else do {
        pkt \<leftarrow> build_ip (stackbuf MaxFrame) (m_ip v) dstIp proto ident fragOffsetBlocks mf payload;
        frame \<leftarrow> slice pkt 0 (ip4_MinHeader + length payload);
        Some (bump (txFrames_update ((+) 1)) (emit dstMac EtherType_IPv4 frame v)) })"

definition build_arp :: "u8 list \<Rightarrow> u16 \<Rightarrow> u64 \<Rightarrow> u32 \<Rightarrow> u8 list \<Rightarrow> u32 \<Rightarrow> u8 list option" where
  "build_arp pkt op senderMac senderIp targetMac targetIp = do {
     pkt \<leftarrow> wr16 pkt arp4_HwType 1;
     pkt \<leftarrow> wr16 pkt arp4_ProtoType EtherType_IPv4;
     pkt \<leftarrow> wr8 pkt arp4_HwLen 6;
     pkt \<leftarrow> wr8 pkt arp4_ProtoLen 4;
     pkt \<leftarrow> wr16 pkt arp4_Op op;
     pkt \<leftarrow> memcpy pkt arp4_SenderMac (macToBytes senderMac);
     pkt \<leftarrow> wr32 pkt arp4_SenderIp senderIp;
     pkt \<leftarrow> memcpy pkt arp4_TargetMac targetMac;
     wr32 pkt arp4_TargetIp targetIp }"

definition sendArpRequest :: "u32 \<Rightarrow> VNet \<Rightarrow> VNet option" where
  "sendArpRequest targetIp v =
     (if \<not> m_emit v then Some v
      else do {
        req \<leftarrow> build_arp (stackbuf arp4_Size) arp4_OpRequest (m_mac v) (m_ip v) (replicate 6 0) targetIp;
        Some (bump (txArp_update ((+) 1)) (bump (txFrames_update ((+) 1))
                (emit MacBroadcast EtherType_ARP req v))) })"

text \<open>The fragmentation loop; it would not end if a chunk could be empty.\<close>

partial_function (option) frag_loop ::
  "u64 \<Rightarrow> u32 \<Rightarrow> u8 \<Rightarrow> u16 \<Rightarrow> nat \<Rightarrow> u8 list \<Rightarrow> nat \<Rightarrow> VNet \<Rightarrow> VNet option" where
  "frag_loop dstMac dstIp proto ident chunk payload off v =
     (if off < length payload then do {
        let tk = (if chunk < length payload - off then chunk else length payload - off);
        let mf = (off + tk < length payload);
        part \<leftarrow> slice payload off tk;
        v1 \<leftarrow> emitIpFragment dstMac dstIp proto ident (of_nat (off div 8)) mf part v;
        frag_loop dstMac dstIp proto ident chunk payload (off + tk) v1 }
      else Some v)"

declare frag_loop.simps [code]

definition sendIpv4 :: "u32 \<Rightarrow> u8 \<Rightarrow> u8 list \<Rightarrow> VNet \<Rightarrow> VNet option" where
  "sendIpv4 dstIp proto payload v =
     (let dstMac = lookupMac v dstIp in
      if dstMac = 0 then sendArpRequest dstIp v
      else
        let maxPayload = unat (ucast (m_mtu v) - of_nat ip4_MinHeader :: u32);
            ident = m_ipId v;
            v1 = v\<lparr>m_ipId := m_ipId v + 1\<rparr>
        in if length payload \<le> maxPayload
           then emitIpFragment dstMac dstIp proto ident 0 False payload v1
           else frag_loop dstMac dstIp proto ident ((maxPayload div 8) * 8) payload 0 v1)"

definition build_udp :: "u8 list \<Rightarrow> u16 \<Rightarrow> u16 \<Rightarrow> u8 list \<Rightarrow> nat \<Rightarrow> u8 list option" where
  "build_udp datagram srcPort dstPort bytes len = do {
     datagram \<leftarrow> wr16 datagram udp4_SrcPort srcPort;
     datagram \<leftarrow> wr16 datagram udp4_DstPort dstPort;
     datagram \<leftarrow> wr16 datagram udp4_Length (of_nat (udp4_Header + len));
     datagram \<leftarrow> wr16 datagram udp4_Csum 0;
     memcpy datagram udp4_Header bytes }"

definition pseudo_sum :: "u32 \<Rightarrow> u32 \<Rightarrow> nat \<Rightarrow> u32" where
  "pseudo_sum srcIp dstIp udpLen =
     drop_bit 16 srcIp + (srcIp AND 0xFFFF) + drop_bit 16 dstIp + (dstIp AND 0xFFFF) +
     ucast IpProto_UDP + of_nat udpLen"

text \<open>\<open>buf\<close> is \<open>None\<close> for a null pointer; \<open>len\<close> bytes are read from it otherwise.\<close>

definition udpSendTo ::
  "int \<Rightarrow> u32 \<Rightarrow> u16 \<Rightarrow> u8 list option \<Rightarrow> nat \<Rightarrow> VNet \<Rightarrow> (VNet \<times> int) option" where
  "udpSendTo vfd dstIp dstPort buf len v =
     (if \<not> vfd_ok v vfd then Some (v, -1)
      else if \<not> m_configured v then Some (v, -1)
      else if MaxDatagram < len then Some (bump (dropTooBig_update ((+) 1)) v, -1)
      else
        let (v1, bound) = (if udpLocalPort vfd v = 0 then udpBind vfd 0 0 v else (v, 0)) in
        if bound \<noteq> 0 then Some (v1, -1)
        else do {
          s \<leftarrow> aget (m_socks v1) vfd;
          bytes \<leftarrow> (case buf of None \<Rightarrow> Some [] | Some b \<Rightarrow> slice b 0 len);
          datagram \<leftarrow> build_udp (stackbuf (udp4_Header + MaxDatagram)) (s_localPort s) dstPort bytes len;
          let udpLen = udp4_Header + len;
          summed \<leftarrow> slice datagram 0 udpLen;
          let csum = checksum16 summed (pseudo_sum (m_ip v1) dstIp udpLen);
          datagram \<leftarrow> wr16 datagram udp4_Csum (if csum = 0 then 0xFFFF else csum);
          payload \<leftarrow> slice datagram 0 udpLen;
          v2 \<leftarrow> sendIpv4 dstIp IpProto_UDP payload v1;
          Some (bump (txUdp_update ((+) 1)) v2, int len) })"

definition build_echo :: "u16 \<Rightarrow> u8 list option" where
  "build_echo seq = do {
     icmp \<leftarrow> wr8 (replicate 16 0) icmp4_Type icmp4_EchoRequest;
     icmp \<leftarrow> wr8 icmp icmp4_Code 0;
     icmp \<leftarrow> wr16 icmp icmp4_Csum 0;
     icmp \<leftarrow> wr16 icmp 4 0x5A54;
     icmp \<leftarrow> wr16 icmp 6 seq;
     icmp \<leftarrow> memcpy icmp 8 (replicate 8 0x5A);
     wr16 icmp icmp4_Csum (checksum16 icmp 0) }"

definition sendEchoRequest :: "u32 \<Rightarrow> VNet \<Rightarrow> (VNet \<times> bool) option" where
  "sendEchoRequest dstIp v =
     (if \<not> m_configured v \<or> dstIp = 0 then Some (v, False)
      else do {
        icmp \<leftarrow> build_echo (m_echoSeq v);
        v1 \<leftarrow> sendIpv4 dstIp IpProto_ICMP icmp (v\<lparr>m_echoSeq := m_echoSeq v + 1\<rparr>);
        Some (bump (txIcmp_update ((+) 1)) v1, True) })"

section \<open>Assembly\<close>

definition ip_header :: "u32 \<Rightarrow> u32 \<Rightarrow> u8 \<Rightarrow> u16 \<Rightarrow> u16 \<Rightarrow> nat \<Rightarrow> u16 \<Rightarrow> u8 list" where
  "ip_header src dst proto ident ff len csum =
     [0x45, 0] @ be16_bytes (of_nat (20 + len)) @ be16_bytes ident @ be16_bytes ff @ [64, proto] @
     be16_bytes csum @ be32_bytes src @ be32_bytes dst"

definition ip_packet :: "u32 \<Rightarrow> u32 \<Rightarrow> u8 \<Rightarrow> u16 \<Rightarrow> u16 \<Rightarrow> u8 list \<Rightarrow> u8 list" where
  "ip_packet src dst proto ident ff payload =
     ip_header src dst proto ident ff (length payload)
       (checksum16 (ip_header src dst proto ident ff (length payload) 0) 0) @ payload"

lemma ip_header_length [simp]: "length (ip_header src dst proto ident ff len csum) = 20"
  by (simp add: ip_header_def)

lemma memcpy_at:
  "off = length pre \<Longrightarrow> length src \<le> length rest \<Longrightarrow>
   memcpy (pre @ rest) off src = Some (pre @ src @ drop (length src) rest)"
  by simp

lemma drop_past_header: "drop (20 + n) xs = drop n (drop 20 xs)" "drop (8 + n) xs = drop n (drop 8 xs)"
  by (simp_all add: add.commute)

lemma split_list_20:
  "20 \<le> length b \<Longrightarrow> \<exists>a0 a1 a2 a3 a4 a5 a6 a7 a8 a9 a10 a11 a12 a13 a14 a15 a16 a17 a18 a19 r.
     b = a0 # a1 # a2 # a3 # a4 # a5 # a6 # a7 # a8 # a9 # a10 # a11 # a12 # a13 # a14 # a15 #
         a16 # a17 # a18 # a19 # r"
  by (simp add: numeral_eq_Suc Suc_le_length_iff) (elim exE conjE, simp)

lemma build_ip_bytes:
  assumes "20 + length payload \<le> length b"
  shows "build_ip b src dst proto ident blocks mf payload =
    Some (ip_packet src dst proto ident ((if mf then 0x2000 else 0) OR blocks) payload @
          drop (20 + length payload) b)"
proof -
  have "20 \<le> length b" using assms by simp
  from split_list_20 [OF this] obtain a0 a1 a2 a3 a4 a5 a6 a7 a8 a9 a10 a11 a12 a13 a14 a15 a16
      a17 a18 a19 r where
    b: "b = a0 # a1 # a2 # a3 # a4 # a5 # a6 # a7 # a8 # a9 # a10 # a11 # a12 # a13 # a14 # a15 #
         a16 # a17 # a18 # a19 # r" by (elim exE) (erule that)
  then have "length payload \<le> length r" using assms by simp
  then show ?thesis
    by (simp add: b build_ip_def wr8_def wr16_eq wr32_eq ip_packet_def ip_header_def memcpy_def
          slice_def be16_bytes_def be32_bytes_def drop_past_header Let_def)
qed

definition udp_header :: "u16 \<Rightarrow> u16 \<Rightarrow> nat \<Rightarrow> u16 \<Rightarrow> u8 list" where
  "udp_header sp dp len csum =
     be16_bytes sp @ be16_bytes dp @ be16_bytes (of_nat (8 + len)) @ be16_bytes csum"

lemma udp_header_length [simp]: "length (udp_header sp dp len csum) = 8"
  by (simp add: udp_header_def)

lemma split_list_8:
  "8 \<le> length b \<Longrightarrow> \<exists>a0 a1 a2 a3 a4 a5 a6 a7 r. b = a0 # a1 # a2 # a3 # a4 # a5 # a6 # a7 # r"
  by (simp add: numeral_eq_Suc Suc_le_length_iff) (elim exE conjE, simp)

lemma build_udp_bytes:
  assumes "8 + length bytes \<le> length b"
  shows "build_udp b sp dp bytes len = Some (udp_header sp dp len 0 @ bytes @ drop (8 + length bytes) b)"
proof -
  have "8 \<le> length b" using assms by simp
  from split_list_8 [OF this] obtain a0 a1 a2 a3 a4 a5 a6 a7 r where
    b: "b = a0 # a1 # a2 # a3 # a4 # a5 # a6 # a7 # r" by (elim exE) (erule that)
  then have "length bytes \<le> length r" using assms by simp
  then show ?thesis
    by (simp add: b build_udp_def wr16_eq udp_header_def memcpy_def be16_bytes_def
          drop_past_header Let_def)
qed

lemma wr16_udp_csum:
  "wr16 (udp_header sp dp len c @ rest) udp4_Csum csum = Some (udp_header sp dp len csum @ rest)"
  by (simp add: wr16_eq udp_header_def be16_bytes_def memcpy_def)

text \<open>The UDP checksum as sent.\<close>

definition udp_csum :: "u32 \<Rightarrow> u32 \<Rightarrow> u16 \<Rightarrow> u16 \<Rightarrow> u8 list \<Rightarrow> u16" where
  "udp_csum src dst sp dp bytes =
     (let c = checksum16 (udp_header sp dp (length bytes) 0 @ bytes)
                (pseudo_sum src dst (8 + length bytes))
      in if c = 0 then 0xFFFF else c)"

definition udp_datagram :: "u32 \<Rightarrow> u32 \<Rightarrow> u16 \<Rightarrow> u16 \<Rightarrow> u8 list \<Rightarrow> u8 list" where
  "udp_datagram src dst sp dp bytes =
     udp_header sp dp (length bytes) (udp_csum src dst sp dp bytes) @ bytes"

definition arp_packet :: "u16 \<Rightarrow> u64 \<Rightarrow> u32 \<Rightarrow> u8 list \<Rightarrow> u32 \<Rightarrow> u8 list" where
  "arp_packet op smac sip tmac tip =
     be16_bytes 1 @ be16_bytes EtherType_IPv4 @ [6, 4] @ be16_bytes op @ macToBytes smac @
     be32_bytes sip @ tmac @ be32_bytes tip"

lemma length_6: "length xs = 6 \<Longrightarrow> \<exists>a b c d e f. xs = [a, b, c, d, e, f]"
  by (simp add: numeral_eq_Suc length_Suc_conv) (elim exE conjE, simp)

lemma length_28: "length xs = 28 \<Longrightarrow> \<exists>a0 a1 a2 a3 a4 a5 a6 a7 a8 a9 a10 a11 a12 a13 a14 a15 a16 a17 a18
   a19 a20 a21 a22 a23 a24 a25 a26 a27. xs = [a0, a1, a2, a3, a4, a5, a6, a7, a8, a9, a10, a11, a12,
   a13, a14, a15, a16, a17, a18, a19, a20, a21, a22, a23, a24, a25, a26, a27]"
  by (simp add: numeral_eq_Suc length_Suc_conv) (elim exE conjE, simp)

lemma build_arp_bytes:
  assumes "length b = 28" "length tmac = 6"
  shows "build_arp b op smac sip tmac tip = Some (arp_packet op smac sip tmac tip)"
proof -
  from length_28 [OF assms(1)] obtain a0 a1 a2 a3 a4 a5 a6 a7 a8 a9 a10 a11 a12 a13 a14 a15 a16 a17 a18
   a19 a20 a21 a22 a23 a24 a25 a26 a27 where
    b: "b = [a0, a1, a2, a3, a4, a5, a6, a7, a8, a9, a10, a11, a12,
   a13, a14, a15, a16, a17, a18, a19, a20, a21, a22, a23, a24, a25, a26, a27]"
    by (elim exE) (erule that)
  from length_6 [OF assms(2)] obtain m0 m1 m2 m3 m4 m5 where
    m: "tmac = [m0, m1, m2, m3, m4, m5]" by (elim exE) (erule that)
  show ?thesis
    by (simp add: b m build_arp_def wr8_def wr16_eq wr32_eq arp_packet_def memcpy_def
          be16_bytes_def be32_bytes_def macToBytes_def)
qed

definition echo_message :: "u8 \<Rightarrow> u16 \<Rightarrow> u16 \<Rightarrow> u8 list" where
  "echo_message typ csum seq =
     [typ, 0] @ be16_bytes csum @ be16_bytes 0x5A54 @ be16_bytes seq @ replicate 8 0x5A"

lemma build_echo_bytes:
  "build_echo seq = Some (echo_message 8 (checksum16 (echo_message 8 0 seq) 0) seq)"
proof -
  have r: "replicate 16 x = [x, x, x, x, x, x, x, x, x, x, x, x, x, x, x, x]"
    "replicate 8 x = [x, x, x, x, x, x, x, x]" for x :: u8
    by (simp_all add: eval_nat_numeral)
  show ?thesis
    by (simp add: build_echo_def wr8_def wr16_eq memcpy_def echo_message_def be16_bytes_def r)
qed

section \<open>Checksums of what is sent\<close>

lemma ip_header_split:
  "ip_header src dst proto ident ff len csum =
     ([0x45, 0] @ be16_bytes (of_nat (20 + len)) @ be16_bytes ident @ be16_bytes ff @ [64, proto]) @
     be16_bytes csum @ (be32_bytes src @ be32_bytes dst)"
  by (simp add: ip_header_def)

lemma ip_header_checksum:
  "checksum16 (ip_header src dst proto ident ff len
     (checksum16 (ip_header src dst proto ident ff len 0) 0)) 0 = 0"
proof -
  have "sum_list (be_words (ip_header src dst proto ident ff len 0)) \<le> 65535 * 10"
    using sum_be_words_le [of "ip_header src dst proto ident ff len 0"] by simp
  then show ?thesis
    unfolding ip_header_split by (intro checksum_seal) (simp_all del: be_words.simps append_assoc)
qed

lemma unat_add_le: "unat (a + b :: 'a::len word) \<le> unat a + unat b"
  by (metis mod_less_eq_dividend unat_word_ariths(1))

lemma pseudo_sum_le: "udpLen < 4294967296 \<Longrightarrow> unat (pseudo_sum src dst udpLen) \<le> 262157 + udpLen"
proof -
  assume u: "udpLen < 4294967296"
  have hi: "unat (drop_bit 16 w) \<le> 65535" for w :: u32
    using drop_bit16_unat [of w] less_mult_imp_div_less [of "unat w" 65536 65536] unat_u32_less [of w]
    by simp
  have lo: "unat (w AND 0xFFFF) \<le> 65535" for w :: u32
    using pos_mod_bound [of 65536 "int (unat w)"] by (simp add: and_mask16_unat less_Suc_eq_le)
  have "unat (pseudo_sum src dst udpLen) \<le> unat (drop_bit 16 src) + unat (src AND 0xFFFF) +
      unat (drop_bit 16 dst) + unat (dst AND 0xFFFF) + unat (ucast IpProto_UDP :: u32) +
      unat (of_nat udpLen :: u32)"
    unfolding pseudo_sum_def by (meson add_mono order.refl order.trans unat_add_le)
  also have "\<dots> \<le> 65535 + 65535 + 65535 + 65535 + 17 + udpLen"
    using hi lo u by (intro add_mono) (simp_all add: IpProto_UDP_def unat_of_nat32)
  finally show ?thesis by simp
qed

lemma udp_header_split:
  "udp_header sp dp len csum @ bytes =
     (be16_bytes sp @ be16_bytes dp @ be16_bytes (of_nat (8 + len))) @ be16_bytes csum @ bytes"
  by (simp add: udp_header_def)

lemma udp_datagram_checksum:
  assumes "length bytes \<le> MaxDatagram"
  shows "checksum16 (udp_datagram src dst sp dp bytes) (pseudo_sum src dst (8 + length bytes)) = 0"
proof -
  let ?h = "udp_header sp dp (length bytes) 0 @ bytes"
  have "length ?h \<le> 2056" using assms by (simp add: MaxDatagram_def)
  then have "65535 * ((length ?h + 1) div 2) \<le> 65535 * 1028" by (intro mult_le_mono2) simp
  then have "sum_list (be_words ?h) \<le> 65535 * 1028" using sum_be_words_le [of ?h] by linarith
  moreover have "unat (pseudo_sum src dst (8 + length bytes)) \<le> 262157 + 2056"
    using pseudo_sum_le [of "8 + length bytes" src dst] assms by (simp add: MaxDatagram_def)
  ultimately have "unat (pseudo_sum src dst (8 + length bytes)) + sum_list (be_words ?h) + 65536
      \<le> 4294967296" by linarith
  then show ?thesis
    unfolding udp_datagram_def udp_header_split
    by (intro checksum_seal) (auto simp: udp_csum_def Let_def udp_header_split simp del: append_assoc)
qed

section \<open>Fragments\<close>

text \<open>The fragmentation of a payload: offset, more-fragments flag and bytes of each fragment.\<close>

function fragments :: "nat \<Rightarrow> nat \<Rightarrow> u8 list \<Rightarrow> (nat \<times> bool \<times> u8 list) list" where
  "fragments chunk off p =
     (if p = [] \<or> chunk = 0 then []
      else (off, chunk < length p, take chunk p) # fragments chunk (off + chunk) (drop chunk p))"
  by pat_completeness auto
termination by (relation "measure (\<lambda>(chunk, off, p). length p)") auto

declare fragments.simps [simp del]

definition max_payload :: "VNet \<Rightarrow> nat" where
  "max_payload v = unat (m_mtu v) - 20"

definition ip_fragments :: "VNet \<Rightarrow> u8 list \<Rightarrow> (nat \<times> bool \<times> u8 list) list" where
  "ip_fragments v p =
     (if length p \<le> max_payload v then [(0, False, p)] else fragments (max_payload v div 8 * 8) 0 p)"

definition frag_word :: "nat \<Rightarrow> bool \<Rightarrow> u16" where
  "frag_word off mf = (if mf then 0x2000 else 0) OR of_nat (off div 8)"

definition frag_frame ::
  "u64 \<Rightarrow> u32 \<Rightarrow> u32 \<Rightarrow> u8 \<Rightarrow> u16 \<Rightarrow> nat \<times> bool \<times> u8 list \<Rightarrow> frame" where
  "frag_frame mac src dst proto ident f =
     (case f of (off, mf, bytes) \<Rightarrow>
        (mac, EtherType_IPv4, ip_packet src dst proto ident (frag_word off mf) bytes))"

definition mtu_ok :: "VNet \<Rightarrow> bool" where
  "mtu_ok v \<longleftrightarrow> 576 \<le> unat (m_mtu v) \<and> unat (m_mtu v) \<le> MaxFrame - 14"

lemma max_payload_word:
  "mtu_ok v \<Longrightarrow> unat (ucast (m_mtu v) - of_nat ip4_MinHeader :: u32) = max_payload v"
proof -
  assume "mtu_ok v"
  then have m: "576 \<le> unat (m_mtu v)" by (simp add: mtu_ok_def)
  then have "(20 :: u32) \<le> ucast (m_mtu v)" by (simp add: word_le_nat_alt)
  then have "unat (ucast (m_mtu v) - 20 :: u32) = unat (m_mtu v) - 20" by (simp add: unat_sub)
  then show ?thesis by (simp add: max_payload_def)
qed

lemma max_payload_bounds: "mtu_ok v \<Longrightarrow> 556 \<le> max_payload v \<and> max_payload v \<le> 1486"
  by (auto simp: mtu_ok_def max_payload_def MaxFrame_def)

lemma emitIpFragment_ok:
  "m_emit v \<Longrightarrow> 20 + length bytes \<le> MaxFrame \<Longrightarrow>
   emitIpFragment mac dst proto ident (of_nat (off div 8)) mf bytes v =
     Some (bump (txFrames_update ((+) 1))
             (v\<lparr>m_emitted := m_emitted v @ [frag_frame mac (m_ip v) dst proto ident (off, mf, bytes)]\<rparr>))"
  by (simp add: emitIpFragment_def build_ip_bytes stackbuf_def ip_packet_def emit_def
        frag_frame_def frag_word_def)

text \<open>What an operation that only sends may change: the emitted frames, the counters, the packet id.\<close>

definition sent :: "VNet \<Rightarrow> frame list \<Rightarrow> Stats \<Rightarrow> VNet" where
  "sent v fs st = v\<lparr>m_emitted := m_emitted v @ (if m_emit v then fs else []), m_stats := st\<rparr>"

lemma emitIpFragment_sent:
  assumes "20 + length part \<le> MaxFrame"
  obtains w st where "emitIpFragment mac dst proto ident (of_nat (off div 8)) mf part v = Some w"
    and "w = sent v [frag_frame mac (m_ip v) dst proto ident (off, mf, part)] st"
proof (cases "m_emit v")
  case True
  then show ?thesis
    using emitIpFragment_ok [OF True assms, of mac dst proto ident off mf]
    by (intro that [of _ "txFrames_update ((+) 1) (m_stats v)"]) (simp_all add: sent_def bump_def)
next
  case False
  then show ?thesis by (intro that [of v "m_stats v"]) (simp_all add: emitIpFragment_def sent_def)
qed

lemma frag_loop_ok:
  assumes "0 < chunk" "20 + chunk \<le> MaxFrame" "off \<le> length payload"
  shows "\<exists>st. frag_loop mac dst proto ident chunk payload off v =
    Some (sent v (map (frag_frame mac (m_ip v) dst proto ident)
                    (fragments chunk off (drop off payload))) st)"
  using assms(3)
proof (induction "length payload - off" arbitrary: off v rule: less_induct)
  case less
  show ?case
  proof (cases "off < length payload")
    case False
    then show ?thesis
      by (intro exI [of _ "m_stats v"])
         (simp add: frag_loop.simps [of _ _ _ _ _ _ off] sent_def fragments.simps)
  next
    case True
    let ?tk = "if chunk < length payload - off then chunk else length payload - off"
    let ?mf = "off + ?tk < length payload"
    let ?part = "take ?tk (drop off payload)"
    have tk: "0 < ?tk" "off + ?tk \<le> length payload" using True assms(1) by auto
    have part: "?part = take chunk (drop off payload)" "?mf = (chunk < length (drop off payload))" by auto
    have small: "20 + length ?part \<le> MaxFrame" using assms(2) by auto
    obtain v1 st where
      v1: "emitIpFragment mac dst proto ident (of_nat (off div 8)) ?mf ?part v = Some v1"
        "v1 = sent v [frag_frame mac (m_ip v) dst proto ident (off, ?mf, ?part)] st"
      by (rule emitIpFragment_sent [OF small])
    have "length payload - (off + ?tk) < length payload - off" using tk True by linarith
    from less(1) [OF this tk(2), of v1] obtain st' where
      ih: "frag_loop mac dst proto ident chunk payload (off + ?tk) v1 =
        Some (sent v1 (map (frag_frame mac (m_ip v1) dst proto ident)
                    (fragments chunk (off + ?tk) (drop (off + ?tk) payload))) st')" by blast
    have rest: "fragments chunk (off + ?tk) (drop (off + ?tk) payload) =
        fragments chunk (off + chunk) (drop chunk (drop off payload))"
      by (auto simp: fragments.simps [of chunk _ "[]"] add.commute)
    have unf: "fragments chunk off (drop off payload) = (off, ?mf, ?part) #
        fragments chunk (off + ?tk) (drop (off + ?tk) payload)"
      unfolding rest part using True assms(1) by (simp add: fragments.simps [of chunk off])
    have "frag_loop mac dst proto ident chunk payload off v =
        frag_loop mac dst proto ident chunk payload (off + ?tk) v1"
      using True tk(2) v1(1) by (subst frag_loop.simps) (simp add: Let_def)
    then show ?thesis
      unfolding ih unf by (intro exI [of _ st']) (simp add: v1(2) sent_def)
  qed
qed

definition ip_frames :: "VNet \<Rightarrow> u32 \<Rightarrow> u8 \<Rightarrow> u8 list \<Rightarrow> frame list" where
  "ip_frames v dst proto p =
     (if lookupMac v dst = 0
      then [(MacBroadcast, EtherType_ARP, arp_packet 1 (m_mac v) (m_ip v) (replicate 6 0) dst)]
      else map (frag_frame (lookupMac v dst) (m_ip v) dst proto (m_ipId v)) (ip_fragments v p))"

lemma ip_frames_cong:
  "lookupMac w dst = lookupMac v dst \<Longrightarrow> m_ip w = m_ip v \<Longrightarrow> m_mac w = m_mac v \<Longrightarrow> m_mtu w = m_mtu v \<Longrightarrow>
   m_ipId w = m_ipId v \<Longrightarrow> ip_frames w dst proto p = ip_frames v dst proto p"
  by (simp add: ip_frames_def ip_fragments_def max_payload_def)

definition after_send :: "VNet \<Rightarrow> u32 \<Rightarrow> VNet" where
  "after_send v dst = (if lookupMac v dst = 0 then v else v\<lparr>m_ipId := m_ipId v + 1\<rparr>)"

lemma sendArpRequest_ok:
  "\<exists>st. sendArpRequest dst v =
     Some (sent v [(MacBroadcast, EtherType_ARP, arp_packet 1 (m_mac v) (m_ip v) (replicate 6 0) dst)] st)"
proof (cases "m_emit v")
  case True
  then show ?thesis
    by (intro exI [of _ "txArp_update ((+) 1) (txFrames_update ((+) 1) (m_stats v))"])
       (simp add: sendArpRequest_def build_arp_bytes stackbuf_def emit_def sent_def bump_def)
next
  case False
  then show ?thesis by (intro exI [of _ "m_stats v"]) (simp add: sendArpRequest_def sent_def)
qed

text \<open>
  \<^verbatim>\<open>sendIpv4\<close> never fails and changes nothing but the frames emitted, the identification counter and
  the statistics.
\<close>

lemma sendIpv4_ok:
  assumes "mtu_ok v"
  shows "\<exists>st. sendIpv4 dst proto p v = Some (sent (after_send v dst) (ip_frames v dst proto p) st)"
proof (cases "lookupMac v dst = 0")
  case True
  with sendArpRequest_ok [of dst v] show ?thesis
    by (simp add: sendIpv4_def ip_frames_def after_send_def)
next
  case False
  let ?v = "v\<lparr>m_ipId := m_ipId v + 1\<rparr>"
  let ?n = "max_payload v"
  note b = max_payload_bounds [OF assms]
  show ?thesis
  proof (cases "length p \<le> ?n")
    case True
    then have small: "20 + length p \<le> MaxFrame" using b by (simp add: MaxFrame_def)
    have eq: "sendIpv4 dst proto p v = emitIpFragment (lookupMac v dst) dst proto (m_ipId v) 0 False p ?v"
      using False True max_payload_word [OF assms] by (simp add: sendIpv4_def Let_def)
    show ?thesis
    proof (cases "m_emit v")
      case True
      then show ?thesis
        using emitIpFragment_ok [of ?v p "lookupMac v dst" dst proto "m_ipId v" 0 False] small False
          \<open>length p \<le> ?n\<close>
        by (intro exI [of _ "txFrames_update ((+) 1) (m_stats v)"])
           (simp add: eq ip_frames_def ip_fragments_def after_send_def sent_def bump_def)
    next
      case False
      then show ?thesis using \<open>lookupMac v dst \<noteq> 0\<close>
        by (intro exI [of _ "m_stats v"]) (simp add: eq emitIpFragment_def sent_def after_send_def)
    qed
  next
    case large: False
    have eq: "sendIpv4 dst proto p v =
        frag_loop (lookupMac v dst) dst proto (m_ipId v) (?n div 8 * 8) p 0 ?v"
      using False large max_payload_word [OF assms] by (simp add: sendIpv4_def Let_def)
    have "0 < ?n div 8 * 8" "20 + ?n div 8 * 8 \<le> MaxFrame" using b by (auto simp: MaxFrame_def)
    from frag_loop_ok [OF this, of 0 p "lookupMac v dst" dst proto "m_ipId v" ?v] False large
    show ?thesis by (simp add: eq ip_frames_def ip_fragments_def after_send_def)
  qed
qed

text \<open>A list of fragments that tiles a payload from an offset.\<close>

primrec tiling :: "nat \<Rightarrow> (nat \<times> bool \<times> u8 list) list \<Rightarrow> bool" where
  "tiling off [] \<longleftrightarrow> True"
| "tiling off (f # fs) \<longleftrightarrow>
     fst f = off \<and> (fst (snd f) \<longleftrightarrow> fs \<noteq> []) \<and>
     (fst (snd f) \<longrightarrow> 8 dvd length (snd (snd f)) \<and> snd (snd f) \<noteq> []) \<and>
     tiling (off + length (snd (snd f))) fs"

definition frag_bytes :: "(nat \<times> bool \<times> u8 list) list \<Rightarrow> u8 list" where
  "frag_bytes fs = concat (map (\<lambda>f. snd (snd f)) fs)"

lemma fragments_tiling:
  "8 dvd chunk \<Longrightarrow> 0 < chunk \<Longrightarrow>
   tiling off (fragments chunk off p) \<and> frag_bytes (fragments chunk off p) = p \<and>
   (\<forall>f \<in> set (fragments chunk off p). length (snd (snd f)) \<le> chunk)"
proof (induction chunk off p rule: fragments.induct)
  case (1 chunk off p)
  show ?case
  proof (cases "p = []")
    case True
    then show ?thesis by (simp add: fragments.simps frag_bytes_def)
  next
    case False
    let ?fs = "fragments chunk (off + chunk) (drop chunk p)"
    have unf: "fragments chunk off p = (off, chunk < length p, take chunk p) # ?fs"
      using False 1(3) by (simp add: fragments.simps [of chunk off])
    have ih: "tiling (off + chunk) ?fs" "frag_bytes ?fs = drop chunk p"
      "\<forall>f \<in> set ?fs. length (snd (snd f)) \<le> chunk"
      using 1 False by auto
    have ne: "?fs \<noteq> [] \<longleftrightarrow> chunk < length p"
      using 1(3) by (simp add: fragments.simps [of chunk "off + chunk"] not_le)
    have "tiling (off + length (take chunk p)) ?fs"
    proof (cases "chunk < length p")
      case True
      with ih(1) show ?thesis by (simp add: min_def)
    qed (use ne in simp)
    moreover have "frag_bytes (fragments chunk off p) = take chunk p @ frag_bytes ?fs"
      by (simp add: unf frag_bytes_def)
    ultimately show ?thesis
      using ih(2,3) ne 1(2,3) False unfolding unf by (auto simp: min_def)
  qed
qed

text \<open>
  C19. Fragmentation: a payload for a known neighbour leaves as a sequence of IPv4 packets, none
  longer than the MTU, each with a header that verifies, whose fragments tile the payload: every
  fragment but the last has the more-fragments flag and a length that is a multiple of eight, the
  offsets are the running totals, and the concatenation is the payload.
\<close>

theorem sendIpv4_fragments:
  assumes "mtu_ok v" "m_emit v" "lookupMac v dst = mac" "mac \<noteq> 0"
  shows "\<exists>w fs. sendIpv4 dst proto p v = Some w \<and>
           m_emitted w = m_emitted v @ map (frag_frame mac (m_ip v) dst proto (m_ipId v)) fs \<and>
           tiling 0 fs \<and> frag_bytes fs = p \<and>
           (\<forall>f \<in> set fs. case frag_frame mac (m_ip v) dst proto (m_ipId v) f of (_, _, pkt) \<Rightarrow>
              length pkt \<le> unat (m_mtu v) \<and> checksum16 (take 20 pkt) 0 = 0)"
proof -
  let ?fs = "ip_fragments v p"
  let ?n = "max_payload v"
  have n: "?n = unat (m_mtu v) - 20" "556 \<le> ?n"
    using max_payload_bounds [OF assms(1)] by (simp_all add: max_payload_def)
  have fs: "tiling 0 ?fs \<and> frag_bytes ?fs = p \<and> (\<forall>f \<in> set ?fs. length (snd (snd f)) \<le> ?n)"
  proof (cases "length p \<le> ?n")
    case True
    then show ?thesis by (simp add: ip_fragments_def frag_bytes_def)
  next
    case False
    have "8 dvd ?n div 8 * 8" "0 < ?n div 8 * 8" using n by auto
    from fragments_tiling [OF this, of 0 p] False show ?thesis
      by (fastforce simp: ip_fragments_def)
  qed
  have "length (ip_packet src d pr i ff b) = 20 + length b \<and>
        checksum16 (take 20 (ip_packet src d pr i ff b)) 0 = 0" for src d pr i ff b
    by (simp add: ip_packet_def ip_header_checksum)
  moreover obtain st where "sendIpv4 dst proto p v =
      Some (sent (after_send v dst) (ip_frames v dst proto p) st)"
    using sendIpv4_ok [OF assms(1)] by blast
  ultimately show ?thesis
    using fs n assms
    by (intro exI [of _ "sent (after_send v dst) (ip_frames v dst proto p) st"] exI [of _ ?fs])
       (fastforce simp: sent_def after_send_def ip_frames_def frag_frame_def)
qed

lemma demo_mtu: "mtu_ok demo" "lookupMac demo IpBroadcast = MacBroadcast"
  by (simp_all add: mtu_ok_def demo_fields MaxFrame_def lookupMac_def isBroadcast_def)

theorem sendIpv4_fragments_witness:
  "\<exists>w fs. sendIpv4 IpBroadcast IpProto_UDP (replicate 2000 7) demo = Some w \<and>
     m_emitted w = m_emitted demo @
       map (frag_frame MacBroadcast (m_ip demo) IpBroadcast IpProto_UDP (m_ipId demo)) fs \<and>
     tiling 0 fs \<and> frag_bytes fs = replicate 2000 7 \<and>
     (\<forall>f \<in> set fs. case frag_frame MacBroadcast (m_ip demo) IpBroadcast IpProto_UDP (m_ipId demo) f of
        (_, _, pkt) \<Rightarrow> length pkt \<le> unat (m_mtu demo) \<and> checksum16 (take 20 pkt) 0 = 0)"
  by (rule sendIpv4_fragments [OF demo_mtu(1) demo_fields(2) demo_mtu(2)]) (simp add: MacBroadcast_def)

section \<open>Sending datagrams\<close>

definition udp_source :: "int \<Rightarrow> VNet \<Rightarrow> VNet" where
  "udp_source vfd v = (if udpLocalPort vfd v = 0 then fst (udpBind vfd 0 0 v) else v)"

lemma udp_source_bound:
  assumes "pool_inv v" "49152 \<le> unat (m_nextEphemeral v)" "vfd_ok v vfd"
  shows "snd (if udpLocalPort vfd v = 0 then udpBind vfd 0 0 v else (v, 0)) = 0"
    and "udpLocalPort vfd (udp_source vfd v) \<noteq> 0"
    and "pool_inv (udp_source vfd v)" "49152 \<le> unat (m_nextEphemeral (udp_source vfd v))"
    and "\<exists>e ss. udp_source vfd v = v\<lparr>m_nextEphemeral := e, m_socks := ss\<rparr> \<and> length ss = length (m_socks v)"
proof -
  from udpBind_ephemeral [OF assms, of 0] obtain w p where
    b: "udpBind vfd 0 0 v = (w, 0)" "udpLocalPort vfd w = p" "49152 \<le> unat p"
      "pool_inv w" "49152 \<le> unat (m_nextEphemeral w)" by blast
  then have "p \<noteq> 0" by auto
  with b assms show "snd (if udpLocalPort vfd v = 0 then udpBind vfd 0 0 v else (v, 0)) = 0"
    "udpLocalPort vfd (udp_source vfd v) \<noteq> 0"
    "pool_inv (udp_source vfd v)" "49152 \<le> unat (m_nextEphemeral (udp_source vfd v))"
    by (simp_all add: udp_source_def)
  obtain w' p' where t: "bind_tries 4096 v = (w', p')" by fastforce
  from bind_tries_frame [OF this] obtain e where e: "w' = v\<lparr>m_nextEphemeral := e\<rparr>" by blast
  show "\<exists>e ss. udp_source vfd v = v\<lparr>m_nextEphemeral := e, m_socks := ss\<rparr> \<and> length ss = length (m_socks v)"
  proof (cases "udpLocalPort vfd v = 0")
    case True
    show ?thesis
    proof (cases "p' = 0")
      case True
      then show ?thesis using t e assms(3) b(1) by (simp add: udpBind_def)
    next
      case False
      with t e assms(3) True have "udp_source vfd v = v\<lparr>m_nextEphemeral := e,
          m_socks := (m_socks v)[nat vfd := (m_socks v ! nat vfd)
             \<lparr>s_localIp := (if 0 = m_ip v then 0 else 0), s_localPort := p'\<rparr>]\<rparr>"
        by (simp add: udp_source_def udpBind_def)
      then show ?thesis by (intro exI conjI) (assumption, simp)
    qed
  next
    case False
    then show ?thesis
      by (intro exI [of _ "m_nextEphemeral v"] exI [of _ "m_socks v"]) (simp add: udp_source_def)
  qed
qed

lemma udp_source_frame:
  assumes "pool_inv v" "49152 \<le> unat (m_nextEphemeral v)" "vfd_ok v vfd"
  shows "m_emit (udp_source vfd v) = m_emit v" "m_emitted (udp_source vfd v) = m_emitted v"
    "m_configured (udp_source vfd v) = m_configured v" "m_mac (udp_source vfd v) = m_mac v"
    "m_ip (udp_source vfd v) = m_ip v" "m_netmask (udp_source vfd v) = m_netmask v"
    "m_mtu (udp_source vfd v) = m_mtu v" "m_ipId (udp_source vfd v) = m_ipId v"
    "m_arp (udp_source vfd v) = m_arp v" "m_reasm (udp_source vfd v) = m_reasm v"
    "m_pool (udp_source vfd v) = m_pool v" "length (m_socks (udp_source vfd v)) = length (m_socks v)"
    "lookupMac (udp_source vfd v) ip = lookupMac v ip" "mtu_ok (udp_source vfd v) = mtu_ok v"
  using udp_source_bound(5) [OF assms]
  by (auto simp: lookupMac_def isBroadcast_def mtu_ok_def)

lemma udpSendTo_ok:
  assumes inv: "pool_inv v" "49152 \<le> unat (m_nextEphemeral v)" and vfd: "vfd_ok v vfd"
    and mtu: "mtu_ok v" and conf: "m_configured v" and len: "len \<le> MaxDatagram" "len \<le> length b"
  shows "\<exists>st. udpSendTo vfd dst dp (Some b) len v =
    Some (sent (after_send (udp_source vfd v) dst)
            (ip_frames (udp_source vfd v) dst IpProto_UDP
               (udp_datagram (m_ip v) dst (udpLocalPort vfd (udp_source vfd v)) dp (take len b))) st,
          int len)"
proof -
  let ?w = "udp_source vfd v" and ?bytes = "take len b"
  let ?sp = "udpLocalPort vfd ?w"
  note fr = udp_source_frame [OF inv vfd]
  have w: "(if udpLocalPort vfd v = 0 then udpBind vfd 0 0 v else (v, 0)) = (?w, 0)"
    using udp_source_bound(1) [OF inv vfd] by (auto simp: udp_source_def prod_eq_iff)
  have ln: "length (m_socks v) = MaxSockets"
    using inv(1) layout_lengths by (auto simp: pool_inv_def)
  have v: "0 \<le> vfd" "vfd < int (length (m_socks ?w))" "nat vfd < MaxSockets"
    using vfd_ok_range [OF vfd] ln fr by auto
  have sp: "s_localPort (m_socks ?w ! nat vfd) = ?sp"
    using udp_source_bound(2) [OF inv vfd] by (auto simp: udpLocalPort_def split: if_splits)
  have lb: "length ?bytes = len" using len by simp
  have small: "8 + length ?bytes \<le> length (stackbuf (udp4_Header + MaxDatagram))"
    using len by (simp add: stackbuf_def)
  let ?c = "checksum16 (udp_header ?sp dp len 0 @ ?bytes) (pseudo_sum (m_ip v) dst (8 + len))"
  have dgram: "udp_datagram (m_ip v) dst ?sp dp ?bytes =
      udp_header ?sp dp len (if ?c = 0 then 0xFFFF else ?c) @ ?bytes"
    using lb by (simp add: udp_datagram_def udp_csum_def Let_def)
  have "mtu_ok ?w" using fr(14) mtu by blast
  from sendIpv4_ok [OF this, of dst IpProto_UDP "udp_datagram (m_ip v) dst ?sp dp ?bytes"] obtain st where
    send: "sendIpv4 dst IpProto_UDP (udp_datagram (m_ip v) dst ?sp dp ?bytes) ?w =
      Some (sent (after_send ?w dst)
              (ip_frames ?w dst IpProto_UDP (udp_datagram (m_ip v) dst ?sp dp ?bytes)) st)"
    by blast
  have hdr: "take (8 + len) (udp_header ?sp dp len c @ ?bytes @ r) = udp_header ?sp dp len c @ ?bytes"
    for c r using lb by simp
  have slc: "slice (udp_header ?sp dp len c @ ?bytes @ r) 0 (8 + len) =
      Some (udp_header ?sp dp len c @ ?bytes)" for c r
    using hdr [of c r] lb by (simp add: slice_def)
  have "udpSendTo vfd dst dp (Some b) len v =
      Some (bump (txUdp_update ((+) 1)) (sent (after_send ?w dst)
              (ip_frames ?w dst IpProto_UDP (udp_datagram (m_ip v) dst ?sp dp ?bytes)) st), int len)"
    using vfd conf len v fr(5) build_udp_bytes [OF small, of ?sp dp len] send
    by (simp add: udpSendTo_def w sp slc wr16_udp_csum dgram not_less Let_def)
  then show ?thesis by (auto simp: sent_def bump_def)
qed

lemma sendEchoRequest_ok:
  assumes "mtu_ok v" "m_configured v" "dst \<noteq> 0"
  shows "\<exists>st m. sendEchoRequest dst v =
    Some (sent (after_send (v\<lparr>m_echoSeq := m_echoSeq v + 1\<rparr>) dst) (ip_frames v dst IpProto_ICMP m) st, True) \<and>
    m = echo_message 8 (checksum16 (echo_message 8 0 (m_echoSeq v)) 0) (m_echoSeq v)"
proof -
  let ?v = "v\<lparr>m_echoSeq := m_echoSeq v + 1\<rparr>"
  let ?m = "echo_message 8 (checksum16 (echo_message 8 0 (m_echoSeq v)) 0) (m_echoSeq v)"
  have "mtu_ok ?v" using assms(1) by (simp add: mtu_ok_def)
  from sendIpv4_ok [OF this, of dst IpProto_ICMP ?m] obtain st where
    "sendIpv4 dst IpProto_ICMP ?m ?v = Some (sent (after_send ?v dst) (ip_frames ?v dst IpProto_ICMP ?m) st)"
    by blast
  moreover have "ip_frames ?v dst IpProto_ICMP ?m = ip_frames v dst IpProto_ICMP ?m"
    by (simp add: ip_frames_def lookupMac_def isBroadcast_def ip_fragments_def max_payload_def)
  ultimately show ?thesis using assms(2,3)
    by (auto simp: sendEchoRequest_def build_echo_bytes sent_def bump_def)
qed

end
