(* ===== verification/VNetRecv.thy ===== *)
theory VNetRecv
  imports VNetSend
begin

text \<open>
  The inbound half of \<^verbatim>\<open>source/net/vnet.cpp\<close>: frame dispatch, ARP, IPv4 with reassembly, UDP
  demultiplexing and the ICMP echo responder.  \<open>len\<close> of the code is the length of the list.
\<close>

section \<open>UDP and ICMP\<close>

text \<open>The loop over the socket table; the flag is the code's \<^verbatim>\<open>delivered\<close>.\<close>

primrec udp_deliver ::
  "u32 \<Rightarrow> u16 \<Rightarrow> u32 \<Rightarrow> u16 \<Rightarrow> u8 list \<Rightarrow> nat list \<Rightarrow> VNet \<Rightarrow> bool \<Rightarrow> (VNet \<times> bool) option" where
  "udp_deliver srcIp srcPort dstIp dstPort data [] v delivered = Some (v, delivered)"
| "udp_deliver srcIp srcPort dstIp dstPort data (sock # socks) v delivered = do {
     s \<leftarrow> aget (m_socks v) (int sock);
     if \<not> s_used s \<or> s_localPort s \<noteq> dstPort
     then udp_deliver srcIp srcPort dstIp dstPort data socks v delivered
     else if s_localIp s = dstIp \<or> s_localIp s = 0 \<or> isBroadcast v dstIp
     then do {
       v1 \<leftarrow> pushToSocket sock srcIp srcPort data v;
       udp_deliver srcIp srcPort dstIp dstPort data socks v1 True }
     else udp_deliver srcIp srcPort dstIp dstPort data socks v delivered }"

definition no_socket :: "u32 \<Rightarrow> u16 \<Rightarrow> u16 \<Rightarrow> u16 \<Rightarrow> Stats \<Rightarrow> Stats" where
  "no_socket srcIp srcPort dstPort len st =
     st\<lparr>dropNoSocket := dropNoSocket st + 1, lastNoSocketSrcIp := srcIp,
        lastNoSocketSrcPort := srcPort, lastNoSocketDstPort := dstPort, lastNoSocketLen := len\<rparr>"

text \<open>The datagram length the code goes by: the length field unless it cannot be true.\<close>

definition udp_len :: "nat \<Rightarrow> nat \<Rightarrow> nat" where
  "udp_len len field = (if field < udp4_Header \<or> len < field then len else field)"

definition onUdp :: "u32 \<Rightarrow> u32 \<Rightarrow> u8 list \<Rightarrow> VNet \<Rightarrow> VNet option" where
  "onUdp srcIp dstIp p v0 =
     (let v = bump (rxUdp_update ((+) 1)) v0; len = length p in
      if len < udp4_Header then Some (bump (dropMalformed_update ((+) 1)) v)
      else do {
        srcPort \<leftarrow> rd16 p udp4_SrcPort;
        dstPort \<leftarrow> rd16 p udp4_DstPort;
        lenField \<leftarrow> rd16 p udp4_Length;
        let udpLen = udp_len len (unat lenField);
        csum \<leftarrow> rd16 p udp4_Csum;
        summed \<leftarrow> slice p 0 udpLen;
        if csum \<noteq> 0 \<and> checksum16 summed (pseudo_sum srcIp dstIp udpLen) \<noteq> 0
        then Some (bump (dropBadChecksum_update ((+) 1)) v)
        else do {
          data \<leftarrow> slice p udp4_Header (udpLen - udp4_Header);
          (v1, delivered) \<leftarrow> udp_deliver srcIp srcPort dstIp dstPort data [0..<MaxSockets] v False;
          Some (if delivered then v1
                else bump (no_socket srcIp srcPort dstPort (of_nat (udpLen - udp4_Header))) v1) } })"

definition build_echo_reply :: "u8 list \<Rightarrow> u8 list \<Rightarrow> u8 list option" where
  "build_echo_reply reply p = do {
     reply \<leftarrow> memcpy reply 0 p;
     reply \<leftarrow> wr8 reply icmp4_Type icmp4_EchoReply;
     reply \<leftarrow> wr16 reply icmp4_Csum 0;
     summed \<leftarrow> slice reply 0 (length p);
     reply \<leftarrow> wr16 reply icmp4_Csum (checksum16 summed 0);
     slice reply 0 (length p) }"

definition onIcmp :: "u32 \<Rightarrow> u8 list \<Rightarrow> VNet \<Rightarrow> VNet option" where
  "onIcmp srcIp p v0 =
     (let v = bump (rxIcmp_update ((+) 1)) v0; len = length p in
      if len < 8 then Some v
      else do {
        typ \<leftarrow> rd8 p icmp4_Type;
        if typ \<noteq> icmp4_EchoRequest then Some v
        else if checksum16 p 0 \<noteq> 0 then Some (bump (dropBadChecksum_update ((+) 1)) v)
        else if MaxDatagram < len then Some (bump (dropTooBig_update ((+) 1)) v)
        else do {
          reply \<leftarrow> build_echo_reply (stackbuf MaxDatagram) p;
          v1 \<leftarrow> sendIpv4 srcIp IpProto_ICMP reply v;
          Some (bump (txIcmp_update ((+) 1)) v1) } })"

definition deliverIpv4 :: "u32 \<Rightarrow> u32 \<Rightarrow> u8 \<Rightarrow> u8 list \<Rightarrow> VNet \<Rightarrow> VNet option" where
  "deliverIpv4 srcIp dstIp proto payload v =
     (if proto = IpProto_UDP then onUdp srcIp dstIp payload v
      else if proto = IpProto_ICMP then onIcmp srcIp payload v
      else Some v)"

section \<open>IPv4 and reassembly\<close>

definition reasm_match :: "u16 \<Rightarrow> u32 \<Rightarrow> u32 \<Rightarrow> u8 \<Rightarrow> Reasm \<Rightarrow> bool" where
  "reasm_match ident srcIp dstIp proto r \<longleftrightarrow>
     r_used r \<and> r_id r = ident \<and> r_srcIp r = srcIp \<and> r_dstIp r = dstIp \<and> r_proto r = proto"

text \<open>
  The search for a slot from index \<open>i\<close>: \<open>Inl\<close> the slot of this packet, \<open>Inr\<close> the victim.
\<close>

function reasm_scan :: "Reasm list \<Rightarrow> (Reasm \<Rightarrow> bool) \<Rightarrow> nat \<Rightarrow> nat \<Rightarrow> nat + nat" where
  "reasm_scan rs mine i victim =
     (if i < length rs then
        if mine (rs ! i) then Inl i
        else reasm_scan rs mine (i + 1)
               (if \<not> r_used (rs ! i) then i
                else if r_age (rs ! i) < r_age (rs ! victim) then i else victim)
      else Inr victim)"
  by pat_completeness auto
termination by (relation "measure (\<lambda>(rs, mine, i, victim). length rs - i)") auto

declare reasm_scan.simps [simp del]

definition reasm_frag ::
  "u32 \<Rightarrow> u32 \<Rightarrow> u8 \<Rightarrow> u16 \<Rightarrow> nat \<Rightarrow> bool \<Rightarrow> u8 list \<Rightarrow> VNet \<Rightarrow> VNet option" where
  "reasm_frag srcIp dstIp proto ident fragOffset mf payload v = do {
     let (slot, fresh) = (case reasm_scan (m_reasm v) (reasm_match ident srcIp dstIp proto) 0 0 of
                            Inl i \<Rightarrow> (i, False) | Inr victim \<Rightarrow> (victim, True));
     r0 \<leftarrow> aget (m_reasm v) (int slot);
     let r1 = (if fresh
               then r0\<lparr>r_used := True, r_srcIp := srcIp, r_dstIp := dstIp, r_id := ident,
                       r_proto := proto, r_received := 0, r_total := 0\<rparr>
               else r0);
     let tick = m_tick v + 1;
     let r2 = r1\<lparr>r_age := tick\<rparr>;
     let plen = length payload;
     if ReasmMax < fragOffset + plen
     then Some (bump (dropReasm_update ((+) 1))
            (v\<lparr>m_reasm := (m_reasm v)[slot := r2\<lparr>r_used := False\<rparr>], m_tick := tick\<rparr>))
     else do {
       bytes \<leftarrow> memcpy (r_data r2) fragOffset payload;
       let r3 = r2\<lparr>r_data := bytes, r_received := of_nat (unat (r_received r2) + plen),
                   r_total := (if \<not> mf then of_nat (fragOffset + plen) else r_total r2)\<rparr>;
       if r_total r3 \<noteq> 0 \<and> r_total r3 \<le> r_received r3
       then do {
         whole \<leftarrow> slice bytes 0 (unat (r_total r3));
         deliverIpv4 srcIp dstIp proto whole
           (v\<lparr>m_reasm := (m_reasm v)[slot := r3\<lparr>r_used := False\<rparr>], m_tick := tick\<rparr>) }
       else Some (v\<lparr>m_reasm := (m_reasm v)[slot := r3], m_tick := tick\<rparr>) } }"

definition onIpv4 :: "u64 \<Rightarrow> u8 list \<Rightarrow> VNet \<Rightarrow> VNet option" where
  "onIpv4 srcMac p v0 =
     (let v = bump (rxIp_update ((+) 1)) v0; len = length p in
      if len < ip4_MinHeader then Some (bump (dropMalformed_update ((+) 1)) v)
      else do {
        verIhl \<leftarrow> rd8 p ip4_VerIhl;
        let ihl = unat (verIhl AND 0x0F) * 4;
        if drop_bit 4 verIhl \<noteq> 4 \<or> ihl < ip4_MinHeader \<or> len < ihl
        then Some (bump (dropMalformed_update ((+) 1)) v)
        else do {
          hdr \<leftarrow> slice p 0 ihl;
          if checksum16 hdr 0 \<noteq> 0 then Some (bump (dropBadChecksum_update ((+) 1)) v)
          else do {
            totalField \<leftarrow> rd16 p ip4_TotalLen;
            if unat totalField < ihl then Some (bump (dropMalformed_update ((+) 1)) v)
            else do {
              let total = min len (unat totalField);
              srcIp \<leftarrow> rd32 p ip4_Src;
              dstIp \<leftarrow> rd32 p ip4_Dst;
              if \<not> isForUs v dstIp then Some (bump (dropNotForUs_update ((+) 1)) v)
              else do {
                let v1 = learnMac srcIp srcMac v;
                proto \<leftarrow> rd8 p ip4_Proto;
                flagsFrag \<leftarrow> rd16 p ip4_FlagsFrag;
                let fragOffset = unat ((flagsFrag AND ip4_FragOffsetMask) * 8);
                let mf = (flagsFrag AND ip4_FlagMoreFragments \<noteq> 0);
                payload \<leftarrow> slice p ihl (total - ihl);
                if fragOffset = 0 \<and> \<not> mf then deliverIpv4 srcIp dstIp proto payload v1
                else do {
                  ident \<leftarrow> rd16 p ip4_Id;
                  reasm_frag srcIp dstIp proto ident fragOffset mf payload v1 } } } } } })"

section \<open>ARP and dispatch\<close>

definition onArp :: "u64 \<Rightarrow> u8 list \<Rightarrow> VNet \<Rightarrow> VNet option" where
  "onArp srcMac p v0 =
     (let v = bump (rxArp_update ((+) 1)) v0; len = length p in
      if len < arp4_Size then Some (bump (dropMalformed_update ((+) 1)) v)
      else do {
        hwType \<leftarrow> rd16 p arp4_HwType;
        protoType \<leftarrow> rd16 p arp4_ProtoType;
        if hwType \<noteq> 1 \<or> protoType \<noteq> EtherType_IPv4 then Some v
        else do {
          hwLen \<leftarrow> rd8 p arp4_HwLen;
          protoLen \<leftarrow> rd8 p arp4_ProtoLen;
          if hwLen \<noteq> 6 \<or> protoLen \<noteq> 4 then Some v
          else do {
            op \<leftarrow> rd16 p arp4_Op;
            senderIp \<leftarrow> rd32 p arp4_SenderIp;
            targetIp \<leftarrow> rd32 p arp4_TargetIp;
            senderMac \<leftarrow> macFromBytes p arp4_SenderMac;
            let v1 = learnMac senderIp (if senderMac \<noteq> 0 then senderMac else srcMac) v;
            if op \<noteq> arp4_OpRequest \<or> targetIp \<noteq> m_ip v1 then Some v1
            else do {
              reply \<leftarrow> build_arp (stackbuf arp4_Size) arp4_OpReply (m_mac v1) (m_ip v1)
                         (macToBytes senderMac) senderIp;
              Some (if m_emit v1
                    then bump (txArp_update ((+) 1)) (bump (txFrames_update ((+) 1))
                           (emit senderMac EtherType_ARP reply v1))
                    else v1) } } } })"

text \<open>\<open>payload\<close> is \<open>None\<close> for a null pointer.\<close>

definition onFrame :: "u64 \<Rightarrow> u64 \<Rightarrow> u16 \<Rightarrow> u8 list option \<Rightarrow> VNet \<Rightarrow> VNet option" where
  "onFrame srcMac dstMac etherType payload v0 =
     (let v = bump (rxFrames_update ((+) 1)) v0 in
      case payload of
        None \<Rightarrow> Some v
      | Some p \<Rightarrow>
          if \<not> m_configured v \<or> length p = 0 then Some v
          else if dstMac \<noteq> m_mac v \<and> dstMac \<noteq> MacBroadcast
          then Some (bump (dropNotForUs_update ((+) 1)) v)
          else if etherType = EtherType_ARP then onArp srcMac p v
          else if etherType = EtherType_IPv4 then onIpv4 srcMac p v
          else Some v)"

section \<open>The invariant of the interface\<close>

definition vnet_inv :: "VNet \<Rightarrow> bool" where
  "vnet_inv v \<longleftrightarrow> pool_inv v \<and> arp_inv v \<and> mtu_ok v \<and> 49152 \<le> unat (m_nextEphemeral v)"

text \<open>An operation that returns, in a state that satisfies the invariant.\<close>

definition okinv :: "VNet option \<Rightarrow> bool" where
  "okinv r \<longleftrightarrow> (\<exists>w. r = Some w \<and> vnet_inv w)"

lemma okinv_Some [simp]: "okinv (Some w) \<longleftrightarrow> vnet_inv w"
  by (simp add: okinv_def)

lemma okinv_if [simp]: "okinv (if b then x else y) \<longleftrightarrow> (b \<longrightarrow> okinv x) \<and> (\<not> b \<longrightarrow> okinv y)"
  by simp

lemma okinv_bind: "okinv r \<Longrightarrow> (\<And>w. vnet_inv w \<Longrightarrow> okinv (f w)) \<Longrightarrow> okinv (Option.bind r f)"
  by (auto simp: okinv_def)

lemma pool_inv_fields:
  "m_socks w = m_socks v \<Longrightarrow> m_pool w = m_pool v \<Longrightarrow> m_freeList w = m_freeList v \<Longrightarrow>
   length (m_arp w) = length (m_arp v) \<Longrightarrow> length (m_reasm w) = length (m_reasm v) \<Longrightarrow>
   (\<forall>r \<in> set (m_reasm w). length (r_data r) = ReasmMax \<and> unat (r_total r) \<le> ReasmMax) \<Longrightarrow>
   pool_inv v \<Longrightarrow> pool_inv w"
  unfolding pool_inv_def layout_def sizes_ok_def by metis

lemma pool_inv_sizes: "pool_inv v \<Longrightarrow> sizes_ok v"
  by (auto simp: pool_inv_def layout_def)

lemma pool_inv_reasm: "pool_inv v \<Longrightarrow> r \<in> set (m_reasm v) \<Longrightarrow>
   length (r_data r) = ReasmMax \<and> unat (r_total r) \<le> ReasmMax"
  using pool_inv_sizes by (auto simp: sizes_ok_def)

lemma vnet_inv_bump [simp]: "vnet_inv (bump f v) = vnet_inv v"
  by (simp add: vnet_inv_def bump_def pool_inv_def layout_def sizes_ok_def arp_inv_def mtu_ok_def)

lemma vnet_inv_sent [simp]: "vnet_inv (sent v fs st) = vnet_inv v"
  by (simp add: vnet_inv_def sent_def pool_inv_def layout_def sizes_ok_def arp_inv_def mtu_ok_def)

lemma vnet_inv_emit [simp]: "vnet_inv (emit m t p v) = vnet_inv v"
  by (simp add: vnet_inv_def emit_def pool_inv_def layout_def sizes_ok_def arp_inv_def mtu_ok_def)

lemma vnet_inv_after_send [simp]: "vnet_inv (after_send v dst) = vnet_inv v"
  by (simp add: vnet_inv_def after_send_def pool_inv_def layout_def sizes_ok_def arp_inv_def mtu_ok_def)

lemma vnet_inv_learn [simp]: "vnet_inv v \<Longrightarrow> vnet_inv (learnMac ip mac v)"
  unfolding vnet_inv_def mtu_ok_def
  using pool_inv_reasm [of v]
  by (auto simp: frame_simps ac.learn_inv intro!: pool_inv_fields [of "learnMac ip mac v" v])

lemma vnet_inv_reasm:
  "vnet_inv v \<Longrightarrow> length (r_data r) = ReasmMax \<Longrightarrow> unat (r_total r) \<le> ReasmMax \<Longrightarrow>
   vnet_inv (v\<lparr>m_reasm := (m_reasm v)[i := r], m_tick := t\<rparr>)"
  unfolding vnet_inv_def mtu_ok_def arp_inv_def
  using pool_inv_reasm [of v]
  by (auto dest!: set_update_subset_insert [THEN subsetD]
           intro!: pool_inv_fields [of "v\<lparr>m_reasm := (m_reasm v)[i := r], m_tick := t\<rparr>" v])

lemma sendIpv4_inv: "vnet_inv v \<Longrightarrow> okinv (sendIpv4 dst proto p v)"
  using sendIpv4_ok [of v dst proto p] by (auto simp: okinv_def vnet_inv_def [of v])

section \<open>Delivery to the sockets\<close>

definition sock_ids :: "VNet \<Rightarrow> (bool \<times> bool \<times> u32 \<times> u16) list" where
  "sock_ids v = map (\<lambda>s. (s_used s, s_broadcast s, s_localIp s, s_localPort s)) (m_socks v)"

text \<open>The effect of one push, whichever case of it applies.\<close>

lemma push_effect:
  assumes inv: "pool_inv v" and live: "sock_live v i" and len: "length data \<le> MaxDatagram"
  shows "\<exists>p h ss st. pushToSocket i ip port data v =
             Some (v\<lparr>m_pool := p, m_freeList := h, m_socks := ss, m_stats := st\<rparr>) \<and>
           pool_inv (v\<lparr>m_pool := p, m_freeList := h, m_socks := ss, m_stats := st\<rparr>) \<and>
           sock_ids (v\<lparr>m_socks := ss\<rparr>) = sock_ids v \<and>
           pool_room (v\<lparr>m_pool := p, m_freeList := h, m_socks := ss, m_stats := st\<rparr>) = pool_room v - 1 \<and>
           queue_of (v\<lparr>m_pool := p, m_freeList := h, m_socks := ss, m_stats := st\<rparr>) =
             (if pool_room v = 0 then queue_of v
              else (queue_of v)(i := queue_of v i @ [(ip, port, data)]))"
proof -
  have fits: "dgram_fits (ip, port, data)" using len by (simp add: dgram_fits_def)
  have i: "i < MaxSockets" "s_used (m_socks v ! i)" using live by (simp_all add: sock_live_def)
  from inv obtain fl qs where l0: "layout v fl qs" by (auto simp: pool_inv_def)
  show ?thesis
  proof (cases fl)
    case Nil
    with l0 have l: "layout v [] qs" by simp
    let ?st = "dropNoBuffer_update ((+) 1) (m_stats v)"
    have e: "v\<lparr>m_stats := ?st\<rparr> = bump (dropNoBuffer_update ((+) 1)) v" by (simp add: bump_def)
    have "pushToSocket i ip port data v = Some (bump (dropNoBuffer_update ((+) 1)) v)"
      using l len by (rule pushToSocket_full)
    moreover have "layout (bump (dropNoBuffer_update ((+) 1)) v) [] qs" using l by simp
    moreover have "queue_of (bump (dropNoBuffer_update ((+) 1)) v) = queue_of v"
      by (simp add: queue_of_def fun_eq_iff)
    ultimately show ?thesis using l
      by (intro exI [of _ "m_pool v"] exI [of _ "m_freeList v"] exI [of _ "m_socks v"] exI [of _ ?st])
         (simp add: e pool_room_layout layout_pool_inv sock_ids_def)
  next
    case (Cons x fl')
    with l0 have l: "layout v (x # fl') qs" by simp
    let ?w = "push_state i x ip port data v"
    have e: "?w = v\<lparr>m_pool := m_pool ?w, m_freeList := m_freeList ?w, m_socks := m_socks ?w,
        m_stats := m_stats v\<rparr>" by (simp add: push_state_def Let_def)
    have "sock_ids (v\<lparr>m_socks := m_socks ?w\<rparr>) = sock_ids v"
      by (rule nth_equalityI)
         (auto simp: sock_ids_def push_state_def Let_def link_sock_def nth_update_if)
    moreover have "queue_of ?w = (queue_of v)(i := queue_of v i @ [(ip, port, data)])"
      using push_queue [OF l i len] i by (auto simp: queue_of_def fun_eq_iff)
    moreover note push_ok [OF l i len, of ip port]
    ultimately show ?thesis
      using pool_room_layout [OF l] layout_pool_inv [of ?w] pool_room_layout [of ?w]
      by (intro exI [of _ "m_pool ?w"] exI [of _ "m_freeList ?w"] exI [of _ "m_socks ?w"]
            exI [of _ "m_stats v"]) (simp flip: e)
  qed
qed

text \<open>The sockets a datagram is for, in table order.\<close>

definition udp_match :: "VNet \<Rightarrow> u32 \<Rightarrow> u16 \<Rightarrow> nat \<Rightarrow> bool" where
  "udp_match v dstIp dstPort i \<longleftrightarrow>
     s_used (m_socks v ! i) \<and> s_localPort (m_socks v ! i) = dstPort \<and>
     (s_localIp (m_socks v ! i) = dstIp \<or> s_localIp (m_socks v ! i) = 0 \<or> isBroadcast v dstIp)"

definition listeners :: "VNet \<Rightarrow> u32 \<Rightarrow> u16 \<Rightarrow> nat list" where
  "listeners v dstIp dstPort = filter (udp_match v dstIp dstPort) [0..<MaxSockets]"

lemma sock_ids_nth:
  assumes "sock_ids w = sock_ids v" "i < length (m_socks v)"
  shows "s_used (m_socks w ! i) = s_used (m_socks v ! i) \<and>
    s_broadcast (m_socks w ! i) = s_broadcast (m_socks v ! i) \<and>
    s_localIp (m_socks w ! i) = s_localIp (m_socks v ! i) \<and>
    s_localPort (m_socks w ! i) = s_localPort (m_socks v ! i)"
proof -
  have "length (m_socks w) = length (m_socks v)"
    using arg_cong [OF assms(1), of size] by (simp add: sock_ids_def)
  then show ?thesis using arg_cong [OF assms(1), of "\<lambda>xs. xs ! i"] assms(2) by (simp add: sock_ids_def)
qed

lemma udp_match_ids:
  "sock_ids w = sock_ids v \<Longrightarrow> m_ip w = m_ip v \<Longrightarrow> m_netmask w = m_netmask v \<Longrightarrow>
   i < length (m_socks v) \<Longrightarrow> udp_match w dstIp dstPort i = udp_match v dstIp dstPort i"
  using sock_ids_nth [of w v i] by (simp add: udp_match_def isBroadcast_def)

lemma udp_deliver_ok:
  assumes "pool_inv v" "distinct socks" "set socks \<subseteq> {..<MaxSockets}" "length data \<le> MaxDatagram"
  shows "\<exists>p h ss st. udp_deliver srcIp srcPort dstIp dstPort data socks v d =
             Some (v\<lparr>m_pool := p, m_freeList := h, m_socks := ss, m_stats := st\<rparr>,
                   d \<or> filter (udp_match v dstIp dstPort) socks \<noteq> []) \<and>
           pool_inv (v\<lparr>m_pool := p, m_freeList := h, m_socks := ss, m_stats := st\<rparr>) \<and>
           sock_ids (v\<lparr>m_socks := ss\<rparr>) = sock_ids v \<and>
           queue_of (v\<lparr>m_pool := p, m_freeList := h, m_socks := ss, m_stats := st\<rparr>) =
             (\<lambda>j. queue_of v j @
                (if j \<in> set (take (pool_room v) (filter (udp_match v dstIp dstPort) socks))
                 then [(srcIp, srcPort, data)] else []))"
  using assms
proof (induction socks arbitrary: v d)
  case Nil
  then show ?case
    by (intro exI [of _ "m_pool v"] exI [of _ "m_freeList v"] exI [of _ "m_socks v"]
          exI [of _ "m_stats v"]) simp
next
  case (Cons i socks)
  have ln: "length (m_socks v) = MaxSockets" using pool_inv_sizes [OF Cons.prems(1)] by (simp add: sizes_ok_def)
  have i: "i < MaxSockets" "i \<notin> set socks" and socks: "distinct socks" "set socks \<subseteq> {..<MaxSockets}"
    using Cons.prems by auto
  show ?case
  proof (cases "udp_match v dstIp dstPort i")
    case False
    then have "udp_deliver srcIp srcPort dstIp dstPort data (i # socks) v d =
        udp_deliver srcIp srcPort dstIp dstPort data socks v d"
      using i(1) ln by (auto simp: udp_match_def)
    with Cons.IH [OF Cons.prems(1) socks Cons.prems(4)] False show ?thesis by simp
  next
    case True
    then have "sock_live v i" using i(1) by (simp add: sock_live_def udp_match_def)
    from push_effect [OF Cons.prems(1) this Cons.prems(4), of srcIp srcPort] obtain p h ss st w where
      w: "w = v\<lparr>m_pool := p, m_freeList := h, m_socks := ss, m_stats := st\<rparr>"
      and push: "pushToSocket i srcIp srcPort data v = Some w" and inv: "pool_inv w"
      and ids: "sock_ids (v\<lparr>m_socks := ss\<rparr>) = sock_ids v" and room: "pool_room w = pool_room v - 1"
      and q: "queue_of w = (if pool_room v = 0 then queue_of v
              else (queue_of v)(i := queue_of v i @ [(srcIp, srcPort, data)]))"
      by metis
    have ids': "sock_ids w = sock_ids v" using ids by (simp add: w sock_ids_def)
    have m: "filter (udp_match w dstIp dstPort) socks = filter (udp_match v dstIp dstPort) socks"
      using socks(2) ln udp_match_ids [OF ids'] by (intro filter_cong) (auto simp: w)
    from Cons.IH [OF inv socks Cons.prems(4), of True] obtain p' h' ss' st' where
      r: "udp_deliver srcIp srcPort dstIp dstPort data socks w True =
             Some (w\<lparr>m_pool := p', m_freeList := h', m_socks := ss', m_stats := st'\<rparr>, True)"
        "pool_inv (w\<lparr>m_pool := p', m_freeList := h', m_socks := ss', m_stats := st'\<rparr>)"
        "sock_ids (w\<lparr>m_socks := ss'\<rparr>) = sock_ids w"
        "queue_of (w\<lparr>m_pool := p', m_freeList := h', m_socks := ss', m_stats := st'\<rparr>) =
             (\<lambda>j. queue_of w j @
                (if j \<in> set (take (pool_room w) (filter (udp_match v dstIp dstPort) socks))
                 then [(srcIp, srcPort, data)] else []))"
      unfolding m by auto
    have e: "w\<lparr>m_pool := p', m_freeList := h', m_socks := ss', m_stats := st'\<rparr> =
        v\<lparr>m_pool := p', m_freeList := h', m_socks := ss', m_stats := st'\<rparr>" by (simp add: w)
    have "udp_deliver srcIp srcPort dstIp dstPort data (i # socks) v d =
        Some (v\<lparr>m_pool := p', m_freeList := h', m_socks := ss', m_stats := st'\<rparr>, True)"
      using True i(1) ln push r(1) by (auto simp: udp_match_def e)
    moreover have "i \<notin> set (take n (filter (udp_match v dstIp dstPort) socks))" for n
      using i(2) by (meson filter_is_subset in_set_takeD subsetD)
    then have "queue_of (v\<lparr>m_pool := p', m_freeList := h', m_socks := ss', m_stats := st'\<rparr>) =
             (\<lambda>j. queue_of v j @
                (if j \<in> set (take (pool_room v) (filter (udp_match v dstIp dstPort) (i # socks)))
                 then [(srcIp, srcPort, data)] else []))"
      using r(4) True by (auto simp: e q room fun_eq_iff take_Cons' split: if_splits)
    moreover have "sock_ids (v\<lparr>m_socks := ss'\<rparr>) = sock_ids v"
      using r(3) ids' by (simp add: sock_ids_def w)
    ultimately show ?thesis using True r(2) unfolding e by auto
  qed
qed

lemma udp_deliver_big:
  assumes "MaxDatagram < length data" "set socks \<subseteq> {..<length (m_socks v)}"
  shows "\<exists>f d'. udp_deliver srcIp srcPort dstIp dstPort data socks v d = Some (bump f v, d')"
  using assms(2)
proof (induction socks arbitrary: v d)
  case Nil
  then show ?case by (intro exI [of _ "\<lambda>st. st"]) (simp add: bump_def)
next
  case (Cons i socks)
  show ?case
  proof (cases "udp_match v dstIp dstPort i")
    case False
    then have "udp_deliver srcIp srcPort dstIp dstPort data (i # socks) v d =
        udp_deliver srcIp srcPort dstIp dstPort data socks v d"
      using Cons.prems by (auto simp: udp_match_def)
    with Cons show ?thesis by simp
  next
    case True
    let ?w = "bump (dropTooBig_update ((+) 1)) v"
    have "udp_deliver srcIp srcPort dstIp dstPort data (i # socks) v d =
        udp_deliver srcIp srcPort dstIp dstPort data socks ?w True"
      using True Cons.prems assms(1) by (auto simp: udp_match_def pushToSocket_big)
    moreover have "m_socks ?w = m_socks v" by (simp add: bump_def)
    then obtain f d' where "udp_deliver srcIp srcPort dstIp dstPort data socks ?w True = Some (bump f ?w, d')"
      using Cons.IH [of ?w True] Cons.prems by auto
    moreover have "bump f ?w = bump (\<lambda>st. f (dropTooBig_update ((+) 1) st)) v" by (simp add: bump_def)
    ultimately show ?thesis by metis
  qed
qed

lemma vnet_inv_socks:
  "vnet_inv v \<Longrightarrow> pool_inv (v\<lparr>m_pool := p, m_freeList := h, m_socks := ss, m_stats := st\<rparr>) \<Longrightarrow>
   vnet_inv (v\<lparr>m_pool := p, m_freeList := h, m_socks := ss, m_stats := st\<rparr>)"
  by (simp add: vnet_inv_def arp_inv_def mtu_ok_def)

lemma udp_deliver_inv:
  assumes "vnet_inv v"
  shows "\<exists>w d'. udp_deliver srcIp srcPort dstIp dstPort data [0..<MaxSockets] v d = Some (w, d') \<and> vnet_inv w"
proof (cases "length data \<le> MaxDatagram")
  case True
  have inv: "pool_inv v" using assms by (simp add: vnet_inv_def)
  have sub: "set [0..<MaxSockets] \<subseteq> {..<MaxSockets}" by auto
  from udp_deliver_ok [OF inv distinct_upt sub True, where srcIp = srcIp and srcPort = srcPort and
      dstIp = dstIp and dstPort = dstPort and d = d] obtain p h ss st e where
    "udp_deliver srcIp srcPort dstIp dstPort data [0..<MaxSockets] v d =
       Some (v\<lparr>m_pool := p, m_freeList := h, m_socks := ss, m_stats := st\<rparr>, e)"
    "pool_inv (v\<lparr>m_pool := p, m_freeList := h, m_socks := ss, m_stats := st\<rparr>)"
    by (elim exE conjE) (erule (1) that)
  with vnet_inv_socks [OF assms] show ?thesis by blast
next
  case False
  have "length (m_socks v) = MaxSockets"
    using assms pool_inv_sizes by (simp add: vnet_inv_def sizes_ok_def)
  then have "set [0..<MaxSockets] \<subseteq> {..<length (m_socks v)}" by auto
  from udp_deliver_big [OF _ this, where data = data and srcIp = srcIp and srcPort = srcPort and
      dstIp = dstIp and dstPort = dstPort and d = d] False obtain f e where
    "udp_deliver srcIp srcPort dstIp dstPort data [0..<MaxSockets] v d = Some (bump f v, e)"
    by (auto simp: not_le)
  with assms show ?thesis by (intro exI [of _ "bump f v"] exI [of _ e]) simp
qed

section \<open>Every inbound operation returns and keeps the invariant\<close>

text \<open>The body of \<^verbatim>\<open>onUdp\<close> with its loads resolved.\<close>

definition udp_checked :: "u32 \<Rightarrow> u32 \<Rightarrow> u8 list \<Rightarrow> nat \<Rightarrow> bool" where
  "udp_checked srcIp dstIp p udpLen \<longleftrightarrow>
     be16 (p ! 6) (p ! 7) = 0 \<or> checksum16 (take udpLen p) (pseudo_sum srcIp dstIp udpLen) = 0"

lemma onUdp_body:
  assumes "8 \<le> length p" and u: "u = udp_len (length p) (unat (be16 (p ! 4) (p ! 5)))"
  shows "onUdp srcIp dstIp p v =
    (if udp_checked srcIp dstIp p u
     then do {
       (v1, delivered) \<leftarrow> udp_deliver srcIp (be16 (p ! 0) (p ! 1)) dstIp (be16 (p ! 2) (p ! 3))
          (take (u - 8) (drop 8 p)) [0..<MaxSockets] (bump (rxUdp_update ((+) 1)) v) False;
       Some (if delivered then v1
             else bump (no_socket srcIp (be16 (p ! 0) (p ! 1)) (be16 (p ! 2) (p ! 3)) (of_nat (u - 8))) v1) }
     else Some (bump (dropBadChecksum_update ((+) 1)) (bump (rxUdp_update ((+) 1)) v)))"
proof -
  have ul: "8 \<le> u" "u \<le> length p" using assms by (auto simp: udp_len_def)
  have r: "rd16 p 0 = Some (be16 (p ! 0) (p ! 1))" "rd16 p 2 = Some (be16 (p ! 2) (p ! 3))"
    "rd16 p 4 = Some (be16 (p ! 4) (p ! 5))" "rd16 p 6 = Some (be16 (p ! 6) (p ! 7))"
    using assms(1) rd16_in [of 0 p] rd16_in [of 2 p] rd16_in [of 4 p] rd16_in [of 6 p] by simp_all
  have s: "slice p 0 u = Some (take u p)" "slice p 8 (u - 8) = Some (take (u - 8) (drop 8 p))"
    using ul by simp_all
  have "\<not> length p < 8" using assms(1) by simp
  then show ?thesis
    by (simp only: onUdp_def Let_def r s Option.bind.bind_lunit u [symmetric] udp_checked_def if_False
          de_Morgan_disj not_not if_distrib split: if_split) blast
qed

lemma onUdp_inv: "vnet_inv v \<Longrightarrow> okinv (onUdp srcIp dstIp p v)"
proof -
  assume inv: "vnet_inv v"
  show ?thesis
  proof (cases "8 \<le> length p")
    case False
    with inv show ?thesis by (simp add: onUdp_def Let_def)
  next
    case True
    let ?v = "bump (rxUdp_update ((+) 1)) v"
    let ?u = "udp_len (length p) (unat (be16 (p ! 4) (p ! 5)))"
    have "vnet_inv ?v" using inv by simp
    from udp_deliver_inv [OF this] obtain w d where
      "udp_deliver srcIp (be16 (p ! 0) (p ! 1)) dstIp (be16 (p ! 2) (p ! 3))
        (take (?u - 8) (drop 8 p)) [0..<MaxSockets] ?v False = Some (w, d)" "vnet_inv w" by blast
    with inv show ?thesis by (simp add: onUdp_body [OF True refl])
  qed
qed

lemma build_echo_reply_Some:
  assumes "4 \<le> length p" "length p \<le> length b"
  shows "\<exists>q. build_echo_reply b p = Some q"
proof -
  have "p \<noteq> []" "b \<noteq> []" using assms by auto
  moreover have "length (take 2 (0 # drop (Suc 0) (p @ drop (length p) b))) = 2" using assms by simp
  ultimately show ?thesis using assms
    by (auto simp: build_echo_reply_def wr8_def wr16_eq memcpy_def slice_def)
qed

lemma onIcmp_inv: "vnet_inv v \<Longrightarrow> okinv (onIcmp srcIp p v)"
proof -
  assume inv: "vnet_inv v"
  show ?thesis
  proof (cases "8 \<le> length p \<and> length p \<le> MaxDatagram")
    case True
    then obtain q where q: "build_echo_reply (stackbuf MaxDatagram) p = Some q"
      using build_echo_reply_Some [of p "stackbuf MaxDatagram"] by (auto simp: stackbuf_def)
    have "okinv (sendIpv4 srcIp IpProto_ICMP q (bump (rxIcmp_update ((+) 1)) v))"
      using inv by (intro sendIpv4_inv) simp
    then have "okinv (Option.bind (sendIpv4 srcIp IpProto_ICMP q (bump (rxIcmp_update ((+) 1)) v))
        (\<lambda>v1. Some (bump (txIcmp_update ((+) 1)) v1)))"
      by (rule okinv_bind) simp
    moreover have "rd8 p 0 = Some (p ! 0)" using True by (intro rd8_in) linarith
    ultimately show ?thesis using True q inv by (simp add: onIcmp_def Let_def)
  next
    case False
    have "0 < length p" if "\<not> length p < 8" using that by linarith
    with False inv show ?thesis by (auto simp: onIcmp_def Let_def)
  qed
qed

lemma deliverIpv4_inv: "vnet_inv v \<Longrightarrow> okinv (deliverIpv4 srcIp dstIp proto p v)"
  by (simp add: deliverIpv4_def onUdp_inv onIcmp_inv)

lemma reasm_scan_less:
  "victim < length rs \<Longrightarrow>
   (case reasm_scan rs mine i victim of Inl k \<Rightarrow> k < length rs \<and> mine (rs ! k) | Inr k \<Rightarrow> k < length rs)"
proof (induction rs mine i victim rule: reasm_scan.induct)
  case (1 rs mine i victim)
  then show ?case by (auto simp: reasm_scan.simps [of rs mine i])
qed

lemma reasm_frag_inv:
  assumes inv: "vnet_inv v"
  shows "okinv (reasm_frag srcIp dstIp proto ident off mf payload v)"
proof -
  have len: "length (m_reasm v) = ReasmSlots"
    using inv pool_inv_sizes by (simp add: vnet_inv_def sizes_ok_def)
  obtain slot fresh where s: "(case reasm_scan (m_reasm v) (reasm_match ident srcIp dstIp proto) 0 0 of
      Inl i \<Rightarrow> (i, False) | Inr victim \<Rightarrow> (victim, True)) = (slot, fresh)" by fastforce
  have slot: "slot < length (m_reasm v)"
    using reasm_scan_less [of 0 "m_reasm v" "reasm_match ident srcIp dstIp proto" 0] s len
    by (auto simp: ReasmSlots_def split: sum.splits)
  have d: "length (r_data (m_reasm v ! slot)) = ReasmMax" "unat (r_total (m_reasm v ! slot)) \<le> ReasmMax"
    using inv pool_inv_reasm [of v "m_reasm v ! slot"] slot by (simp_all add: vnet_inv_def)
  show ?thesis
  proof (cases "off + length payload \<le> ReasmMax")
    case False
    then show ?thesis using slot inv d
      by (simp add: reasm_frag_def s Let_def vnet_inv_reasm)
  next
    case True
    then have "unat (of_nat (off + length payload) :: u16) = off + length payload"
      by (intro unat_of_nat16) (simp add: ReasmMax_def)
    with True have tot: "unat (of_nat off + of_nat (length payload) :: u16) \<le> ReasmMax" by simp
    show ?thesis using slot inv d True tot
      by (auto simp: reasm_frag_def s Let_def slice_def intro!: vnet_inv_reasm deliverIpv4_inv)
  qed
qed

lemma onIpv4_inv:
  assumes inv: "vnet_inv v" shows "okinv (onIpv4 srcMac p v)"
proof -
  define v1 where "v1 = learnMac (be32 (p ! 12) (p ! 13) (p ! 14) (p ! 15)) srcMac (bump (rxIp_update ((+) 1)) v)"
  have "vnet_inv v1" using inv by (simp add: v1_def)
  then have "okinv (deliverIpv4 a b c q v1)" "okinv (reasm_frag a b c i off mf q v1)" for a b c q i off mf
    by (simp_all add: deliverIpv4_inv reasm_frag_inv)
  note ok = this
  let ?ihl = "unat (p ! 0 AND 0x0F) * 4"
  show ?thesis
  proof (cases "20 \<le> length p")
    case False
    with inv show ?thesis by (simp add: onIpv4_def Let_def)
  next
    case True
    then have r: "rd8 p 0 = Some (p ! 0)" "rd16 p 2 = Some (be16 (p ! 2) (p ! 3))"
      "rd16 p 4 = Some (be16 (p ! 4) (p ! 5))" "rd16 p 6 = Some (be16 (p ! 6) (p ! 7))"
      "rd8 p 9 = Some (p ! 9)" "rd32 p 12 = Some (be32 (p ! 12) (p ! 13) (p ! 14) (p ! 15))"
      "rd32 p 16 = Some (be32 (p ! 16) (p ! 17) (p ! 18) (p ! 19))"
      using rd8_in [of 0 p] rd16_in [of 2 p] rd16_in [of 4 p] rd16_in [of 6 p] rd8_in [of 9 p]
        rd32_in [of 12 p] rd32_in [of 16 p] by (simp_all del: length_greater_0_conv)
    show ?thesis
    proof (cases "drop_bit 4 (p ! 0) \<noteq> 4 \<or> ?ihl < 20 \<or> length p < ?ihl")
      case True
      with r \<open>20 \<le> length p\<close> inv show ?thesis by (simp add: onIpv4_def Let_def)
    next
      case False
      then have s: "slice p 0 ?ihl = Some (take ?ihl p)"
        "slice p ?ihl (min (length p) t - ?ihl) = Some (take (min (length p) t - ?ihl) (drop ?ihl p))" for t
        by auto
      show ?thesis using False \<open>20 \<le> length p\<close> inv ok
        by (simp add: onIpv4_def Let_def r s v1_def [symmetric])
    qed
  qed
qed

lemma onArp_inv:
  assumes inv: "vnet_inv v" shows "okinv (onArp srcMac p v)"
proof (cases "length p < 28")
  case True
  with inv show ?thesis by (simp add: onArp_def Let_def)
next
  case False
  then obtain smac where mac: "macFromBytes p 8 = Some smac" using macFromBytes_Some [of 8 p] by auto
  have arp: "build_arp (stackbuf 28) op m i (macToBytes t) d = Some (arp_packet op m i (macToBytes t) d)"
    for op m i t d by (simp add: build_arp_bytes stackbuf_def)
  from False inv show ?thesis
    by (simp add: onArp_def Let_def mac arp)
qed

text \<open>
  Memory safety and robustness: whatever frame arrives, from whomever, the interface handles it
  without a single access outside its arrays or the frame and without failing to return, and its
  invariant (no packet lost or shared, consistent queues, well-formed neighbour table, buffers of
  the declared sizes) holds afterwards.
\<close>

lemma onFrame_safe:
  assumes "vnet_inv v"
  shows "\<exists>w. onFrame srcMac dstMac etherType payload v = Some w \<and> vnet_inv w"
proof -
  have "okinv (onFrame srcMac dstMac etherType payload v)"
    using assms by (simp add: onFrame_def Let_def onArp_inv onIpv4_inv split: option.splits)
  then show ?thesis by (simp add: okinv_def)
qed

lemma demo_vnet_inv: "vnet_inv demo"
  using demo_inv demo_mtu(1)
  by (simp add: vnet_inv_def arp_inv_def arp_ok_def demo_fields zero_arp_def)

end
