(* ===== verification/VNetLink.thy ===== *)
theory VNetLink
  imports VNetRecv
begin

text \<open>
  Two interfaces joined by a link: what one emits, the other receives.  The lemmas resolve the
  parsing of the packets the sender builds; the theorem is the round trip of a datagram, fragmented
  or not, from \<^verbatim>\<open>udpSendTo\<close> to the queues of the receiver's sockets.
\<close>

section \<open>Parsing what was built\<close>

lemma frag_word_fields:
  assumes "off < 65536" "8 dvd off"
  shows "unat ((frag_word off mf AND 0x1FFF) * 8) = off" "(frag_word off mf AND 0x2000 \<noteq> 0) = mf"
proof -
  define k where "k = off div 8"
  have k: "k < 8192" "off = k * 8" using assms by (auto simp: k_def)
  have m: "(0x1FFF :: u16) = mask 13" by (simp add: mask_eq_exp_minus_1)
  have e: "bit (0x2000 :: u16) n \<longleftrightarrow> n = 13" for n
  proof -
    have "(0x2000 :: u16) = 2 ^ 13" by simp
    then show ?thesis by (simp only: bit_exp_iff) auto
  qed
  have e': "bit (0x2000 :: int) n \<longleftrightarrow> n = 13" for n
  proof -
    have "(0x2000 :: int) = 2 ^ 13" by simp
    then show ?thesis by (simp only: bit_exp_iff) auto
  qed
  have bk: "n < 13" if "bit k n" for n
  proof -
    have "take_bit 13 k = k" using k by (simp add: take_bit_nat_eq_self)
    with that show ?thesis by (metis bit_take_bit_iff)
  qed
  have "frag_word off mf AND 0x1FFF = of_nat k"
    unfolding frag_word_def k_def [symmetric] m
    by (rule bit_word_eqI) (auto simp: bit_simps e e' dest: bk)
  then show "unat ((frag_word off mf AND 0x1FFF) * 8) = off"
    using k by (simp add: unat_word_ariths unat_of_nat16)
  show "(frag_word off mf AND 0x2000 \<noteq> 0) = mf"
  proof (cases mf)
    case True
    then have "bit (frag_word off mf AND 0x2000) 13"
      unfolding frag_word_def by (simp add: bit_simps e e')
    with True show ?thesis by auto
  next
    case False
    have "of_nat k AND (0x2000 :: u16) = 0"
      by (rule bit_word_eqI) (auto simp: bit_simps e e' dest: bk)
    with False show ?thesis by (simp add: frag_word_def k_def)
  qed
qed

lemma isForUs_learn [simp]:
  "isForUs (learnMac ip mac v) d = isForUs v d" "isBroadcast (learnMac ip mac v) d = isBroadcast v d"
  "isForUs (bump f v) d = isForUs v d" "isBroadcast (bump f v) d = isBroadcast v d"
  by (simp_all add: isForUs_def isBroadcast_def frame_simps bump_def)

lemma ip_header_loads:
  fixes src dst proto ident ff len csum payload
  defines "p \<equiv> ip_header src dst proto ident ff len csum @ payload"
  shows "rd8 p 0 = Some 0x45" "rd16 p 2 = Some (of_nat (20 + len))" "rd16 p 4 = Some ident"
    "rd16 p 6 = Some ff" "rd8 p 9 = Some proto" "rd32 p 12 = Some src" "rd32 p 16 = Some dst"
    "slice p 0 20 = Some (ip_header src dst proto ident ff len csum)"
    "slice p 20 (length payload) = Some payload"
  by (simp_all add: p_def ip_header_def be16_bytes_def be32_bytes_def rd16_def rd32_def rd8_def
        ntoh16_load ntoh32_load be16_of_bytes be32_of_bytes slice_def)

lemma onIpv4_packet:
  assumes "length payload + 20 < 65536" "isForUs v dst" "off < 65536" "8 dvd off"
  shows "onIpv4 smac (ip_packet src dst proto ident (frag_word off mf) payload) v =
    (let v1 = learnMac src smac (bump (rxIp_update ((+) 1)) v) in
     if off = 0 \<and> \<not> mf then deliverIpv4 src dst proto payload v1
     else reasm_frag src dst proto ident off mf payload v1)"
proof -
  define ff where "ff = frag_word off mf"
  have ff: "unat ((ff AND 0x1FFF) * 8) = off" "ff AND 0x2000 = 0 \<longleftrightarrow> \<not> mf"
    using frag_word_fields [OF assms(3,4), of mf] by (auto simp: ff_def)
  let ?c = "checksum16 (ip_header src dst proto ident ff (length payload) 0) 0"
  note r = ip_header_loads [of src dst proto ident ff "length payload" ?c payload]
  have n: "unat (0x45 AND 0x0F :: u8) * 4 = 20" "drop_bit 4 (0x45 :: u8) = 4" by simp_all
  have t: "unat (of_nat (20 + length payload) :: u16) = 20 + length payload"
    using assms(1) by (intro unat_of_nat16) simp
  have l: "length (ip_header src dst proto ident ff (length payload) ?c @ payload)
      = 20 + length payload" by simp
  show ?thesis
    unfolding ff_def [symmetric] ip_packet_def onIpv4_def Let_def l
    using assms(2)
    by (simp add: r n t t [simplified] ip_header_checksum ff
          del: rd8_in rd16_in rd32_in slice_in)
qed

lemma udp_csum_nonzero: "udp_csum src dst sp dp bytes \<noteq> 0"
  by (simp add: udp_csum_def Let_def)

lemma onUdp_datagram:
  assumes "length bytes \<le> MaxDatagram"
  shows "onUdp src dst (udp_datagram src dst sp dp bytes) v = do {
       (v1, delivered) \<leftarrow> udp_deliver src sp dst dp bytes [0..<MaxSockets]
                            (bump (rxUdp_update ((+) 1)) v) False;
       Some (if delivered then v1
             else bump (no_socket src sp dp (of_nat (length bytes))) v1) }"
proof -
  let ?p = "udp_datagram src dst sp dp bytes"
  have b: "8 \<le> length ?p" "length ?p = 8 + length bytes" by (simp_all add: udp_datagram_def)
  have f: "be16 (?p ! 0) (?p ! 1) = sp" "be16 (?p ! 2) (?p ! 3) = dp"
    "be16 (?p ! 4) (?p ! 5) = of_nat (8 + length bytes)"
    by (simp_all add: udp_datagram_def udp_header_def be16_bytes_def be16_of_bytes)
  have "unat (of_nat (8 + length bytes) :: u16) = 8 + length bytes"
    using assms by (intro unat_of_nat16) (simp add: MaxDatagram_def)
  then have u: "8 + length bytes = udp_len (length ?p) (unat (be16 (?p ! 4) (?p ! 5)))"
    by (simp only: f b(2) udp_len_def) simp
  have "udp_checked src dst ?p (8 + length bytes)"
    using udp_datagram_checksum [OF assms, of src dst sp dp] b(2) by (simp add: udp_checked_def)
  moreover have "drop 8 ?p = bytes" by (simp add: udp_datagram_def)
  ultimately show ?thesis
    unfolding onUdp_body [OF b(1) u] f add_diff_cancel_left' by simp
qed

section \<open>Sockets that hear a datagram\<close>

text \<open>Two states with the same sockets, pool and addresses.\<close>

definition rx_same :: "VNet \<Rightarrow> VNet \<Rightarrow> bool" where
  "rx_same v w \<longleftrightarrow> m_socks w = m_socks v \<and> m_pool w = m_pool v \<and> m_freeList w = m_freeList v \<and>
     m_ip w = m_ip v \<and> m_netmask w = m_netmask v \<and> m_mac w = m_mac v \<and>
     m_configured w = m_configured v"

lemma rx_same_refl [simp]: "rx_same v v"
  by (simp add: rx_same_def)

lemma rx_same_trans: "rx_same u v \<Longrightarrow> rx_same v w \<Longrightarrow> rx_same u w"
  by (simp add: rx_same_def)

lemma rx_same_obs:
  assumes "rx_same v w"
  shows "queue_of w = queue_of v" "pool_room w = pool_room v" "listeners w d dp = listeners v d dp"
    "isForUs w d = isForUs v d" "isBroadcast w d = isBroadcast v d"
proof -
  have "udp_match w d dp = udp_match v d dp"
    using assms by (simp add: rx_same_def udp_match_def isBroadcast_def fun_eq_iff)
  then show "listeners w d dp = listeners v d dp" by (simp add: listeners_def)
qed (use assms in \<open>simp_all add: rx_same_def queue_of_def sock_queue_def queue_idx_def pool_room_def
        free_idx_def isForUs_def isBroadcast_def fun_eq_iff\<close>)

lemma rx_same_ops [simp]:
  "rx_same v (bump f w) = rx_same v w" "rx_same v (learnMac ip mac w) = rx_same v w"
  "rx_same v (w\<lparr>m_reasm := rs, m_tick := t\<rparr>) = rx_same v w"
  by (simp_all add: rx_same_def bump_def frame_simps)

text \<open>The queues after the delivery of a datagram with enough packets free.\<close>

definition heard :: "VNet \<Rightarrow> u32 \<Rightarrow> u16 \<Rightarrow> datagram \<Rightarrow> nat \<Rightarrow> datagram list" where
  "heard v dst dp dg = (\<lambda>j. queue_of v j @
     (if j \<in> set (take (pool_room v) (listeners v dst dp)) then [dg] else []))"

lemma onUdp_heard:
  assumes "vnet_inv v" "length bytes \<le> MaxDatagram"
  shows "\<exists>w. onUdp src dst (udp_datagram src dst sp dp bytes) v = Some w \<and> vnet_inv w \<and>
           queue_of w = heard v dst dp (src, sp, bytes)"
proof -
  let ?v = "bump (rxUdp_update ((+) 1)) v"
  have inv: "vnet_inv ?v" using assms(1) by simp
  then have pinv: "pool_inv ?v" by (simp only: vnet_inv_def)
  have sub: "set [0..<MaxSockets] \<subseteq> {..<MaxSockets}" by auto
  have obs: "queue_of ?v = queue_of v" "pool_room ?v = pool_room v"
    "filter (udp_match ?v dst dp) [0..<MaxSockets] = listeners v dst dp"
    using rx_same_obs [of v ?v] by (simp_all add: listeners_def)
  from udp_deliver_ok [OF pinv distinct_upt sub assms(2), where srcIp = src and srcPort = sp and
      dstIp = dst and dstPort = dp and d = False] obtain p h ss st where
    d: "udp_deliver src sp dst dp bytes [0..<MaxSockets] ?v False =
       Some (?v\<lparr>m_pool := p, m_freeList := h, m_socks := ss, m_stats := st\<rparr>, listeners v dst dp \<noteq> [])"
    and w: "pool_inv (?v\<lparr>m_pool := p, m_freeList := h, m_socks := ss, m_stats := st\<rparr>)"
    "queue_of (?v\<lparr>m_pool := p, m_freeList := h, m_socks := ss, m_stats := st\<rparr>) =
       heard v dst dp (src, sp, bytes)"
    unfolding obs heard_def by (elim exE conjE) (rule that, simp_all add: heard_def)
  have "queue_of (bump f u) = queue_of u" for f u using rx_same_obs(1) [of u "bump f u"] by simp
  with d w vnet_inv_socks [OF inv w(1)] show ?thesis
    by (simp add: onUdp_datagram [OF assms(2)])
qed

section \<open>Reassembly\<close>

lemma reasm_scan_none:
  "(\<And>j. i \<le> j \<Longrightarrow> j < length rs \<Longrightarrow> \<not> mine (rs ! j)) \<Longrightarrow> victim < length rs \<Longrightarrow>
   \<exists>k < length rs. reasm_scan rs mine i victim = Inr k"
proof (induction rs mine i victim rule: reasm_scan.induct)
  case (1 rs mine i victim)
  show ?case
  proof (cases "i < length rs")
    case True
    then have "\<not> mine (rs ! i)" using "1.prems"(1) [of i] by simp
    with True 1 show ?thesis by (simp add: reasm_scan.simps [of rs mine i])
  next
    case False
    with "1.prems"(2) show ?thesis by (simp add: reasm_scan.simps [of rs mine i])
  qed
qed

lemma reasm_scan_hit:
  "i \<le> k \<Longrightarrow> k < length rs \<Longrightarrow> mine (rs ! k) \<Longrightarrow> (\<And>j. i \<le> j \<Longrightarrow> j < k \<Longrightarrow> \<not> mine (rs ! j)) \<Longrightarrow>
   reasm_scan rs mine i victim = Inl k"
proof (induction rs mine i victim rule: reasm_scan.induct)
  case (1 rs mine i victim)
  show ?case
  proof (cases "i = k")
    case True
    with "1.prems" show ?thesis by (simp add: reasm_scan.simps [of rs mine k])
  next
    case False
    then have "i < k" "\<not> mine (rs ! i)" using "1.prems"(1) "1.prems"(4) [of i] by auto
    with 1 show ?thesis by (simp add: reasm_scan.simps [of rs mine i])
  qed
qed

text \<open>Slot \<open>k\<close> holds the first \<open>off\<close> bytes of \<open>payload\<close>, and no other slot claims the packet.\<close>

definition holds ::
  "(Reasm \<Rightarrow> bool) \<Rightarrow> u8 list \<Rightarrow> nat \<Rightarrow> nat \<Rightarrow> Reasm list \<Rightarrow> bool" where
  "holds mine payload off k rs \<longleftrightarrow> k < length rs \<and> mine (rs ! k) \<and>
     r_received (rs ! k) = of_nat off \<and> r_total (rs ! k) = 0 \<and>
     take off (r_data (rs ! k)) = take off payload \<and>
     (\<forall>j < length rs. j \<noteq> k \<longrightarrow> \<not> mine (rs ! j))"

lemma reasm_mine_update:
  "reasm_match ident src dst proto (r\<lparr>r_age := a\<rparr>) = reasm_match ident src dst proto r"
  "reasm_match ident src dst proto (r\<lparr>r_data := d\<rparr>) = reasm_match ident src dst proto r"
  "reasm_match ident src dst proto (r\<lparr>r_received := n\<rparr>) = reasm_match ident src dst proto r"
  "reasm_match ident src dst proto (r\<lparr>r_total := m\<rparr>) = reasm_match ident src dst proto r"
  by (simp_all add: reasm_match_def)

text \<open>The slot of a fragment: a fresh one for the first, the one that holds what came before for the others.\<close>

lemma reasm_slot:
  assumes "length (m_reasm v) = ReasmSlots"
    and "off = 0 \<and> (\<forall>r \<in> set (m_reasm v). \<not> mine r) \<or> holds mine payload off k (m_reasm v)"
  obtains slot fresh where "(case reasm_scan (m_reasm v) mine 0 0 of
      Inl i \<Rightarrow> (i, False) | Inr victim \<Rightarrow> (victim, True)) = (slot, fresh)"
    and "slot < length (m_reasm v)"
    and "\<forall>j < length (m_reasm v). j \<noteq> slot \<longrightarrow> \<not> mine (m_reasm v ! j)"
    and "fresh \<and> off = 0 \<or> \<not> fresh \<and> holds mine payload off slot (m_reasm v)"
  using assms(2)
proof
  assume a: "off = 0 \<and> (\<forall>r \<in> set (m_reasm v). \<not> mine r)"
  then obtain victim where "victim < length (m_reasm v)" "reasm_scan (m_reasm v) mine 0 0 = Inr victim"
    using reasm_scan_none [of 0 "m_reasm v" mine 0] assms(1) by (auto simp: ReasmSlots_def)
  with a show thesis by (intro that [of victim True]) auto
next
  assume h: "holds mine payload off k (m_reasm v)"
  then have "reasm_scan (m_reasm v) mine 0 0 = Inl k"
    by (intro reasm_scan_hit) (auto simp: holds_def)
  with h show thesis by (intro that [of k False]) (auto simp: holds_def)
qed

text \<open>Bytes copied in behind what has arrived make the arrived part longer.\<close>

lemma take_patch:
  assumes "take off xs = take off payload" and "bytes = take (length bytes) (drop off payload)"
    and "off + length bytes \<le> length xs"
  shows "take (off + length bytes) (take off xs @ bytes @ drop (off + length bytes) xs) = take (off + length bytes) payload"
proof -
  have "min (length xs) off = min (length payload) off" using assms(1) by (metis length_take)
  then have "take (off + length bytes) (take off xs @ bytes @ drop (off + length bytes) xs) = take off payload @ bytes"
    using assms(1,3) by simp
  also have "\<dots> = take off payload @ take (length bytes) (drop off payload)" using assms(2) by simp
  also have "\<dots> = take (off + length bytes) payload" by (simp add: take_add)
  finally show ?thesis .
qed

text \<open>A fragment that is not the last, arriving in order.\<close>

lemma reasm_frag_more:
  fixes src dst proto ident
  defines "mine \<equiv> reasm_match ident src dst proto"
  assumes inv: "vnet_inv v"
    and st: "off = 0 \<and> (\<forall>r \<in> set (m_reasm v). \<not> mine r) \<or> holds mine payload off k (m_reasm v)"
    and bytes: "bytes = take (length bytes) (drop off payload)" "off + length bytes \<le> length payload"
    and small: "length payload \<le> ReasmMax"
  shows "\<exists>rs t k'. reasm_frag src dst proto ident off True bytes v =
             Some (v\<lparr>m_reasm := rs, m_tick := t\<rparr>) \<and> vnet_inv (v\<lparr>m_reasm := rs, m_tick := t\<rparr>) \<and>
           holds mine payload (off + length bytes) k' rs"
proof -
  have len: "length (m_reasm v) = ReasmSlots"
    using inv pool_inv_sizes by (simp add: vnet_inv_def sizes_ok_def)
  obtain slot fresh where sc: "(case reasm_scan (m_reasm v) mine 0 0 of
      Inl i \<Rightarrow> (i, False) | Inr victim \<Rightarrow> (victim, True)) = (slot, fresh)"
    and slot: "slot < length (m_reasm v)"
    and other: "\<forall>j < length (m_reasm v). j \<noteq> slot \<longrightarrow> \<not> mine (m_reasm v ! j)"
    and kind: "fresh \<and> off = 0 \<or> \<not> fresh \<and> holds mine payload off slot (m_reasm v)"
    by (rule reasm_slot [OF len st])
  have d: "length (r_data (m_reasm v ! slot)) = ReasmMax" "unat (r_total (m_reasm v ! slot)) \<le> ReasmMax"
    using inv pool_inv_reasm [of v "m_reasm v ! slot"] slot by (simp_all add: vnet_inv_def)
  define r1 where "r1 = (if fresh
      then (m_reasm v ! slot)\<lparr>r_used := True, r_srcIp := src, r_dstIp := dst, r_id := ident,
              r_proto := proto, r_received := 0, r_total := 0\<rparr>
      else m_reasm v ! slot)"
  have r1: "mine r1" "r_received r1 = of_nat off" "r_total r1 = 0"
    "take off (r_data r1) = take off payload" "length (r_data r1) = ReasmMax"
    using kind d by (auto simp: r1_def mine_def holds_def reasm_match_def)
  have offm: "off + length bytes \<le> ReasmMax" using bytes small by simp
  let ?d = "take off (r_data r1) @ bytes @ drop (off + length bytes) (r_data r1)"
  define r3 where "r3 = r1\<lparr>r_age := m_tick v + 1, r_data := ?d,
      r_received := of_nat (off + length bytes)\<rparr>"
  have rcv: "of_nat (unat (r_received r1) + length bytes) = (of_nat (off + length bytes) :: u16)"
    using r1(2) offm by (simp add: unat_of_nat16 ReasmMax_def)
  let ?w = "v\<lparr>m_reasm := (m_reasm v)[slot := r3], m_tick := m_tick v + 1\<rparr>"
  have "reasm_frag src dst proto ident off True bytes v = Some ?w"
    using slot offm r1(3,5) rcv
    by (simp add: reasm_frag_def mine_def [symmetric] sc r1_def [symmetric] Let_def r3_def)
  moreover have "length ?d = ReasmMax" using r1(5) offm bytes(2) by simp
  then have "vnet_inv ?w"
    using inv r1(3) by (intro vnet_inv_reasm) (simp_all add: r3_def)
  moreover have "take (off + length bytes) ?d = take (off + length bytes) payload"
    using r1(4,5) bytes(1) offm by (intro take_patch) simp_all
  then have "holds mine payload (off + length bytes) slot (m_reasm ?w)"
    using slot other r1 by (simp add: holds_def r3_def mine_def reasm_mine_update)
  ultimately show ?thesis by auto
qed

text \<open>The last fragment completes the payload, which goes up as it was sent.\<close>

lemma reasm_frag_last:
  fixes src dst proto ident
  defines "mine \<equiv> reasm_match ident src dst proto"
  assumes inv: "vnet_inv v" and st: "holds mine payload off k (m_reasm v)"
    and off: "off \<le> length payload" and ne: "payload \<noteq> []" and small: "length payload \<le> ReasmMax"
  shows "\<exists>w. reasm_frag src dst proto ident off False (drop off payload) v =
             deliverIpv4 src dst proto payload w \<and> vnet_inv w \<and> rx_same v w"
proof -
  have k: "k < length (m_reasm v)" using st by (simp add: holds_def)
  have sc: "reasm_scan (m_reasm v) mine 0 0 = Inl k"
    using st by (intro reasm_scan_hit) (auto simp: holds_def)
  define r where "r = m_reasm v ! k"
  have d: "length (r_data r) = ReasmMax"
    using inv pool_inv_reasm [of v r] k by (simp add: vnet_inv_def r_def)
  have h: "r_received r = of_nat off" "take off (r_data r) = take off payload"
    using st by (simp_all add: holds_def r_def)
  let ?n = "length payload"
  have n: "off + (?n - off) = ?n" "off + (?n - off) \<le> ReasmMax" using off small by simp_all
  have u: "unat (of_nat ?n :: u16) = ?n" using small by (intro unat_of_nat16) (simp add: ReasmMax_def)
  have rcv: "of_nat (unat (r_received r) + (?n - off)) = (of_nat ?n :: u16)"
    using h(1) n off small by (simp add: unat_of_nat16 ReasmMax_def)
  have nz: "(of_nat ?n :: u16) \<noteq> 0" using u ne by (metis length_0_conv unsigned_0)
  let ?d = "take off (r_data r) @ drop off payload @ drop ?n (r_data r)"
  have whole: "slice ?d 0 ?n = Some payload"
    using h(2) d small off by (simp add: slice_def)
  let ?r = "r\<lparr>r_age := m_tick v + 1, r_data := ?d, r_received := of_nat ?n, r_total := of_nat ?n,
              r_used := False\<rparr>"
  let ?w = "v\<lparr>m_reasm := (m_reasm v)[k := ?r], m_tick := m_tick v + 1\<rparr>"
  have "memcpy (r_data r) off (drop off payload) = Some ?d" using d n by (simp add: memcpy_def)
  then have "reasm_frag src dst proto ident off False (drop off payload) v =
      deliverIpv4 src dst proto payload ?w"
    using k n u rcv nz whole
    by (simp add: reasm_frag_def mine_def [symmetric] sc r_def [symmetric] Let_def not_less
          del: memcpy_in slice_in)
  moreover have "length ?d = ReasmMax" using d off small by simp
  then have "vnet_inv ?w" using inv u small by (intro vnet_inv_reasm) simp_all
  ultimately show ?thesis by (intro exI [of _ ?w]) simp
qed

section \<open>The link\<close>

primrec recv_frames :: "u64 \<Rightarrow> frame list \<Rightarrow> VNet \<Rightarrow> VNet option" where
  "recv_frames smac [] v = Some v"
| "recv_frames smac (f # fs) v = do {
     w \<leftarrow> onFrame smac (fst f) (fst (snd f)) (Some (snd (snd f))) v;
     recv_frames smac fs w }"

definition accepts :: "VNet \<Rightarrow> u64 \<Rightarrow> u32 \<Rightarrow> bool" where
  "accepts v mac dst \<longleftrightarrow> m_configured v \<and> (mac = m_mac v \<or> mac = MacBroadcast) \<and> isForUs v dst"

lemma rx_same_accepts: "rx_same v w \<Longrightarrow> accepts w mac dst = accepts v mac dst"
  using rx_same_obs(4) [of v w dst] by (simp add: accepts_def rx_same_def)

text \<open>The state in which the body of a packet is handled, after the counters and the neighbour.\<close>

definition heard_from :: "u32 \<Rightarrow> u64 \<Rightarrow> VNet \<Rightarrow> VNet" where
  "heard_from src smac v =
     learnMac src smac (bump (rxIp_update ((+) 1)) (bump (rxFrames_update ((+) 1)) v))"

lemma heard_from_facts [simp]:
  "rx_same v (heard_from src smac v)" "m_reasm (heard_from src smac v) = m_reasm v"
  "vnet_inv v \<Longrightarrow> vnet_inv (heard_from src smac v)"
  by (simp_all add: heard_from_def frame_simps) (simp add: bump_def)

lemma onFrame_packet:
  assumes "accepts v mac dst" "length bytes + 20 < 65536" "off < 65536" "8 dvd off"
  shows "onFrame smac mac EtherType_IPv4
      (Some (ip_packet src dst proto ident (frag_word off mf) bytes)) v =
    (if off = 0 \<and> \<not> mf then deliverIpv4 src dst proto bytes (heard_from src smac v)
     else reasm_frag src dst proto ident off mf bytes (heard_from src smac v))"
proof -
  let ?v = "bump (rxFrames_update ((+) 1)) v"
  have "isForUs ?v dst" using assms(1) by (simp add: accepts_def)
  from onIpv4_packet [OF assms(2) this assms(3,4), of smac src proto ident mf]
  show ?thesis using assms(1)
    by (auto simp: onFrame_def Let_def accepts_def bump_def [of _ v] ip_packet_def EtherType_IPv4_def
          EtherType_ARP_def heard_from_def ip_header_def)
qed

lemma frag_frame_apply: "frag_frame mac src dst proto ident (off, mf, bytes) =
    (mac, EtherType_IPv4, ip_packet src dst proto ident (frag_word off mf) bytes)"
  by (simp add: frag_frame_def)

text \<open>The last fragment of a payload, or all of it in one packet.\<close>

lemma recv_last_fragment:
  fixes src dst proto ident
  defines "mine \<equiv> reasm_match ident src dst proto"
  assumes a: "accepts v mac dst" and off: "8 dvd off" "off \<le> length payload" and pl: "payload \<noteq> []" "length payload \<le> ReasmMax"
    and inv: "vnet_inv v" and st: "off = 0 \<or> holds mine payload off k (m_reasm v)"
  shows "\<exists>w. recv_frames smac [frag_frame mac src dst proto ident (off, False, drop off payload)] v =
           deliverIpv4 src dst proto payload w \<and> vnet_inv w \<and> rx_same v w"
proof -
  let ?v = "heard_from src smac v"
  have inv': "vnet_inv ?v" using inv by simp
  have "length (drop off payload) + 20 < 65536" "off < 65536" using off(2) pl(2) by (simp_all add: ReasmMax_def)
  note onf = onFrame_packet [OF a this off(1), of smac src proto ident False]
  show ?thesis
  proof (cases "off = 0")
    case True
    with onf inv' show ?thesis by (intro exI [of _ ?v]) (simp add: frag_frame_apply)
  next
    case False
    then have "holds mine payload off k (m_reasm ?v)" using st by simp
    from reasm_frag_last [OF inv' this [unfolded mine_def] off(2) pl] obtain w where
      "reasm_frag src dst proto ident off False (drop off payload) ?v = deliverIpv4 src dst proto payload w"
      "vnet_inv w" "rx_same ?v w" by blast
    then show ?thesis using onf False rx_same_trans [of v ?v w] by (intro exI [of _ w]) (simp add: frag_frame_apply)
  qed
qed

text \<open>A fragment before the last is taken in, and the interface waits for the next.\<close>

lemma recv_more_fragment:
  fixes src dst proto ident
  defines "mine \<equiv> reasm_match ident src dst proto"
  assumes a: "accepts v mac dst" and off: "8 dvd off" "off + length bytes \<le> length payload" and pl: "length payload \<le> ReasmMax"
    and bytes: "bytes = take (length bytes) (drop off payload)" and inv: "vnet_inv v"
    and st: "off = 0 \<and> (\<forall>r \<in> set (m_reasm v). \<not> mine r) \<or> holds mine payload off k (m_reasm v)"
  shows "\<exists>w k'. recv_frames smac (frag_frame mac src dst proto ident (off, True, bytes) # fs) v = recv_frames smac fs w \<and>
           vnet_inv w \<and> rx_same v w \<and> holds mine payload (off + length bytes) k' (m_reasm w)"
proof -
  let ?v = "heard_from src smac v"
  have inv': "vnet_inv ?v" using inv by simp
  have "length bytes + 20 < 65536" "off < 65536" using off(2) pl by (simp_all add: ReasmMax_def)
  note onf = onFrame_packet [OF a this off(1), of smac src proto ident True]
  have "off = 0 \<and> (\<forall>r \<in> set (m_reasm ?v). \<not> mine r) \<or> holds mine payload off k (m_reasm ?v)" using st by auto
  with bytes off(2) pl obtain rs t k' where
    r: "reasm_frag src dst proto ident off True bytes ?v = Some (?v\<lparr>m_reasm := rs, m_tick := t\<rparr>)"
      "vnet_inv (?v\<lparr>m_reasm := rs, m_tick := t\<rparr>)" "holds mine payload (off + length bytes) k' rs"
    using reasm_frag_more [OF inv', of off ident src dst proto payload k bytes] unfolding mine_def by blast
  with onf show ?thesis
    by (intro exI [of _ "?v\<lparr>m_reasm := rs, m_tick := t\<rparr>"] exI [of _ k']) (simp add: frag_frame_apply)
qed

lemma recv_fragments:
  fixes src dst proto ident
  defines "mine \<equiv> reasm_match ident src dst proto"
  assumes "tiling off fs" "fs \<noteq> []" "frag_bytes fs = drop off payload" "off \<le> length payload"
    and "8 dvd off" "payload \<noteq> []" "length payload \<le> ReasmMax"
    and "vnet_inv v" "accepts v mac dst"
    and "off = 0 \<and> (\<forall>r \<in> set (m_reasm v). \<not> mine r) \<or> holds mine payload off k (m_reasm v) \<and> off \<noteq> 0"
  shows "\<exists>w. recv_frames smac (map (frag_frame mac src dst proto ident) fs) v =
           deliverIpv4 src dst proto payload w \<and> vnet_inv w \<and> rx_same v w"
  using assms(2-)
proof (induction fs arbitrary: off v k)
  case (Cons f fs)
  obtain o' mf bytes where f: "f = (o', mf, bytes)" by (metis prod_cases3)
  with Cons.prems(1) have o: "o' = off" "mf \<longleftrightarrow> fs \<noteq> []" "mf \<Longrightarrow> 8 dvd length bytes \<and> bytes \<noteq> []"
    "tiling (off + length bytes) fs" by auto
  have split: "drop off payload = bytes @ frag_bytes fs" using Cons.prems(3) by (simp add: f frag_bytes_def)
  then have len: "off + length bytes + length (frag_bytes fs) = length payload"
    using Cons.prems(4) by (metis add.assoc length_append length_drop le_add_diff_inverse)
  show ?case
  proof (cases "fs = []")
    case True
    then have "f = (off, False, drop off payload)" using o(1,2) split by (simp add: f frag_bytes_def)
    with True recv_last_fragment [OF Cons.prems(9,5,4,6,7,8), of ident src proto k smac] Cons.prems(10)
    show ?thesis unfolding mine_def by auto
  next
    case False
    have part: "off + length bytes \<le> length payload" "bytes = take (length bytes) (drop off payload)"
      using len split by simp_all
    have "off = 0 \<and> (\<forall>r \<in> set (m_reasm v). \<not> mine r) \<or> holds mine payload off k (m_reasm v)" using Cons.prems(10) by blast
    from recv_more_fragment [OF Cons.prems(9,5) part(1) Cons.prems(7) part(2) Cons.prems(8) this [unfolded mine_def],
        of smac "map (frag_frame mac src dst proto ident) fs"]
    obtain w k' where w: "recv_frames smac (map (frag_frame mac src dst proto ident) (f # fs)) v =
        recv_frames smac (map (frag_frame mac src dst proto ident) fs) w"
      "vnet_inv w" "rx_same v w" "holds mine payload (off + length bytes) k' (m_reasm w)"
      using o(1,2) False by (auto simp: f mine_def)
    have "\<exists>u. recv_frames smac (map (frag_frame mac src dst proto ident) fs) w =
        deliverIpv4 src dst proto payload u \<and> vnet_inv u \<and> rx_same w u"
    proof (rule Cons.IH [of "off + length bytes" _ k'])
      show "frag_bytes fs = drop (off + length bytes) payload"
        using split by (metis append_eq_conv_conj drop_drop add.commute)
      show "accepts w mac dst" using Cons.prems(9) rx_same_accepts [OF w(3)] by blast
    qed (use o False len Cons.prems(5,6,7) w in auto)
    then show ?thesis using w(1) rx_same_trans [OF w(3)] by auto
  qed
qed simp

lemma ip_fragments_tiling:
  assumes "mtu_ok v"
  shows "tiling 0 (ip_fragments v p)" "frag_bytes (ip_fragments v p) = p" "ip_fragments v p \<noteq> []"
proof -
  have n: "8 dvd max_payload v div 8 * 8" "0 < max_payload v div 8 * 8"
    using max_payload_bounds [OF assms] by auto
  show "tiling 0 (ip_fragments v p)" "frag_bytes (ip_fragments v p) = p"
    using fragments_tiling [OF n, of 0 p] by (auto simp: ip_fragments_def frag_bytes_def)
  show "ip_fragments v p \<noteq> []"
    using n by (auto simp: ip_fragments_def fragments.simps [of _ 0])
qed

text \<open>What sending a datagram emits, and what a receiver of these frames makes of them.\<close>

lemma udp_sends:
  assumes "vnet_inv v" and "vfd_ok v vfd" and "m_configured v" and "m_emit v"
    and "len \<le> MaxDatagram" and "len \<le> length b" and "lookupMac v dst \<noteq> 0"
  shows "\<exists>w. udpSendTo vfd dst dp (Some b) len v = Some (w, int len) \<and> m_mac w = m_mac v \<and>
    m_emitted w = m_emitted v @
      ip_frames v dst IpProto_UDP (udp_datagram (m_ip v) dst (udpLocalPort vfd w) dp (take len b))"
proof -
  have inv: "pool_inv v" "49152 \<le> unat (m_nextEphemeral v)" "mtu_ok v" using assms(1) by (simp_all add: vnet_inv_def)
  let ?s = "udp_source vfd v"
  note fr = udp_source_frame [OF inv(1,2) assms(2)]
  have same: "ip_frames ?s dst IpProto_UDP p = ip_frames v dst IpProto_UDP p" for p
    by (rule ip_frames_cong) (simp_all add: fr)
  from udpSendTo_ok [OF inv(1,2) assms(2) inv(3) assms(3,5,6), of dst dp] obtain st where
    "udpSendTo vfd dst dp (Some b) len v = Some (sent (after_send ?s dst)
      (ip_frames ?s dst IpProto_UDP (udp_datagram (m_ip v) dst (udpLocalPort vfd ?s) dp (take len b))) st, int len)" by blast
  moreover have "udpLocalPort vfd (sent (after_send ?s dst) fs st) = udpLocalPort vfd ?s"
    "m_mac (sent (after_send ?s dst) fs st) = m_mac v"
    "m_emitted (sent (after_send ?s dst) fs st) = m_emitted v @ fs" for fs
    using fr assms(4) by (simp_all add: sent_def after_send_def udpLocalPort_def vfd_ok_def)
  ultimately show ?thesis by (simp add: same)
qed


lemma link_hears:
  assumes "mtu_ok a" and "lookupMac a dst = mac" and "mac \<noteq> 0" and "length bytes \<le> MaxDatagram"
    and "vnet_inv v" and "accepts v mac dst"
    and "\<forall>r \<in> set (m_reasm v). \<not> reasm_match (m_ipId a) (m_ip a) dst IpProto_UDP r"
  shows "\<exists>w. recv_frames smac (ip_frames a dst IpProto_UDP (udp_datagram (m_ip a) dst sp dp bytes)) v = Some w \<and>
    vnet_inv w \<and> queue_of w = heard v dst dp (m_ip a, sp, bytes)"
proof -
  let ?p = "udp_datagram (m_ip a) dst sp dp bytes"
  note t = ip_fragments_tiling [OF assms(1), of ?p]
  have pl: "?p \<noteq> []" "length ?p \<le> ReasmMax"
    using assms(4) by (auto simp: udp_datagram_def udp_header_def be16_bytes_def MaxDatagram_def ReasmMax_def)
  from recv_fragments [OF t(1,3) _ _ _ pl assms(5,6), where ident = "m_ipId a" and src = "m_ip a" and
      proto = IpProto_UDP and smac = smac and k = 0] t(2) assms(7) obtain w where
    w: "recv_frames smac (map (frag_frame mac (m_ip a) dst IpProto_UDP (m_ipId a)) (ip_fragments a ?p)) v =
        deliverIpv4 (m_ip a) dst IpProto_UDP ?p w" "vnet_inv w" "rx_same v w" by auto
  have "heard w dst dp dg = heard v dst dp dg" for dg
    using rx_same_obs [OF w(3)] by (simp add: heard_def)
  with onUdp_heard [OF w(2) assms(4), of "m_ip a" dst sp dp] w(1) assms(2,3) show ?thesis
    by (auto simp: ip_frames_def deliverIpv4_def)
qed

text \<open>
  C2. End to end: what a socket of one interface sends with \<^verbatim>\<open>udpSendTo\<close>, in one packet or in
  fragments, is in the queues of exactly the listening sockets of the receiving interface once the
  emitted frames have arrived in order, with the sender's address and port and byte for byte (a
  listener misses it only when the receiver's packet pool has run out).
\<close>

theorem udp_end_to_end:
  assumes A: "vnet_inv a" "vfd_ok a vfd" "m_configured a" "m_emit a"
    and len: "len \<le> MaxDatagram" "len \<le> length b"
    and mac: "lookupMac a dst = mac" "mac \<noteq> 0"
    and B: "vnet_inv v" "accepts v mac dst"
    and fresh: "\<forall>r \<in> set (m_reasm v). \<not> reasm_match (m_ipId a) (m_ip a) dst IpProto_UDP r"
  shows "\<exists>a' fs w. udpSendTo vfd dst dp (Some b) len a = Some (a', int len) \<and>
           m_emitted a' = m_emitted a @ fs \<and> recv_frames (m_mac a) fs v = Some w \<and> vnet_inv w \<and>
           queue_of w = heard v dst dp (m_ip a, udpLocalPort vfd a', take len b)"
proof -
  have "mtu_ok a" "length (take len b) \<le> MaxDatagram" using A(1) len by (simp_all add: vnet_inv_def)
  note hears = link_hears [OF this(1) mac this(2) B fresh]
  from udp_sends [OF A len, of dst dp] mac obtain a' where
    "udpSendTo vfd dst dp (Some b) len a = Some (a', int len)"
    "m_emitted a' = m_emitted a @
      ip_frames a dst IpProto_UDP (udp_datagram (m_ip a) dst (udpLocalPort vfd a') dp (take len b))" by auto
  with hears [of "m_mac a" "udpLocalPort vfd a'" dp] show ?thesis by blast
qed

theorem udp_end_to_end_witness:
  "\<exists>a' fs w. udpSendTo 0 IpBroadcast 30000 (Some (replicate 2000 1)) 2000 demo = Some (a', int 2000) \<and>
     m_emitted a' = m_emitted demo @ fs \<and> recv_frames (m_mac demo) fs demo = Some w \<and> vnet_inv w \<and>
     queue_of w = heard demo IpBroadcast 30000
       (m_ip demo, udpLocalPort 0 a', take 2000 (replicate 2000 1))"
  by (rule udp_end_to_end [OF demo_vnet_inv demo_vfd demo_fields(4) demo_fields(2) _ _ demo_mtu(2) _
        demo_vnet_inv])
     (simp_all add: MaxDatagram_def MacBroadcast_def accepts_def demo_fields isForUs_def isBroadcast_def
        reasm_match_def zero_reasm_def)

end
