(* ===== verification/VNetApi.thy ===== *)
theory VNetApi
  imports VNetLink
begin

text \<open>
  The interface as its callers see it: the calls the port and the interposer make, in any order,
  from the reset object.  Every reachable state satisfies the invariant, and no call that passes
  buffers of the stated size can fail.  Behind it, the answers to ARP and to ping, what happens to a
  datagram for an unknown neighbour, and the choice of the reassembly slot.
\<close>

section \<open>Calls\<close>

datatype vnet_call =
    Reset
  | SetEmit bool
  | Configure u64 u32 u32 u16
  | Frame u64 u64 u16 "u8 list option"
  | Echo u32
  | Open
  | Bind int u32 u16
  | SetBroadcast int bool
  | SendTo int u32 u16 "u8 list option" nat
  | RecvFrom int "u8 list option" nat bool
  | Close int

text \<open>The buffers a caller passes are at least as long as it says.\<close>

fun call_ok :: "vnet_call \<Rightarrow> bool" where
  "call_ok (SendTo vfd ip port (Some b) len) = (len \<le> length b)"
| "call_ok (RecvFrom vfd (Some b) maxlen peek) = (maxlen \<le> length b)"
| "call_ok _ = True"

fun vnet_exec :: "vnet_call \<Rightarrow> VNet \<Rightarrow> VNet option" where
  "vnet_exec Reset v = Some (reset v)"
| "vnet_exec (SetEmit fn) v = Some (setEmit fn v)"
| "vnet_exec (Configure mac ip netmask mtu) v = Some (configure mac ip netmask mtu v)"
| "vnet_exec (Frame smac dmac et p) v = onFrame smac dmac et p v"
| "vnet_exec (Echo ip) v = map_option fst (sendEchoRequest ip v)"
| "vnet_exec Open v = Some (fst (udpOpen v))"
| "vnet_exec (Bind vfd ip port) v = Some (fst (udpBind vfd ip port v))"
| "vnet_exec (SetBroadcast vfd on) v = Some (udpSetBroadcast vfd on v)"
| "vnet_exec (SendTo vfd ip port buf len) v = map_option fst (udpSendTo vfd ip port buf len v)"
| "vnet_exec (RecvFrom vfd buf maxlen peek) v = map_option fst (udpRecvFrom vfd buf maxlen peek v)"
| "vnet_exec (Close vfd) v = udpClose vfd v"

inductive vnet_reach :: "VNet \<Rightarrow> bool" where
  start: "vnet_reach (reset vnet_fresh)"
| call: "vnet_reach v \<Longrightarrow> call_ok c \<Longrightarrow> vnet_exec c v = Some w \<Longrightarrow> vnet_reach w"

inductive_cases vnet_reachE: "vnet_reach v"

section \<open>Every call keeps the invariant\<close>

lemma arp_ok_zero: "length es = ArpEntries \<Longrightarrow> arp_ok (map (\<lambda>a. zero_arp) es)"
  by (simp add: arp_ok_def zero_arp_def)

lemma vnet_inv_reset [step_inv]: "sizes_ok v \<Longrightarrow> vnet_inv (reset v)"
proof -
  assume "sizes_ok v"
  then have "pool_inv (reset v)" "length (m_arp v) = ArpEntries"
    using layout_reset layout_pool_inv by (auto simp: sizes_ok_def)
  then show ?thesis
    by (simp add: vnet_inv_def arp_inv_def reset_def arp_ok_zero mtu_ok_def MaxFrame_def)
qed

lemma vnet_inv_sizes: "vnet_inv v \<Longrightarrow> sizes_ok v"
  by (simp add: vnet_inv_def pool_inv_sizes)

lemma vnet_inv_same:
  assumes "vnet_inv v" "m_socks w = m_socks v" "m_pool w = m_pool v" "m_freeList w = m_freeList v"
    "m_arp w = m_arp v" "m_reasm w = m_reasm v" "mtu_ok w" "49152 \<le> unat (m_nextEphemeral w)"
  shows "vnet_inv w"
  using assms pool_inv_reasm [of v] unfolding vnet_inv_def arp_inv_def
  by (auto intro!: pool_inv_fields [of w v])

lemma vnet_inv_configure [step_inv]: "vnet_inv v \<Longrightarrow> vnet_inv (configure mac ip nm mtu v)"
  by (rule vnet_inv_same [of v])
     (auto simp: configure_def mtu_ok_def vnet_inv_def MaxFrame_def word_le_nat_alt)

lemma vnet_inv_setEmit [step_inv]: "vnet_inv v \<Longrightarrow> vnet_inv (setEmit fn v)"
  by (rule vnet_inv_same [of v]) (auto simp: setEmit_def mtu_ok_def vnet_inv_def)

lemma vnet_inv_layout:
  assumes "vnet_inv v" "layout w fl qs" "m_arp w = m_arp v" "m_mtu w = m_mtu v"
    "49152 \<le> unat (m_nextEphemeral w)"
  shows "vnet_inv w"
  using assms layout_pool_inv by (auto simp: vnet_inv_def arp_inv_def mtu_ok_def)

lemma vnet_inv_obtain:
  assumes "vnet_inv v" obtains fl qs where "layout v fl qs"
  using assms by (auto simp: vnet_inv_def pool_inv_def)

lemma vnet_inv_ephemeral: "vnet_inv v \<Longrightarrow> 49152 \<le> unat (m_nextEphemeral v)"
  by (simp add: vnet_inv_def)

lemma vnet_inv_open [step_inv]: "vnet_inv v \<Longrightarrow> vnet_inv (fst (udpOpen v))"
proof -
  assume inv: "vnet_inv v"
  then obtain fl qs where "layout v fl qs" by (rule vnet_inv_obtain)
  from open_ok [OF this] show ?thesis
    by (rule vnet_inv_layout [OF inv])
       (use vnet_inv_ephemeral [OF inv] in \<open>auto simp: udpOpen_def split: option.splits\<close>)
qed

lemma bind_tries_range:
  "49152 \<le> unat (m_nextEphemeral v) \<Longrightarrow> 49152 \<le> unat (m_nextEphemeral (fst (bind_tries n v)))"
proof (induction n arbitrary: v)
  case (Suc n)
  have "49152 \<le> unat (eph_next (m_nextEphemeral v))" using Suc.prems by (simp add: eph_next_unat)
  with Suc show ?case by (simp add: bind_tries_Suc del: bind_tries.simps)
qed simp

lemma udpBind_frame:
  "\<exists>e ss. fst (udpBind vfd ip port v) = v\<lparr>m_nextEphemeral := e, m_socks := ss\<rparr> \<and>
     (49152 \<le> unat (m_nextEphemeral v) \<longrightarrow> 49152 \<le> unat e)"
proof -
  obtain w p where b: "(if port = 0 then bind_tries 4096 v else (v, port)) = (w, p)" by fastforce
  obtain e where w: "w = v\<lparr>m_nextEphemeral := e\<rparr>"
    and r: "49152 \<le> unat (m_nextEphemeral v) \<longrightarrow> 49152 \<le> unat e"
  proof (cases "port = 0")
    case True
    with b obtain e where "w = v\<lparr>m_nextEphemeral := e\<rparr>"
      using bind_tries_frame [of 4096 v w p] by auto
    with bind_tries_range [of v 4096] b True show thesis by (intro that [of e]) auto
  next
    case False
    with b show thesis by (intro that [of "m_nextEphemeral v"]) auto
  qed
  consider "\<not> vfd_ok v vfd" | "vfd_ok v vfd" "p = 0" | "vfd_ok v vfd" "p \<noteq> 0" by blast
  then show ?thesis
  proof cases
    case 1
    then show ?thesis
      by (intro exI [of _ "m_nextEphemeral v"] exI [of _ "m_socks v"]) (simp add: udpBind_def)
  next
    case 2
    with b w r show ?thesis
      by (intro exI [of _ e] exI [of _ "m_socks v"]) (simp add: udpBind_def)
  next
    case 3
    with b w r show ?thesis
      by (intro exI [of _ e] exI [of _ "(m_socks v)[nat vfd := (m_socks v ! nat vfd)
             \<lparr>s_localIp := (if ip = m_ip v then 0 else ip), s_localPort := p\<rparr>]"])
         (simp add: udpBind_def)
  qed
qed

lemma vnet_inv_bind [step_inv]: "vnet_inv v \<Longrightarrow> vnet_inv (fst (udpBind vfd ip port v))"
proof -
  assume inv: "vnet_inv v"
  then obtain fl qs where l: "layout v fl qs" by (rule vnet_inv_obtain)
  obtain e ss where f: "fst (udpBind vfd ip port v) = v\<lparr>m_nextEphemeral := e, m_socks := ss\<rparr>"
    "49152 \<le> unat (m_nextEphemeral v) \<longrightarrow> 49152 \<le> unat e"
    using udpBind_frame by blast
  from bind_ok [OF l] show ?thesis
    by (rule vnet_inv_layout [OF inv]) (use f vnet_inv_ephemeral [OF inv] in auto)
qed

lemma vnet_inv_broadcast [step_inv]: "vnet_inv v \<Longrightarrow> vnet_inv (udpSetBroadcast vfd on v)"
proof -
  assume inv: "vnet_inv v"
  then obtain fl qs where l: "layout v fl qs" by (rule vnet_inv_obtain)
  show ?thesis
  proof (cases "vfd_ok v vfd")
    case True
    then have "nat vfd < MaxSockets" using vfd_ok_range by blast
    with l have "layout (v\<lparr>m_socks := (m_socks v)[nat vfd := (m_socks v ! nat vfd)\<lparr>s_broadcast := on\<rparr>]\<rparr>) fl qs"
      by (intro set_sock_ok) simp_all
    from vnet_inv_layout [OF inv this] True vnet_inv_ephemeral [OF inv] show ?thesis
      by (simp add: udpSetBroadcast_def)
  qed (use inv in \<open>simp add: udpSetBroadcast_def\<close>)
qed

lemma close_inv [step_inv]: "vnet_inv v \<Longrightarrow> okinv (udpClose vfd v)"
proof -
  assume inv: "vnet_inv v"
  then obtain fl qs where l: "layout v fl qs" by (rule vnet_inv_obtain)
  show ?thesis
  proof (cases "vfd_ok v vfd")
    case True
    then have i: "int (nat vfd) = vfd" "nat vfd < MaxSockets" "s_used (m_socks v ! nat vfd)"
      using vfd_ok_range by auto
    from close_ok [OF l i(2,3)] i(1) vnet_inv_layout [OF inv] vnet_inv_ephemeral [OF inv]
    show ?thesis by (fastforce simp: okinv_def)
  qed (use inv in \<open>simp add: udpClose_def\<close>)
qed

lemma recv_inv [step_inv]:
  assumes inv: "vnet_inv v" and buf: "\<And>b. buf = Some b \<Longrightarrow> maxlen \<le> length b"
  shows "okinv (map_option fst (udpRecvFrom vfd buf maxlen peek v))"
proof (cases "vfd_ok v vfd")
  case False
  with inv show ?thesis by (simp add: recv_closed)
next
  case True
  then have i: "int (nat vfd) = vfd" "nat vfd < MaxSockets" "s_used (m_socks v ! nat vfd)"
    using vfd_ok_range by auto
  from inv obtain fl qs where l: "layout v fl qs" by (rule vnet_inv_obtain)
  show ?thesis
  proof (cases "qs ! nat vfd")
    case Nil
    with recv_empty [OF l i(2)] i(1) inv show ?thesis by simp
  next
    case (Cons x q)
    obtain ip port data where dg: "pkt_datagram (m_pool v ! x) = (ip, port, data)" by (metis prod_cases3)
    note r = recv_ok [OF l i(2,3) Cons buf dg]
    have "vnet_inv (pop_state (nat vfd) x v)"
      using r(2) by (rule vnet_inv_layout [OF inv])
         (use vnet_inv_ephemeral [OF inv] in \<open>simp_all add: pop_state_def Let_def\<close>)
    with r(1) [where peek = peek] i(1) inv show ?thesis by simp
  qed
qed

lemma send_inv [step_inv]:
  assumes inv: "vnet_inv v" and buf: "\<And>b. buf = Some b \<Longrightarrow> len \<le> length b"
  shows "okinv (map_option fst (udpSendTo vfd dst dp buf len v))"
proof (cases "vfd_ok v vfd \<and> m_configured v \<and> len \<le> MaxDatagram")
  case False
  with inv show ?thesis by (auto simp: udpSendTo_def)
next
  case True
  let ?w = "udp_source vfd v"
  have pinv: "pool_inv v" "49152 \<le> unat (m_nextEphemeral v)" "vfd_ok v vfd"
    using inv True by (simp_all add: vnet_inv_def)
  note fr = udp_source_frame [OF pinv] and ub = udp_source_bound [OF pinv]
  have w: "(if udpLocalPort vfd v = 0 then udpBind vfd 0 0 v else (v, 0)) = (?w, 0)"
    using ub(1) by (auto simp: udp_source_def prod_eq_iff)
  have winv: "vnet_inv ?w"
    using ub(3,4) fr(9,14) inv by (auto simp: vnet_inv_def arp_inv_def)
  have vfd: "0 \<le> vfd" "vfd < int (length (m_socks ?w))"
    using vfd_ok_range [OF pinv(3)] vnet_inv_sizes [OF winv] by (auto simp: sizes_ok_def)
  define bytes where "bytes = (case buf of None \<Rightarrow> [] | Some b \<Rightarrow> take len b)"
  have b: "(case buf of None \<Rightarrow> Some [] | Some b \<Rightarrow> slice b 0 len) = Some bytes" "length bytes \<le> len"
    using buf by (auto simp: bytes_def split: option.splits)
  then have "8 + length bytes \<le> length (stackbuf (udp4_Header + MaxDatagram))"
    using True by (simp add: stackbuf_def)
  note bu = build_udp_bytes [OF this]
  have l: "length (bytes @ drop (8 + length bytes) (stackbuf (udp4_Header + MaxDatagram))) \<ge> len"
    using b(2) True by (simp add: stackbuf_def)
  have s: "\<exists>x. slice (udp_header sp dp len c @ bytes @ drop (8 + length bytes)
      (stackbuf (udp4_Header + MaxDatagram))) 0 (8 + len) = Some x" for sp dp c
    using l by (simp add: slice_def)
  have send: "okinv (sendIpv4 dst IpProto_UDP q ?w)" for q using winv by (rule sendIpv4_inv)
  have bind: "okinv (map_option fst (Option.bind (sendIpv4 dst IpProto_UDP q ?w)
      (\<lambda>v2. Some (bump (txUdp_update ((+) 1)) v2, n))))" for q n
    using send [of q] by (auto simp: okinv_def)
  let ?sp = "s_localPort (m_socks ?w ! nat vfd)"
  obtain x where x: "slice (udp_header ?sp dp len 0 @ bytes @ drop (8 + length bytes)
      (stackbuf (udp4_Header + MaxDatagram))) 0 (8 + len) = Some x" using s by blast
  let ?c = "if checksum16 x (pseudo_sum (m_ip ?w) dst (8 + len)) = 0 then 0xFFFF
            else checksum16 x (pseudo_sum (m_ip ?w) dst (8 + len))"
  obtain y where y: "slice (udp_header ?sp dp len ?c @ bytes @ drop (8 + length bytes)
      (stackbuf (udp4_Header + MaxDatagram))) 0 (8 + len) = Some y" using s by blast
  show ?thesis
    using True vfd bind [of y "int len"]
    by (simp add: udpSendTo_def w b bu wr16_udp_csum not_less Let_def x y del: slice_in)
qed

lemma echo_inv [step_inv]: "vnet_inv v \<Longrightarrow> okinv (map_option fst (sendEchoRequest dst v))"
proof (cases "m_configured v \<and> dst \<noteq> 0")
  case True
  moreover assume inv: "vnet_inv v"
  moreover have "vnet_inv (v\<lparr>m_echoSeq := m_echoSeq v + 1\<rparr>)"
    by (rule vnet_inv_same [OF inv]) (use inv in \<open>auto simp: vnet_inv_def mtu_ok_def\<close>)
  ultimately show ?thesis
    using sendEchoRequest_ok [of v dst] by (auto simp: okinv_def vnet_inv_def [of v])
qed (auto simp: sendEchoRequest_def)

lemma frame_inv [step_inv]: "vnet_inv v \<Longrightarrow> okinv (onFrame smac dmac et p v)"
  using onFrame_safe [of v smac dmac et p] by (simp add: okinv_def)

text \<open>
  C4. No call can fail: with buffers as long as the caller says, every operation of the interface
  returns in every state that satisfies the invariant, without an access out of bounds, and the
  invariant holds again.
\<close>

theorem vnet_exec_safe:
  assumes "vnet_inv v" "call_ok c"
  shows "\<exists>w. vnet_exec c v = Some w \<and> vnet_inv w"
proof -
  note inv = assms(1)
  have "okinv (vnet_exec c v)"
  proof (cases c)
    case (SendTo vfd ip port buf len)
    then have "\<And>b. buf = Some b \<Longrightarrow> len \<le> length b" using assms(2) by auto
    with inv SendTo show ?thesis by (simp add: send_inv)
  next
    case (RecvFrom vfd buf maxlen peek)
    then have "\<And>b. buf = Some b \<Longrightarrow> maxlen \<le> length b" using assms(2) by auto
    with inv RecvFrom show ?thesis by (simp add: recv_inv)
  qed (use inv vnet_inv_sizes [OF inv] in \<open>simp_all add: step_inv\<close>)
  then show ?thesis by (simp add: okinv_def)
qed

theorem vnet_exec_safe_witness:
  "\<exists>w. vnet_exec (SendTo 0 IpBroadcast 9 (Some [1, 2, 3]) 2) demo = Some w \<and> vnet_inv w"
  by (rule vnet_exec_safe [OF demo_vnet_inv]) simp

section \<open>Reachable states\<close>

lemma vnet_reach_inv: "vnet_reach v \<Longrightarrow> vnet_inv v"
proof (induction rule: vnet_reach.induct)
  case start
  show ?case by (rule vnet_inv_reset [OF sizes_ok_fresh])
next
  case (call v c w)
  with vnet_exec_safe [of v c] show ?case by auto
qed

definition queued :: "VNet \<Rightarrow> nat \<Rightarrow> nat" where
  "queued v i = nat (s_qCount (m_socks v ! i))"

text \<open>
  C8. No packet is ever lost or shared: in every state reachable from the reset object by any
  sequence of calls and frames, the 32 packets are the free ones and those the sockets count as
  queued; the count of a socket is the length of its queue, and a closed socket holds none.
\<close>

theorem packets_conserved:
  assumes "vnet_reach v"
  shows "pool_room v + (\<Sum>i < MaxSockets. queued v i) = PoolPackets \<and>
    (\<forall>i < MaxSockets. queued v i = length (sock_queue v i) \<and>
       (\<not> s_used (m_socks v ! i) \<longrightarrow> queued v i = 0))"
proof -
  from vnet_reach_inv [OF assms] obtain fl qs where l: "layout v fl qs" by (rule vnet_inv_obtain)
  note ln = layout_lengths [OF l]
  have s: "sock_ok (m_pool v) (m_socks v ! i) (qs ! i)" if "i < MaxSockets" for i
    using layout_lay [OF l] that ln by (intro lay_sock) simp_all
  then have q: "queued v i = length (qs ! i)" if "i < MaxSockets" for i
    using that by (simp add: queued_def sock_ok_def)
  then have "queued v i = length (sock_queue v i)" if "i < MaxSockets" for i
    using that by (simp add: layout_sock_queue [OF l])
  moreover have "queued v i = 0" if "i < MaxSockets" "\<not> s_used (m_socks v ! i)" for i
    using s [of i] q [of i] that by (simp add: sock_ok_def)
  moreover have "mset (fl @ concat qs) = mset [0..<PoolPackets]"
    using layout_lay [OF l] ln by (simp add: lay_def)
  then have "length (fl @ concat qs) = length [0..<PoolPackets]" by (metis size_mset)
  moreover have "length (concat qs) = (\<Sum>i < MaxSockets. length (qs ! i))"
    using ln by (simp add: length_concat sum_list_sum_nth lessThan_atLeast0)
  ultimately show ?thesis using q by (simp add: pool_room_layout [OF l])
qed

theorem packets_conserved_witness:
  "pool_room (reset vnet_fresh) + (\<Sum>i < MaxSockets. queued (reset vnet_fresh) i) = PoolPackets"
  using packets_conserved [OF vnet_reach.start] by blast

end
