(* ===== verification/VNetPeer.thy ===== *)
theory VNetPeer
  imports VNetApi
begin

text \<open>
  Two interfaces meeting: address resolution, ping, a datagram for an unknown neighbour, and the
  choice of the reassembly slot when several packets are in flight.
\<close>

section \<open>Address resolution\<close>

lemma rd8_append: "rd8 (p @ q) (length p + k) = rd8 q k"
  by (simp add: rd8_def nth_append)

lemma macFromBytes_at:
  "off = length p \<Longrightarrow> macFromBytes (p @ macToBytes mac @ q) off = Some (take_bit 48 mac)"
proof -
  assume off: "off = length p"
  have "rd8 (p @ macToBytes mac @ q) (off + k) = rd8 (macToBytes mac) k" if "k < 6" for k
    using that by (simp add: off rd8_append) (simp add: rd8_def nth_append)
  from this [of 0] this [of 1] this [of 2] this [of 3] this [of 4] this [of 5] mac_roundtrip [of mac]
  show ?thesis by (simp add: macFromBytes_def numeral_2_eq_2)
qed

lemma arp_packet_loads:
  fixes op smac sip tmac tip
  defines "p \<equiv> arp_packet op smac sip (macToBytes tmac) tip"
  shows "length p = 28" "rd16 p 0 = Some 1" "rd16 p 2 = Some EtherType_IPv4" "rd8 p 4 = Some 6"
    "rd8 p 5 = Some 4" "rd16 p 6 = Some op" "rd32 p 14 = Some sip" "rd32 p 24 = Some tip"
    "macFromBytes p 8 = Some (take_bit 48 smac)"
proof -
  have "macFromBytes ((be16_bytes 1 @ be16_bytes EtherType_IPv4 @ [6, 4] @ be16_bytes op) @
      macToBytes smac @ (be32_bytes sip @ macToBytes tmac @ be32_bytes tip)) 8 = Some (take_bit 48 smac)"
    by (rule macFromBytes_at) simp
  then show "macFromBytes p 8 = Some (take_bit 48 smac)" by (simp add: p_def arp_packet_def)
  have l: "p = be16_bytes 1 @ be16_bytes EtherType_IPv4 @ [6, 4] @ be16_bytes op @ macToBytes smac @
     be32_bytes sip @ macToBytes tmac @ be32_bytes tip" by (simp add: p_def arp_packet_def)
  show "length p = 28" "rd16 p 0 = Some 1" "rd16 p 2 = Some EtherType_IPv4" "rd8 p 4 = Some 6"
    "rd8 p 5 = Some 4" "rd16 p 6 = Some op" "rd32 p 14 = Some sip" "rd32 p 24 = Some tip"
    by (simp_all add: l be16_bytes_def be32_bytes_def macToBytes_def rd16_def rd32_def rd8_def
          ntoh16_load ntoh32_load be16_of_bytes be32_of_bytes)
       (simp_all add: be16_def)
qed

lemma macToBytes_zero: "macToBytes 0 = replicate 6 0"
  by (simp add: macToBytes_def eval_nat_numeral)

lemma sent_obs [simp]:
  "arp_lookup (sent v fs st) ip = arp_lookup v ip" "isBroadcast (sent v fs st) ip = isBroadcast v ip"
  "m_emitted (sent v fs st) = m_emitted v @ (if m_emit v then fs else [])"
  "m_emit (sent v fs st) = m_emit v" "m_mac (sent v fs st) = m_mac v" "m_ip (sent v fs st) = m_ip v"
  "m_configured (sent v fs st) = m_configured v"
  by (simp_all add: sent_def arp_lookup_def isBroadcast_def)

text \<open>What a configured interface does with a well-formed ARP packet from a proper MAC.\<close>

lemma onFrame_arp:
  assumes "m_configured v" "mac = m_mac v \<or> mac = MacBroadcast" "take_bit 48 smac = smac" "smac \<noteq> 0"
  shows "\<exists>st. onFrame fmac mac EtherType_ARP (Some (arp_packet op smac sip (macToBytes tmac) tip)) v =
    Some (sent (learnMac sip smac v)
           (if op = 1 \<and> tip = m_ip v
            then [(smac, EtherType_ARP, arp_packet 2 (m_mac v) (m_ip v) (macToBytes smac) sip)] else []) st)"
proof -
  note r = arp_packet_loads [of op smac sip tmac tip]
  have rep: "build_arp (stackbuf 28) 2 a i (macToBytes smac) sip = Some (arp_packet 2 a i (macToBytes smac) sip)"
    for a i by (simp add: build_arp_bytes stackbuf_def)
  have lb: "learnMac sip smac (bump f (bump g v)) =
      (learnMac sip smac v)\<lparr>m_stats := f (g (m_stats v))\<rparr>" for f g
    by (simp add: learnMac_def bump_def Let_def split: sum.splits)
  let ?p = "arp_packet op smac sip (macToBytes tmac) tip"
  have f: "onFrame fmac mac EtherType_ARP (Some ?p) v = onArp fmac ?p (bump (rxFrames_update ((+) 1)) v)"
    using assms(1,2) r(1) by (auto simp: onFrame_def Let_def bump_def)
  have a: "onArp fmac ?p w =
      (let v1 = learnMac sip smac (bump (rxArp_update ((+) 1)) w) in
       if op = 1 \<and> tip = m_ip v1
       then Some (if m_emit v1
              then bump (txArp_update ((+) 1)) (bump (txFrames_update ((+) 1))
                (emit smac EtherType_ARP (arp_packet 2 (m_mac v1) (m_ip v1) (macToBytes smac) sip) v1))
              else v1)
       else Some v1)" for w
    using assms(3,4)
    by (simp add: onArp_def Let_def r rep del: rd8_in rd16_in rd32_in)
  show ?thesis
  proof (cases "op = 1 \<and> tip = m_ip v")
    case False
    then show ?thesis unfolding f a Let_def lb
      by (intro exI [of _ "rxArp_update ((+) 1) (rxFrames_update ((+) 1) (m_stats v))"])
         (auto simp: frame_simps sent_def)
  next
    case True
    let ?st = "rxArp_update ((+) 1) (rxFrames_update ((+) 1) (m_stats v))"
    show ?thesis
    proof (cases "m_emit v")
      case True
      with \<open>op = 1 \<and> tip = m_ip v\<close> show ?thesis unfolding f a Let_def lb
        by (intro exI [of _ "txArp_update ((+) 1) (txFrames_update ((+) 1) ?st)"])
           (simp add: frame_simps sent_def emit_def bump_def)
    next
      case False
      with \<open>op = 1 \<and> tip = m_ip v\<close> show ?thesis unfolding f a Let_def lb
        by (intro exI [of _ ?st]) (simp add: frame_simps sent_def)
    qed
  qed
qed

text \<open>
  C26. Address resolution: when the address of a neighbour on the link is not known, sending to it
  emits one ARP request and nothing of the payload; the neighbour answers the request with its MAC,
  and once the answer has arrived the next packet is addressed to that MAC.
\<close>

theorem arp_resolution:
  assumes A: "vnet_inv a" "m_emit a" "m_configured a" "lookupMac a (m_ip b) = 0"
    and B: "vnet_inv b" "m_emit b" "m_configured b"
    and macs: "take_bit 48 (m_mac a) = m_mac a" "m_mac a \<noteq> 0" "m_mac a \<noteq> MacBroadcast"
      "take_bit 48 (m_mac b) = m_mac b" "m_mac b \<noteq> 0" "m_mac b \<noteq> MacBroadcast"
    and ips: "m_ip a \<noteq> 0" "m_ip b \<noteq> 0"
  shows "\<exists>a1 b1 a2 req rep. sendIpv4 (m_ip b) proto p a = Some a1 \<and>
    m_emitted a1 = m_emitted a @ [(MacBroadcast, EtherType_ARP, req)] \<and>
    onFrame (m_mac a) MacBroadcast EtherType_ARP (Some req) b = Some b1 \<and>
    m_emitted b1 = m_emitted b @ [(m_mac a, EtherType_ARP, rep)] \<and>
    arp_lookup b1 (m_ip a) = Some (m_mac a) \<and>
    onFrame (m_mac b) (m_mac a) EtherType_ARP (Some rep) a1 = Some a2 \<and>
    m_emitted a2 = m_emitted a1 \<and> lookupMac a2 (m_ip b) = m_mac b"
proof -
  let ?req = "arp_packet 1 (m_mac a) (m_ip a) (macToBytes 0) (m_ip b)"
  let ?rep = "arp_packet 2 (m_mac b) (m_ip b) (macToBytes (m_mac a)) (m_ip a)"
  have mtu: "mtu_ok a" using A(1) by (simp add: vnet_inv_def)
  from sendIpv4_ok [OF mtu, of "m_ip b" proto p] A(4) obtain st where
    s: "sendIpv4 (m_ip b) proto p a = Some (sent a [(MacBroadcast, EtherType_ARP, ?req)] st)"
    by (auto simp: ip_frames_def after_send_def macToBytes_zero)
  let ?a1 = "sent a [(MacBroadcast, EtherType_ARP, ?req)] st"
  from onFrame_arp [OF B(3) _ macs(1,2), of MacBroadcast "m_mac a" 1 "m_ip a" 0 "m_ip b"] obtain st1 where
    b1: "onFrame (m_mac a) MacBroadcast EtherType_ARP (Some ?req) b =
      Some (sent (learnMac (m_ip a) (m_mac a) b) [(m_mac a, EtherType_ARP, ?rep)] st1)" by auto
  have "m_configured ?a1" "m_mac ?a1 = m_mac a" "m_ip ?a1 = m_ip a"
    using A(3) by (simp_all add: sent_def)
  with onFrame_arp [of ?a1 "m_mac a" "m_mac b" "m_mac b" 2 "m_ip b" "m_mac a" "m_ip a"] macs(4,5)
  obtain st2 where
    a2: "onFrame (m_mac b) (m_mac a) EtherType_ARP (Some ?rep) ?a1 =
      Some (sent (learnMac (m_ip b) (m_mac b) ?a1) [] st2)" by auto
  have use: "mac_usable (m_ip a) (m_mac a)" "mac_usable (m_ip b) (m_mac b)"
    using macs ips by (simp_all add: mac_usable_def)
  have "arp_inv b" "arp_inv ?a1" using A(1) B(1) by (simp_all add: vnet_inv_def sent_def arp_inv_def)
  then have lk: "arp_lookup (learnMac (m_ip a) (m_mac a) b) (m_ip a) = Some (m_mac a)"
    "arp_lookup (learnMac (m_ip b) (m_mac b) ?a1) (m_ip b) = Some (m_mac b)"
    using use ac.learn_same by blast+
  have nb: "\<not> isBroadcast a (m_ip b)" using A(4) by (auto simp: lookupMac_def MacBroadcast_def split: if_splits)
  have lk2: "lookupMac (sent (learnMac (m_ip b) (m_mac b) ?a1) [] st2) (m_ip b) = m_mac b"
    using lk(2) nb by (intro lookupMac_arp) simp_all
  show ?thesis
    using s b1 a2 lk2 lk(1) A(2) B(2)
    by (intro exI [of _ ?a1] exI [of _ "sent (learnMac (m_ip a) (m_mac a) b) [(m_mac a, EtherType_ARP, ?rep)] st1"]
          exI [of _ "sent (learnMac (m_ip b) (m_mac b) ?a1) [] st2"] exI [of _ ?req] exI [of _ ?rep])
       (simp add: frame_simps)
qed

definition demo_peer :: VNet where
  "demo_peer = configure 0x020000000002 0x0A000002 0xFFFFFF00 1500 demo"

theorem arp_resolution_witness:
  "\<exists>a1 b1 a2 req rep. sendIpv4 (m_ip demo_peer) IpProto_UDP [1, 2] demo = Some a1 \<and>
    m_emitted a1 = m_emitted demo @ [(MacBroadcast, EtherType_ARP, req)] \<and>
    onFrame (m_mac demo) MacBroadcast EtherType_ARP (Some req) demo_peer = Some b1 \<and>
    m_emitted b1 = m_emitted demo_peer @ [(m_mac demo, EtherType_ARP, rep)] \<and>
    arp_lookup b1 (m_ip demo) = Some (m_mac demo) \<and>
    onFrame (m_mac demo_peer) (m_mac demo) EtherType_ARP (Some rep) a1 = Some a2 \<and>
    m_emitted a2 = m_emitted a1 \<and> lookupMac a2 (m_ip demo_peer) = m_mac demo_peer"
proof (rule arp_resolution [OF demo_vnet_inv demo_fields(2,4)])
  show "vnet_inv demo_peer"
    unfolding demo_peer_def by (rule vnet_inv_configure [OF demo_vnet_inv])
  have "arp_find (replicate n zero_arp) ip = 0" for n ip
    by (induction n) (simp_all add: zero_arp_def)
  then show "lookupMac demo (m_ip demo_peer) = 0"
    by (simp add: lookupMac_def isBroadcast_def demo_fields demo_peer_def configure_def IpBroadcast_def)
qed (simp_all add: demo_peer_def configure_def demo_fields MacBroadcast_def)

section \<open>Ping\<close>

text \<open>The message with its checksum field replaced.\<close>

definition seal4 :: "u8 \<Rightarrow> u8 \<Rightarrow> u8 list \<Rightarrow> u8 list" where
  "seal4 typ code rest =
     [typ, code] @ be16_bytes (checksum16 ([typ, code] @ be16_bytes 0 @ rest) 0) @ rest"

lemma seal4_checksum: "length rest \<le> 4096 \<Longrightarrow> checksum16 (seal4 typ code rest) 0 = 0"
proof -
  assume l: "length rest \<le> 4096"
  let ?p = "[typ, code] @ be16_bytes 0 @ rest"
  have "65535 * ((length ?p + 1) div 2) \<le> 65535 * 2050" using l by (intro mult_le_mono2) simp
  then have "sum_list (be_words ?p) + 65536 \<le> 4294967296" using sum_be_words_le [of ?p] by linarith
  then show ?thesis unfolding seal4_def by (intro checksum_seal) simp_all
qed

lemma build_echo_reply_bytes:
  assumes "4 \<le> length p" "length p \<le> length b"
  shows "build_echo_reply b p = Some (seal4 0 (p ! 1) (drop 4 p))"
proof -
  from assms(1) obtain p0 p1 p2 p3 r where p: "p = p0 # p1 # p2 # p3 # r"
    by (auto simp: numeral_eq_Suc Suc_le_length_iff)
  with assms(2) have "memcpy b 0 p = Some (p0 # p1 # p2 # p3 # r @ drop (4 + length r) b)"
    by (simp add: memcpy_def numeral_eq_Suc)
  with p show ?thesis
    by (simp add: build_echo_reply_def wr8_def wr16_eq memcpy_def slice_def seal4_def be16_bytes_def)
qed

lemma echo_message_seal:
  "echo_message typ c seq = [typ, 0] @ be16_bytes c @ (be16_bytes 0x5A54 @ be16_bytes seq @ replicate 8 0x5A)"
  by (simp add: echo_message_def)

lemma echo_message_sealed:
  "echo_message typ (checksum16 (echo_message typ 0 seq) 0) seq =
     seal4 typ 0 (be16_bytes 0x5A54 @ be16_bytes seq @ replicate 8 0x5A)"
  by (simp add: seal4_def echo_message_seal)

lemma ip_frames_small:
  "lookupMac v dst = mac \<Longrightarrow> mac \<noteq> 0 \<Longrightarrow> length p \<le> 556 \<Longrightarrow> mtu_ok v \<Longrightarrow>
   ip_frames v dst proto p = [(mac, EtherType_IPv4, ip_packet (m_ip v) dst proto (m_ipId v) 0 p)]"
  using max_payload_bounds [of v]
  by (simp add: ip_frames_def ip_fragments_def frag_frame_def frag_word_def)

text \<open>The echo responder: any echo request that verifies is answered with its own payload.\<close>

lemma onIcmp_reply:
  assumes inv: "vnet_inv v" and p: "8 \<le> length p" "length p \<le> MaxDatagram" "p ! 0 = 8" "checksum16 p 0 = 0"
  shows "\<exists>st. onIcmp src p v =
    Some (sent (after_send v src) (ip_frames v src IpProto_ICMP (seal4 0 (p ! 1) (drop 4 p))) st)"
proof -
  let ?v = "bump (rxIcmp_update ((+) 1)) v" and ?q = "seal4 0 (p ! 1) (drop 4 p)"
  have q: "build_echo_reply (stackbuf MaxDatagram) p = Some ?q"
    using p by (intro build_echo_reply_bytes) (simp_all add: stackbuf_def)
  have "mtu_ok ?v" using inv by (simp add: vnet_inv_def mtu_ok_def bump_def)
  from sendIpv4_ok [OF this, of src IpProto_ICMP ?q] obtain st where
    s: "sendIpv4 src IpProto_ICMP ?q ?v =
      Some (sent (after_send ?v src) (ip_frames ?v src IpProto_ICMP ?q) st)" by blast
  have f: "ip_frames ?v src IpProto_ICMP ?q = ip_frames v src IpProto_ICMP ?q"
    by (rule ip_frames_cong) (simp_all add: bump_def lookupMac_def isBroadcast_def)
  have "0 < length p" using p(1) by linarith
  then have "rd8 p 0 = Some 8" using p(3) by (simp only: rd8_in)
  with p q s f show ?thesis
    by (intro exI [of _ "txIcmp_update ((+) 1) st"])
       (simp add: onIcmp_def Let_def not_less del: rd8_in,
        simp add: sent_def bump_def after_send_def lookupMac_def isBroadcast_def)
qed

text \<open>
  Ping: an echo request sent to a known neighbour reaches it as one packet, and the neighbour
  answers the sender, under the sender's MAC, with an echo reply that has the same identifier,
  sequence number and payload and a checksum that verifies.
\<close>

theorem ping_answered:
  assumes A: "vnet_inv a" "m_emit a" "m_configured a" "lookupMac a (m_ip b) = m_mac b"
    and B: "vnet_inv b" "m_emit b" "m_configured b" "m_ip b \<noteq> 0" "m_mac b \<noteq> 0"
    and src: "mac_usable (m_ip a) (m_mac a)" "\<not> isBroadcast b (m_ip a)"
  shows "\<exists>a' b' req c. sendEchoRequest (m_ip b) a = Some (a', True) \<and>
    m_emitted a' = m_emitted a @ [(m_mac b, EtherType_IPv4, req)] \<and>
    onFrame (m_mac a) (m_mac b) EtherType_IPv4 (Some req) b = Some b' \<and>
    m_emitted b' = m_emitted b @ [(m_mac a, EtherType_IPv4,
      ip_packet (m_ip b) (m_ip a) IpProto_ICMP (m_ipId b) 0 (echo_message 0 c (m_echoSeq a)))] \<and>
    checksum16 (echo_message 0 c (m_echoSeq a)) 0 = 0"
proof -
  let ?rest = "be16_bytes 0x5A54 @ be16_bytes (m_echoSeq a) @ replicate 8 0x5A"
  let ?m = "seal4 8 0 ?rest" and ?c = "checksum16 (echo_message 0 0 (m_echoSeq a)) 0"
  let ?req = "ip_packet (m_ip a) (m_ip b) IpProto_ICMP (m_ipId a) 0 ?m"
  have lm: "length ?m = 16" by (simp add: seal4_def)
  have mtu: "mtu_ok a" "mtu_ok b" using A(1) B(1) by (simp_all add: vnet_inv_def)
  from sendEchoRequest_ok [OF mtu(1) A(3) B(4)] obtain st where
    s: "sendEchoRequest (m_ip b) a = Some (sent (after_send (a\<lparr>m_echoSeq := m_echoSeq a + 1\<rparr>) (m_ip b))
          (ip_frames a (m_ip b) IpProto_ICMP ?m) st, True)"
    by (auto simp: echo_message_sealed)
  have f: "ip_frames a (m_ip b) IpProto_ICMP ?m = [(m_mac b, EtherType_IPv4, ?req)]"
    using ip_frames_small [OF A(4) B(5) _ mtu(1), of ?m] lm by simp
  have acc: "accepts b (m_mac b) (m_ip b)" using B(3) by (simp add: accepts_def isForUs_def)
  let ?w = "heard_from (m_ip a) (m_mac a) b"
  have winv: "vnet_inv ?w" using B(1) by simp
  have r: "onFrame (m_mac a) (m_mac b) EtherType_IPv4 (Some ?req) b = onIcmp (m_ip a) ?m ?w"
    using onFrame_packet [OF acc, of ?m 0 "m_mac a" "m_ip a" IpProto_ICMP "m_ipId a" False] lm
    by (simp add: frag_word_def deliverIpv4_def IpProto_ICMP_def IpProto_UDP_def)
  have sm: "seal4 0 (?m ! 1) (drop 4 ?m) = echo_message 0 ?c (m_echoSeq a)"
    by (simp add: echo_message_sealed) (simp add: seal4_def)
  have "?m ! 0 = 8" "checksum16 ?m 0 = 0" by (simp add: seal4_def) (rule seal4_checksum, simp)
  with onIcmp_reply [OF winv, of ?m "m_ip a"] lm sm obtain st2 where
    o: "onIcmp (m_ip a) ?m ?w = Some (sent (after_send ?w (m_ip a))
          (ip_frames ?w (m_ip a) IpProto_ICMP (echo_message 0 ?c (m_echoSeq a))) st2)"
    by (auto simp: MaxDatagram_def)
  have wf: "m_emit ?w" "m_emitted ?w = m_emitted b" "m_ip ?w = m_ip b" "m_ipId ?w = m_ipId b" "mtu_ok ?w"
    "\<not> isBroadcast ?w (m_ip a)" "arp_lookup ?w (m_ip a) = Some (m_mac a)"
    using B(1,2) src winv
    by (simp_all add: heard_from_def frame_simps vnet_inv_def)
       (simp_all add: bump_def frame_simps arp_inv_def ac.learn_same mtu_ok_def)
  from lookupMac_arp [OF wf(6,7)] src(1) have
    "ip_frames ?w (m_ip a) IpProto_ICMP (echo_message 0 ?c (m_echoSeq a)) =
      [(m_mac a, EtherType_IPv4, ip_packet (m_ip b) (m_ip a) IpProto_ICMP (m_ipId b) 0
         (echo_message 0 ?c (m_echoSeq a)))]"
    using ip_frames_small [OF _ _ _ wf(5), of "m_ip a" "m_mac a" "echo_message 0 ?c (m_echoSeq a)" IpProto_ICMP] wf(3,4)
    by (simp add: mac_usable_def echo_message_def)
  moreover have "checksum16 (echo_message 0 ?c (m_echoSeq a)) 0 = 0"
    unfolding echo_message_sealed by (rule seal4_checksum) simp
  ultimately show ?thesis
    using s f r o wf A(2)
    by (intro exI conjI) (assumption | simp add: sent_def after_send_def)+
qed

theorem ping_answered_witness:
  "\<exists>a' b' req c. sendEchoRequest (m_ip demo_peer) (learnMac (m_ip demo_peer) (m_mac demo_peer) demo) = Some (a', True) \<and>
    m_emitted a' = m_emitted (learnMac (m_ip demo_peer) (m_mac demo_peer) demo) @
      [(m_mac demo_peer, EtherType_IPv4, req)] \<and>
    onFrame (m_mac (learnMac (m_ip demo_peer) (m_mac demo_peer) demo)) (m_mac demo_peer)
      EtherType_IPv4 (Some req) demo_peer = Some b' \<and>
    m_emitted b' = m_emitted demo_peer @
      [(m_mac (learnMac (m_ip demo_peer) (m_mac demo_peer) demo), EtherType_IPv4,
        ip_packet (m_ip demo_peer) (m_ip (learnMac (m_ip demo_peer) (m_mac demo_peer) demo)) IpProto_ICMP
          (m_ipId demo_peer) 0
          (echo_message 0 c (m_echoSeq (learnMac (m_ip demo_peer) (m_mac demo_peer) demo))))] \<and>
    checksum16 (echo_message 0 c (m_echoSeq (learnMac (m_ip demo_peer) (m_mac demo_peer) demo))) 0 = 0"
proof (rule ping_answered)
  let ?a = "learnMac (m_ip demo_peer) (m_mac demo_peer) demo"
  have f: "m_ip demo_peer = 0x0A000002" "m_mac demo_peer = 0x020000000002" "m_configured demo_peer"
    "m_emit demo_peer" "m_netmask demo_peer = 0xFFFFFF00"
    by (simp_all add: demo_peer_def configure_def demo_fields)
  show "vnet_inv ?a" "vnet_inv demo_peer"
    unfolding demo_peer_def by (simp_all add: vnet_inv_configure demo_vnet_inv)
  have "mac_usable (m_ip demo_peer) (m_mac demo_peer)" by (simp add: f mac_usable_def MacBroadcast_def)
  then have "arp_lookup ?a (m_ip demo_peer) = Some (m_mac demo_peer)"
    using demo_vnet_inv by (simp add: ac.learn_same vnet_inv_def)
  then show "lookupMac ?a (m_ip demo_peer) = m_mac demo_peer"
    by (rule lookupMac_arp [rotated]) (simp add: isBroadcast_def demo_fields f IpBroadcast_def frame_simps)
qed (simp_all add: demo_peer_def configure_def demo_fields frame_simps mac_usable_def MacBroadcast_def
       isBroadcast_def IpBroadcast_def)

section \<open>The choice of the reassembly slot\<close>

text \<open>A fragment of a packet of an unhandled protocol, from 10.0.0.9, to the broadcast address.\<close>

definition frag_of :: "u16 \<Rightarrow> nat \<Rightarrow> bool \<Rightarrow> frame" where
  "frag_of ident off mf = frag_frame MacBroadcast 0x0A000009 IpBroadcast 99 ident (off, mf, replicate 8 1)"

definition reassembling :: "u16 \<Rightarrow> VNet \<Rightarrow> bool" where
  "reassembling ident v \<longleftrightarrow> (\<exists>r \<in> set (m_reasm v). reasm_match ident 0x0A000009 IpBroadcast 99 r)"

lemma onFrame_frag_of:
  assumes "accepts v MacBroadcast IpBroadcast" "off < 65536" "8 dvd off" "off \<noteq> 0 \<or> mf"
  shows "recv_frames 0 (frag_of ident off mf # fs) v =
    Option.bind (reasm_frag 0x0A000009 IpBroadcast 99 ident off mf (replicate 8 1)
                   (bump (rxIp_update ((+) 1)) (bump (rxFrames_update ((+) 1)) v)))
                (recv_frames 0 fs)"
proof -
  have "length (replicate 8 (1 :: u8)) + 20 < 65536" by simp
  from onFrame_packet [OF assms(1) this assms(2,3), of 0 "0x0A000009" 99 ident mf] assms(4)
  show ?thesis
    by (auto simp: frag_of_def frag_frame_apply heard_from_def learnMac_unusable mac_usable_def)
qed

text \<open>
  A packet under reassembly is thrown away although slots are free: with the fragments of three
  packets interleaved, the first packet still incomplete and the second complete, the third packet
  takes the slot of the first while three slots are unused, because the search compares the age of a
  used slot with the stale age of a free one.
\<close>

theorem reassembly_evicts_beside_free_slots:
  "\<exists>w1 w2. recv_frames 0 [frag_of 1 0 True, frag_of 2 0 True, frag_of 2 8 False] demo = Some w1 \<and>
     reassembling 1 w1 \<and> length (filter (\<lambda>r. \<not> r_used r) (m_reasm w1)) = 3 \<and>
     recv_frames 0 [frag_of 3 0 True] w1 = Some w2 \<and> \<not> reassembling 1 w2"
proof -
  let ?b = "\<lambda>v. bump (rxIp_update ((+) 1)) (bump (rxFrames_update ((+) 1)) v)"
  have acc: "accepts v MacBroadcast IpBroadcast" if "m_configured v" for v
    using that by (simp add: accepts_def isForUs_def isBroadcast_def)
  have bf: "m_reasm (bump f v) = m_reasm v" "m_configured (bump f v) = m_configured v"
    "m_tick (bump f v) = m_tick v" for v f
    by (simp_all add: bump_def)
  define d8 :: "u8 list" where "d8 = replicate 8 1"
  have l8: "length d8 = 8" by (simp add: d8_def)
  define z where "z = zero_reasm"
  have zf: "\<not> r_used z" "r_age z = 0" "length (r_data z) = ReasmMax" by (simp_all add: z_def zero_reasm_def)
  define slot where "slot u i n t a d = \<lparr>r_used = u, r_srcIp = 0x0A000009, r_dstIp = IpBroadcast,
      r_id = i, r_proto = 99, r_received = n, r_total = t, r_age = a, r_data = d\<rparr>" for u i n t a d
  have zs: "z\<lparr>r_used := True, r_srcIp := 0x0A000009, r_dstIp := IpBroadcast, r_id := i, r_proto := 99,
      r_total := t, r_age := a, r_data := d, r_received := n\<rparr> = slot True i n t a d" for i n t a d
    by (simp add: slot_def z_def zero_reasm_def)
  have ss: "(slot u i n t a d)\<lparr>r_age := a'\<rparr> = slot u i n t a' d"
    "(slot u i n t a d)\<lparr>r_used := u'\<rparr> = slot u' i n t a d"
    "(slot u i n t a d)\<lparr>r_data := d'\<rparr> = slot u i n t a d'"
    "(slot u i n t a d)\<lparr>r_received := n'\<rparr> = slot u i n' t a d"
    "(slot u i n t a d)\<lparr>r_total := t'\<rparr> = slot u i n t' a d"
    "r_used (slot u i n t a d) = u" "r_age (slot u i n t a d) = a" "r_data (slot u i n t a d) = d"
    "r_received (slot u i n t a d) = n" "r_total (slot u i n t a d) = t" "r_id (slot u i n t a d) = i"
    "reasm_match j 0x0A000009 IpBroadcast 99 (slot u i n t a d) = (u \<and> i = j)"
    for u i n t a d u' a' d' n' t' j by (auto simp: slot_def reasm_match_def)
  have zm: "\<not> reasm_match j 0x0A000009 IpBroadcast 99 z" for j by (simp add: reasm_match_def zf)
  note ev = reasm_frag_def reasm_scan.simps zf zm zs ss l8 ReasmMax_def
  let ?rf = "reasm_frag 0x0A000009 IpBroadcast 99"
  define D where "D = d8 @ drop 8 (r_data z)"
  have lD: "length D = 2176" "take 8 D = d8" "\<And>n. drop (8 + n) D = drop (8 + n) (r_data z)"
    by (simp_all add: D_def l8 zf ReasmMax_def add.commute)
  have s1: "?rf 1 0 True d8 v = Some (v\<lparr>m_reasm := [z, z, z, slot True 1 8 0 1 D], m_tick := 1\<rparr>)"
    if "m_reasm v = [z, z, z, z]" "m_tick v = 0" for v
    using that by (simp add: ev D_def)
  have s2: "?rf 2 0 True d8 v = Some (v\<lparr>m_reasm := [z, z, slot True 2 8 0 2 D, slot True 1 8 0 1 D], m_tick := 2\<rparr>)"
    if "m_reasm v = [z, z, z, slot True 1 8 0 1 D]" "m_tick v = 1" for v
    using that by (simp add: ev D_def)
  have s3: "?rf 2 8 False d8 v = Some (v\<lparr>m_reasm := [z, z, slot False 2 16 16 3 (d8 @ d8 @ drop 16 D),
      slot True 1 8 0 1 D], m_tick := 3\<rparr>)"
    if "m_reasm v = [z, z, slot True 2 8 0 2 D, slot True 1 8 0 1 D]" "m_tick v = 2" for v
    using that by (simp add: ev lD deliverIpv4_def IpProto_UDP_def IpProto_ICMP_def)
  have s4: "?rf 3 0 True d8 v = Some (v\<lparr>m_reasm := [z, z, slot False 2 16 16 3 (d8 @ d8 @ drop 16 D),
      slot True 3 8 0 4 (d8 @ drop 8 D)], m_tick := 4\<rparr>)"
    if "m_reasm v = [z, z, slot False 2 16 16 3 (d8 @ d8 @ drop 16 D), slot True 1 8 0 1 D]" "m_tick v = 3" for v
    using that by (simp add: ev lD) (simp add: slot_def)
  have "replicate ReasmSlots z = [z, z, z, z]" by (simp add: ReasmSlots_def eval_nat_numeral)
  moreover have "m_tick demo = 0"
    by (simp add: demo_def udpOpen_def configure_def setEmit_def reset_def split: option.splits)
  ultimately have st: "m_reasm demo = [z, z, z, z]" "m_tick demo = 0" "m_configured demo"
    by (simp_all add: demo_fields z_def)
  let ?w1 = "(?b ((?b ((?b demo)\<lparr>m_reasm := [z, z, z, slot True 1 8 0 1 D], m_tick := 1\<rparr>))
      \<lparr>m_reasm := [z, z, slot True 2 8 0 2 D, slot True 1 8 0 1 D], m_tick := 2\<rparr>))
      \<lparr>m_reasm := [z, z, slot False 2 16 16 3 (d8 @ d8 @ drop 16 D), slot True 1 8 0 1 D], m_tick := 3\<rparr>"
  have "recv_frames 0 [frag_of 1 0 True, frag_of 2 0 True, frag_of 2 8 False] demo = Some ?w1"
    by (simp add: onFrame_frag_of acc bf st s1 s2 s3 flip: d8_def del: recv_frames.simps(2))
  moreover have "recv_frames 0 [frag_of 3 0 True] ?w1 = Some ((?b ?w1)\<lparr>m_reasm :=
      [z, z, slot False 2 16 16 3 (d8 @ d8 @ drop 16 D), slot True 3 8 0 4 (d8 @ drop 8 D)], m_tick := 4\<rparr>)"
    by (simp add: onFrame_frag_of acc bf st s4 flip: d8_def del: recv_frames.simps(2))
  ultimately show ?thesis
    by (intro exI conjI) (assumption | simp add: reassembling_def ss zf zm)+
qed

end
