(* ===== verification/FrameRing.thy ===== *)
theory FrameRing
  imports Interfaces VNetState
begin

text \<open>
  The ring of outbound frames of \<^verbatim>\<open>source/zt_port.cpp\<close>: the virtual interface emits into it on
  whichever thread a game's socket call runs, the node thread takes frames out, and a network switch
  flushes it.  Each of the three holds \<^verbatim>\<open>g_frameLock\<close>, so a concurrent run is a sequence of these
  steps; the ring refines a bounded queue that drops (locale \<open>bounded_queue\<close>).
\<close>

section \<open>The ring\<close>

definition FrameQueueDepth :: nat where "FrameQueueDepth = 32"
definition MaxFrameLen :: nat where "MaxFrameLen = MaxFrame"

record QueuedFrame =
  f_dstMac :: u64
  f_etherType :: u16
  f_len :: nat
  f_data :: "u8 list"

record FrameQueue =
  g_frames :: "QueuedFrame list"
  g_head :: nat
  g_tail :: nat

definition frame_queue_fresh :: FrameQueue where
  "frame_queue_fresh = \<lparr>g_frames = replicate FrameQueueDepth
     \<lparr>f_dstMac = 0, f_etherType = 0, f_len = 0, f_data = replicate MaxFrameLen 0\<rparr>,
     g_head = 0, g_tail = 0\<rparr>"

text \<open>\<^verbatim>\<open>cbEmit\<close>: \<open>Some\<close> of the same ring is a dropped frame.\<close>

fun cbEmit :: "frame \<Rightarrow> FrameQueue \<Rightarrow> FrameQueue option" where
  "cbEmit (dstMac, etherType, payload) g =
     (if MaxFrameLen < length payload then Some g
      else let nxt = (g_head g + 1) mod FrameQueueDepth in
        if nxt = g_tail g then Some g
        else do {
          q \<leftarrow> aget (g_frames g) (int (g_head g));
          d \<leftarrow> memcpy (f_data q) 0 payload;
          fs \<leftarrow> aset (g_frames g) (int (g_head g))
                 (q\<lparr>f_dstMac := dstMac, f_etherType := etherType, f_len := length payload, f_data := d\<rparr>);
          Some (g\<lparr>g_frames := fs, g_head := nxt\<rparr>) })"

text \<open>One turn of the loop of \<^verbatim>\<open>drainOutbound\<close> under the lock: the frame copied out.\<close>

definition takeFrame :: "FrameQueue \<Rightarrow> (QueuedFrame \<times> FrameQueue) option option" where
  "takeFrame g =
     (if g_tail g = g_head g then Some None
      else do {
        f \<leftarrow> aget (g_frames g) (int (g_tail g));
        Some (Some (f, g\<lparr>g_tail := (g_tail g + 1) mod FrameQueueDepth\<rparr>)) })"

text \<open>The flush in \<^verbatim>\<open>switchNetwork\<close>.\<close>

definition flushFrames :: "FrameQueue \<Rightarrow> FrameQueue" where
  "flushFrames g = g\<lparr>g_tail := g_head g\<rparr>"

text \<open>The frame as the core is given it: the first \<^verbatim>\<open>len\<close> bytes of the copied slot.\<close>

definition takeOut :: "FrameQueue \<Rightarrow> (frame \<times> FrameQueue) option option" where
  "takeOut g = do {
     r \<leftarrow> takeFrame g;
     case r of
       None \<Rightarrow> Some None
     | Some (f, h) \<Rightarrow> do {
         d \<leftarrow> slice (f_data f) 0 (f_len f);
         Some (Some ((f_dstMac f, f_etherType f, d), h)) } }"

definition frame_of :: "QueuedFrame \<Rightarrow> frame" where
  "frame_of f = (f_dstMac f, f_etherType f, take (f_len f) (f_data f))"

section \<open>The ring as a queue\<close>

definition ring_len :: "FrameQueue \<Rightarrow> nat" where
  "ring_len g = (g_head g + FrameQueueDepth - g_tail g) mod FrameQueueDepth"

definition ring_queue :: "FrameQueue \<Rightarrow> frame list" where
  "ring_queue g = map (\<lambda>i. frame_of (g_frames g ! ((g_tail g + i) mod FrameQueueDepth))) [0..<ring_len g]"

definition ring_inv :: "FrameQueue \<Rightarrow> bool" where
  "ring_inv g \<longleftrightarrow> length (g_frames g) = FrameQueueDepth \<and> g_head g < FrameQueueDepth \<and>
     g_tail g < FrameQueueDepth \<and> (\<forall>q \<in> set (g_frames g). length (f_data q) = MaxFrameLen \<and> f_len q \<le> MaxFrameLen)"

definition frame_fits :: "frame \<Rightarrow> bool" where
  "frame_fits f \<longleftrightarrow> length (snd (snd f)) \<le> MaxFrameLen"

lemma length_ring_queue [simp]: "length (ring_queue g) = ring_len g"
  by (simp add: ring_queue_def)

lemma ring_inv_fresh [simp]: "ring_inv frame_queue_fresh" "ring_queue frame_queue_fresh = []"
  by (simp_all add: ring_inv_def frame_queue_fresh_def FrameQueueDepth_def ring_queue_def ring_len_def)

lemma ring_len_less: "ring_len g < FrameQueueDepth"
  by (simp add: ring_len_def FrameQueueDepth_def)

lemma ring_len_cases:
  "g_head g < 32 \<Longrightarrow> g_tail g < 32 \<Longrightarrow>
   ring_len g = (if g_tail g \<le> g_head g then g_head g - g_tail g else g_head g + 32 - g_tail g)"
  by (auto simp: ring_len_def FrameQueueDepth_def mod_if)

lemma mod32: "(x :: nat) < 64 \<Longrightarrow> x mod 32 = (if x < 32 then x else x - 32)"
  by (auto simp: mod_if)

lemma ring_head:
  assumes "g_head g < 32" and "g_tail g < 32"
  shows "(g_tail g + ring_len g) mod 32 = g_head g"
proof -
  have "g_tail g + ring_len g < 64" using assms by (simp add: ring_len_cases)
  with assms show ?thesis by (simp add: mod32 ring_len_cases)
qed

lemma ring_distinct:
  assumes "g_head g < 32" and "g_tail g < 32" and "i < ring_len g"
  shows "(g_tail g + i) mod 32 \<noteq> g_head g"
proof -
  have "g_tail g + i < 64" using assms by (simp add: ring_len_cases split: if_splits)
  moreover have "i < (if g_tail g \<le> g_head g then g_head g - g_tail g else g_head g + 32 - g_tail g)"
    using assms by (simp add: ring_len_cases)
  ultimately show ?thesis using assms(1, 2) by (auto simp: mod32 split: if_splits)
qed

lemma succ_mod32: "(i :: nat) < 32 \<Longrightarrow> (i + 1) mod 32 = (if i = 31 then 0 else i + 1)"
  by simp

lemma ring_full:
  assumes "g_head g < 32" and "g_tail g < 32"
  shows "(g_head g + 1) mod 32 = g_tail g \<longleftrightarrow> ring_len g = 31"
  unfolding ring_len_cases [OF assms] succ_mod32 [OF assms(1)] using assms by (simp, linarith)

lemma ring_put:
  assumes "ring_inv g"
  shows "\<exists>h. cbEmit f g = Some h \<and> ring_inv h \<and>
    ring_queue h = (if frame_fits f \<and> length (ring_queue g) < 31 then ring_queue g @ [f] else ring_queue g)"
proof -
  obtain dstMac etherType payload where f: "f = (dstMac, etherType, payload)" by (cases f)
  from assms have b: "g_head g < 32" "g_tail g < 32" "length (g_frames g) = 32"
    "\<forall>q \<in> set (g_frames g). length (f_data q) = MaxFrameLen \<and> f_len q \<le> MaxFrameLen"
    by (simp_all add: ring_inv_def FrameQueueDepth_def)
  show ?thesis
  proof (cases "frame_fits f \<and> ring_len g < 31")
    case False
    then have "cbEmit f g = Some g"
      using ring_full [OF b(1, 2)] ring_len_less [of g]
      by (auto simp: f frame_fits_def FrameQueueDepth_def Let_def)
    with assms False show ?thesis by auto
  next
    case True
    let ?h = "g_head g"
    define q where "q = g_frames g ! ?h"
    define q' where "q' = q\<lparr>f_dstMac := dstMac, f_etherType := etherType, f_len := length payload,
        f_data := payload @ drop (length payload) (f_data q)\<rparr>"
    define h where "h = g\<lparr>g_frames := (g_frames g)[?h := q'], g_head := (?h + 1) mod 32\<rparr>"
    have q: "length (f_data q) = MaxFrameLen" using b by (simp add: q_def)
    have fits: "length payload \<le> MaxFrameLen" using True by (simp add: f frame_fits_def)
    have "(?h + 1) mod 32 \<noteq> g_tail g" using ring_full [OF b(1, 2)] True by simp
    then have run: "cbEmit f g = Some h"
      using fits q b(1, 3) by (simp add: f h_def q'_def FrameQueueDepth_def Let_def flip: q_def)
    have len: "ring_len h = Suc (ring_len g)"
      using b True by (auto simp: ring_len_cases h_def mod_if split: if_splits)
    have "length (f_data q') = MaxFrameLen \<and> f_len q' \<le> MaxFrameLen" using q fits by (simp add: q'_def)
    then have inv: "ring_inv h"
      using b by (auto simp: ring_inv_def h_def FrameQueueDepth_def dest: set_update_subset_insert [THEN subsetD])
    have old: "frame_of (g_frames h ! ((g_tail h + i) mod 32)) = frame_of (g_frames g ! ((g_tail g + i) mod 32))"
      if "i < ring_len g" for i
      using ring_distinct [OF b(1, 2) that] by (simp add: h_def)
    have new: "frame_of (g_frames h ! ((g_tail h + ring_len g) mod 32)) = f"
      using ring_head [OF b(1, 2)] b by (simp add: h_def q'_def frame_of_def f)
    have "ring_queue h = ring_queue g @ [f]"
      unfolding ring_queue_def len FrameQueueDepth_def using old new by simp
    with run inv True show ?thesis by auto
  qed
qed

lemma ring_get_empty: "ring_inv g \<Longrightarrow> ring_queue g = [] \<Longrightarrow> takeOut g = Some None"
proof -
  assume "ring_inv g" "ring_queue g = []"
  then have "g_head g < 32" "g_tail g < 32" "ring_len g = 0"
    using length_ring_queue [of g] by (simp_all add: ring_inv_def FrameQueueDepth_def)
  then have "g_tail g = g_head g" by (auto simp: ring_len_cases split: if_splits)
  then show ?thesis by (simp add: takeOut_def takeFrame_def)
qed

lemma ring_get:
  assumes "ring_inv g" and "ring_queue g = d # ds"
  shows "\<exists>h. takeOut g = Some (Some (d, h)) \<and> ring_inv h \<and> ring_queue h = ds"
proof -
  from assms have b: "g_head g < 32" "g_tail g < 32" "length (g_frames g) = 32"
    by (simp_all add: ring_inv_def FrameQueueDepth_def)
  have pos: "0 < ring_len g" using assms(2) length_ring_queue [of g] by simp
  then have ne: "g_tail g \<noteq> g_head g" using b by (auto simp: ring_len_cases)
  define h where "h = g\<lparr>g_tail := (g_tail g + 1) mod 32\<rparr>"
  have len: "Suc (ring_len h) = ring_len g"
    using b ne by (auto simp: ring_len_cases h_def mod_if split: if_splits)
  have idx: "[0..<ring_len g] = 0 # map Suc [0..<ring_len h]"
    unfolding len [symmetric] map_Suc_upt by (rule upt_conv_Cons) simp
  have "ring_queue g = map (\<lambda>i. frame_of (g_frames g ! ((g_tail g + i) mod 32))) (0 # map Suc [0..<ring_len h])"
    unfolding ring_queue_def FrameQueueDepth_def idx ..
  also have "\<dots> = frame_of (g_frames g ! g_tail g) # ring_queue h"
    using b by (auto simp: ring_queue_def FrameQueueDepth_def h_def mod_simps)
  finally have "ring_queue g = frame_of (g_frames g ! g_tail g) # ring_queue h" .
  with assms have "d = frame_of (g_frames g ! g_tail g)" "ds = ring_queue h" by simp_all
  moreover have "length (f_data (g_frames g ! g_tail g)) = MaxFrameLen"
      "f_len (g_frames g ! g_tail g) \<le> MaxFrameLen"
    using assms(1) b by (simp_all add: ring_inv_def)
  then have "takeOut g = Some (Some (frame_of (g_frames g ! g_tail g), h))"
    using ne b by (simp add: takeOut_def takeFrame_def frame_of_def h_def FrameQueueDepth_def)
  moreover have "ring_inv h" using assms(1) by (simp add: ring_inv_def h_def FrameQueueDepth_def)
  ultimately show ?thesis by blast
qed

lemma ring_flush: "ring_inv g \<Longrightarrow> ring_inv (flushFrames g) \<and> ring_queue (flushFrames g) = []"
  by (simp add: ring_inv_def flushFrames_def ring_queue_def ring_len_def FrameQueueDepth_def)

interpretation fr: bounded_queue ring_inv 31 frame_fits ring_queue cbEmit takeOut flushFrames
  by unfold_locales (fact ring_put ring_get_empty ring_get ring_flush)+



end
