(* ===== verification/PortState.thy ===== *)
theory PortState
  imports FrameRing VNetApi
begin

text \<open>
  The port layer of \<^verbatim>\<open>source/zt_port.cpp\<close>, \<^verbatim>\<open>class Port\<close>: its state, the callbacks ZeroTier's core
  makes into it, and the calls of the BSD interposer on the virtual interface under \<^verbatim>\<open>m_vnetLock\<close>.

  The core (\<^verbatim>\<open>ZT_Node_*\<close>), the socket calls and the clock are not in the repository: what they answer
  is an argument of each operation and what the port asks of them is recorded in the log of effects.
\<close>

section \<open>State\<close>

datatype effect =
    FxBound u16 int
  | FxClose int
  | FxNatPort u16
  | FxClearAddresses
  | FxAddAddress u32 u16
  | FxLeave u64
  | FxJoin u64
  | FxSubscribe u64 u64 u32
  | FxFrame u64 u64 frame
  | FxPacket int "u8 list"
  | FxTasks int
  | FxSend int u32 u16 "u8 list"
  | FxNewNode
  | FxDeleteNode

record Port =
  p_node :: bool
  p_nwid :: u64
  p_wireFd :: int
  p_mappedFd :: int
  p_mappedSocketId :: int
  p_mappedPort :: u16
  p_natEnabled :: bool
  p_natRetryMs :: int
  p_natAddress :: u32
  p_natPublicPort :: u16
  p_wireLocalPort :: u16
  p_wireEphemeral :: bool
  p_vnet :: VNet
  p_ring :: FrameQueue
  p_online :: bool
  p_wireTx :: u32
  p_wireRx :: u32
  p_wireTxFail :: u32
  p_wireSkipV6 :: u32
  p_wireErrno :: int
  p_wireLastDstIp :: u32
  p_wireLastDstPort :: u16
  p_wireFailStreak :: int
  p_wireBackoffMs :: int
  p_wireReopenAtMs :: int
  p_wireDownAtMs :: int
  p_wireReopenFail :: int
  p_wireRecovering :: bool
  p_wireRecoveryConfirmed :: bool
  p_wireReachable :: bool
  p_wireHup :: bool
  p_lastNetworkPollMs :: int
  p_lastProbeMs :: int
  p_lastBeatMs :: int
  p_probeIp :: u32
  p_probeRead :: bool
  p_firstFrameLogged :: bool
  p_subscribed :: bool
  p_needSubscribe :: bool
  p_loops :: u64
  p_pollErr :: u32
  p_pollZero :: u32
  p_pollBad :: u32
  p_pollErrno :: int
  p_nextDeadline :: int
  p_netStatus :: int
  p_lastError :: int
  p_log :: "effect list"

definition DefaultWirePort :: u16 where "DefaultWirePort = 9993"

definition port_fresh :: Port where
  "port_fresh = \<lparr>p_node = False, p_nwid = 0, p_wireFd = -1, p_mappedFd = -1, p_mappedSocketId = 0,
     p_mappedPort = 0, p_natEnabled = False, p_natRetryMs = 0, p_natAddress = 0, p_natPublicPort = 0,
     p_wireLocalPort = 0, p_wireEphemeral = False, p_vnet = vnet_fresh, p_ring = frame_queue_fresh,
     p_online = False, p_wireTx = 0, p_wireRx = 0, p_wireTxFail = 0, p_wireSkipV6 = 0,
     p_wireErrno = 0, p_wireLastDstIp = 0, p_wireLastDstPort = 0, p_wireFailStreak = 0,
     p_wireBackoffMs = 0, p_wireReopenAtMs = 0, p_wireDownAtMs = 0, p_wireReopenFail = 0,
     p_wireRecovering = False, p_wireRecoveryConfirmed = False, p_wireReachable = False,
     p_wireHup = False, p_lastNetworkPollMs = 0, p_lastProbeMs = 0, p_lastBeatMs = 0, p_probeIp = 0,
     p_probeRead = False, p_firstFrameLogged = False, p_subscribed = False, p_needSubscribe = False,
     p_loops = 0, p_pollErr = 0, p_pollZero = 0, p_pollBad = 0, p_pollErrno = 0, p_nextDeadline = 0,
     p_netStatus = -1, p_lastError = 0, p_log = []\<rparr>"

definition logs :: "effect list \<Rightarrow> Port \<Rightarrow> Port" where
  "logs fx p = p\<lparr>p_log := p_log p @ fx\<rparr>"

section \<open>The virtual interface behind its lock\<close>

text \<open>
  A call on \<^verbatim>\<open>m_vnet\<close>: the frames it emits go through \<^verbatim>\<open>cbEmit\<close> into the ring, in order.
\<close>

fun emit_all :: "frame list \<Rightarrow> FrameQueue \<Rightarrow> FrameQueue option" where
  "emit_all [] g = Some g"
| "emit_all (f # fs) g = do { h \<leftarrow> cbEmit f g; emit_all fs h }"

definition on_vnet :: "(VNet \<Rightarrow> (VNet \<times> 'a) option) \<Rightarrow> Port \<Rightarrow> (Port \<times> 'a) option" where
  "on_vnet f p = do {
     (v, r) \<leftarrow> f (p_vnet p\<lparr>m_emitted := []\<rparr>);
     g \<leftarrow> emit_all (m_emitted v) (p_ring p);
     Some (p\<lparr>p_vnet := v\<lparr>m_emitted := []\<rparr>, p_ring := g\<rparr>, r) }"

definition OpenLanSocket :: "Port \<Rightarrow> (Port \<times> int) option" where
  "OpenLanSocket p =
     on_vnet (\<lambda>v. Some (if m_configured v then udpOpen v else (v, InvalidSocket))) p"

definition BindLanSocket :: "int \<Rightarrow> u16 \<Rightarrow> Port \<Rightarrow> (Port \<times> bool) option" where
  "BindLanSocket vfd port p =
     on_vnet (\<lambda>v. Some (if m_configured v
                       then (case udpBind vfd 0 port v of (v1, r) \<Rightarrow> (v1, r = 0)) else (v, False))) p"

definition MirrorLanDatagram :: "int \<Rightarrow> u32 \<Rightarrow> u16 \<Rightarrow> u8 list option \<Rightarrow> nat \<Rightarrow> Port \<Rightarrow> (Port \<times> bool) option" where
  "MirrorLanDatagram vfd dst_ip port buf len p =
     on_vnet (\<lambda>v.
       if \<not> m_configured v then Some (v, False)
       else let mask = m_netmask v in
         if dst_ip AND mask \<noteq> m_ip v AND mask then Some (v, False)
         else map_option (\<lambda>(v1, n). (v1, 0 \<le> n)) (udpSendTo vfd dst_ip port buf len v)) p"

definition MirrorLanBroadcast :: "int \<Rightarrow> u16 \<Rightarrow> u8 list option \<Rightarrow> nat \<Rightarrow> Port \<Rightarrow> (Port \<times> bool) option" where
  "MirrorLanBroadcast vfd port buf len p =
     on_vnet (\<lambda>v.
       if \<not> m_configured v then Some (v, False)
       else map_option (\<lambda>(v1, n). (v1, 0 \<le> n)) (udpSendTo vfd (broadcastIp v) port buf len v)) p"

definition LanSocketReadable :: "int \<Rightarrow> Port \<Rightarrow> bool" where
  "LanSocketReadable vfd p = udpReadable vfd (p_vnet p)"

definition ReceiveLanDatagram ::
  "int \<Rightarrow> u8 list option \<Rightarrow> nat \<Rightarrow> bool \<Rightarrow> Port \<Rightarrow>
   (Port \<times> int \<times> u8 list option \<times> (u32 \<times> u16) option) option" where
  "ReceiveLanDatagram vfd buf len peek p = on_vnet (udpRecvFrom vfd buf len peek) p"

definition CloseLanSocket :: "int \<Rightarrow> Port \<Rightarrow> Port option" where
  "CloseLanSocket vfd p = map_option fst (on_vnet (\<lambda>v. map_option (\<lambda>w. (w, ())) (udpClose vfd v)) p)"

definition GetLanIpConfig :: "Port \<Rightarrow> (u32 \<times> u32) option" where
  "GetLanIpConfig p =
     (if \<not> m_configured (p_vnet p) then None else Some (m_ip (p_vnet p), m_netmask (p_vnet p)))"

definition LanTransportReady :: "Port \<Rightarrow> bool" where
  "LanTransportReady p \<longleftrightarrow> p_wireReachable p \<and> m_configured (p_vnet p)"

text \<open>
  \<^verbatim>\<open>WaitForLanTransportReady\<close>, which polls every 50 ms without the lock: the port as it is at the
  start and after each sleep, with the tick read afterwards.  \<open>None\<close>: the observations end before
  the loop does.
\<close>

fun wait_polls :: "u64 \<Rightarrow> u64 \<Rightarrow> (Port \<times> u64) list \<Rightarrow> bool option" where
  "wait_polls started timeout [] = None"
| "wait_polls started timeout ((p, tick) # rest) =
     (if LanTransportReady p then Some True
      else if tick - started < timeout then wait_polls started timeout rest
      else Some False)"

definition WaitForLanTransportReady :: "int \<Rightarrow> Port \<Rightarrow> u64 \<Rightarrow> (Port \<times> u64) list \<Rightarrow> bool option" where
  "WaitForLanTransportReady timeout_ms p started polls =
     (if LanTransportReady p then Some True
      else if timeout_ms \<le> 0 then Some False
      else wait_polls started (of_int timeout_ms * 19200) polls)"

section \<open>Callbacks of the core\<close>

text \<open>
  \<^verbatim>\<open>cbWireSend\<close>: \<open>addr\<close> is the IPv4 address and port, or \<open>None\<close> for another family; \<open>n\<close> and \<open>errno\<close>
  are what \<^verbatim>\<open>sendto\<close> answers.
\<close>

definition cbWireSend ::
  "int \<Rightarrow> (u32 \<times> u16) option \<Rightarrow> u8 list \<Rightarrow> int \<Rightarrow> int \<Rightarrow> Port \<Rightarrow> Port \<times> int" where
  "cbWireSend localSocket addr data n err p =
     (if p_wireFd p < 0 then (p, -1)
      else let mapped = (0 < localSocket) in
        if mapped \<and> (localSocket \<noteq> p_mappedSocketId p \<or> p_mappedFd p < 0) then (p, -1)
        else let fd = (if mapped then p_mappedFd p else p_wireFd p) in
          case addr of
            None \<Rightarrow> (p\<lparr>p_wireSkipV6 := p_wireSkipV6 p + 1\<rparr>, -1)
          | Some (ip, port) \<Rightarrow>
              let q = logs [FxSend fd ip port data]
                        (p\<lparr>p_wireLastDstIp := ip, p_wireLastDstPort := port\<rparr>) in
              if n = int (length data) then
                (q\<lparr>p_wireTx := p_wireTx q + 1, p_wireFailStreak := 0, p_wireReachable := True,
                   p_wireRecoveryConfirmed := (p_wireRecovering q \<or> p_wireRecoveryConfirmed q)\<rparr>, 0)
              else
                (q\<lparr>p_wireTxFail := p_wireTxFail q + 1,
                   p_wireFailStreak := (if mapped then p_wireFailStreak q else p_wireFailStreak q + 1),
                   p_wireErrno := err, p_wireReachable := False\<rparr>, -1))"

definition cbVirtualFrame :: "u64 \<Rightarrow> u64 \<Rightarrow> u64 \<Rightarrow> u16 \<Rightarrow> u8 list option \<Rightarrow> Port \<Rightarrow> Port option" where
  "cbVirtualFrame nwid srcMac destMac etherType data p =
     (if nwid \<noteq> p_nwid p then Some p
      else map_option fst
        (on_vnet (\<lambda>v. map_option (\<lambda>w. (w, ())) (onFrame srcMac destMac etherType data v)) p))"

text \<open>
  The configuration of a network: its status, MAC and MTU, and the assigned addresses in order,
  \<open>None\<close> for one that is not IPv4, else the address and what \<^verbatim>\<open>sin_port\<close> carries, the prefix length.
\<close>

record net_config =
  c_status :: int
  c_mac :: u64
  c_mtu :: nat
  c_addresses :: "(u32 \<times> u16) option list"

datatype config_op = ConfigUp | ConfigUpdate | ConfigDown | ConfigDestroy

text \<open>\<^verbatim>\<open>bits ? (0xFFFFFFFFu << (32 - bits)) : 0\<close>; a shift by 32 or more is undefined behaviour.\<close>

definition prefix_mask :: "u16 \<Rightarrow> u32 option" where
  "prefix_mask bits =
     (let n = unat bits in
      if n = 0 then Some 0
      else if n \<le> 32 then Some (push_bit (32 - n) 0xFFFFFFFF) else None)"

fun first_ipv4 :: "(u32 \<times> u16) option list \<Rightarrow> (u32 \<times> u16) option" where
  "first_ipv4 [] = None"
| "first_ipv4 (None # as) = first_ipv4 as"
| "first_ipv4 (Some a # as) = Some a"

definition cbNetworkConfig :: "u64 \<Rightarrow> config_op \<Rightarrow> net_config \<Rightarrow> Port \<Rightarrow> Port option" where
  "cbNetworkConfig nwid op conf p =
     (if op = ConfigDestroy \<or> op = ConfigDown then
        Some (p\<lparr>p_wireReachable := False, p_vnet := setEmit True (reset (p_vnet p))\<rparr>)
      else do {
        let q = p\<lparr>p_netStatus := c_status conf, p_nwid := nwid\<rparr>;
        r \<leftarrow> (case first_ipv4 (c_addresses conf) of
                None \<Rightarrow> Some q
              | Some (ip, bits) \<Rightarrow> do {
                  mask \<leftarrow> prefix_mask bits;
                  Some (q\<lparr>p_vnet := configure (c_mac conf) ip mask (of_nat (c_mtu conf)) (p_vnet q)\<rparr>) });
        Some (r\<lparr>p_needSubscribe := True\<rparr>) })"

datatype node_event = EvOnline | EvOffline | EvDown | EvOther

fun cbEvent :: "node_event \<Rightarrow> Port \<Rightarrow> Port" where
  "cbEvent EvOnline p = p\<lparr>p_online := True\<rparr>"
| "cbEvent EvOffline p = p\<lparr>p_online := False, p_wireReachable := False\<rparr>"
| "cbEvent EvDown p = p\<lparr>p_online := False, p_wireReachable := False\<rparr>"
| "cbEvent EvOther p = p"

section \<open>The core\<close>

text \<open>
  ZeroTier's core reaches the port only through its callbacks.  What it does during one of the
  port's calls is therefore a list of callbacks, with the result code or the deadline it answers;
  which ones is a parameter that may depend on the whole history, since the port carries its log.
\<close>

datatype callback =
    CbSend int "(u32 \<times> u16) option" "u8 list" int int
  | CbFrame u64 u64 u64 u16 "u8 list option"
  | CbConfig u64 config_op net_config
  | CbEvent node_event

type_synonym core = "effect \<Rightarrow> Port \<Rightarrow> callback list \<times> int"

fun run_callback :: "callback \<Rightarrow> Port \<Rightarrow> Port option" where
  "run_callback (CbSend sock addr data n err) p = Some (fst (cbWireSend sock addr data n err p))"
| "run_callback (CbFrame nwid smac dmac et data) p = cbVirtualFrame nwid smac dmac et data p"
| "run_callback (CbConfig nwid op conf) p = cbNetworkConfig nwid op conf p"
| "run_callback (CbEvent ev) p = Some (cbEvent ev p)"

fun run_callbacks :: "callback list \<Rightarrow> Port \<Rightarrow> Port option" where
  "run_callbacks [] p = Some p"
| "run_callbacks (c # cs) p = do { q \<leftarrow> run_callback c p; run_callbacks cs q }"

definition ask :: "core \<Rightarrow> effect \<Rightarrow> Port \<Rightarrow> (Port \<times> int) option" where
  "ask core fx p =
     (let p1 = logs [fx] p in
      case core fx p1 of (cs, r) \<Rightarrow> map_option (\<lambda>q. (q, r)) (run_callbacks cs p1))"

text \<open>What the core may be relied on for: a prefix length is at most 32.\<close>

fun callback_ok :: "callback \<Rightarrow> bool" where
  "callback_ok (CbConfig nwid op conf) =
     (case first_ipv4 (c_addresses conf) of None \<Rightarrow> True | Some (ip, bits) \<Rightarrow> bits \<le> 32)"
| "callback_ok _ = True"

definition core_ok :: "core \<Rightarrow> bool" where
  "core_ok core \<longleftrightarrow> (\<forall>fx p. list_all callback_ok (fst (core fx p)))"

section \<open>The invariant\<close>

definition port_inv :: "Port \<Rightarrow> bool" where
  "port_inv p \<longleftrightarrow> vnet_inv (p_vnet p) \<and> ring_inv (p_ring p) \<and> m_emitted (p_vnet p) = []"

text \<open>The fields of the wire socket, which calls on the virtual interface leave alone.\<close>

definition wire_part :: "Port \<Rightarrow> bool \<times> bool \<times> int \<times> int \<times> int \<times> int \<times> int \<times> int" where
  "wire_part p = (p_wireRecovering p, p_wireRecoveryConfirmed p, p_wireFd p, p_mappedFd p,
     p_wireBackoffMs p, p_wireReopenAtMs p, p_wireFailStreak p, p_mappedSocketId p)"

lemma vnet_inv_emitted [simp]: "vnet_inv (v\<lparr>m_emitted := x\<rparr>) = vnet_inv v"
  by (simp add: vnet_inv_def pool_inv_def layout_def sizes_ok_def arp_inv_def mtu_ok_def)

lemma emit_all_ok: "ring_inv g \<Longrightarrow> \<exists>h. emit_all fs g = Some h \<and> ring_inv h"
proof (induction fs arbitrary: g)
  case (Cons f fs)
  from ring_put [OF Cons.prems, of f] obtain h where "cbEmit f g = Some h" "ring_inv h" by auto
  with Cons.IH [of h] show ?case by auto
qed simp

lemma on_vnet_ok:
  assumes "port_inv p" and "okinv (map_option fst (f (p_vnet p\<lparr>m_emitted := []\<rparr>)))"
  shows "\<exists>q r. on_vnet f p = Some (q, r) \<and> port_inv q \<and> wire_part q = wire_part p"
proof -
  from assms(2) obtain v r where v: "f (p_vnet p\<lparr>m_emitted := []\<rparr>) = Some (v, r)" "vnet_inv v"
    by (auto simp: okinv_def)
  from assms(1) emit_all_ok [of "p_ring p" "m_emitted v"] obtain g where
    "emit_all (m_emitted v) (p_ring p) = Some g" "ring_inv g"
    by (auto simp: port_inv_def)
  with v show ?thesis by (simp add: on_vnet_def port_inv_def wire_part_def)
qed

lemma prefix_mask_ok: "bits \<le> 32 \<Longrightarrow> \<exists>m. prefix_mask bits = Some m"
  by (simp add: prefix_mask_def Let_def word_le_nat_alt)

lemma port_inv_vnet:
  "port_inv p \<Longrightarrow> vnet_inv v \<Longrightarrow> m_emitted v = [] \<Longrightarrow> port_inv (p\<lparr>p_vnet := v\<rparr>)"
  by (simp add: port_inv_def)

lemma config_inv:
  assumes "port_inv p" and "callback_ok (CbConfig nwid op conf)"
  shows "\<exists>q. cbNetworkConfig nwid op conf p = Some q \<and> port_inv q \<and> wire_part q = wire_part p"
proof (cases "op = ConfigDestroy \<or> op = ConfigDown")
  case True
  have "vnet_inv (setEmit True (reset (p_vnet p)))"
    using assms(1) vnet_inv_sizes by (auto simp: port_inv_def intro!: step_inv)
  with True assms(1) show ?thesis
    by (auto simp: cbNetworkConfig_def port_inv_def wire_part_def reset_def setEmit_def)
next
  case False
  define q where "q = p\<lparr>p_netStatus := c_status conf, p_nwid := nwid\<rparr>"
  have q: "port_inv q" "wire_part q = wire_part p" "p_vnet q = p_vnet p"
    using assms(1) by (simp_all add: q_def port_inv_def wire_part_def)
  have fin: "port_inv (r\<lparr>p_needSubscribe := True\<rparr>)" "wire_part (r\<lparr>p_needSubscribe := True\<rparr>) = wire_part r"
    if "port_inv r" for r
    using that by (simp_all add: port_inv_def wire_part_def)
  show ?thesis
  proof (cases "first_ipv4 (c_addresses conf)")
    case None
    with False fin(1) [OF q(1)] fin(2) [OF q(1)] q(2) show ?thesis
      by (simp add: cbNetworkConfig_def flip: q_def)
  next
    case (Some a)
    obtain ip bits where a: "a = (ip, bits)" by (cases a)
    with assms(2) Some prefix_mask_ok obtain m where m: "prefix_mask bits = Some m" by auto
    define r where "r = q\<lparr>p_vnet := configure (c_mac conf) ip m (of_nat (c_mtu conf)) (p_vnet q)\<rparr>"
    have "port_inv r"
      unfolding r_def
      by (rule port_inv_vnet [OF q(1) vnet_inv_configure])
        (use q(1) in \<open>simp_all add: port_inv_def, simp add: configure_def\<close>)
    moreover have "wire_part r = wire_part p" using q(2) by (simp add: r_def wire_part_def)
    moreover have "cbNetworkConfig nwid op conf p = Some (r\<lparr>p_needSubscribe := True\<rparr>)"
      using False Some by (simp add: cbNetworkConfig_def a m r_def q_def)
    ultimately show ?thesis using fin [of r] by simp
  qed
qed

lemma frame_callback_inv:
  assumes "port_inv p"
  shows "\<exists>q. cbVirtualFrame nwid smac dmac et data p = Some q \<and> port_inv q \<and> wire_part q = wire_part p"
proof -
  have "okinv (map_option fst (map_option (\<lambda>w. (w, ()))
      (onFrame smac dmac et data (p_vnet p\<lparr>m_emitted := []\<rparr>))))"
    using frame_inv [of "p_vnet p\<lparr>m_emitted := []\<rparr>" smac dmac et data] assms
    by (simp add: port_inv_def option.map_comp o_def option.map_ident)
  from on_vnet_ok [OF assms, of "\<lambda>v. map_option (\<lambda>w. (w, ())) (onFrame smac dmac et data v)", OF this]
  show ?thesis using assms by (auto simp: cbVirtualFrame_def)
qed

lemma wire_send_inv: "port_inv p \<Longrightarrow> port_inv (fst (cbWireSend sock addr data n err p))"
  by (simp add: port_inv_def cbWireSend_def logs_def Let_def split: option.split prod.split)

lemma event_inv: "port_inv p \<Longrightarrow> port_inv (cbEvent ev p)"
  by (cases ev) (simp_all add: port_inv_def)

lemma callback_inv: "port_inv p \<Longrightarrow> callback_ok c \<Longrightarrow> \<exists>q. run_callback c p = Some q \<and> port_inv q"
  using frame_callback_inv config_inv wire_send_inv event_inv
  by (cases c) (auto, metis+)

lemma callbacks_inv:
  "port_inv p \<Longrightarrow> list_all callback_ok cs \<Longrightarrow> \<exists>q. run_callbacks cs p = Some q \<and> port_inv q"
proof (induction cs arbitrary: p)
  case (Cons c cs)
  then obtain q where "run_callback c p = Some q" "port_inv q" using callback_inv [of p c] by auto
  with Cons show ?case by simp
qed simp

lemma port_inv_logs [simp]: "port_inv (logs fx p) = port_inv p"
  by (simp add: port_inv_def logs_def)

lemma ask_inv:
  assumes "core_ok core" and "port_inv p"
  shows "\<exists>q r. ask core fx p = Some (q, r) \<and> port_inv q"
proof -
  have "list_all callback_ok (fst (core fx (logs [fx] p)))" using assms(1) by (simp add: core_ok_def)
  with callbacks_inv [of "logs [fx] p"] assms(2) obtain q where
    "run_callbacks (fst (core fx (logs [fx] p))) (logs [fx] p) = Some q" "port_inv q" by auto
  then show ?thesis by (simp add: ask_def Let_def case_prod_beta)
qed

end
