(* ===== verification/PortWire.thy ===== *)
theory PortWire
  imports PortState
begin

text \<open>
  The wire socket of the port: opening it, the second socket of the NAT mapping, and the recovery
  after an outage (\<^verbatim>\<open>maintainWireSocket\<close>).  The answers of the socket layer, of the core and of the
  clock are arguments.
\<close>

section \<open>The sockets\<close>

text \<open>What \<^verbatim>\<open>socket\<close>, \<^verbatim>\<open>bind\<close> and \<^verbatim>\<open>getsockname\<close> answer.\<close>

record open_env =
  o_fd :: int
  o_bound :: bool
  o_name :: "u16 option"

definition openWireSocket :: "open_env \<Rightarrow> Port \<Rightarrow> Port \<times> bool" where
  "openWireSocket e p =
     (let p1 = p\<lparr>p_wireFd := o_fd e\<rparr> in
      if p_wireFd p1 < 0 then (p1, False)
      else let port = (if p_wireEphemeral p1 then 0 else DefaultWirePort) in
        if \<not> o_bound e
        then ((logs [FxClose (p_wireFd p1)] p1)\<lparr>p_wireFd := -1\<rparr>, False)
        else ((logs [FxBound port (p_wireFd p1)] p1)
                \<lparr>p_wireLocalPort := (case o_name e of Some n \<Rightarrow> n | None \<Rightarrow> 0)\<rparr>, True))"

definition closeNatWire :: "core \<Rightarrow> Port \<Rightarrow> Port option" where
  "closeNatWire core p = do {
     let p1 = logs [FxNatPort 0] p;
     let p2 = (if 0 \<le> p_mappedFd p1 then (logs [FxClose (p_mappedFd p1)] p1)\<lparr>p_mappedFd := -1\<rparr> else p1);
     let p3 = p2\<lparr>p_mappedPort := 0\<rparr>;
     p4 \<leftarrow> (if p_node p3 \<and> (p_natAddress p3 \<noteq> 0 \<or> p_natPublicPort p3 \<noteq> 0)
            then map_option fst (ask core FxClearAddresses p3) else Some p3);
     Some (p4\<lparr>p_natAddress := 0, p_natPublicPort := 0\<rparr>) }"

text \<open>
  \<^verbatim>\<open>maintainNatWire\<close>: two readings of the clock, the new socket, the address of the node, the endpoint
  the mapper publishes, the result of \<^verbatim>\<open>poll\<close> (return value, error bits, readable) and the datagrams
  \<^verbatim>\<open>recvfrom\<close> returns until it fails.
\<close>

record nat_env =
  ne_now :: int
  ne_now2 :: int
  ne_fd :: int
  ne_bound :: bool
  ne_address :: u64
  ne_endpoint :: "u32 \<times> u16"
  ne_poll :: int
  ne_bad :: bool
  ne_readable :: bool
  ne_packets :: "u8 list list"

definition mapped_port :: "u64 \<Rightarrow> u16" where
  "mapped_port addr = of_nat (20000 + unat addr mod 40000)"

definition nat_open :: "nat_env \<Rightarrow> Port \<Rightarrow> Port" where
  "nat_open e p =
     (if p_mappedFd p < 0 \<and> p_wireReachable p \<and> p_natRetryMs p \<le> ne_now e then
        let p1 = p\<lparr>p_natRetryMs := ne_now2 e + 30000\<rparr> in
        if 0 \<le> ne_fd e then
          (if ne_bound e then
             let port = mapped_port (ne_address e) in
             logs [FxBound port (ne_fd e), FxNatPort port]
               (p1\<lparr>p_mappedFd := ne_fd e, p_mappedPort := port, p_mappedSocketId := p_mappedSocketId p1 + 1\<rparr>)
           else logs [FxClose (ne_fd e)] p1)
        else p1
      else p)"

definition nat_publish :: "core \<Rightarrow> nat_env \<Rightarrow> Port \<Rightarrow> Port option" where
  "nat_publish core e p =
     (case ne_endpoint e of (address, port) \<Rightarrow>
        if address \<noteq> p_natAddress p \<or> port \<noteq> p_natPublicPort p then do {
          (p1, _) \<leftarrow> ask core FxClearAddresses p;
          let p2 = p1\<lparr>p_natAddress := address, p_natPublicPort := port\<rparr>;
          if 0 \<le> p_mappedFd p2 \<and> address \<noteq> 0 \<and> port \<noteq> 0
          then map_option fst (ask core (FxAddAddress address port) p2)
          else Some p2 }
        else Some p)"

text \<open>At most 16 datagrams in a burst.\<close>

fun nat_burst :: "core \<Rightarrow> nat \<Rightarrow> u8 list list \<Rightarrow> Port \<Rightarrow> Port option" where
  "nat_burst core 0 pkts p = Some p"
| "nat_burst core (Suc n) [] p = Some p"
| "nat_burst core (Suc n) (pkt # pkts) p = do {
     let p1 = p\<lparr>p_wireRx := p_wireRx p + 1, p_wireReachable := True,
                p_wireRecoveryConfirmed := (p_wireRecovering p \<or> p_wireRecoveryConfirmed p)\<rparr>;
     (p2, deadline) \<leftarrow> ask core (FxPacket (p_mappedSocketId p1) pkt) p1;
     nat_burst core n pkts (p2\<lparr>p_nextDeadline := deadline\<rparr>) }"

definition maintainNatWire :: "core \<Rightarrow> nat_env \<Rightarrow> Port \<Rightarrow> Port option" where
  "maintainNatWire core e p =
     (if \<not> p_natEnabled p then Some p
      else if p_wireFd p < 0 then closeNatWire core p
      else do {
        p1 \<leftarrow> nat_publish core e (nat_open e p);
        if p_mappedFd p1 < 0 then Some p1
        else if ne_poll e \<le> 0 then Some p1
        else if ne_bad e then closeNatWire core p1
        else if \<not> ne_readable e then Some p1
        else nat_burst core 16 (ne_packets e) p1 })"

section \<open>Recovery\<close>

definition FailStreakMax :: int where "FailStreakMax = 8"
definition BackoffMaxMs :: int where "BackoffMaxMs = 30000"

definition next_backoff :: "int \<Rightarrow> int" where
  "next_backoff b = (let d = (if b = 0 then 2000 else b * 2) in if BackoffMaxMs < d then BackoffMaxMs else d)"

definition confirm_recovery :: "Port \<Rightarrow> Port" where
  "confirm_recovery p =
     (if p_wireRecoveryConfirmed p
      then p\<lparr>p_wireRecoveryConfirmed := False, p_wireRecovering := False, p_wireFailStreak := 0,
             p_wireBackoffMs := 0, p_wireErrno := 0, p_wireReopenFail := 0, p_wireHup := False,
             p_nextDeadline := 0\<rparr>
      else p)"

definition reopen :: "open_env \<Rightarrow> int \<Rightarrow> Port \<Rightarrow> Port" where
  "reopen e now p =
     (case openWireSocket e p of
        (p1, True) \<Rightarrow>
          p1\<lparr>p_wireReopenFail := p_wireReopenFail p1 + 1, p_wireFailStreak := 0, p_wireHup := False,
             p_nextDeadline := 0\<rparr>
      | (p1, False) \<Rightarrow>
          let b = next_backoff (p_wireBackoffMs p1) in
          p1\<lparr>p_wireBackoffMs := b, p_wireReopenAtMs := now + b,
             p_wireReopenFail := p_wireReopenFail p1 + 1\<rparr>)"

definition recycle :: "core \<Rightarrow> int \<Rightarrow> Port \<Rightarrow> Port option" where
  "recycle core now p = do {
     let doomed = p_wireFd p;
     p1 \<leftarrow> closeNatWire core p;
     let p2 = logs [FxClose doomed] (p1\<lparr>p_wireReachable := False, p_wireFd := -1\<rparr>);
     let p3 = (if \<not> p_wireRecovering p2
               then p2\<lparr>p_wireDownAtMs := now, p_wireReopenFail := 0, p_wireBackoffMs := 0\<rparr> else p2);
     let b = next_backoff (p_wireBackoffMs p3);
     Some (p3\<lparr>p_wireRecovering := True, p_wireRecoveryConfirmed := False,
              p_wireEphemeral := \<not> p_wireEphemeral p3, p_wireBackoffMs := b,
              p_wireReopenAtMs := now + b\<rparr>) }"

definition maintainWireSocket :: "core \<Rightarrow> open_env \<Rightarrow> int \<Rightarrow> Port \<Rightarrow> Port option" where
  "maintainWireSocket core e now p0 =
     (let p = confirm_recovery p0 in
      if p_wireFd p < 0 then Some (if now < p_wireReopenAtMs p then p else reopen e now p)
      else if p_wireFailStreak p < FailStreakMax \<and> \<not> p_wireHup p then Some p
      else recycle core now p)"

section \<open>Sleep\<close>

text \<open>
  \<^verbatim>\<open>HandleSleep\<close> up to the signal that the node is quiesced, and what it does after the resume: one
  attempt to open the socket and, while it fails, up to thirty more.
\<close>

definition enter_sleep :: "core \<Rightarrow> Port \<Rightarrow> Port option" where
  "enter_sleep core p = do {
     p1 \<leftarrow> closeNatWire core (logs [FxNatPort 0] p);
     Some (if 0 \<le> p_wireFd p1
           then (logs [FxClose (p_wireFd p1)] (p1\<lparr>p_wireReachable := False\<rparr>))\<lparr>p_wireFd := -1\<rparr>
           else p1) }"

fun wake_tries :: "nat \<Rightarrow> open_env list \<Rightarrow> Port \<Rightarrow> Port" where
  "wake_tries (Suc n) (e # es) p = (if 0 \<le> p_wireFd p then p else wake_tries n es (fst (openWireSocket e p)))"
| "wake_tries n es p = p"

definition leave_sleep :: "open_env list \<Rightarrow> Port \<Rightarrow> Port" where
  "leave_sleep es p = (wake_tries 31 es p)\<lparr>p_nextDeadline := 0, p_lastBeatMs := 0\<rparr>"

section \<open>The invariant of the wire\<close>

text \<open>
  The backoff is one of the steps of the doubling; a recovery is confirmed only while one is under
  way; and the second socket is open only beside the first.
\<close>

definition wire_inv :: "Port \<Rightarrow> bool" where
  "wire_inv p \<longleftrightarrow> p_wireBackoffMs p \<in> {0, 2000, 4000, 8000, 16000, 30000} \<and>
     (p_wireRecoveryConfirmed p \<longrightarrow> p_wireRecovering p) \<and> 0 \<le> p_wireFailStreak p \<and>
     (p_wireFd p < 0 \<longrightarrow> p_mappedFd p < 0)"

definition port_ok :: "Port \<Rightarrow> bool" where
  "port_ok p \<longleftrightarrow> port_inv p \<and> wire_inv p"

text \<open>What the callbacks never change.\<close>

definition fds :: "Port \<Rightarrow> int \<times> int \<times> bool \<times> int \<times> int \<times> bool" where
  "fds p = (p_wireFd p, p_mappedFd p, p_wireRecovering p, p_wireBackoffMs p, p_wireReopenAtMs p,
     p_wireEphemeral p)"

lemma wire_part_keeps:
  "wire_part q = wire_part p \<Longrightarrow> wire_inv q = wire_inv p"
  by (simp add: wire_part_def wire_inv_def)

lemma on_vnet_fds: "on_vnet f p = Some (q, r) \<Longrightarrow> fds q = fds p"
  by (auto simp: on_vnet_def fds_def split: bind_splits)

lemma frame_callback_fds: "cbVirtualFrame nwid s d et data p = Some q \<Longrightarrow> fds q = fds p"
  by (auto simp: cbVirtualFrame_def dest: on_vnet_fds split: if_splits)

lemma config_fds: "cbNetworkConfig nwid op conf p = Some q \<Longrightarrow> fds q = fds p"
  by (auto simp: cbNetworkConfig_def fds_def Let_def split: if_splits bind_splits option.splits prod.splits)

lemma send_fds: "fds (fst (cbWireSend s addr data n err p)) = fds p"
  by (simp add: cbWireSend_def fds_def logs_def Let_def split: option.split prod.split)

lemma event_fds: "fds (cbEvent ev p) = fds p"
  by (cases ev) (simp_all add: fds_def)

lemma send_wire: "wire_inv p \<Longrightarrow> wire_inv (fst (cbWireSend s addr data n err p))"
  by (auto simp: cbWireSend_def wire_inv_def logs_def Let_def split: option.split prod.split)

lemma event_wire: "wire_inv (cbEvent ev p) = wire_inv p"
  by (cases ev) (simp_all add: wire_inv_def)

lemma callback_ok_step:
  assumes "port_ok p" and "callback_ok c"
  shows "\<exists>q. run_callback c p = Some q \<and> port_ok q \<and> fds q = fds p"
proof (cases c)
  case (CbSend s addr data n err)
  with assms show ?thesis by (simp add: port_ok_def wire_send_inv send_wire send_fds)
next
  case (CbFrame nwid s d et data)
  from assms(1) have "port_inv p" by (simp add: port_ok_def)
  from frame_callback_inv [OF this] obtain q where
    q: "cbVirtualFrame nwid s d et data p = Some q" "port_inv q" "wire_part q = wire_part p" by blast
  from q(3) have "wire_inv q = wire_inv p" by (rule wire_part_keeps)
  moreover from q(1) have "fds q = fds p" by (rule frame_callback_fds)
  ultimately show ?thesis using assms(1) q(1, 2) by (simp add: CbFrame port_ok_def)
next
  case (CbConfig nwid op conf)
  from assms(1) have "port_inv p" by (simp add: port_ok_def)
  from config_inv [OF this assms(2) [unfolded CbConfig]] obtain q where
    q: "cbNetworkConfig nwid op conf p = Some q" "port_inv q" "wire_part q = wire_part p" by blast
  from q(3) have "wire_inv q = wire_inv p" by (rule wire_part_keeps)
  moreover from q(1) have "fds q = fds p" by (rule config_fds)
  ultimately show ?thesis using assms(1) q(1, 2) by (simp add: CbConfig port_ok_def)
next
  case (CbEvent ev)
  with assms show ?thesis by (simp add: port_ok_def event_inv event_wire event_fds)
qed

lemma callbacks_ok_step:
  "port_ok p \<Longrightarrow> list_all callback_ok cs \<Longrightarrow> \<exists>q. run_callbacks cs p = Some q \<and> port_ok q \<and> fds q = fds p"
proof (induction cs arbitrary: p)
  case (Cons c cs)
  then obtain q where "run_callback c p = Some q" "port_ok q" "fds q = fds p"
    using callback_ok_step [of p c] by auto
  with Cons show ?case by fastforce
qed simp

lemma port_ok_logs [simp]: "port_ok (logs fx p) = port_ok p" "fds (logs fx p) = fds p"
  by (simp_all add: port_ok_def wire_inv_def fds_def logs_def port_inv_def)

lemma ask_ok:
  assumes "core_ok core" and "port_ok p"
  obtains q r where "ask core fx p = Some (q, r)" "port_ok q" "fds q = fds p"
proof -
  have "list_all callback_ok (fst (core fx (logs [fx] p)))" using assms(1) by (simp add: core_ok_def)
  with callbacks_ok_step [of "logs [fx] p"] assms(2) obtain q where
    q: "run_callbacks (fst (core fx (logs [fx] p))) (logs [fx] p) = Some q" "port_ok q" "fds q = fds p"
    by auto
  then have "ask core fx p = Some (q, snd (core fx (logs [fx] p)))"
    by (simp add: ask_def Let_def case_prod_beta)
  with q that show ?thesis by blast
qed

section \<open>Every operation keeps it\<close>

definition ok_result :: "Port option \<Rightarrow> bool" where
  "ok_result r \<longleftrightarrow> (\<exists>q. r = Some q \<and> port_ok q)"

lemma ok_result_Some [simp]: "ok_result (Some q) = port_ok q"
  by (simp add: ok_result_def)

lemma ok_resultE: "ok_result r \<Longrightarrow> (\<And>q. r = Some q \<Longrightarrow> port_ok q \<Longrightarrow> P) \<Longrightarrow> P"
  by (auto simp: ok_result_def)

text \<open>An update of fields that neither invariant reads.\<close>

lemma port_ok_same:
  "port_ok p \<Longrightarrow> p_vnet q = p_vnet p \<Longrightarrow> p_ring q = p_ring p \<Longrightarrow>
   p_wireBackoffMs q = p_wireBackoffMs p \<Longrightarrow> p_wireRecovering q = p_wireRecovering p \<Longrightarrow>
   (p_wireRecoveryConfirmed q \<longrightarrow> p_wireRecoveryConfirmed p \<or> p_wireRecovering p) \<Longrightarrow>
   0 \<le> p_wireFailStreak q \<Longrightarrow> p_wireFd q = p_wireFd p \<Longrightarrow> p_mappedFd q = p_mappedFd p \<Longrightarrow> port_ok q"
  by (auto simp: port_ok_def port_inv_def wire_inv_def)

lemma port_ok_streak: "port_ok p \<Longrightarrow> 0 \<le> p_wireFailStreak p"
  by (simp add: port_ok_def wire_inv_def)

lemma closeNatWire_ok:
  assumes "core_ok core" and "port_ok p"
  obtains q where "closeNatWire core p = Some q" "port_ok q"
    "p_mappedFd q < 0" "p_wireFd q = p_wireFd p" "p_wireRecovering q = p_wireRecovering p"
    "p_wireBackoffMs q = p_wireBackoffMs p" "p_wireEphemeral q = p_wireEphemeral p"
proof -
  define p1 where "p1 = logs [FxNatPort 0] p"
  define p2 where "p2 = (if 0 \<le> p_mappedFd p1 then (logs [FxClose (p_mappedFd p1)] p1)\<lparr>p_mappedFd := -1\<rparr> else p1)"
  define p3 where "p3 = p2\<lparr>p_mappedPort := 0\<rparr>"
  have p3: "port_ok p3" "p_mappedFd p3 < 0" "p_wireFd p3 = p_wireFd p"
    "p_wireRecovering p3 = p_wireRecovering p" "p_wireBackoffMs p3 = p_wireBackoffMs p"
    "p_wireEphemeral p3 = p_wireEphemeral p"
    using assms(2) by (auto simp: p3_def p2_def p1_def port_ok_def port_inv_def wire_inv_def logs_def)
  have "\<exists>p4. (if p_node p3 \<and> (p_natAddress p3 \<noteq> 0 \<or> p_natPublicPort p3 \<noteq> 0)
      then map_option fst (ask core FxClearAddresses p3) else Some p3) = Some p4 \<and> port_ok p4 \<and> fds p4 = fds p3"
  proof (cases "p_node p3 \<and> (p_natAddress p3 \<noteq> 0 \<or> p_natPublicPort p3 \<noteq> 0)")
    case True
    obtain q r where "ask core FxClearAddresses p3 = Some (q, r)" "port_ok q" "fds q = fds p3"
      by (rule ask_ok [OF assms(1) p3(1)])
    with True show ?thesis by simp
  next
    case False
    with p3(1) show ?thesis by auto
  qed
  then obtain p4 where p4: "(if p_node p3 \<and> (p_natAddress p3 \<noteq> 0 \<or> p_natPublicPort p3 \<noteq> 0)
      then map_option fst (ask core FxClearAddresses p3) else Some p3) = Some p4" "port_ok p4" "fds p4 = fds p3"
    by blast
  define q where "q = p4\<lparr>p_natAddress := 0, p_natPublicPort := 0\<rparr>"
  have run: "closeNatWire core p = Some q"
    using p4(1) by (simp only: closeNatWire_def Let_def q_def p3_def p2_def p1_def) simp
  have "port_ok q" using p4(2) by (rule port_ok_same) (simp_all add: q_def port_ok_streak [OF p4(2)])
  with run p4(3) p3 that [of q] show ?thesis by (simp add: q_def fds_def)
qed

lemma closeNatWire_result: "core_ok core \<Longrightarrow> port_ok p \<Longrightarrow> ok_result (closeNatWire core p)"
  by (rule closeNatWire_ok) (auto simp: ok_result_def)

lemma nat_open_ok: "port_ok p \<Longrightarrow> 0 \<le> p_wireFd p \<Longrightarrow> port_ok (nat_open e p)"
  by (simp add: nat_open_def port_ok_def port_inv_def wire_inv_def logs_def Let_def)

lemma nat_publish_ok:
  assumes "core_ok core" and "port_ok p"
  shows "ok_result (nat_publish core e p)"
proof -
  obtain address port where ep: "ne_endpoint e = (address, port)" by (cases "ne_endpoint e")
  obtain p1 r where p1: "ask core FxClearAddresses p = Some (p1, r)" "port_ok p1"
    by (rule ask_ok [OF assms])
  have p2: "port_ok (p1\<lparr>p_natAddress := address, p_natPublicPort := port\<rparr>)"
    using p1(2) by (rule port_ok_same) (simp_all add: port_ok_streak [OF p1(2)])
  obtain p3 r3 where p3: "ask core (FxAddAddress address port)
      (p1\<lparr>p_natAddress := address, p_natPublicPort := port\<rparr>) = Some (p3, r3)" "port_ok p3"
    by (rule ask_ok [OF assms(1) p2])
  show ?thesis using assms(2) p1 p2 p3 by (simp add: nat_publish_def ep Let_def)
qed

lemma nat_burst_ok: "core_ok core \<Longrightarrow> port_ok p \<Longrightarrow> ok_result (nat_burst core n pkts p)"
proof (induction core n pkts p rule: nat_burst.induct)
  case (3 core n pkt pkts p)
  define p1 where "p1 = p\<lparr>p_wireRx := p_wireRx p + 1, p_wireReachable := True,
      p_wireRecoveryConfirmed := (p_wireRecovering p \<or> p_wireRecoveryConfirmed p)\<rparr>"
  have "port_ok p1"
    using 3(3) by (rule port_ok_same) (auto simp: p1_def port_ok_streak [OF 3(3)])
  then obtain p2 d where p2: "ask core (FxPacket (p_mappedSocketId p1) pkt) p1 = Some (p2, d)" "port_ok p2"
    by (rule ask_ok [OF 3(2)])
  have "port_ok (p2\<lparr>p_nextDeadline := d\<rparr>)"
    using p2(2) by (rule port_ok_same) (simp_all add: port_ok_streak [OF p2(2)])
  from 3(1) [OF p1_def p2(1) refl 3(2) this] show ?case
    by (simp add: p2(1) flip: p1_def)
qed (simp_all add: ok_result_def)

lemma maintainNatWire_ok:
  assumes "core_ok core" and "port_ok p"
  shows "ok_result (maintainNatWire core e p)"
proof (cases "p_natEnabled p \<and> 0 \<le> p_wireFd p")
  case True
  with nat_publish_ok [OF assms(1) nat_open_ok [OF assms(2), of e], of e] obtain p1 where
    p1: "nat_publish core e (nat_open e p) = Some p1" "port_ok p1" by (auto simp: ok_result_def)
  with True show ?thesis
    using nat_burst_ok [OF assms(1) p1(2)] closeNatWire_result [OF assms(1) p1(2)]
    by (simp add: maintainNatWire_def)
next
  case False
  then show ?thesis
    using assms(2) closeNatWire_result [OF assms] by (auto simp: maintainNatWire_def)
qed

lemma next_backoff_steps:
  "b \<in> {0, 2000, 4000, 8000, 16000, 30000} \<Longrightarrow> next_backoff b \<in> {2000, 4000, 8000, 16000, 30000}"
  by (auto simp: next_backoff_def BackoffMaxMs_def)

lemma openWireSocket_ok:
  assumes "port_ok p" and "p_wireFd p < 0"
  shows "port_ok (fst (openWireSocket e p))"
  using assms by (simp add: openWireSocket_def port_ok_def port_inv_def wire_inv_def logs_def Let_def split: option.split)

lemma confirm_ok: "port_ok p \<Longrightarrow> port_ok (confirm_recovery p)"
  by (simp add: confirm_recovery_def port_ok_def port_inv_def wire_inv_def)

lemma reopen_ok:
  assumes "port_ok p" and "p_wireFd p < 0"
  shows "port_ok (reopen e now p)"
proof -
  obtain q b where q: "openWireSocket e p = (q, b)" by (cases "openWireSocket e p")
  with openWireSocket_ok [OF assms, of e] have ok: "port_ok q" by simp
  show ?thesis
  proof (cases b)
    case True
    have "port_ok (q\<lparr>p_wireReopenFail := p_wireReopenFail q + 1, p_wireFailStreak := 0, p_wireHup := False,
        p_nextDeadline := 0\<rparr>)"
      using ok by (rule port_ok_same) simp_all
    with True show ?thesis by (simp add: reopen_def q)
  next
    case False
    with ok next_backoff_steps [of "p_wireBackoffMs q"] show ?thesis
      by (simp add: reopen_def q Let_def port_ok_def port_inv_def wire_inv_def)
  qed
qed

lemma recycle_ok:
  assumes "core_ok core" and "port_ok p"
  shows "ok_result (recycle core now p)"
proof -
  obtain p1 where p1: "closeNatWire core p = Some p1" "port_ok p1" "p_mappedFd p1 < 0"
    by (rule closeNatWire_ok [OF assms])
  have b: "next_backoff (p_wireBackoffMs p1) \<in> {2000, 4000, 8000, 16000, 30000}"
    using p1(2) by (intro next_backoff_steps) (simp add: port_ok_def wire_inv_def)
  have b0: "next_backoff 0 = 2000" by (simp add: next_backoff_def BackoffMaxMs_def)
  show ?thesis
    using p1 b b0 by (simp add: recycle_def ok_result_def port_ok_def port_inv_def wire_inv_def logs_def Let_def)
qed

lemma maintainWireSocket_ok:
  assumes "core_ok core" and "port_ok p"
  shows "ok_result (maintainWireSocket core e now p)"
  using confirm_ok [OF assms(2)] reopen_ok [of "confirm_recovery p"] recycle_ok [OF assms(1), of "confirm_recovery p"]
  by (simp add: maintainWireSocket_def Let_def)

lemma enter_sleep_ok:
  assumes "core_ok core" and "port_ok p"
  obtains q where "enter_sleep core p = Some q" "port_ok q" "p_wireFd q < 0" "p_mappedFd q < 0"
proof -
  have "port_ok (logs [FxNatPort 0] p)" using assms(2) by simp
  then obtain p1 where p1: "closeNatWire core (logs [FxNatPort 0] p) = Some p1" "port_ok p1" "p_mappedFd p1 < 0"
    by (rule closeNatWire_ok [OF assms(1)])
  define q where "q = (if 0 \<le> p_wireFd p1
      then (logs [FxClose (p_wireFd p1)] (p1\<lparr>p_wireReachable := False\<rparr>))\<lparr>p_wireFd := -1\<rparr> else p1)"
  have "port_ok q" "p_wireFd q < 0" "p_mappedFd q < 0"
    using p1 by (auto simp: q_def port_ok_def port_inv_def wire_inv_def logs_def)
  moreover have "enter_sleep core p = Some q" using p1(1) by (simp add: enter_sleep_def q_def)
  ultimately show ?thesis by (intro that)
qed

lemma wake_tries_ok: "port_ok p \<Longrightarrow> port_ok (wake_tries n es p)"
  by (induction n es p rule: wake_tries.induct) (simp_all add: openWireSocket_ok not_le)

lemma leave_sleep_ok: "port_ok p \<Longrightarrow> port_ok (leave_sleep es p)"
proof -
  assume "port_ok p"
  then have ok: "port_ok (wake_tries 31 es p)" by (rule wake_tries_ok)
  from ok show ?thesis unfolding leave_sleep_def
    by (rule port_ok_same) (simp_all add: port_ok_streak [OF ok])
qed

section \<open>An outage\<close>

definition quiet :: "core \<Rightarrow> bool" where
  "quiet core \<longleftrightarrow> (\<forall>fx p. fst (core fx p) = [])"

lemma ask_quiet:
  assumes "quiet core"
  obtains r where "ask core fx p = Some (logs [fx] p, r)"
  using assms that by (simp add: quiet_def ask_def Let_def case_prod_beta)

definition outage_part :: "Port \<Rightarrow> int \<times> bool \<times> bool \<times> int \<times> int \<times> bool \<times> int \<times> bool" where
  "outage_part p = (p_wireFd p, p_wireRecovering p, p_wireRecoveryConfirmed p, p_wireBackoffMs p,
     p_wireReopenAtMs p, p_wireEphemeral p, p_wireFailStreak p, p_wireHup p)"

lemma closeNatWire_quiet:
  assumes "quiet core"
  obtains q where "closeNatWire core p = Some q" "outage_part q = outage_part p"
proof -
  define p1 where "p1 = logs [FxNatPort 0] p"
  define p2 where "p2 = (if 0 \<le> p_mappedFd p1 then (logs [FxClose (p_mappedFd p1)] p1)\<lparr>p_mappedFd := -1\<rparr> else p1)"
  define p3 where "p3 = p2\<lparr>p_mappedPort := 0\<rparr>"
  have p3: "outage_part p3 = outage_part p"
    by (simp add: p3_def p2_def p1_def outage_part_def logs_def)
  obtain r where "ask core FxClearAddresses p3 = Some (logs [FxClearAddresses] p3, r)"
    by (rule ask_quiet [OF assms])
  then obtain p4 where p4: "(if p_node p3 \<and> (p_natAddress p3 \<noteq> 0 \<or> p_natPublicPort p3 \<noteq> 0)
      then map_option fst (ask core FxClearAddresses p3) else Some p3) = Some p4" "outage_part p4 = outage_part p3"
    by (cases "p_node p3 \<and> (p_natAddress p3 \<noteq> 0 \<or> p_natPublicPort p3 \<noteq> 0)")
       (auto simp: outage_part_def logs_def)
  show ?thesis
  proof (rule that)
    show "closeNatWire core p = Some (p4\<lparr>p_natAddress := 0, p_natPublicPort := 0\<rparr>)"
      using p4(1) by (simp only: closeNatWire_def Let_def p3_def p2_def p1_def) simp
    show "outage_part (p4\<lparr>p_natAddress := 0, p_natPublicPort := 0\<rparr>) = outage_part p"
      using p4(2) p3 by (simp add: outage_part_def)
  qed
qed

text \<open>Sends on the primary socket that the socket layer refuses.\<close>

fun failing_send :: "callback \<Rightarrow> bool" where
  "failing_send (CbSend sock (Some a) data n err) = (sock \<le> 0 \<and> n \<noteq> int (length data))"
| "failing_send _ = False"

lemma failing_sends:
  assumes "list_all failing_send cs" and "0 \<le> p_wireFd p"
  obtains q where "run_callbacks cs p = Some q" "p_wireFailStreak q = p_wireFailStreak p + int (length cs)"
    "p_wireFd q = p_wireFd p" "p_wireRecovering q = p_wireRecovering p"
    "p_wireRecoveryConfirmed q = p_wireRecoveryConfirmed p" "p_wireHup q = p_wireHup p"
    "p_wireEphemeral q = p_wireEphemeral p" "cs \<noteq> [] \<longrightarrow> \<not> p_wireReachable q"
proof -
  have "\<exists>q. run_callbacks cs p = Some q \<and> p_wireFailStreak q = p_wireFailStreak p + int (length cs) \<and>
    p_wireFd q = p_wireFd p \<and> p_wireRecovering q = p_wireRecovering p \<and>
    p_wireRecoveryConfirmed q = p_wireRecoveryConfirmed p \<and> p_wireHup q = p_wireHup p \<and>
    p_wireEphemeral q = p_wireEphemeral p \<and> (cs \<noteq> [] \<longrightarrow> \<not> p_wireReachable q)"
    using assms
  proof (induction cs arbitrary: p)
    case (Cons c cs)
    then obtain sock ip port data n err where
      c: "c = CbSend sock (Some (ip, port)) data n err" "sock \<le> 0" "n \<noteq> int (length data)"
      by (cases c rule: failing_send.cases) auto
    define r where "r = fst (cbWireSend sock (Some (ip, port)) data n err p)"
    have r: "p_wireFailStreak r = p_wireFailStreak p + 1" "p_wireFd r = p_wireFd p"
      "p_wireRecovering r = p_wireRecovering p" "p_wireRecoveryConfirmed r = p_wireRecoveryConfirmed p"
      "p_wireHup r = p_wireHup p" "p_wireEphemeral r = p_wireEphemeral p" "\<not> p_wireReachable r"
      using c(2, 3) Cons.prems(2) by (simp_all add: r_def cbWireSend_def logs_def Let_def)
    from Cons.IH [of r] Cons.prems r c(1) show ?case
      by (cases cs) (auto simp flip: r_def)
  qed simp
  with that show ?thesis by blast
qed

lemma recycle_quiet:
  assumes "quiet core" and "\<not> p_wireRecovering p"
  obtains q where "recycle core t p = Some q" "p_wireFd q = -1" "p_wireRecovering q"
    "\<not> p_wireRecoveryConfirmed q" "\<not> p_wireReachable q" "p_wireBackoffMs q = 2000"
    "p_wireReopenAtMs q = t + 2000" "p_wireEphemeral q = (\<not> p_wireEphemeral p)"
    "FxClose (p_wireFd p) \<in> set (p_log q)"
proof -
  obtain r where r: "closeNatWire core p = Some r" "outage_part r = outage_part p"
    by (rule closeNatWire_quiet [OF assms(1)])
  have b: "next_backoff 0 = 2000" by (simp add: next_backoff_def BackoffMaxMs_def)
  have nr: "\<not> p_wireRecovering r" "p_wireEphemeral r = p_wireEphemeral p"
    using assms(2) r(2) by (simp_all add: outage_part_def)
  show ?thesis
    by (rule that) (simp_all add: recycle_def r(1) nr b Let_def logs_def, simp_all)
qed

lemma reopen_success:
  assumes "0 \<le> o_fd e" and "o_bound e"
  shows "p_wireFd (reopen e now p) = o_fd e"
    and "p_log (reopen e now p) =
      p_log p @ [FxBound (if p_wireEphemeral p then 0 else DefaultWirePort) (o_fd e)]"
    and "p_wireRecovering (reopen e now p) = p_wireRecovering p"
    and "p_wireBackoffMs (reopen e now p) = p_wireBackoffMs p"
  using assms by (simp_all add: reopen_def openWireSocket_def logs_def Let_def)


definition demo_wire :: Port where
  "demo_wire = port_fresh\<lparr>p_wireFd := 3\<rparr>"

definition demo_open :: open_env where
  "demo_open = \<lparr>o_fd = 4, o_bound = True, o_name = None\<rparr>"

definition idle_core :: core where "idle_core fx p = ([], 0)"

lemma quiet_idle [simp]: "quiet idle_core"
  by (simp add: quiet_def idle_core_def)


text \<open>Failing attempts, each made when it is due.\<close>

fun failing_retries :: "core \<Rightarrow> open_env list \<Rightarrow> Port \<Rightarrow> Port option" where
  "failing_retries core [] p = Some p"
| "failing_retries core (e # es) p =
     do { q \<leftarrow> maintainWireSocket core e (p_wireReopenAtMs p) p; failing_retries core es q }"

lemma next_backoff_min: "next_backoff (min (2000 * 2 ^ n) 30000) = min (2000 * 2 ^ Suc n) 30000"
proof -
  have "(1 :: int) \<le> 2 ^ n" by simp
  then show ?thesis by (auto simp: next_backoff_def BackoffMaxMs_def min_def Let_def)
qed

text \<open>
  While the socket cannot be opened, the attempts back off exponentially and boundedly: after
  \<open>n\<close> failing attempts the next one is due \<open>min (2000 * 2 ^ n) 30000\<close> milliseconds after the last.
\<close>

theorem reopen_backoff:
  assumes "p_wireFd p = -1" and "\<not> p_wireRecoveryConfirmed p" and "p_wireBackoffMs p = 2000"
    and "\<forall>e \<in> set es. o_fd e < 0 \<or> \<not> o_bound e"
  shows "\<exists>q. failing_retries core es p = Some q \<and> p_wireFd q < 0 \<and>
    p_wireBackoffMs q = min (2000 * 2 ^ length es) 30000 \<and>
    p_wireReopenAtMs q = p_wireReopenAtMs p + (\<Sum>k = 1..length es. min (2000 * 2 ^ k) 30000)"
proof -
  have "\<exists>q. failing_retries core es p = Some q \<and> p_wireFd q < 0 \<and>
      p_wireBackoffMs q = min (2000 * 2 ^ (n + length es)) 30000 \<and>
      p_wireReopenAtMs q = p_wireReopenAtMs p + (\<Sum>k = Suc n..n + length es. min (2000 * 2 ^ k) 30000)"
    if "p_wireFd p < 0" "\<not> p_wireRecoveryConfirmed p" "p_wireBackoffMs p = min (2000 * 2 ^ n) 30000"
      "\<forall>e \<in> set es. o_fd e < 0 \<or> \<not> o_bound e" for n
    using that
  proof (induction es arbitrary: p n)
    case (Cons e es)
    define q where "q = reopen e (p_wireReopenAtMs p) p"
    have bad: "o_fd e < 0 \<or> \<not> o_bound e" using Cons.prems by simp
    have q: "p_wireFd q < 0" "\<not> p_wireRecoveryConfirmed q"
      "p_wireBackoffMs q = next_backoff (p_wireBackoffMs p)"
      "p_wireReopenAtMs q = p_wireReopenAtMs p + next_backoff (p_wireBackoffMs p)"
      using bad Cons.prems by (auto simp: q_def reopen_def openWireSocket_def logs_def Let_def)
    have run: "maintainWireSocket core e (p_wireReopenAtMs p) p = Some q"
      using Cons.prems by (simp add: maintainWireSocket_def confirm_recovery_def q_def)
    have b: "p_wireBackoffMs q = min (2000 * 2 ^ Suc n) 30000"
      using q(3) Cons.prems(3) next_backoff_min [of n] by simp
    from Cons.IH [OF q(1, 2) b] Cons.prems(4) obtain r where
      r: "failing_retries core es q = Some r" "p_wireFd r < 0"
        "p_wireBackoffMs r = min (2000 * 2 ^ (Suc n + length es)) 30000"
        "p_wireReopenAtMs r = p_wireReopenAtMs q + (\<Sum>k = Suc (Suc n)..Suc n + length es. min (2000 * 2 ^ k) 30000)"
      by auto
    have "(\<Sum>k = Suc n..n + length (e # es). min (2000 * 2 ^ k) 30000) =
        min (2000 * 2 ^ Suc n) 30000 + (\<Sum>k = Suc (Suc n)..Suc n + length es. min (2000 * 2 ^ k) (30000 :: int))"
      by (subst sum.atLeast_Suc_atMost) simp_all
    with r q(4) q(3) b run show ?case by simp
  qed simp
  from this [of 0] assms show ?thesis by simp
qed

lemma reopen_backoff_witness:
  "\<exists>q. failing_retries (\<lambda>_ _. ([], 0)) (replicate 5 \<lparr>o_fd = -1, o_bound = False, o_name = None\<rparr>)
     (port_fresh\<lparr>p_wireBackoffMs := 2000\<rparr>) = Some q \<and> p_wireBackoffMs q = 30000"
  using reopen_backoff [of "port_fresh\<lparr>p_wireBackoffMs := 2000\<rparr>"
      "replicate 5 \<lparr>o_fd = -1, o_bound = False, o_name = None\<rparr>" "\<lambda>_ _. ([], 0)"]
  by (auto simp: port_fresh_def)

end
