(* ===== verification/IniConfig.thy ===== *)
theory IniConfig
  imports Prelude "HOL-Library.Char_ord"
begin

text \<open>
  The configuration readers of \<^verbatim>\<open>source/zt_port.cpp\<close>: network ids, strings, flags, numbers and
  addresses from \<^verbatim>\<open>config.ini\<close>, and the catalogue of saved networks.  A file is the C string
  \<^verbatim>\<open>ReadWholeFile\<close> leaves in the buffer, a list of characters without NUL; the pointers \<^verbatim>\<open>p\<close>, \<^verbatim>\<open>q\<close> of
  the code are the suffixes of the current line they point to.  Reading files is a parameter:
  \<open>None\<close> for a file that is missing, unreadable or too long.
\<close>

section \<open>Lines\<close>

abbreviation (input) newline :: char where "newline \<equiv> CHR 0x0A"

definition line_of :: "string \<Rightarrow> string" where
  "line_of text = takeWhile (\<lambda>c. c \<noteq> newline) text"

text \<open>\<^verbatim>\<open>line = (*eol == '\n') ? eol + 1 : eol\<close>.\<close>

definition next_line :: "string \<Rightarrow> string" where
  "next_line text = drop 1 (dropWhile (\<lambda>c. c \<noteq> newline) text)"

lemma next_line_shorter [simp]: "text \<noteq> [] \<Longrightarrow> length (next_line text) < length text"
proof -
  assume "text \<noteq> []"
  then have "0 < length text" by simp
  moreover have "length (dropWhile (\<lambda>c. c \<noteq> newline) text) \<le> length text"
    by (rule length_dropWhile_le)
  ultimately show ?thesis unfolding next_line_def length_drop by linarith
qed

text \<open>The loop \<^verbatim>\<open>while (*line)\<close>: a body that updates a state, or returns (\<open>Inl\<close>).\<close>

function scan_lines :: "(string \<Rightarrow> 's \<Rightarrow> 'r + 's) \<Rightarrow> string \<Rightarrow> 's \<Rightarrow> 'r + 's" where
  "scan_lines body text s =
     (if text = [] then Inr s
      else case body (line_of text) s of
             Inl r \<Rightarrow> Inl r
           | Inr t \<Rightarrow> scan_lines body (next_line text) t)"
  by pat_completeness auto
termination by (relation "measure (\<lambda>(body, text, s). length text)") auto

declare scan_lines.simps [simp del]

section \<open>Scanning a line\<close>

definition is_blank :: "char \<Rightarrow> bool" where
  "is_blank c \<longleftrightarrow> c = CHR '' '' \<or> c = CHR 0x09"

definition skip_blank :: "string \<Rightarrow> string" where
  "skip_blank s = dropWhile is_blank s"

definition comment_mark :: "char \<Rightarrow> bool" where
  "comment_mark c \<longleftrightarrow> c = CHR ''#'' \<or> c = CHR '';''"

text \<open>\<^verbatim>\<open>(eol - p) >= n && strncmp(p, key, n) == 0\<close>.\<close>

definition starts_with :: "string \<Rightarrow> string \<Rightarrow> bool" where
  "starts_with key p \<longleftrightarrow> length key \<le> length p \<and> take (length key) p = key"

text \<open>What follows the key: blanks, an equals sign and blanks again; \<open>None\<close> without the sign.\<close>

definition after_equals :: "nat \<Rightarrow> string \<Rightarrow> string option" where
  "after_equals n p =
     (case skip_blank (drop n p) of
        [] \<Rightarrow> None
      | c # q \<Rightarrow> if c = CHR ''='' then Some (skip_blank q) else None)"

definition hex_digit :: "char \<Rightarrow> nat option" where
  "hex_digit c = (let n = of_char c :: nat in
     if 48 \<le> n \<and> n \<le> 57 then Some (n - 48)
     else if 97 \<le> n \<and> n \<le> 102 then Some (n - 97 + 10)
     else if 65 \<le> n \<and> n \<le> 70 then Some (n - 65 + 10)
     else None)"

text \<open>At most \<open>n\<close> hexadecimal digits: the value and how many were read.\<close>

fun hex_run :: "nat \<Rightarrow> string \<Rightarrow> u64 \<Rightarrow> nat \<Rightarrow> u64 \<times> nat" where
  "hex_run n [] v digits = (v, digits)"
| "hex_run n (c # q) v digits =
     (if n = 0 then (v, digits)
      else case hex_digit c of
             None \<Rightarrow> (v, digits)
           | Some d \<Rightarrow> hex_run (n - 1) q (push_bit 4 v OR of_nat d) (digits + 1))"

definition hex_id :: "string \<Rightarrow> u64 option" where
  "hex_id q = (case hex_run 16 q 0 0 of
                 (v, digits) \<Rightarrow> if digits = 16 \<and> v \<noteq> 0 then Some v else None)"

section \<open>Network ids\<close>

definition nwid_line :: "bool \<Rightarrow> string \<Rightarrow> u64 option" where
  "nwid_line allow_commented line =
     (let p0 = skip_blank line;
          p = (if allow_commented then dropWhile (\<lambda>c. comment_mark c \<or> is_blank c) p0 else p0)
      in if p \<noteq> [] \<and> (allow_commented \<or> \<not> comment_mark (hd p)) \<and> starts_with ''nwid'' p
         then (case after_equals 4 p of None \<Rightarrow> None | Some q \<Rightarrow> hex_id q)
         else None)"

definition ParseNwid :: "bool \<Rightarrow> string \<Rightarrow> u64 option" where
  "ParseNwid allow_commented text =
     (case scan_lines (\<lambda>line found. Inr (case nwid_line allow_commented line of
                                           Some v \<Rightarrow> Some v | None \<Rightarrow> found)) text None of
        Inl r \<Rightarrow> r | Inr found \<Rightarrow> found)"

section \<open>Strings\<close>

text \<open>Trailing blanks and the carriage return of a DOS line end; then one pair of quotes.\<close>

definition trim_end :: "string \<Rightarrow> string" where
  "trim_end q = rev (dropWhile (\<lambda>c. is_blank c \<or> c = CHR 0x0D) (rev q))"

definition unquote :: "string \<Rightarrow> string" where
  "unquote v =
     (if 2 \<le> length v \<and>
         ((hd v = CHR 0x27 \<and> last v = CHR 0x27) \<or> (hd v = CHR 0x22 \<and> last v = CHR 0x22))
      then butlast (tl v) else v)"

text \<open>\<open>Some\<close> for a line that assigns the key: the value, or \<open>None\<close> for one that does not fit.\<close>

definition string_line :: "string \<Rightarrow> nat \<Rightarrow> string \<Rightarrow> string option option" where
  "string_line key out_len line =
     (let p = skip_blank line in
      if p \<noteq> [] \<and> \<not> comment_mark (hd p) \<and> starts_with key p
      then (case after_equals (length key) p of
              None \<Rightarrow> None
            | Some q \<Rightarrow>
                let v = unquote (trim_end q) in
                Some (if 0 < length v \<and> length v < out_len then Some v else None))
      else None)"

definition ParseConfigString :: "string \<Rightarrow> string \<Rightarrow> nat \<Rightarrow> string option" where
  "ParseConfigString text key out_len =
     (if out_len = 0 then None
      else case scan_lines (\<lambda>line found. Inr (case string_line key out_len line of
                                                Some v \<Rightarrow> v | None \<Rightarrow> found)) text None of
             Inl r \<Rightarrow> r | Inr found \<Rightarrow> found)"

section \<open>The catalogue of saved networks\<close>

text \<open>\<open>Some name\<close> for a line that opens a section, with \<open>None\<close> for a bracket that is not closed.\<close>

definition section_name :: "string \<Rightarrow> string option" where
  "section_name p =
     (let name = takeWhile (\<lambda>c. c \<noteq> CHR '']'') (tl p) in
      if length name < length (tl p) then Some name else None)"

definition is_section :: "string \<Rightarrow> bool" where
  "is_section p \<longleftrightarrow> p \<noteq> [] \<and> hd p = CHR ''[''"

definition saved_body :: "string \<Rightarrow> string \<Rightarrow> bool \<Rightarrow> u64 option + bool" where
  "saved_body wanted line in_section =
     (let p = skip_blank line in
      if is_section p then Inr (section_name p = Some wanted)
      else if in_section \<and> p \<noteq> [] \<and> \<not> comment_mark (hd p) \<and> starts_with ''nwid'' p
      then (case after_equals 4 p of
              None \<Rightarrow> Inr in_section
            | Some q \<Rightarrow> Inl (hex_id q))
      else Inr in_section)"

definition ParseSavedNetwork :: "string \<Rightarrow> string \<Rightarrow> u64 option" where
  "ParseSavedNetwork text wanted =
     (case scan_lines (saved_body wanted) text False of Inl r \<Rightarrow> r | Inr _ \<Rightarrow> None)"

text \<open>
  The state of \<^verbatim>\<open>ParseFirstSavedNetwork\<close>: the usable section open (its name), the first candidate
  and the number of valid entries.  The buffers \<^verbatim>\<open>section\<close> and \<^verbatim>\<open>candidate\<close> hold 96 characters.
\<close>

record first_state =
  fs_section :: "string option"
  fs_candidate :: "(string \<times> u64) option"
  fs_count :: int

definition first_body :: "nat \<Rightarrow> string \<Rightarrow> first_state \<Rightarrow> unit + first_state" where
  "first_body name_len line st =
     (let p = skip_blank line in
      if is_section p then
        (case section_name p of
           None \<Rightarrow> Inr (st\<lparr>fs_section := None\<rparr>)
         | Some name \<Rightarrow>
             if 0 < length name \<and> length name < 96 \<and> name \<noteq> ''sys-zerotier''
             then Inr (st\<lparr>fs_section := Some name\<rparr>)
             else Inr (st\<lparr>fs_section := None\<rparr>))
      else case fs_section st of
        None \<Rightarrow> Inr st
      | Some name \<Rightarrow>
          if p \<noteq> [] \<and> \<not> comment_mark (hd p) \<and> starts_with ''nwid'' p then
            (case after_equals 4 p of
               None \<Rightarrow> Inr st
             | Some q \<Rightarrow>
                 case hex_id q of
                   None \<Rightarrow> Inr st
                 | Some v \<Rightarrow>
                     if length name < name_len
                     then Inr (st\<lparr>fs_candidate := (if fs_count st = 0 then Some (name, v) else fs_candidate st),
                                  fs_count := fs_count st + 1\<rparr>)
                     else Inr st)
          else Inr st)"

definition ParseFirstSavedNetwork :: "string \<Rightarrow> nat \<Rightarrow> (string \<times> u64) option" where
  "ParseFirstSavedNetwork text name_len =
     (case scan_lines (first_body name_len) text \<lparr>fs_section = None, fs_candidate = None, fs_count = 0\<rparr> of
        Inl _ \<Rightarrow> None
      | Inr st \<Rightarrow> if fs_count st \<noteq> 1 then None else fs_candidate st)"

section \<open>The requested network\<close>

definition ResolveConfiguredNetworkId :: "string option \<Rightarrow> string option \<Rightarrow> u64 option" where
  "ResolveConfiguredNetworkId config saved =
     (let sel_saved = (case saved of Some s \<Rightarrow> ParseConfigString s ''selected'' 96 | None \<Rightarrow> None);
          selected = (case sel_saved of
                        Some n \<Rightarrow> Some n
                      | None \<Rightarrow> (case config of Some c \<Rightarrow> ParseConfigString c ''network'' 96 | None \<Rightarrow> None));
          by_name = (case (selected, saved) of
                       (Some n, Some s) \<Rightarrow> ParseSavedNetwork s n | _ \<Rightarrow> None)
      in case by_name of
           Some v \<Rightarrow> Some v
         | None \<Rightarrow>
             (case (case config of Some c \<Rightarrow> ParseNwid False c | None \<Rightarrow> None) of
                Some v \<Rightarrow> Some v
              | None \<Rightarrow> (case saved of
                           Some s \<Rightarrow> map_option snd (ParseFirstSavedNetwork s 96)
                         | None \<Rightarrow> None)))"

section \<open>Numbers, addresses and flags\<close>

text \<open>
  Decimal digits into a C \<^verbatim>\<open>int\<close>: \<open>None\<close> when \<^verbatim>\<open>v * 10 + d\<close> leaves its range, which is undefined
  behaviour; otherwise the value, the number of digits and the rest.
\<close>

definition int_max :: int where "int_max = 2147483647"

definition dec_digit :: "char \<Rightarrow> int option" where
  "dec_digit c = (let n = of_char c :: nat in if 48 \<le> n \<and> n \<le> 57 then Some (int n - 48) else None)"

fun dec_run :: "string \<Rightarrow> int \<Rightarrow> nat \<Rightarrow> (int \<times> nat \<times> string) option" where
  "dec_run [] v digits = Some (v, digits, [])"
| "dec_run (c # q) v digits =
     (case dec_digit c of
        None \<Rightarrow> Some (v, digits, c # q)
      | Some d \<Rightarrow> if int_max < v * 10 + d then None else dec_run q (v * 10 + d) (digits + 1))"

definition key_line :: "string \<Rightarrow> string \<Rightarrow> string option" where
  "key_line key line =
     (let p = skip_blank line in
      if p \<noteq> [] \<and> \<not> comment_mark (hd p) \<and> starts_with key p then after_equals (length key) p else None)"

text \<open>\<open>None\<close>: undefined behaviour.\<close>

definition ConfigValue :: "string option \<Rightarrow> string \<Rightarrow> int \<Rightarrow> int option" where
  "ConfigValue file key dflt =
     (case file of
        None \<Rightarrow> Some dflt
      | Some text \<Rightarrow>
          (case scan_lines (\<lambda>line result.
                  case key_line key line of
                    None \<Rightarrow> Inr result
                  | Some q \<Rightarrow>
                      (case dec_run q 0 0 of
                         None \<Rightarrow> Inl ()
                       | Some (v, digits, _) \<Rightarrow> Inr (if 0 < digits then v else result))) text dflt of
             Inl _ \<Rightarrow> None
           | Inr result \<Rightarrow> Some result))"

text \<open>The four octets: \<open>Some None\<close> is the code's \<^verbatim>\<open>return 0\<close> for a malformed address.\<close>

fun octets :: "nat \<Rightarrow> string \<Rightarrow> u32 \<Rightarrow> u32 option option" where
  "octets 0 q ip = Some (Some ip)"
| "octets (Suc n) q ip =
     (case dec_run q 0 0 of
        None \<Rightarrow> None
      | Some (v, digits, r) \<Rightarrow>
          if digits = 0 \<or> 255 < v then Some None
          else
            let ip1 = push_bit 8 ip OR of_int v in
            if n = 0 then Some (Some ip1)
            else (case r of
                    [] \<Rightarrow> Some None
                  | c # r1 \<Rightarrow> if c \<noteq> CHR ''.'' then Some None else octets n r1 ip1))"

definition ConfigIpv4 :: "string option \<Rightarrow> string \<Rightarrow> u32 option" where
  "ConfigIpv4 file key =
     (case file of
        None \<Rightarrow> Some 0
      | Some text \<Rightarrow>
          (case scan_lines (\<lambda>line result.
                  case key_line key line of
                    None \<Rightarrow> Inr result
                  | Some q \<Rightarrow>
                      (case octets 4 q 0 of
                         None \<Rightarrow> Inl None
                       | Some None \<Rightarrow> Inl (Some 0)
                       | Some (Some ip) \<Rightarrow> Inr ip)) text 0 of
             Inl r \<Rightarrow> r
           | Inr result \<Rightarrow> Some result))"

definition ConfigFlag :: "string option \<Rightarrow> string \<Rightarrow> bool \<Rightarrow> bool" where
  "ConfigFlag file key dflt =
     (case file of
        None \<Rightarrow> dflt
      | Some text \<Rightarrow>
          (case scan_lines (\<lambda>line result.
                  Inr (case key_line key line of
                         Some (c # _) \<Rightarrow> c \<noteq> CHR ''0''
                       | _ \<Rightarrow> result)) text dflt of
             Inl r \<Rightarrow> r
           | Inr result \<Rightarrow> result))"

section \<open>The template and the wait for a network\<close>

definition TemplateLines :: "string list" where
  "TemplateLines = [
     ''# sys-zerotier'',
     ''#'',
     ''# Put your ZeroTier network id -- the 16-hex-digit value copied'',
     ''# from ZeroTier Central -- after the '' @ [CHR 0x27] @ ''='' @ [CHR 0x27] @ '' on the nwid line below,'',
     ''# or use the sys-zerotier overlay to enter/select one while running.'',
     ''#'',
     ''# Every line starting with '' @ [CHR 0x27] @ ''#'' @ [CHR 0x27] @ '' or '' @ [CHR 0x27] @ '';'' @ [CHR 0x27] @ '' is ignored. If the console'',
     ''# sits at '' @ [CHR 0x22] @ ''waiting for a network id'' @ [CHR 0x22] @ '' with an id that looks set,'',
     ''# check that its line does not start with '' @ [CHR 0x27] @ ''#'' @ [CHR 0x27] @ ''; boot.log says so'',
     ''# explicitly when that is what happened.'',
     ''#'',
     ''# On first boot the console appears in ZeroTier Central as a new'',
     ''# member and has to be authorised there. Its assigned address then'',
     ''# shows up in status.txt beside this file.'',
     [],
     ''[sys-zerotier]'',
     ''network ='',
     ''nwid ='',
     ''bsd_mitm = 1'',
     ''nifm_mitm = 1'',
     ''debug_logging = 0'',
     ''# Try finite UPnP/NAT-PMP UDP mappings on the physical router.'',
     ''port_mapping = 1'',
     [],
     ''# Bring-up announcement. The console broadcasts an ICMP echo to the'',
     ''# subnet broadcast address every 5 seconds, so every other member'',
     ''# learns its MAC and address. Until the bsd:u MITM exists this is'',
     ''# the only thing that makes the console transmit at all, and a'',
     ''# member that never transmits is one nobody looks up.'',
     ''#'',
     ''# That needs no configuration. `probe` additionally sends a unicast'',
     ''# echo to one specific member, which exercises address resolution:'',
     ''#'',
     ''# probe = 10.147.17.191'',
     [],
     ''# debug_logging writes the detailed bsd.log and nifm.log traces.'',
     ''# Leave it off for normal play; enable it, reboot, reproduce one'',
     ''# problem, then turn it off again. boot.log, status.txt and the'',
     ''# compact uplink.log remain available either way.'',
     ''#'',
     ''# Diagnostics. Each of these switches off one init step so the'',
     ''# service sessions the module holds can be bisected without a'',
     ''# rebuild. All default to 1 (enabled).'',
     ''#'',
     ''# init_time  = 1'',
     [],
     ''# Power-state handling. When enabled the module registers with psc so'',
     ''# it can close its socket and stop writing to the SD card before'',
     ''# sleep suspends fs and the network. Without it, sleeping has hung'',
     ''# the console. WITH it, an omm/spsm fatal (2165-0001) appeared that'',
     ''# has not yet been ruled out as ours -- so it is off until proven.'',
     ''#'',
     ''# psc_enable = 0'',
     [],
     ''# psc module id, used only when psc_enable = 1.'',
     ''# so it can close its socket and stop writing to the SD card before'',
     ''# sleep suspends fs and the network -- without that, sleeping hangs'',
     ''# the console with no error report and no way back but the power'',
     ''# psc has no id range reserved for third-party modules, so this'',
     ''# number is a guess; boot.log says whether it was accepted. Note'',
     ''# 127 is spsm itself -- try 57-60 or 62-100 before crowding it.'',
     ''#'',
     ''# psc_module_id = 126'',
     ''# init_csrng = 1'',
     ''# init_bsd   = 1'',
     ''# run_node   = 1'']"

definition ConfigTemplate :: string where
  "ConfigTemplate = concat (map (\<lambda>l. l @ [newline]) TemplateLines)"

text \<open>
  One round of \<^verbatim>\<open>WaitForConfiguredNetworkId\<close>, given what the two files hold: the network, or what
  the round writes or reports and the new flags \<^verbatim>\<open>wroteTemplate\<close>, \<^verbatim>\<open>warnedCommented\<close>.
\<close>

datatype wait_action = WriteTemplate | WarnCommented u64

fun wait_round :: "string option \<times> string option \<Rightarrow> bool \<times> bool \<Rightarrow> u64 + (wait_action list \<times> (bool \<times> bool))" where
  "wait_round (config, saved) (wrote, warned) =
     (case ResolveConfiguredNetworkId config saved of
        Some v \<Rightarrow> Inl v
      | None \<Rightarrow>
          (case config of
             Some text \<Rightarrow>
               (if warned then Inr ([], (wrote, warned))
                else case ParseNwid True text of
                       Some v \<Rightarrow> Inr ([WarnCommented v], (wrote, True))
                     | None \<Rightarrow> Inr ([], (wrote, warned)))
           | None \<Rightarrow>
               (if \<not> wrote then Inr ([WriteTemplate], (True, warned)) else Inr ([], (wrote, warned)))))"

text \<open>The loop over the rounds of a run, one pair of file contents each.\<close>

fun wait_loop :: "(string option \<times> string option) list \<Rightarrow> bool \<times> bool \<Rightarrow> wait_action list \<times> u64 option" where
  "wait_loop [] flags = ([], None)"
| "wait_loop (env # envs) flags =
     (case wait_round env flags of
        Inl v \<Rightarrow> ([], Some v)
      | Inr (acts, flags1) \<Rightarrow> (case wait_loop envs flags1 of (rest, r) \<Rightarrow> (acts @ rest, r)))"

definition WaitForConfiguredNetworkId :: "(string option \<times> string option) list \<Rightarrow> wait_action list \<times> u64 option" where
  "WaitForConfiguredNetworkId envs = wait_loop envs (False, False)"

section \<open>Files as lists of lines\<close>

function file_lines :: "string \<Rightarrow> string list" where
  "file_lines text = (if text = [] then [] else line_of text # file_lines (next_line text))"
  by pat_completeness auto
termination by (relation "measure length") auto

declare file_lines.simps [simp del]

lemma file_lines_Nil [simp]: "file_lines [] = []"
  by (simp add: file_lines.simps)

lemma file_lines_line:
  "newline \<notin> set l \<Longrightarrow> file_lines (l @ newline # rest) = l # file_lines rest"
proof -
  assume "newline \<notin> set l"
  then have l: "\<And>c. c \<in> set l \<Longrightarrow> c \<noteq> newline" by auto
  have "takeWhile (\<lambda>c. c \<noteq> newline) (l @ newline # rest) = l"
    using takeWhile_append2 [of l "\<lambda>c. c \<noteq> newline" "newline # rest"] l by simp
  moreover have "dropWhile (\<lambda>c. c \<noteq> newline) (l @ newline # rest) = newline # rest"
    using dropWhile_append2 [of l "\<lambda>c. c \<noteq> newline" "newline # rest"] l by simp
  ultimately show ?thesis
    by (subst file_lines.simps) (simp add: line_of_def next_line_def)
qed

lemma file_lines_concat:
  "\<forall>l \<in> set ls. newline \<notin> set l \<Longrightarrow> file_lines (concat (map (\<lambda>l. l @ [newline]) ls)) = ls"
  by (induction ls) (simp_all add: file_lines_line)

text \<open>Text that ends a line is followed by the lines of what comes after it.\<close>

definition ends_line :: "string \<Rightarrow> bool" where
  "ends_line text \<longleftrightarrow> text = [] \<or> last text = newline"

lemma file_lines_append: "ends_line a \<Longrightarrow> file_lines (a @ b) = file_lines a @ file_lines b"
proof (induction a rule: length_induct)
  case (1 a)
  show ?case
  proof (cases "a = []")
    case False
    with 1(2) have nl: "newline \<in> set a" by (metis ends_line_def last_in_set)
    then obtain l r where a: "a = l @ newline # r" "newline \<notin> set l" by (metis split_list_first)
    have "ends_line r" using 1(2) a by (auto simp: ends_line_def split: if_splits)
    with 1(1) a have "file_lines (r @ b) = file_lines r @ file_lines b" by simp
    with a show ?thesis by (simp add: file_lines_line)
  qed simp
qed

lemma scan_lines_fold:
  "scan_lines (\<lambda>line s. Inr (f line s)) t s = Inr (fold f (file_lines t) s)"
proof (induction t arbitrary: s rule: length_induct)
  case (1 t)
  show ?case
  proof (cases "t = []")
    case False
    then show ?thesis
      using 1 by (subst scan_lines.simps, subst file_lines.simps) simp
  qed (simp add: scan_lines.simps)
qed

lemma fold_last_assignment:
  "fold (\<lambda>l found. case g l of None \<Rightarrow> found | Some v \<Rightarrow> Some v) ls s =
     (if List.map_filter g ls = [] then s else Some (last (List.map_filter g ls)))"
  by (induction ls rule: rev_induct) (auto simp: List.map_filter_def split: option.splits)

text \<open>The last line that assigns a valid id wins.\<close>

lemma ParseNwid_last:
  "ParseNwid ac text =
     (let ids = List.map_filter (nwid_line ac) (file_lines text) in
      if ids = [] then None else Some (last ids))"
  by (simp add: ParseNwid_def scan_lines_fold fold_last_assignment Let_def)

section \<open>Printing an id\<close>

text \<open>Sixteen hexadecimal digits, as \<^verbatim>\<open>%.16llx\<close> prints them.\<close>

definition hex_char :: "nat \<Rightarrow> char" where
  "hex_char d = (if d < 10 then char_of (48 + d) else char_of (87 + d))"

definition nibble :: "u64 \<Rightarrow> nat \<Rightarrow> nat" where
  "nibble v i = unat (drop_bit (4 * i) v AND 15)"

fun hex_digits :: "nat \<Rightarrow> u64 \<Rightarrow> string" where
  "hex_digits 0 v = []"
| "hex_digits (Suc n) v = hex_char (nibble v n) # hex_digits n v"

definition hex16 :: "u64 \<Rightarrow> string" where "hex16 v = hex_digits 16 v"

lemma nibble_less [simp]: "nibble v i < 16"
proof -
  have "drop_bit (4 * i) v AND 15 \<le> 15" by (rule word_and_le1)
  then have "unat (drop_bit (4 * i) v AND 15) \<le> unat (15 :: u64)" by (simp add: word_le_nat_alt)
  then show ?thesis by (simp add: nibble_def)
qed

lemma hex_digit_hex_char [simp]: "d < 16 \<Longrightarrow> hex_digit (hex_char d) = Some d"
  by (simp add: hex_digit_def hex_char_def Let_def)

lemma hex_char_plain:
  assumes "d < 16"
  shows "hex_char d \<noteq> newline \<and> \<not> is_blank (hex_char d) \<and> hex_char d \<noteq> CHR ''=''"
proof -
  have "hex_digit newline = None" "hex_digit (CHR '' '') = None" "hex_digit (CHR 0x09) = None"
    "hex_digit (CHR ''='') = None"
    by (simp_all add: hex_digit_def)
  with hex_digit_hex_char [OF assms] show ?thesis by (auto simp: is_blank_def)
qed

lemma length_hex_digits [simp]: "length (hex_digits n v) = n"
  by (induction n) simp_all

lemma set_hex_digits: "c \<in> set (hex_digits n v) \<Longrightarrow> \<exists>d < 16. c = hex_char d"
  by (induction n) (auto intro: exI [where x = "nibble v _"])

lemma hex_digits_no_newline [simp]: "newline \<notin> set (hex_digits n v)"
  using hex_char_plain by (fastforce dest: set_hex_digits)

lemma nibble_step:
  fixes v :: u64
  shows "push_bit 4 (drop_bit (4 * Suc n) v) OR of_nat (nibble v n) = drop_bit (4 * n) v"
proof -
  define w where "w = drop_bit (4 * n) v"
  have "drop_bit (4 * Suc n) v = drop_bit 4 w" by (simp add: w_def)
  moreover have "of_nat (nibble v n) = w AND mask 4" by (simp add: nibble_def w_def mask_eq_exp_minus_1)
  moreover have "push_bit 4 (drop_bit 4 w) OR (w AND mask 4) = w"
    by (rule bit_eqI) (auto simp: bit_simps)
  ultimately show ?thesis by (simp add: w_def)
qed

lemma hex_run_digits:
  "hex_run n (hex_digits n v @ rest) (drop_bit (4 * n) v) k = (v, k + n)"
proof (induction n arbitrary: k)
  case 0
  show ?case by (cases rest) simp_all
next
  case (Suc n)
  from Suc.IH [of "Suc k"] show ?case
    using nibble_step [of n v] by simp
qed

lemma hex_id_hex16: "v \<noteq> 0 \<Longrightarrow> hex_id (hex16 v @ rest) = Some v"
proof -
  assume "v \<noteq> 0"
  have "drop_bit 64 v = 0"
    by (rule bit_eqI) (auto simp: bit_simps dest: bit_imp_le_length)
  with hex_run_digits [of 16 v rest 0] \<open>v \<noteq> 0\<close> show ?thesis by (simp add: hex_id_def hex16_def)
qed

section \<open>Assignments\<close>

text \<open>A line that assigns to a key: the key, blanks, an equals sign, blanks, the value.\<close>

definition assign :: "string \<Rightarrow> string \<Rightarrow> string" where
  "assign k v = k @ '' = '' @ v"

lemma skip_blank_id: "s = [] \<or> \<not> is_blank (hd s) \<Longrightarrow> skip_blank s = s"
  by (cases s) (auto simp: skip_blank_def)

lemma skip_blank_space [simp]: "skip_blank (CHR '' '' # s) = skip_blank s"
  by (simp add: skip_blank_def is_blank_def)

lemma skip_blank_equals [simp]: "skip_blank (CHR ''='' # s) = CHR ''='' # s"
  by (simp add: skip_blank_def is_blank_def)

lemma starts_with_append [simp]: "starts_with k (k @ s)"
  by (simp add: starts_with_def)

lemma after_equals_assign [simp]:
  "n = length k \<Longrightarrow> after_equals n (assign k v) = Some (skip_blank v)"
  by (simp add: after_equals_def assign_def)

lemma skip_blank_hex16 [simp]: "skip_blank (hex16 v) = hex16 v"
  by (rule skip_blank_id)
    (use hex_char_plain [OF nibble_less [of v 15]] in \<open>simp add: hex16_def numeral_eq_Suc\<close>)

lemma hex_id_hex16_only [simp]: "v \<noteq> 0 \<Longrightarrow> hex_id (hex16 v) = Some v"
  using hex_id_hex16 [of v "[]"] by simp

lemma word_line [simp]:
  assumes "k \<noteq> []" and "\<not> is_blank (hd k)" and "hd k \<noteq> CHR ''[''" and "\<not> comment_mark (hd k)"
  shows "skip_blank (assign k v) = assign k v" and "\<not> is_section (assign k v)"
    and "hd (assign k v) = hd k" and "assign k v \<noteq> []" and "starts_with k (assign k v)"
  using assms by (simp_all add: assign_def skip_blank_id is_section_def)

lemma nwid_line_hex16: "v \<noteq> 0 \<Longrightarrow> nwid_line False (assign ''nwid'' (hex16 v)) = Some v"
  by (simp add: nwid_line_def is_blank_def comment_mark_def Let_def)

lemma hex16_no_newline [simp]: "newline \<notin> set (hex16 v)"
  by (simp add: hex16_def)

lemma hex16_no_brackets: "c \<in> set (hex16 v) \<Longrightarrow> hex_digit c \<noteq> None"
  by (auto simp: hex16_def dest!: set_hex_digits)

section \<open>Catalogues as the overlay writes them\<close>

definition selector :: "string \<Rightarrow> string" where
  "selector nm = ''[sys-zerotier]'' @ [newline] @ assign ''selected'' nm @ [newline]"

definition catalogue_lines :: "(string \<times> u64) list \<Rightarrow> string list" where
  "catalogue_lines cat = concat (map (\<lambda>(n, v). [CHR ''['' # n @ '']'', assign ''nwid'' (hex16 v)]) cat)"

definition catalogue :: "(string \<times> u64) list \<Rightarrow> string" where
  "catalogue cat = concat (map (\<lambda>l. l @ [newline]) (catalogue_lines cat))"

text \<open>A name that fits between brackets; one that also survives trimming and unquoting.\<close>

definition section_ok :: "string \<Rightarrow> bool" where
  "section_ok n \<longleftrightarrow> newline \<notin> set n \<and> CHR '']'' \<notin> set n"

definition name_ok :: "string \<Rightarrow> bool" where
  "name_ok n \<longleftrightarrow> section_ok n \<and> n \<noteq> [] \<and> length n < 96 \<and>
     \<not> is_blank (hd n) \<and> hd n \<notin> {CHR 0x27, CHR 0x22} \<and> \<not> is_blank (last n) \<and> last n \<noteq> CHR 0x0D"

fun scan_list :: "('l \<Rightarrow> 's \<Rightarrow> 'r + 's) \<Rightarrow> 'l list \<Rightarrow> 's \<Rightarrow> 'r + 's" where
  "scan_list body [] s = Inr s"
| "scan_list body (l # ls) s = (case body l s of Inl r \<Rightarrow> Inl r | Inr t \<Rightarrow> scan_list body ls t)"

lemma scan_lines_list: "scan_lines body t s = scan_list body (file_lines t) s"
proof (induction t arbitrary: s rule: length_induct)
  case (1 t)
  show ?case
  proof (cases "t = []")
    case False
    then show ?thesis
      using 1 by (subst scan_lines.simps, subst file_lines.simps) (simp split: sum.split)
  qed (simp add: scan_lines.simps)
qed

lemma scan_list_append:
  "scan_list body (a @ b) s = (case scan_list body a s of Inl r \<Rightarrow> Inl r | Inr t \<Rightarrow> scan_list body b t)"
  by (induction a arbitrary: s) (simp_all split: sum.split)

lemma catalogue_lines_simps [simp]:
  "catalogue_lines [] = []"
  "catalogue_lines ((n, v) # cat) = (CHR ''['' # n @ '']'') # (assign ''nwid'' (hex16 v)) # catalogue_lines cat"
  by (simp_all add: catalogue_lines_def)

lemma file_lines_catalogue:
  "\<forall>(n, v) \<in> set cat. section_ok n \<Longrightarrow> file_lines (catalogue cat) = catalogue_lines cat"
  unfolding catalogue_def
  by (rule file_lines_concat) (auto simp: catalogue_lines_def section_ok_def assign_def)

lemma file_lines_selector:
  assumes "newline \<notin> set nm"
  shows "file_lines (selector nm @ t) = ''[sys-zerotier]'' # (assign ''selected'' nm) # file_lines t"
proof -
  have "file_lines (''[sys-zerotier]'' @ newline # ((assign ''selected'' nm) @ newline # t)) =
        ''[sys-zerotier]'' # (assign ''selected'' nm) # file_lines t"
    using assms by (subst file_lines_line, simp, subst file_lines_line) (simp_all add: assign_def)
  then show ?thesis by (simp add: selector_def)
qed

lemma section_line [simp]:
  "is_section (skip_blank (CHR ''['' # n))"
  "skip_blank (CHR ''['' # n) = CHR ''['' # n"
  "section_ok n \<Longrightarrow> section_name (CHR ''['' # n @ '']'') = Some n"
proof -
  show s: "skip_blank (CHR ''['' # n) = CHR ''['' # n" by (simp add: skip_blank_def is_blank_def)
  show "is_section (skip_blank (CHR ''['' # n))" by (simp only: s) (simp add: is_section_def)
  assume "section_ok n"
  then have "takeWhile (\<lambda>c. c \<noteq> CHR '']'') (n @ '']'') = n"
    by (subst takeWhile_append2) (auto simp: section_ok_def)
  then show "section_name (CHR ''['' # n @ '']'') = Some n" by (simp add: section_name_def)
qed

lemma saved_body_section:
  "section_ok n \<Longrightarrow> saved_body w (CHR ''['' # n @ '']'') b = Inr (n = w)"
  using section_line(1) [of "n @ '']''"] by (simp add: saved_body_def is_section_def)

lemma saved_body_nwid:
  "v \<noteq> 0 \<Longrightarrow> saved_body w (assign ''nwid'' (hex16 v)) b = (if b then Inl (Some v) else Inr False)"
  by (simp add: saved_body_def is_blank_def comment_mark_def Let_def)

lemma saved_catalogue:
  assumes "\<forall>(n, v) \<in> set cat. section_ok n \<and> v \<noteq> 0"
  shows "case map_of cat w of
           Some v \<Rightarrow> scan_list (saved_body w) (catalogue_lines cat) b = Inl (Some v)
         | None \<Rightarrow> \<exists>c. scan_list (saved_body w) (catalogue_lines cat) b = Inr c"
  using assms
proof (induction cat arbitrary: b)
  case (Cons nv cat)
  obtain n v where nv: "nv = (n, v)" by (cases nv) simp
  from Cons.prems nv have ok: "section_ok n" "v \<noteq> 0" by auto
  from Cons.IH [of False] Cons.prems show ?case
    using ok by (auto simp: nv saved_body_section saved_body_nwid split: option.splits)
qed simp

text \<open>The selected name comes back from the selector line, whatever entries follow it.\<close>

lemma trim_end_id: "n = [] \<or> (\<not> is_blank (last n) \<and> last n \<noteq> CHR 0x0D) \<Longrightarrow> trim_end n = n"
  by (cases n rule: rev_cases) (auto simp: trim_end_def)

lemma unquote_id: "n = [] \<or> hd n \<notin> {CHR 0x27, CHR 0x22} \<Longrightarrow> unquote n = n"
  by (auto simp: unquote_def)

lemma string_line_selected:
  "name_ok n \<Longrightarrow> string_line ''selected'' 96 (assign ''selected'' n) = Some (Some n)"
  by (simp add: string_line_def is_blank_def comment_mark_def Let_def name_ok_def skip_blank_id
      trim_end_id unquote_id)

lemma string_line_other:
  assumes "l \<noteq> []" and "\<not> is_blank (hd l)" and "key \<noteq> []" and "hd key \<noteq> hd l"
  shows "string_line key m l = None"
proof -
  have "\<not> starts_with key l"
    using assms by (cases key; cases l) (auto simp: starts_with_def)
  then show ?thesis using assms by (simp add: string_line_def skip_blank_id Let_def)
qed

lemma string_line_catalogue:
  "l \<in> set (catalogue_lines cat) \<Longrightarrow> string_line ''selected'' 96 l = None"
proof (induction cat)
  case (Cons nv cat)
  have "string_line ''selected'' 96 (CHR ''['' # x) = None" for x
    by (rule string_line_other) (simp_all add: is_blank_def)
  moreover have "string_line ''selected'' 96 (assign ''nwid'' x) = None" for x
    by (rule string_line_other) (simp_all add: is_blank_def comment_mark_def)
  ultimately show ?case using Cons by (cases nv) auto
qed simp

lemma fold_no_assignment:
  "\<forall>l \<in> set ls. f l = None \<Longrightarrow> fold (\<lambda>l found. case f l of Some v \<Rightarrow> v | None \<Rightarrow> found) ls s = s"
  by (induction ls arbitrary: s) simp_all

lemma selected_name:
  assumes "name_ok nm" and "\<forall>(n, v) \<in> set cat. section_ok n"
  shows "ParseConfigString (selector nm @ catalogue cat) ''selected'' 96 = Some nm"
proof -
  have nl: "newline \<notin> set nm" using assms by (simp add: name_ok_def section_ok_def)
  have h: "string_line ''selected'' 96 ''[sys-zerotier]'' = None"
    by (rule string_line_other) (simp_all add: is_blank_def)
  show ?thesis
    using assms(1) nl h string_line_catalogue [of _ cat]
    by (simp add: ParseConfigString_def scan_lines_fold file_lines_selector
        file_lines_catalogue [OF assms(2)] string_line_selected fold_no_assignment)
qed

text \<open>The section of the selector itself holds no id.\<close>

lemma saved_selector:
  "saved_body w ''[sys-zerotier]'' b = Inr (w = ''sys-zerotier'')"
  "saved_body w (assign ''selected'' nm) b = Inr b"
proof -
  have "section_ok ''sys-zerotier''" by (simp add: section_ok_def)
  from saved_body_section [OF this, of w b] show "saved_body w ''[sys-zerotier]'' b = Inr (w = ''sys-zerotier'')"
    by (simp add: eq_commute)
  have "\<not> starts_with ''nwid'' (assign ''selected'' nm)" by (simp add: starts_with_def assign_def)
  then show "saved_body w (assign ''selected'' nm) b = Inr b"
    by (simp add: saved_body_def is_blank_def comment_mark_def Let_def)
qed

lemma saved_selected:
  assumes "\<forall>(n, v) \<in> set cat. section_ok n \<and> v \<noteq> 0" and "newline \<notin> set nm"
  shows "ParseSavedNetwork (selector nm @ catalogue cat) w = map_of cat w"
proof -
  have ok: "\<forall>(n, v) \<in> set cat. section_ok n" using assms by auto
  show ?thesis
    using saved_catalogue [OF assms(1), of w "w = ''sys-zerotier''"]
    by (auto simp: ParseSavedNetwork_def scan_lines_list file_lines_selector [OF assms(2)] saved_selector
        file_lines_catalogue [OF ok] split: option.splits)
qed

text \<open>
  The catalogue the overlay writes round-trips, and its selection takes precedence: whatever
  \<^verbatim>\<open>config.ini\<close> holds, the network that the file \<^verbatim>\<open>networks.ini\<close> selects by name is the one the module
  joins, with the id written under that name.
\<close>

theorem selected_network_resolves:
  assumes "name_ok nm"
    and "\<forall>(n, v) \<in> set cat. section_ok n \<and> v \<noteq> 0"
    and "map_of cat nm = Some nwid"
  shows "ResolveConfiguredNetworkId config (Some (selector nm @ catalogue cat)) = Some nwid"
proof -
  have ok: "\<forall>(n, v) \<in> set cat. section_ok n" using assms(2) by auto
  have nl: "newline \<notin> set nm" using assms(1) by (simp add: name_ok_def section_ok_def)
  show ?thesis
    by (simp add: ResolveConfiguredNetworkId_def selected_name [OF assms(1) ok]
        saved_selected [OF assms(2) nl] assms(3))
qed

lemma selected_network_resolves_witness:
  "ResolveConfiguredNetworkId (Some ''nwid = 1111111111111111'')
     (Some (selector ''home'' @ catalogue [(''work'', 0x8056c2e21c000001), (''home'', 0x1d71939404f0a001)])) =
   Some 0x1d71939404f0a001"
  by (rule selected_network_resolves) (simp_all add: name_ok_def section_ok_def is_blank_def)

text \<open>
  The last assignment wins: whatever a configuration file already holds, including earlier or
  commented assignments, a line \<^verbatim>\<open>nwid = <id>\<close> appended to it is the id that is read back.
\<close>

theorem appended_nwid_wins:
  assumes "ends_line old" and "v \<noteq> 0"
  shows "ParseNwid False (old @ assign ''nwid'' (hex16 v) @ [newline]) = Some v"
proof -
  have "newline \<notin> set (assign ''nwid'' (hex16 v))" by (simp add: assign_def)
  then have "file_lines (old @ assign ''nwid'' (hex16 v) @ [newline]) =
      file_lines old @ [assign ''nwid'' (hex16 v)]"
    using file_lines_line [of "assign ''nwid'' (hex16 v)" "[]"] by (simp add: file_lines_append assms(1))
  then show ?thesis
    by (simp add: ParseNwid_last nwid_line_hex16 [OF assms(2)] Let_def List.map_filter_def)
qed

lemma appended_nwid_wins_witness:
  "ParseNwid False ((''nwid = 1111111111111111'' @ [newline]) @ assign ''nwid'' (hex16 0x8056c2e21c000001) @ [newline]) =
   Some 0x8056c2e21c000001"
  by (rule appended_nwid_wins) (simp_all add: ends_line_def)

section \<open>Without a selection\<close>

definition entry_ok :: "string \<times> u64 \<Rightarrow> bool" where
  "entry_ok e \<longleftrightarrow> section_ok (fst e) \<and> fst e \<noteq> [] \<and> length (fst e) < 96 \<and>
     fst e \<noteq> ''sys-zerotier'' \<and> snd e \<noteq> 0"

lemma first_body_entry:
  assumes "entry_ok (n, v)"
  shows "first_body 96 (CHR ''['' # n @ '']'') st = Inr (st\<lparr>fs_section := Some n\<rparr>)"
    and "fs_section st = Some n \<Longrightarrow> first_body 96 (assign ''nwid'' (hex16 v)) st =
      Inr (st\<lparr>fs_candidate := (if fs_count st = 0 then Some (n, v) else fs_candidate st),
              fs_count := fs_count st + 1\<rparr>)"
  using assms section_line(1) [of "n @ '']''"]
  by (simp_all add: first_body_def entry_ok_def Let_def is_blank_def comment_mark_def)

lemma first_catalogue:
  assumes "\<forall>e \<in> set cat. entry_ok e" and "0 \<le> fs_count st"
  shows "\<exists>t. scan_list (first_body 96) (catalogue_lines cat) st = Inr t \<and>
      fs_count t = fs_count st + int (length cat) \<and>
      fs_candidate t = (if fs_count st = 0 \<and> cat \<noteq> [] then Some (hd cat) else fs_candidate st)"
  using assms
proof (induction cat arbitrary: st)
  case (Cons e cat)
  obtain n v where e: "e = (n, v)" by (cases e) simp
  from Cons.prems have ok: "entry_ok (n, v)" and rest: "\<forall>e \<in> set cat. entry_ok e" by (auto simp: e)
  define st1 where "st1 = st\<lparr>fs_section := Some n,
    fs_candidate := (if fs_count st = 0 then Some (n, v) else fs_candidate st),
    fs_count := fs_count st + 1\<rparr>"
  have run: "scan_list (first_body 96) (catalogue_lines (e # cat)) st =
      scan_list (first_body 96) (catalogue_lines cat) st1"
    by (simp add: e first_body_entry [OF ok] st1_def)
  from Cons.IH [OF rest, of st1] Cons.prems(2) show ?case
    unfolding run by (auto simp: st1_def e)
qed simp

lemma nwid_line_header: "nwid_line False (CHR ''['' # n) = None"
  by (simp add: nwid_line_def starts_with_def Let_def)

text \<open>
  Without a selection and without a configuration, the module joins a saved network exactly
  when the catalogue holds one entry: two or more are ambiguous and none is joined.
\<close>

theorem unselected_network_unique:
  assumes "\<forall>e \<in> set cat. entry_ok e"
  shows "ResolveConfiguredNetworkId None (Some (catalogue cat)) =
         (case cat of [(n, v)] \<Rightarrow> Some v | _ \<Rightarrow> None)"
proof -
  have ok: "\<forall>(n, v) \<in> set cat. section_ok n" using assms by (auto simp: entry_ok_def)
  have none: "ParseConfigString (catalogue cat) ''selected'' 96 = None"
    using string_line_catalogue [of _ cat]
    by (simp add: ParseConfigString_def scan_lines_fold file_lines_catalogue [OF ok] fold_no_assignment)
  obtain t where t: "scan_list (first_body 96) (catalogue_lines cat)
      \<lparr>fs_section = None, fs_candidate = None, fs_count = 0\<rparr> = Inr t"
    "fs_count t = int (length cat)" "fs_candidate t = (if cat \<noteq> [] then Some (hd cat) else None)"
    using first_catalogue [OF assms, of "\<lparr>fs_section = None, fs_candidate = None, fs_count = 0\<rparr>"] by auto
  have "ParseFirstSavedNetwork (catalogue cat) 96 = (case cat of [e] \<Rightarrow> Some e | _ \<Rightarrow> None)"
    using t by (auto simp: ParseFirstSavedNetwork_def scan_lines_list file_lines_catalogue [OF ok]
        split: list.split)
  then show ?thesis
    by (auto simp: ResolveConfiguredNetworkId_def none split: list.split)
qed

lemma unselected_network_unique_witness:
  "ResolveConfiguredNetworkId None (Some (catalogue [(''home'', 0x1d71939404f0a001)])) = Some 0x1d71939404f0a001"
  using unselected_network_unique [of "[(''home'', 0x1d71939404f0a001)]"]
  by (simp add: entry_ok_def section_ok_def)

section \<open>Waiting\<close>

lemma template_plain: "list_all (\<lambda>l. newline \<notin> set l) TemplateLines"
  by code_simp

lemma template_lines_plain: "\<forall>l \<in> set TemplateLines. newline \<notin> set l"
  using template_plain unfolding list_all_iff .

lemma template_lines: "file_lines ConfigTemplate = TemplateLines"
  unfolding ConfigTemplate_def by (rule file_lines_concat [OF template_lines_plain])

lemma template_no_nwid: "list_all (\<lambda>l. nwid_line True l = None \<and> nwid_line False l = None) TemplateLines"
  by code_simp

lemma template_resolves_nothing:
  "ParseNwid a ConfigTemplate = None" "ResolveConfiguredNetworkId (Some ConfigTemplate) None = None"
proof -
  have "List.map_filter (nwid_line b) TemplateLines = []" for b
    using template_no_nwid by (cases b) (auto simp: List.map_filter_def list_all_iff filter_empty_conv)
  then show n: "ParseNwid a ConfigTemplate = None" for a
    by (simp add: ParseNwid_last template_lines)
  show "ResolveConfiguredNetworkId (Some ConfigTemplate) None = None"
    by (simp add: ResolveConfiguredNetworkId_def n split: option.split)
qed

definition writes :: "wait_action list \<Rightarrow> nat" where
  "writes acts = length (List.filter (\<lambda>a. a = WriteTemplate) acts)"

definition warnings :: "wait_action list \<Rightarrow> nat" where
  "warnings acts = length (List.filter (\<lambda>a. a \<noteq> WriteTemplate) acts)"

definition resolve_env :: "string option \<times> string option \<Rightarrow> u64 option" where
  "resolve_env env = ResolveConfiguredNetworkId (fst env) (snd env)"

fun first_resolved :: "(string option \<times> string option) list \<Rightarrow> u64 option" where
  "first_resolved [] = None"
| "first_resolved (env # envs) = (case resolve_env env of Some v \<Rightarrow> Some v | None \<Rightarrow> first_resolved envs)"

lemma wait_loop_facts:
  "snd (wait_loop envs (w, c)) = first_resolved envs \<and>
   writes (fst (wait_loop envs (w, c))) \<le> (if w then 0 else 1) \<and>
   warnings (fst (wait_loop envs (w, c))) \<le> (if c then 0 else 1)"
proof (induction envs arbitrary: w c)
  case (Cons env envs)
  obtain conf saved where env: "env = (conf, saved)" by (cases env)
  note IH = Cons.IH [of w c] Cons.IH [of True c] Cons.IH [of w True] Cons.IH [of True True]
  show ?case
    using IH by (cases w; cases c)
      (auto simp: env resolve_env_def writes_def warnings_def split: option.splits prod.splits)
qed (simp add: writes_def warnings_def)

text \<open>
  Waiting for a network: it ends with the first configuration that resolves to an id and with
  that id, and until then writes the template at most once and warns of a commented id at most
  once.  The template it writes neither resolves nor triggers the warning, so on a fresh card the
  wait writes it once and goes on until the user edits it.
\<close>

theorem wait_for_network:
  "snd (WaitForConfiguredNetworkId envs) = first_resolved envs \<and>
   writes (fst (WaitForConfiguredNetworkId envs)) \<le> 1 \<and>
   warnings (fst (WaitForConfiguredNetworkId envs)) \<le> 1 \<and>
   WaitForConfiguredNetworkId ((None, None) # replicate n (Some ConfigTemplate, None)) = ([WriteTemplate], None)"
proof -
  have "wait_loop (replicate n (Some ConfigTemplate, None)) (True, False) = ([], None)"
    by (induction n) (simp_all add: template_resolves_nothing)
  then have "WaitForConfiguredNetworkId ((None, None) # replicate n (Some ConfigTemplate, None)) =
      ([WriteTemplate], None)"
    by (simp add: WaitForConfiguredNetworkId_def ResolveConfiguredNetworkId_def)
  with wait_loop_facts [of envs False False] show ?thesis
    by (simp add: WaitForConfiguredNetworkId_def)
qed

section \<open>Decimal numbers\<close>

definition dec_value :: "nat list \<Rightarrow> int" where
  "dec_value ds = foldl (\<lambda>v d. v * 10 + int d) 0 ds"

definition dec_string :: "nat list \<Rightarrow> string" where
  "dec_string ds = map (\<lambda>d. char_of (48 + d)) ds"

lemma dec_digit_char [simp]: "d < 10 \<Longrightarrow> dec_digit (char_of (48 + d)) = Some (int d)"
  by (simp add: dec_digit_def Let_def)

lemma dec_fold_mono: "0 \<le> v \<Longrightarrow> v \<le> foldl (\<lambda>v d. v * 10 + int d) v ds"
proof (induction ds arbitrary: v)
  case (Cons d ds)
  from Cons.IH [of "v * 10 + int d"] Cons.prems show ?case by simp
qed simp

lemma dec_run_string:
  assumes "\<forall>d \<in> set ds. d < 10" and "0 \<le> v" and "v \<le> int_max"
  shows "dec_run (map (\<lambda>d. char_of (48 + d)) ds) v k =
    (if foldl (\<lambda>v d. v * 10 + int d) v ds \<le> int_max
     then Some (foldl (\<lambda>v d. v * 10 + int d) v ds, k + length ds, []) else None)"
  using assms
proof (induction ds arbitrary: v k)
  case (Cons d ds)
  from Cons.prems(2) dec_fold_mono [of "v * 10 + int d" ds] Cons.IH [of "v * 10 + int d" "Suc k"] Cons.prems
  show ?case by auto
qed simp

lemma dec_string_plain: "\<forall>d \<in> set ds. d < 10 \<Longrightarrow> newline \<notin> set (dec_string ds)"
proof
  assume ds: "\<forall>d \<in> set ds. d < 10" and "newline \<in> set (dec_string ds)"
  then obtain d :: nat where "d < 10" "newline = char_of (48 + d)" by (auto simp: dec_string_def)
  then have "dec_digit newline = Some (int d)" by simp
  then show False by (simp add: dec_digit_def)
qed

lemma skip_blank_dec: "\<forall>d \<in> set ds. d < 10 \<Longrightarrow> skip_blank (dec_string ds) = dec_string ds"
proof (rule skip_blank_id, rule disjCI)
  assume ds: "\<forall>d \<in> set ds. d < 10" and "\<not> \<not> is_blank (hd (dec_string ds))"
  then have b: "is_blank (hd (dec_string ds))" by simp
  show "dec_string ds = []"
  proof (cases ds)
    case (Cons d es)
    with ds have "dec_digit (hd (dec_string ds)) = Some (int d)" by (simp add: dec_string_def)
    with b show ?thesis by (auto simp: is_blank_def dec_digit_def split: if_splits)
  qed (simp add: dec_string_def)
qed

text \<open>
  \<^verbatim>\<open>ConfigValue\<close> reads back the decimal number a line assigns, whatever the file held before, as
  long as it fits an \<^verbatim>\<open>int\<close>; for a longer one the accumulation overflows a signed \<^verbatim>\<open>int\<close>, which is
  undefined behaviour.
\<close>

theorem config_value_digits:
  assumes "\<forall>d \<in> set ds. d < 10" and "ds \<noteq> []" and "ends_line old"
    and "ConfigValue (Some old) ''psc_module_id'' dflt = Some r"
  shows "ConfigValue (Some (old @ assign ''psc_module_id'' (dec_string ds) @ [newline])) ''psc_module_id'' dflt =
         (if dec_value ds \<le> int_max then Some (dec_value ds) else None)"
proof -
  have "newline \<notin> set (assign ''psc_module_id'' (dec_string ds))"
    using dec_string_plain [OF assms(1)] by (simp add: assign_def)
  then have lines: "file_lines (old @ assign ''psc_module_id'' (dec_string ds) @ [newline]) =
      file_lines old @ [assign ''psc_module_id'' (dec_string ds)]"
    using file_lines_line [of "assign ''psc_module_id'' (dec_string ds)" "[]"]
    by (simp add: file_lines_append assms(3))
  have key: "key_line ''psc_module_id'' (assign ''psc_module_id'' (dec_string ds)) = Some (dec_string ds)"
    by (simp add: key_line_def is_blank_def comment_mark_def Let_def skip_blank_dec [OF assms(1)])
  have run: "dec_run (dec_string ds) 0 0 =
      (if dec_value ds \<le> int_max then Some (dec_value ds, length ds, []) else None)"
    using dec_run_string [OF assms(1), of 0 0] by (simp add: dec_value_def dec_string_def int_max_def)
  show ?thesis
    using assms(2, 4)
    by (simp add: ConfigValue_def scan_lines_list lines scan_list_append key run split: sum.splits)
qed

lemma config_value_digits_witness:
  "ConfigValue (Some ((''psc_module_id = 60'' @ [newline]) @
      assign ''psc_module_id'' (dec_string [9, 9, 9, 9, 9, 9, 9, 9, 9, 9]) @ [newline])) ''psc_module_id'' 126 = None"
proof -
  have "ConfigValue (Some (''psc_module_id = 60'' @ [newline])) ''psc_module_id'' 126 = Some 60"
    by code_simp
  from config_value_digits [OF _ _ _ this, of "[9, 9, 9, 9, 9, 9, 9, 9, 9, 9]"] show ?thesis
    by (simp add: dec_value_def int_max_def ends_line_def)
qed

end
