(* ===== verification/PortLoop.thy ===== *)
theory PortLoop
  imports PortWire IniConfig
begin

text \<open>
  The node thread of the port: joining and switching networks, handing the queued frames to the
  core, the broadcast subscription, the announcement, and one turn of \<^verbatim>\<open>RunLoop\<close>.  The log files
  (\<^verbatim>\<open>status.txt\<close>, \<^verbatim>\<open>peers.txt\<close>, the heartbeat) only report and are not part of it.
\<close>

section \<open>Calls of the interposer\<close>

datatype lan_call =
    LanOpen
  | LanBind int u16
  | LanSend int u32 u16 "u8 list option" nat
  | LanBroadcast int u16 "u8 list option" nat
  | LanReceive int "u8 list option" nat bool
  | LanClose int

fun lan_exec :: "lan_call \<Rightarrow> Port \<Rightarrow> Port option" where
  "lan_exec LanOpen p = map_option fst (OpenLanSocket p)"
| "lan_exec (LanBind vfd port) p = map_option fst (BindLanSocket vfd port p)"
| "lan_exec (LanSend vfd ip port buf len) p = map_option fst (MirrorLanDatagram vfd ip port buf len p)"
| "lan_exec (LanBroadcast vfd port buf len) p = map_option fst (MirrorLanBroadcast vfd port buf len p)"
| "lan_exec (LanReceive vfd buf len peek) p = map_option fst (ReceiveLanDatagram vfd buf len peek p)"
| "lan_exec (LanClose vfd) p = CloseLanSocket vfd p"

fun lan_run :: "lan_call list \<Rightarrow> Port \<Rightarrow> Port option" where
  "lan_run [] p = Some p"
| "lan_run (c # cs) p = do { q \<leftarrow> lan_exec c p; lan_run cs q }"

text \<open>The buffers are as long as the caller says.\<close>

fun lan_ok :: "lan_call \<Rightarrow> bool" where
  "lan_ok (LanSend vfd ip port (Some b) len) = (len \<le> length b)"
| "lan_ok (LanBroadcast vfd port (Some b) len) = (len \<le> length b)"
| "lan_ok (LanReceive vfd (Some b) len peek) = (len \<le> length b)"
| "lan_ok _ = True"

section \<open>Networks\<close>

text \<open>\<^verbatim>\<open>subscribeBroadcast\<close>: the broadcast group and the one of our own address; result codes are only logged.\<close>

definition subscribeBroadcast :: "core \<Rightarrow> Port \<Rightarrow> Port option" where
  "subscribeBroadcast core p =
     (if \<not> p_node p \<or> p_nwid p = 0 then Some p
      else do {
        let adi = m_ip (p_vnet p);
        (p1, _) \<leftarrow> ask core (FxSubscribe (p_nwid p) MacBroadcast 0) p;
        p2 \<leftarrow> (if adi = 0 then Some p1
               else map_option fst (ask core (FxSubscribe (p_nwid p1) MacBroadcast adi) p1));
        Some (if \<not> p_subscribed p2 \<and> m_ip (p_vnet p2) \<noteq> 0 then p2\<lparr>p_subscribed := True\<rparr> else p2) })"

text \<open>
  \<^verbatim>\<open>switchNetwork\<close>.  Between the flush of the ring and the call that leaves the old network no lock is
  held, so the game's threads may call into the interface there: \<open>calls\<close>.
\<close>

definition switchNetwork :: "core \<Rightarrow> lan_call list \<Rightarrow> u64 \<Rightarrow> Port \<Rightarrow> (Port \<times> bool) option" where
  "switchNetwork core calls nwid p =
     (if nwid = 0 \<or> nwid = p_nwid p \<or> \<not> p_node p then Some (p, False)
      else do {
        let old_nwid = p_nwid p;
        p0 \<leftarrow> lan_run calls (p\<lparr>p_ring := flushFrames (p_ring p)\<rparr>);
        let p1 = p0\<lparr>p_wireReachable := False, p_needSubscribe := False,
                    p_subscribed := False, p_netStatus := -1, p_firstFrameLogged := False\<rparr>;
        (p2, lrc) \<leftarrow> ask core (FxLeave old_nwid) p1;
        if lrc \<noteq> 0 then Some (p2\<lparr>p_lastError := lrc\<rparr>, False)
        else do {
          (p3, jrc) \<leftarrow> ask core (FxJoin nwid) (p2\<lparr>p_nwid := nwid\<rparr>);
          if jrc = 0 then Some (p3\<lparr>p_lastError := 0, p_nextDeadline := 0\<rparr>, True)
          else do {
            (p4, rrc) \<leftarrow> ask core (FxJoin old_nwid) (p3\<lparr>p_lastError := jrc, p_nwid := old_nwid\<rparr>);
            let p5 = (if rrc \<noteq> 0 then p4\<lparr>p_lastError := rrc\<rparr> else p4);
            Some (p5\<lparr>p_nextDeadline := 0\<rparr>, False) } } })"

definition pollNetworkSelection ::
  "core \<Rightarrow> lan_call list \<Rightarrow> int \<Rightarrow> string option \<times> string option \<Rightarrow> Port \<Rightarrow> Port option" where
  "pollNetworkSelection core calls now files p =
     (if p_lastNetworkPollMs p \<noteq> 0 \<and> now - p_lastNetworkPollMs p < 1000 then Some p
      else let p1 = p\<lparr>p_lastNetworkPollMs := now\<rparr> in
        case ResolveConfiguredNetworkId (fst files) (snd files) of
          Some requested \<Rightarrow>
            if requested \<noteq> p_nwid p1 then map_option fst (switchNetwork core calls requested p1) else Some p1
        | None \<Rightarrow> Some p1)"

section \<open>Frames\<close>

text \<open>
  \<^verbatim>\<open>drainOutbound\<close>.  The core may make the interface emit while it handles a frame, so that the loop
  need not end; \<open>Some\<close> says that it does.
\<close>

partial_function (option) drain_loop :: "core \<Rightarrow> bool \<Rightarrow> Port \<Rightarrow> Port option" where
  "drain_loop core paused p = do {
     r \<leftarrow> takeOut (p_ring p);
     case r of
       None \<Rightarrow> Some p
     | Some (f, g) \<Rightarrow>
         let p1 = p\<lparr>p_ring := g\<rparr> in
         if paused then drain_loop core paused p1
         else do {
           (p2, deadline) \<leftarrow> ask core (FxFrame (p_nwid p1) (m_mac (p_vnet p1)) f)
                               (p1\<lparr>p_firstFrameLogged := True\<rparr>);
           drain_loop core paused (p2\<lparr>p_nextDeadline := deadline\<rparr>) } }"

definition drainOutbound :: "core \<Rightarrow> Port \<Rightarrow> Port option" where
  "drainOutbound core p = drain_loop core (p_wireFd p < 0 \<or> p_wireRecovering p) p"

text \<open>\<^verbatim>\<open>probePeer\<close>, with the text of \<^verbatim>\<open>config.ini\<close> for its one reading of the key \<^verbatim>\<open>probe\<close>.\<close>

definition send_echo :: "u32 \<Rightarrow> Port \<Rightarrow> Port option" where
  "send_echo ip p = map_option fst (on_vnet (sendEchoRequest ip) p)"

definition probePeer :: "string option \<Rightarrow> int \<Rightarrow> Port \<Rightarrow> Port option" where
  "probePeer config now p =
     (if p_wireFd p < 0 \<or> p_wireRecovering p then Some p
      else if \<not> m_configured (p_vnet p) then Some p
      else do {
        p1 \<leftarrow> (if p_probeRead p then Some p
               else do { ip \<leftarrow> ConfigIpv4 config ''probe''; Some (p\<lparr>p_probeRead := True, p_probeIp := ip\<rparr>) });
        if p_lastProbeMs p1 \<noteq> 0 \<and> now - p_lastProbeMs p1 < 5000 then Some p1
        else do {
          let p2 = p1\<lparr>p_lastProbeMs := now\<rparr>;
          p3 \<leftarrow> send_echo (broadcastIp (p_vnet p2)) p2;
          if p_probeIp p3 \<noteq> 0 then send_echo (p_probeIp p3) p3 else Some p3 } })"

section \<open>The loop\<close>

text \<open>
  What the outside answers during one turn: whether sleep was requested, with the attempts to reopen
  the socket on waking; the clock; the files; the sockets; \<^verbatim>\<open>poll\<close> on the wire (return value, error
  bits, readable, \<^verbatim>\<open>errno\<close>) and the datagram received.
\<close>

record round_env =
  re_sleep :: "open_env list option"
  re_now :: int
  re_calls :: "lan_call list"
  re_files :: "string option \<times> string option"
  re_open :: open_env
  re_nat :: nat_env
  re_poll :: int
  re_bad :: bool
  re_in :: bool
  re_errno :: int
  re_packet :: "u8 list"

definition HandleSleep :: "core \<Rightarrow> open_env list \<Rightarrow> Port \<Rightarrow> Port option" where
  "HandleSleep core es p = map_option (leave_sleep es) (enter_sleep core p)"

definition poll_wire :: "round_env \<Rightarrow> Port \<Rightarrow> Port" where
  "poll_wire e p =
     (let pr = (if 0 \<le> p_wireFd p then re_poll e else 0) in
      if pr < 0 then p\<lparr>p_pollErr := p_pollErr p + 1, p_pollErrno := re_errno e\<rparr>
      else if pr = 0 then p\<lparr>p_pollZero := p_pollZero p + 1\<rparr>
      else if re_bad e then p\<lparr>p_pollBad := p_pollBad p + 1, p_wireReachable := False, p_wireHup := True\<rparr>
      else p)"

definition receive_wire :: "core \<Rightarrow> round_env \<Rightarrow> Port \<Rightarrow> Port option" where
  "receive_wire core e p =
     (if 0 \<le> p_wireFd p \<and> 0 < re_poll e \<and> re_in e \<and> re_packet e \<noteq> [] then do {
        let p1 = p\<lparr>p_wireRx := p_wireRx p + 1, p_wireReachable := True,
                   p_wireRecoveryConfirmed := (p_wireRecovering p \<or> p_wireRecoveryConfirmed p)\<rparr>;
        (p2, deadline) \<leftarrow> ask core (FxPacket 0 (re_packet e)) p1;
        Some (p2\<lparr>p_nextDeadline := deadline\<rparr>) }
      else Some p)"

definition run_timers :: "core \<Rightarrow> int \<Rightarrow> Port \<Rightarrow> Port option" where
  "run_timers core now p =
     (if 0 \<le> p_wireFd p \<and> p_nextDeadline p \<le> now then do {
        (p1, deadline) \<leftarrow> ask core (FxTasks now) p;
        Some (p1\<lparr>p_nextDeadline := deadline\<rparr>) }
      else Some p)"

definition loop_round :: "core \<Rightarrow> round_env \<Rightarrow> Port \<Rightarrow> Port option" where
  "loop_round core e p0 = do {
     let p1 = p0\<lparr>p_loops := p_loops p0 + 1\<rparr>;
     p2 \<leftarrow> (case re_sleep e of None \<Rightarrow> Some p1 | Some es \<Rightarrow> HandleSleep core es p1);
     p3 \<leftarrow> pollNetworkSelection core (re_calls e) (re_now e) (re_files e) p2;
     p4 \<leftarrow> maintainWireSocket core (re_open e) (re_now e) p3;
     p5 \<leftarrow> maintainNatWire core (re_nat e) p4;
     p6 \<leftarrow> receive_wire core e (poll_wire e p5);
     p7 \<leftarrow> (if p_needSubscribe p6 then subscribeBroadcast core (p6\<lparr>p_needSubscribe := False\<rparr>) else Some p6);
     p8 \<leftarrow> drainOutbound core p7;
     p9 \<leftarrow> probePeer (fst (re_files e)) (re_now e) p8;
     run_timers core (re_now e) p9 }"

section \<open>Start and stop\<close>

definition NodeAllocLowWater :: nat where "NodeAllocLowWater = 384 * 1024"

text \<open>
  \<^verbatim>\<open>Initialize\<close>: \<open>arena\<close> is the largest free block, \<open>None\<close> without an allocator; \<open>mapper\<close> the answer of
  \<^verbatim>\<open>StartNatMapper\<close>.
\<close>

definition Initialize ::
  "core \<Rightarrow> u64 \<Rightarrow> open_env \<Rightarrow> nat option \<Rightarrow> bool \<Rightarrow> Port \<Rightarrow> (Port \<times> bool) option" where
  "Initialize core nwid e arena mapper p =
     (let p1 = p\<lparr>p_nwid := nwid, p_vnet := setEmit True (reset (p_vnet p))\<rparr> in
      case openWireSocket e p1 of
        (p2, False) \<Rightarrow> Some (p2, False)
      | (p2, True) \<Rightarrow>
          (if (case arena of None \<Rightarrow> False | Some largest \<Rightarrow> largest < NodeAllocLowWater)
           then Some (p2, False)
           else do {
             (p3, nrc) \<leftarrow> ask core FxNewNode p2;
             if nrc \<noteq> 0 then Some ((logs [FxClose (p_wireFd p3)] p3)\<lparr>p_wireFd := -1\<rparr>, False)
             else do {
               (p4, jrc) \<leftarrow> ask core (FxJoin nwid) (p3\<lparr>p_node := True\<rparr>);
               if jrc \<noteq> 0 then Some (p4\<lparr>p_lastError := jrc\<rparr>, False)
               else do {
                 p5 \<leftarrow> subscribeBroadcast core (p4\<lparr>p_natEnabled := mapper\<rparr>);
                 Some (p5, True) } } }))"

definition Finalize :: "core \<Rightarrow> Port \<Rightarrow> Port option" where
  "Finalize core p = do {
     p1 \<leftarrow> closeNatWire core (logs [FxNatPort 0] p);
     let p2 = p1\<lparr>p_wireReachable := False\<rparr>;
     p3 \<leftarrow> (if p_node p2 then map_option (\<lambda>(q, _). q\<lparr>p_node := False\<rparr>) (ask core FxDeleteNode p2) else Some p2);
     Some (if 0 \<le> p_wireFd p3 then (logs [FxClose (p_wireFd p3)] p3)\<lparr>p_wireFd := -1\<rparr> else p3) }"

section \<open>Every operation keeps the invariants\<close>

lemma on_vnet_port_ok:
  assumes "port_ok p" and "okinv (map_option fst (f (p_vnet p\<lparr>m_emitted := []\<rparr>)))"
  shows "ok_result (map_option fst (on_vnet f p))"
proof -
  from on_vnet_ok [of p f] assms obtain q r where
    q: "on_vnet f p = Some (q, r)" "port_inv q" "wire_part q = wire_part p"
    by (auto simp: port_ok_def)
  from wire_part_keeps [OF q(3)] q assms(1) show ?thesis by (simp add: port_ok_def)
qed

lemma port_ok_vnet: "port_ok p \<Longrightarrow> vnet_inv (p_vnet p\<lparr>m_emitted := x\<rparr>)"
  by (simp add: port_ok_def port_inv_def)

lemma lan_exec_ok:
  assumes "port_ok p" and "lan_ok c"
  shows "ok_result (lan_exec c p)"
proof -
  let ?v = "p_vnet p\<lparr>m_emitted := []\<rparr>"
  have inv: "vnet_inv ?v" using assms(1) by (rule port_ok_vnet)
  note go = on_vnet_port_ok [OF assms(1)]
  have fst_map: "map_option fst (map_option (\<lambda>(a, b). (a, g b)) r) = map_option fst r" for g r
    by (cases r) auto
  show ?thesis
  proof (cases c)
    case LanOpen
    show ?thesis unfolding LanOpen lan_exec.simps OpenLanSocket_def
      by (rule go) (use vnet_inv_open [OF inv] inv in simp)
  next
    case (LanBind vfd port)
    show ?thesis unfolding LanBind lan_exec.simps BindLanSocket_def
      by (rule go) (use vnet_inv_bind [OF inv, of vfd 0 port] inv in \<open>simp add: case_prod_beta\<close>)
  next
    case (LanSend vfd ip port buf len)
    have "\<And>b. buf = Some b \<Longrightarrow> len \<le> length b" using assms(2) LanSend by auto
    note s = send_inv [OF inv this]
    show ?thesis unfolding LanSend lan_exec.simps MirrorLanDatagram_def
      by (rule go) (use s inv in \<open>auto simp: Let_def fst_map\<close>)
  next
    case (LanBroadcast vfd port buf len)
    have "\<And>b. buf = Some b \<Longrightarrow> len \<le> length b" using assms(2) LanBroadcast by auto
    note s = send_inv [OF inv this]
    show ?thesis unfolding LanBroadcast lan_exec.simps MirrorLanBroadcast_def
      by (rule go) (use s inv in \<open>auto simp: Let_def fst_map\<close>)
  next
    case (LanReceive vfd buf len peek)
    have "\<And>b. buf = Some b \<Longrightarrow> len \<le> length b" using assms(2) LanReceive by auto
    note s = recv_inv [OF inv this]
    show ?thesis unfolding LanReceive lan_exec.simps ReceiveLanDatagram_def
      by (rule go) (use s in simp)
  next
    case (LanClose vfd)
    have "okinv (udpClose vfd ?v)" using vnet_exec_safe [OF inv, of "Close vfd"] by (simp add: okinv_def)
    then show ?thesis unfolding LanClose lan_exec.simps CloseLanSocket_def
      by (intro go) (simp add: option.map_comp o_def option.map_ident)
  qed
qed

lemma lan_run_ok: "port_ok p \<Longrightarrow> list_all lan_ok cs \<Longrightarrow> ok_result (lan_run cs p)"
proof (induction cs arbitrary: p)
  case (Cons c cs)
  then obtain q where "lan_exec c p = Some q" "port_ok q"
    using lan_exec_ok [of p c] by (auto simp: ok_result_def)
  with Cons show ?case by simp
qed simp

lemma subscribe_ok:
  assumes "core_ok core" and "port_ok p"
  shows "ok_result (subscribeBroadcast core p)"
proof -
  let ?adi = "m_ip (p_vnet p)"
  obtain p1 r where p1: "ask core (FxSubscribe (p_nwid p) MacBroadcast 0) p = Some (p1, r)" "port_ok p1"
    by (rule ask_ok [OF assms])
  obtain p2 r2 where p2: "ask core (FxSubscribe (p_nwid p1) MacBroadcast ?adi) p1 = Some (p2, r2)" "port_ok p2"
    by (rule ask_ok [OF assms(1) p1(2)])
  have s: "port_ok (q\<lparr>p_subscribed := True\<rparr>)" if "port_ok q" for q
    using that by (rule port_ok_same) (simp_all add: port_ok_streak [OF that])
  show ?thesis
    using assms(2) p1 p2 s [OF p1(2)] s [OF p2(2)] by (simp add: subscribeBroadcast_def Let_def)
qed

lemma port_ok_flush: "port_ok p \<Longrightarrow> port_ok (p\<lparr>p_ring := flushFrames (p_ring p)\<rparr>)"
  using ring_flush [of "p_ring p"] by (simp add: port_ok_def port_inv_def wire_inv_def)

lemma switch_ok:
  assumes "core_ok core" and "port_ok p" and "list_all lan_ok calls"
  shows "ok_result (map_option fst (switchNetwork core calls nwid p))"
proof (cases "nwid = 0 \<or> nwid = p_nwid p \<or> \<not> p_node p")
  case True
  with assms(2) show ?thesis by (simp add: switchNetwork_def)
next
  case False
  from lan_run_ok [OF port_ok_flush [OF assms(2)] assms(3)] obtain p0 where
    p0: "lan_run calls (p\<lparr>p_ring := flushFrames (p_ring p)\<rparr>) = Some p0" "port_ok p0"
    by (auto simp: ok_result_def)
  let ?p1 = "p0\<lparr>p_wireReachable := False, p_needSubscribe := False,
      p_subscribed := False, p_netStatus := -1, p_firstFrameLogged := False\<rparr>"
  have p1: "port_ok ?p1" using p0(2) by (rule port_ok_same) (simp_all add: port_ok_streak [OF p0(2)])
  obtain p2 lrc where p2: "ask core (FxLeave (p_nwid p)) ?p1 = Some (p2, lrc)" "port_ok p2"
    by (rule ask_ok [OF assms(1) p1])
  have u: "port_ok (q\<lparr>p_nwid := n\<rparr>)" "port_ok (q\<lparr>p_lastError := err\<rparr>)"
    "port_ok (q\<lparr>p_nextDeadline := d\<rparr>)" if "port_ok q" for q n err d
    by (rule port_ok_same [OF that], simp_all add: port_ok_streak [OF that])+
  obtain p3 jrc where p3: "ask core (FxJoin nwid) (p2\<lparr>p_nwid := nwid\<rparr>) = Some (p3, jrc)" "port_ok p3"
    by (rule ask_ok [OF assms(1) u(1) [OF p2(2)]])
  have "port_ok (p3\<lparr>p_lastError := jrc, p_nwid := p_nwid p\<rparr>)" using u(1) [OF u(2) [OF p3(2)]] .
  then obtain p4 rrc where
    p4: "ask core (FxJoin (p_nwid p)) (p3\<lparr>p_lastError := jrc, p_nwid := p_nwid p\<rparr>) = Some (p4, rrc)" "port_ok p4"
    by (rule ask_ok [OF assms(1)])
  note end1 = u(2) [OF p2(2)] and end2 = u(3) [OF u(2) [OF p3(2)]] and end3 = u(3) [OF p4(2)]
    and end4 = u(3) [OF u(2) [OF p4(2)]]
  show ?thesis
    using False p0(1) p2(1) p3(1) p4(1) end1 end2 end3 end4 by (simp add: switchNetwork_def Let_def)
qed

lemma poll_ok:
  assumes "core_ok core" and "port_ok p" and "list_all lan_ok calls"
  shows "ok_result (pollNetworkSelection core calls now files p)"
proof -
  have p1: "port_ok (p\<lparr>p_lastNetworkPollMs := now\<rparr>)"
    using assms(2) by (rule port_ok_same) (simp_all add: port_ok_streak [OF assms(2)])
  show ?thesis
    using assms(2) p1 switch_ok [OF assms(1) p1 assms(3)]
    by (simp add: pollNetworkSelection_def Let_def split: option.split)
qed

text \<open>
  While it handles an outbound frame the core sends and reports; it does not deliver frames to the
  interface or reconfigure it, so the loop over the ring ends.
\<close>

fun sends_only :: "callback \<Rightarrow> bool" where
  "sends_only (CbSend s a d n err) = True"
| "sends_only (CbEvent ev) = True"
| "sends_only _ = False"

definition frames_only_send :: "core \<Rightarrow> bool" where
  "frames_only_send core \<longleftrightarrow> (\<forall>n m f p. list_all sends_only (fst (core (FxFrame n m f) p)))"

definition handed :: "Port \<Rightarrow> (u64 \<times> u64 \<times> frame) list" where
  "handed p = List.map_filter (\<lambda>fx. case fx of FxFrame n m f \<Rightarrow> Some (n, m, f) | _ \<Rightarrow> None) (p_log p)"

definition lan_part :: "Port \<Rightarrow> FrameQueue \<times> VNet \<times> u64 \<times> (u64 \<times> u64 \<times> frame) list" where
  "lan_part p = (p_ring p, p_vnet p, p_nwid p, handed p)"

lemma handed_logs: "handed (logs fx p) = handed p @ List.map_filter (\<lambda>fx. case fx of FxFrame n m f \<Rightarrow> Some (n, m, f) | _ \<Rightarrow> None) fx"
  by (simp add: handed_def logs_def List.map_filter_def)

lemma handed_frame: "handed (logs [FxFrame n m f] p) = handed p @ [(n, m, f)]"
  by (cases f) (simp add: handed_logs List.map_filter_def)

lemma sends_only_part:
  "list_all sends_only cs \<Longrightarrow> run_callbacks cs p = Some q \<Longrightarrow> lan_part q = lan_part p"
proof (induction cs arbitrary: p)
  case (Cons c cs)
  then obtain r where r: "run_callback c p = Some r" "run_callbacks cs r = Some q"
    by (auto split: bind_splits)
  have "lan_part r = lan_part p"
  proof (cases c)
    case (CbSend s a d n err)
    with r(1) show ?thesis
      by (auto simp: cbWireSend_def lan_part_def handed_def logs_def List.map_filter_def Let_def
          split: option.split prod.split)
  next
    case (CbEvent ev)
    with r(1) show ?thesis by (cases ev) (auto simp: lan_part_def handed_def)
  qed (use Cons.prems in auto)
  with Cons r show ?case by simp
qed simp

lemma ask_frame:
  assumes "core_ok core" and "frames_only_send core" and "port_ok p"
  obtains q d where "ask core (FxFrame n m f) p = Some (q, d)" "port_ok q" "fds q = fds p"
    "p_ring q = p_ring p" "p_vnet q = p_vnet p" "p_nwid q = p_nwid p" "handed q = handed p @ [(n, m, f)]"
proof -
  obtain q d where q: "ask core (FxFrame n m f) p = Some (q, d)" "port_ok q" "fds q = fds p"
    by (rule ask_ok [OF assms(1, 3)])
  then have "run_callbacks (fst (core (FxFrame n m f) (logs [FxFrame n m f] p))) (logs [FxFrame n m f] p) = Some q"
    by (auto simp: ask_def Let_def case_prod_beta)
  moreover have "list_all sends_only (fst (core (FxFrame n m f) (logs [FxFrame n m f] p)))"
    using assms(2) unfolding frames_only_send_def by blast
  ultimately have "lan_part q = lan_part (logs [FxFrame n m f] p)" by (rule sends_only_part [rotated])
  then have "p_ring q = p_ring p" "p_vnet q = p_vnet p" "p_nwid q = p_nwid p" "handed q = handed p @ [(n, m, f)]"
    by (simp_all add: lan_part_def handed_frame) (simp_all add: logs_def)
  with q that show ?thesis by blast
qed

section \<open>Draining the ring\<close>

lemma port_same:
  "port_ok (p\<lparr>p_firstFrameLogged := b\<rparr>) = port_ok p" "fds (p\<lparr>p_firstFrameLogged := b\<rparr>) = fds p"
  "handed (p\<lparr>p_firstFrameLogged := b\<rparr>) = handed p"
  "port_ok (p\<lparr>p_nextDeadline := d\<rparr>) = port_ok p" "fds (p\<lparr>p_nextDeadline := d\<rparr>) = fds p"
  "handed (p\<lparr>p_nextDeadline := d\<rparr>) = handed p"
  "fds (p\<lparr>p_ring := g\<rparr>) = fds p" "handed (p\<lparr>p_ring := g\<rparr>) = handed p"
  "port_ok p \<Longrightarrow> ring_inv g \<Longrightarrow> port_ok (p\<lparr>p_ring := g\<rparr>)"
  by (simp_all add: port_ok_def port_inv_def wire_inv_def fds_def handed_def)

text \<open>One turn takes out the first frame; it goes to the core unless the wire is paused.\<close>

lemma drain_turn:
  assumes "core_ok core" and "frames_only_send core" and "port_ok p" and "ring_queue (p_ring p) = f # fs"
  obtains q where "drain_loop core paused p = drain_loop core paused q" "port_ok q" "fds q = fds p"
    "ring_queue (p_ring q) = fs" "p_vnet q = p_vnet p" "p_nwid q = p_nwid p"
    "handed q = handed p @ (if paused then [] else [(p_nwid p, m_mac (p_vnet p), f)])"
proof -
  have ri: "ring_inv (p_ring p)" using assms(3) by (simp add: port_ok_def port_inv_def)
  from ring_get [OF ri assms(4)] obtain g where
    g: "takeOut (p_ring p) = Some (Some (f, g))" "ring_inv g" "ring_queue g = fs" by blast
  let ?p1 = "p\<lparr>p_ring := g\<rparr>" and ?p2 = "p\<lparr>p_ring := g, p_firstFrameLogged := True\<rparr>"
  have p1: "port_ok ?p1" using assms(3) g(2) by (rule port_same(9))
  show thesis
  proof (cases paused)
    case True
    have "drain_loop core paused p = drain_loop core paused ?p1"
      by (subst drain_loop.simps) (simp add: g(1) True)
    then show thesis using p1 g(3) True by (intro that [of ?p1]) (simp_all add: port_same)
  next
    case False
    have p2: "port_ok ?p2" using p1 port_same(1) [where p = ?p1 and b = True] by simp
    obtain q d where q: "ask core (FxFrame (p_nwid p) (m_mac (p_vnet p)) f) ?p2 = Some (q, d)"
      "port_ok q" "fds q = fds ?p2" "p_ring q = p_ring ?p2" "p_vnet q = p_vnet ?p2" "p_nwid q = p_nwid ?p2"
      "handed q = handed ?p2 @ [(p_nwid p, m_mac (p_vnet p), f)]"
      by (rule ask_frame [OF assms(1, 2) p2])
    have "drain_loop core paused p = drain_loop core paused (q\<lparr>p_nextDeadline := d\<rparr>)"
      using q(1) by (subst drain_loop.simps) (simp add: g(1) False)
    moreover have "fds ?p2 = fds p" "handed ?p2 = handed p" by (simp_all add: fds_def handed_def)
    ultimately show thesis using q g(3) False
      by (intro that [of "q\<lparr>p_nextDeadline := d\<rparr>"]) (simp_all add: port_same)
  qed
qed

lemma drain_loop_ok:
  assumes "core_ok core" and "frames_only_send core" and "port_ok p"
  obtains q where "drain_loop core paused p = Some q" "port_ok q" "fds q = fds p"
    "ring_queue (p_ring q) = []" "p_vnet q = p_vnet p" "p_nwid q = p_nwid p"
    "handed q = handed p @ (if paused then [] else
       map (\<lambda>f. (p_nwid p, m_mac (p_vnet p), f)) (ring_queue (p_ring p)))"
proof -
  have "\<exists>q. drain_loop core paused p = Some q \<and> port_ok q \<and> fds q = fds p \<and> ring_queue (p_ring q) = [] \<and>
      p_vnet q = p_vnet p \<and> p_nwid q = p_nwid p \<and>
      handed q = handed p @ (if paused then [] else map (\<lambda>f. (p_nwid p, m_mac (p_vnet p), f)) fs)"
    if "port_ok p" "ring_queue (p_ring p) = fs" for p fs
    using that
  proof (induction fs arbitrary: p)
    case Nil
    then have "takeOut (p_ring p) = Some None"
      by (intro ring_get_empty) (simp_all add: port_ok_def port_inv_def)
    with Nil show ?case by (subst drain_loop.simps) simp
  next
    case (Cons f fs)
    obtain q where q: "drain_loop core paused p = drain_loop core paused q" "port_ok q" "fds q = fds p"
      "ring_queue (p_ring q) = fs" "p_vnet q = p_vnet p" "p_nwid q = p_nwid p"
      "handed q = handed p @ (if paused then [] else [(p_nwid p, m_mac (p_vnet p), f)])"
      by (rule drain_turn [OF assms(1, 2) Cons.prems])
    with Cons.IH [OF q(2, 4)] show ?case by auto
  qed
  from this [OF assms(3) refl] that show ?thesis by blast
qed

text \<open>
  C22. Draining: every queued frame is handed to the core once, unchanged, in order, for the current
  network and from our own address, and the ring is empty afterwards; while the wire is down or
  recovering the frames are taken out and none reaches the core.
\<close>

theorem drain_delivers:
  assumes "core_ok core" and "frames_only_send core" and "port_ok p"
  shows "\<exists>q. drainOutbound core p = Some q \<and> port_ok q \<and> ring_queue (p_ring q) = [] \<and>
    handed q = handed p @
      (if p_wireFd p < 0 \<or> p_wireRecovering p then []
       else map (\<lambda>f. (p_nwid p, m_mac (p_vnet p), f)) (ring_queue (p_ring p)))"
  unfolding drainOutbound_def
  by (rule drain_loop_ok [OF assms, of "p_wireFd p < 0 \<or> p_wireRecovering p"]) blast

lemma port_ok_fresh: "port_ok (port_fresh\<lparr>p_vnet := reset vnet_fresh\<rparr>)"
  using vnet_inv_reset [OF sizes_ok_fresh]
  by (simp add: port_ok_def port_inv_def wire_inv_def port_fresh_def reset_def vnet_fresh_def)

lemma idle_core_ok [simp]: "core_ok idle_core" "frames_only_send idle_core"
  by (simp_all add: core_ok_def frames_only_send_def idle_core_def)

lemma drain_delivers_witness:
  "\<exists>q. drainOutbound idle_core (port_fresh\<lparr>p_vnet := reset vnet_fresh\<rparr>) = Some q \<and> ring_queue (p_ring q) = []"
  using drain_delivers [OF idle_core_ok port_ok_fresh] by blast

section \<open>The operations of the node thread\<close>

lemma probe_ok:
  assumes "port_ok p" and "p_probeRead p \<or> ConfigIpv4 config ''probe'' \<noteq> None"
  shows "ok_result (probePeer config now p)"
proof -
  have echo: "ok_result (send_echo ip q)" if "port_ok q" for ip q
    unfolding send_echo_def
    by (rule on_vnet_port_ok [OF that]) (rule echo_inv [OF port_ok_vnet [OF that]])
  define r where "r = (if p_probeRead p then Some p
     else do { ip \<leftarrow> ConfigIpv4 config ''probe''; Some (p\<lparr>p_probeRead := True, p_probeIp := ip\<rparr>) })"
  have "ok_result r"
  proof (cases "p_probeRead p")
    case False
    with assms(2) obtain ip where "ConfigIpv4 config ''probe'' = Some ip" by auto
    moreover have "port_ok (p\<lparr>p_probeRead := True, p_probeIp := ip\<rparr>)"
      using assms(1) by (rule port_ok_same) (simp_all add: port_ok_streak [OF assms(1)])
    ultimately show ?thesis using False by (simp add: r_def)
  qed (simp add: r_def assms(1))
  then obtain p1 where p1: "r = Some p1" "port_ok p1" by (auto simp: ok_result_def)
  have p2: "port_ok (p1\<lparr>p_lastProbeMs := now\<rparr>)"
    using p1(2) by (rule port_ok_same) (simp_all add: port_ok_streak [OF p1(2)])
  from echo [OF p2] obtain p3 where
    p3: "send_echo (broadcastIp (p_vnet (p1\<lparr>p_lastProbeMs := now\<rparr>))) (p1\<lparr>p_lastProbeMs := now\<rparr>) = Some p3" "port_ok p3"
    unfolding ok_result_def by blast
  show ?thesis
    using assms(1) p1 p3 echo [OF p3(2)]
    by (simp add: probePeer_def Let_def flip: r_def)
qed

lemma receive_ok:
  assumes "core_ok core" and "port_ok p"
  shows "ok_result (receive_wire core e p)"
proof -
  define p1 where "p1 = p\<lparr>p_wireRx := p_wireRx p + 1, p_wireReachable := True,
      p_wireRecoveryConfirmed := (p_wireRecovering p \<or> p_wireRecoveryConfirmed p)\<rparr>"
  have "port_ok p1"
    using assms(2) by (rule port_ok_same) (auto simp: p1_def port_ok_streak [OF assms(2)])
  then obtain p2 d where p2: "ask core (FxPacket 0 (re_packet e)) p1 = Some (p2, d)" "port_ok p2"
    by (rule ask_ok [OF assms(1)])
  have "port_ok (p2\<lparr>p_nextDeadline := d\<rparr>)"
    using p2(2) by (rule port_ok_same) (simp_all add: port_ok_streak [OF p2(2)])
  then show ?thesis using assms(2) p2(1) by (simp add: receive_wire_def flip: p1_def)
qed

lemma timers_ok:
  assumes "core_ok core" and "port_ok p"
  shows "ok_result (run_timers core now p)"
proof -
  obtain p2 d where p2: "ask core (FxTasks now) p = Some (p2, d)" "port_ok p2"
    by (rule ask_ok [OF assms])
  have "port_ok (p2\<lparr>p_nextDeadline := d\<rparr>)"
    using p2(2) by (rule port_ok_same) (simp_all add: port_ok_streak [OF p2(2)])
  then show ?thesis using assms(2) p2(1) by (simp add: run_timers_def)
qed

lemma poll_wire_ok: "port_ok p \<Longrightarrow> port_ok (poll_wire e p)"
  by (auto simp: poll_wire_def port_ok_def port_inv_def wire_inv_def Let_def)

lemma ok_bind: "ok_result r \<Longrightarrow> (\<And>q. port_ok q \<Longrightarrow> ok_result (f q)) \<Longrightarrow> ok_result (Option.bind r f)"
  by (auto simp: ok_result_def)

lemma sleep_ok:
  assumes "core_ok core" and "port_ok p"
  shows "ok_result (HandleSleep core es p)"
  by (rule enter_sleep_ok [OF assms]) (simp add: HandleSleep_def leave_sleep_ok)

definition env_ok :: "round_env \<Rightarrow> bool" where
  "env_ok e \<longleftrightarrow> list_all lan_ok (re_calls e) \<and> ConfigIpv4 (fst (re_files e)) ''probe'' \<noteq> None"

lemma loop_round_ok:
  assumes "core_ok core" and "frames_only_send core" and "env_ok e" and "port_ok p"
  shows "ok_result (loop_round core e p)"
proof -
  have start: "port_ok (p\<lparr>p_loops := p_loops p + 1\<rparr>)"
    using assms(4) by (rule port_ok_same) (simp_all add: port_ok_streak [OF assms(4)])
  have sub: "port_ok (q\<lparr>p_needSubscribe := False\<rparr>)" if "port_ok q" for q
    using that by (rule port_ok_same) (simp_all add: port_ok_streak [OF that])
  have drain: "ok_result (drainOutbound core q)" if "port_ok q" for q
    using drain_loop_ok [OF assms(1, 2) that] unfolding drainOutbound_def ok_result_def by blast
  have calls: "list_all lan_ok (re_calls e)" and probe: "ConfigIpv4 (fst (re_files e)) ''probe'' \<noteq> None"
    using assms(3) by (simp_all add: env_ok_def)
  show ?thesis
    unfolding loop_round_def Let_def
    by (intro ok_bind maintainWireSocket_ok maintainNatWire_ok receive_ok poll_wire_ok drain probe_ok
        timers_ok poll_ok assms(1) calls)
       (auto split: option.split intro: sleep_ok [OF assms(1)] subscribe_ok [OF assms(1)] start sub
        simp: probe)
qed

section \<open>Runs of the whole port\<close>

text \<open>
  A run: the port is initialised until that succeeds, then the node thread's turns alternate with the
  calls of the game's threads in any order.
\<close>

inductive port_run :: "core \<Rightarrow> Port \<Rightarrow> bool" for core where
  start: "Initialize core nwid e arena mapper (port_fresh\<lparr>p_vnet := reset vnet_fresh\<rparr>) = Some (p, True) \<Longrightarrow>
    port_run core p"
| turn: "port_run core p \<Longrightarrow> env_ok e \<Longrightarrow> loop_round core e p = Some q \<Longrightarrow> port_run core q"
| game: "port_run core p \<Longrightarrow> lan_ok c \<Longrightarrow> lan_exec c p = Some q \<Longrightarrow> port_run core q"

inductive_cases port_runE: "port_run core p"

lemma port_ok_reset: "port_ok p \<Longrightarrow> port_ok (p\<lparr>p_vnet := setEmit True (reset (p_vnet p))\<rparr>)"
  using vnet_inv_setEmit [OF vnet_inv_reset [OF vnet_inv_sizes]]
  by (simp add: port_ok_def port_inv_def wire_inv_def) (simp add: setEmit_def reset_def)

lemma initialize_ok:
  assumes "core_ok core" and "port_ok p" and "p_wireFd p < 0"
  shows "ok_result (map_option fst (Initialize core nwid e arena mapper p))"
proof -
  define p1 where "p1 = p\<lparr>p_nwid := nwid, p_vnet := setEmit True (reset (p_vnet p))\<rparr>"
  have p1: "port_ok p1" "p_wireFd p1 < 0"
    using port_ok_reset [OF assms(2)] assms(3)
    by (simp_all add: p1_def port_ok_def port_inv_def wire_inv_def)
  obtain p2 b where p2: "openWireSocket e p1 = (p2, b)" by (cases "openWireSocket e p1")
  have ok2: "port_ok p2" using openWireSocket_ok [OF p1, of e] p2 by simp
  have m2: "p_mappedFd p2 < 0"
    using p1 p2 by (auto simp: openWireSocket_def port_ok_def wire_inv_def logs_def Let_def split: if_splits)
  obtain p3 nrc where p3: "ask core FxNewNode p2 = Some (p3, nrc)" "port_ok p3" "fds p3 = fds p2"
    by (rule ask_ok [OF assms(1) ok2])
  have closed: "port_ok ((logs [FxClose (p_wireFd p3)] p3)\<lparr>p_wireFd := -1\<rparr>)"
    using p3(2, 3) m2 by (simp add: port_ok_def port_inv_def wire_inv_def fds_def logs_def)
  have node: "port_ok (p3\<lparr>p_node := True\<rparr>)"
    using p3(2) by (rule port_ok_same) (simp_all add: port_ok_streak [OF p3(2)])
  obtain p4 jrc where p4: "ask core (FxJoin nwid) (p3\<lparr>p_node := True\<rparr>) = Some (p4, jrc)" "port_ok p4"
    by (rule ask_ok [OF assms(1) node])
  have upd: "port_ok (p4\<lparr>p_lastError := jrc\<rparr>)" "port_ok (p4\<lparr>p_natEnabled := mapper\<rparr>)"
    by (rule port_ok_same [OF p4(2)], simp_all add: port_ok_streak [OF p4(2)])+
  from subscribe_ok [OF assms(1) upd(2)] obtain p5 where
    p5: "subscribeBroadcast core (p4\<lparr>p_natEnabled := mapper\<rparr>) = Some p5" "port_ok p5"
    by (auto simp: ok_result_def)
  show ?thesis
    using p2 ok2 p3(1) closed p4(1) upd(1) p5 p1_def
    by (cases b) (simp_all add: Initialize_def Let_def)
qed

lemma port_run_ok: "port_run core p \<Longrightarrow> core_ok core \<Longrightarrow> frames_only_send core \<Longrightarrow> port_ok p"
proof (induction rule: port_run.induct)
  case (start nwid e arena mapper p)
  have "p_wireFd (port_fresh\<lparr>p_vnet := reset vnet_fresh\<rparr>) < 0" by (simp add: port_fresh_def)
  from initialize_ok [OF start(2) port_ok_fresh this, of nwid e arena mapper] start(1)
  show ?case by (simp add: ok_result_def)
next
  case (turn p e q)
  with loop_round_ok [of core e p] show ?case by (auto simp: ok_result_def)
next
  case (game p c q)
  with lan_exec_ok [of p c] show ?case by (auto simp: ok_result_def)
qed


definition demo_port :: Port where
  "demo_port = (case Initialize idle_core 0x8056c2e21c000001 demo_open None False
     (port_fresh\<lparr>p_vnet := reset vnet_fresh\<rparr>) of Some (p, _) \<Rightarrow> p | None \<Rightarrow> port_fresh)"

lemma idle_ask [simp]: "ask idle_core fx p = Some (logs [fx] p, 0)"
  by (simp add: ask_def idle_core_def Let_def)

lemma demo_port_start:
  "Initialize idle_core 0x8056c2e21c000001 demo_open None False (port_fresh\<lparr>p_vnet := reset vnet_fresh\<rparr>) =
     Some (demo_port, True)"
  by (simp add: demo_port_def Initialize_def openWireSocket_def demo_open_def port_fresh_def
      subscribeBroadcast_def logs_def Let_def)


section \<open>A failed start\<close>

text \<open>
  A start that fails after the socket was opened leaves it open: when the arena is too small (and
  likewise when joining fails) the descriptor stays bound to UDP/9993, and the next attempt opens
  another socket over it without closing it.
\<close>

theorem failed_start_leaks_socket:
  assumes "0 \<le> o_fd e" and "o_bound e" and "\<not> p_wireEphemeral p" and "largest < NodeAllocLowWater"
    and "0 \<le> o_fd e2" and "o_bound e2"
  shows "\<exists>q r. Initialize core nwid e (Some largest) m p = Some (q, False) \<and>
    p_wireFd q = o_fd e \<and> p_log q = p_log p @ [FxBound DefaultWirePort (o_fd e)] \<and>
    Initialize core nwid e2 (Some largest) m q = Some (r, False) \<and> p_wireFd r = o_fd e2 \<and>
    p_log r = p_log p @ [FxBound DefaultWirePort (o_fd e), FxBound DefaultWirePort (o_fd e2)]"
  using assms by (simp add: Initialize_def openWireSocket_def logs_def Let_def)

lemma failed_start_leaks_socket_witness:
  "\<exists>q. Initialize idle_core 1 demo_open (Some 1000) False port_fresh = Some (q, False) \<and> p_wireFd q = 4"
  using failed_start_leaks_socket [of demo_open port_fresh 1000 demo_open idle_core 1 False]
  by (auto simp: demo_open_def port_fresh_def NodeAllocLowWater_def)

section \<open>Switching networks\<close>

text \<open>The core that tears the old network down while leaving it, as \<^verbatim>\<open>ZT_Node_leave\<close> does.\<close>

definition leaves :: "core \<Rightarrow> bool" where
  "leaves core \<longleftrightarrow>
     (\<forall>n p. \<exists>conf. core (FxLeave n) p = ([CbConfig n ConfigDestroy conf], 0)) \<and>
     (\<forall>n p. core (FxJoin n) p = ([], 0))"

text \<open>
  What a live switch does to the frames in flight.  The switch succeeds and selects the new
  network, with the interface unconfigured and reset; the ring then holds exactly the frames that
  the game's threads emitted between the flush and the teardown, so without such a call it is empty,
  and with one the frame of the old network is handed to the core for the new one.
\<close>

theorem switch_frames:
  assumes "leaves core" and "core_ok core" and "frames_only_send core" and "port_ok p"
    and "p_node p" and "nwid \<noteq> 0" and "nwid \<noteq> p_nwid p" and "list_all lan_ok calls"
    and "lan_run calls (p\<lparr>p_ring := flushFrames (p_ring p)\<rparr>) = Some p0"
  shows "\<exists>q r. switchNetwork core calls nwid p = Some (q, True) \<and> p_nwid q = nwid \<and>
    \<not> m_configured (p_vnet q) \<and> ring_queue (p_ring q) = ring_queue (p_ring p0) \<and>
    (calls = [] \<longrightarrow> ring_queue (p_ring q) = []) \<and>
    drain_loop core False q = Some r \<and>
    handed r = handed q @ map (\<lambda>f. (nwid, 0, f)) (ring_queue (p_ring p0))"
proof -
  define p1 where "p1 = p0\<lparr>p_wireReachable := False, p_needSubscribe := False,
      p_subscribed := False, p_netStatus := -1, p_firstFrameLogged := False\<rparr>"
  obtain conf where conf: "core (FxLeave (p_nwid p)) (logs [FxLeave (p_nwid p)] p1) =
      ([CbConfig (p_nwid p) ConfigDestroy conf], 0)"
    using assms(1) unfolding leaves_def by blast
  define p2 where "p2 = (logs [FxLeave (p_nwid p)] p1)\<lparr>p_wireReachable := False,
      p_vnet := setEmit True (reset (p_vnet p1))\<rparr>"
  have l: "ask core (FxLeave (p_nwid p)) p1 = Some (p2, 0)"
    by (simp add: ask_def conf Let_def cbNetworkConfig_def p2_def) (simp add: logs_def)
  define p3 where "p3 = logs [FxJoin nwid] (p2\<lparr>p_nwid := nwid\<rparr>)"
  have j: "ask core (FxJoin nwid) (p2\<lparr>p_nwid := nwid\<rparr>) = Some (p3, 0)"
    using assms(1) by (simp add: ask_def leaves_def Let_def p3_def)
  define q where "q = p3\<lparr>p_lastError := 0, p_nextDeadline := 0\<rparr>"
  have run: "switchNetwork core calls nwid p = Some (q, True)"
    using assms(5-7, 9) l j by (simp add: switchNetwork_def Let_def q_def flip: p1_def)
  have q: "p_nwid q = nwid" "\<not> m_configured (p_vnet q)" "m_mac (p_vnet q) = 0" "p_ring q = p_ring p0"
    by (simp_all add: q_def p3_def p2_def p1_def logs_def setEmit_def reset_def)
  have okq: "port_ok q"
    using switch_ok [OF assms(2, 4, 8), of nwid] run by (simp add: ok_result_def)
  obtain r where r: "drain_loop core False q = Some r"
    "handed r = handed q @ map (\<lambda>f. (p_nwid q, m_mac (p_vnet q), f)) (ring_queue (p_ring q))"
    by (rule drain_loop_ok [OF assms(2, 3) okq, of False]) simp
  have "ring_queue (p_ring p0) = []" if "calls = []"
    using assms(4, 9) that ring_flush [of "p_ring p"] by (auto simp: port_ok_def port_inv_def)
  with run q r show ?thesis by auto
qed

definition leave_core :: core where
  "leave_core fx p =
     (case fx of
        FxLeave n \<Rightarrow> ([CbConfig n ConfigDestroy \<lparr>c_status = 0, c_mac = 0, c_mtu = 0, c_addresses = []\<rparr>], 0)
      | _ \<Rightarrow> ([], 0))"

lemma leave_core_ok: "leaves leave_core" "core_ok leave_core" "frames_only_send leave_core"
  by (auto simp: leaves_def core_ok_def frames_only_send_def leave_core_def split: effect.split)

lemma switch_frames_witness:
  "\<exists>q. switchNetwork leave_core [] 2 (port_fresh\<lparr>p_vnet := reset vnet_fresh, p_node := True\<rparr>) = Some (q, True) \<and>
     p_nwid q = 2 \<and> ring_queue (p_ring q) = []"
proof -
  have ok: "port_ok (port_fresh\<lparr>p_vnet := reset vnet_fresh, p_node := True\<rparr>)"
    using port_ok_fresh by (rule port_ok_same) (simp_all add: port_fresh_def)
  have h: "p_node (port_fresh\<lparr>p_vnet := reset vnet_fresh, p_node := True\<rparr>)" "(2 :: u64) \<noteq> 0"
    "2 \<noteq> p_nwid (port_fresh\<lparr>p_vnet := reset vnet_fresh, p_node := True\<rparr>)" "list_all lan_ok []"
    by (simp_all add: port_fresh_def)
  from switch_frames [OF leave_core_ok ok h lan_run.simps(1)] show ?thesis by blast
qed

end
