(* ===== verification/SleepGate.thy ===== *)
theory SleepGate
  imports Prelude
begin

text \<open>
  The sleep gate: how the power-management thread (\<^verbatim>\<open>PscThreadMain\<close> in \<^verbatim>\<open>source/main.cpp\<close>) makes the
  node thread let go of the file system and the sockets before the console sleeps, and lets it go on
  afterwards (\<^verbatim>\<open>RequestQuiesce\<close>, \<^verbatim>\<open>WaitQuiesced\<close>, \<^verbatim>\<open>SignalResume\<close> and \<^verbatim>\<open>HandleSleep\<close> in
  \<^verbatim>\<open>source/zt_port.cpp\<close>).  The two threads interleave at every access to the two manual-clear events
  and the flag they share.
\<close>

section \<open>The two threads\<close>

text \<open>
  Where the power thread stands: waiting for the next request (with the answer of the last quiesce,
  \<open>True\<close> for a confirmed one), inside \<^verbatim>\<open>RequestQuiesce\<close> before each of its three accesses, in
  \<^verbatim>\<open>WaitQuiesced\<close>, or inside \<^verbatim>\<open>SignalResume\<close> before each of its two.
\<close>

datatype psc_pc =
    PscIdle
  | PscAcked bool
  | PscClearQuiesced
  | PscClearResumed
  | PscSetFlag
  | PscWaiting
  | PscClearFlag
  | PscSignal

text \<open>
  The node thread: in its loop, in \<^verbatim>\<open>HandleSleep\<close> before closing the sockets, before the signal, in
  the wait for the resume, and before reopening.
\<close>

datatype node_pc = NodeLoop | NodeClose | NodeSignal | NodeWait | NodeReopen

record gate =
  g_quiesced :: bool
  g_resumed :: bool
  g_sleepRequested :: bool
  g_sockets :: bool
  g_psc :: psc_pc
  g_node :: node_pc

definition gate_start :: gate where
  "gate_start = \<lparr>g_quiesced = False, g_resumed = False, g_sleepRequested = False, g_sockets = True,
     g_psc = PscIdle, g_node = NodeLoop\<rparr>"

text \<open>A step of the node thread; \<open>None\<close> while it blocks.\<close>

definition node_step :: "gate \<Rightarrow> gate option" where
  "node_step s =
     (case g_node s of
        NodeLoop \<Rightarrow> Some (if g_sleepRequested s then s\<lparr>g_node := NodeClose\<rparr> else s)
      | NodeClose \<Rightarrow> Some (s\<lparr>g_sockets := False, g_node := NodeSignal\<rparr>)
      | NodeSignal \<Rightarrow> Some (s\<lparr>g_quiesced := True, g_node := NodeWait\<rparr>)
      | NodeWait \<Rightarrow> if g_resumed s then Some (s\<lparr>g_node := NodeReopen\<rparr>) else None
      | NodeReopen \<Rightarrow> Some (s\<lparr>g_sockets := True, g_node := NodeLoop\<rparr>))"

text \<open>What decides a step of the power thread: the request it gets, or the timeout of its wait.\<close>

datatype psc_choice = SleepState | AwakeState | Go | Timeout

fun psc_accept :: "psc_choice \<Rightarrow> gate \<Rightarrow> gate option" where
  "psc_accept SleepState s = Some (s\<lparr>g_psc := PscClearQuiesced\<rparr>)"
| "psc_accept AwakeState s = Some (s\<lparr>g_psc := PscClearFlag\<rparr>)"
| "psc_accept _ s = None"

definition psc_step :: "psc_choice \<Rightarrow> gate \<Rightarrow> gate option" where
  "psc_step c s =
     (case g_psc s of
        PscIdle \<Rightarrow> psc_accept c s
      | PscAcked b \<Rightarrow> psc_accept c s
      | PscClearQuiesced \<Rightarrow> Some (s\<lparr>g_quiesced := False, g_psc := PscClearResumed\<rparr>)
      | PscClearResumed \<Rightarrow> Some (s\<lparr>g_resumed := False, g_psc := PscSetFlag\<rparr>)
      | PscSetFlag \<Rightarrow> Some (s\<lparr>g_sleepRequested := True, g_psc := PscWaiting\<rparr>)
      | PscWaiting \<Rightarrow>
          if c = Timeout then Some (s\<lparr>g_psc := PscAcked False\<rparr>)
          else if g_quiesced s then Some (s\<lparr>g_psc := PscAcked True\<rparr>) else None
      | PscClearFlag \<Rightarrow> Some (s\<lparr>g_sleepRequested := False, g_psc := PscSignal\<rparr>)
      | PscSignal \<Rightarrow> Some (s\<lparr>g_resumed := True, g_psc := PscIdle\<rparr>))"

text \<open>The states of a run, with or without waits that time out.\<close>

inductive gate_reach :: "bool \<Rightarrow> gate \<Rightarrow> bool" for timeouts where
  start: "gate_reach timeouts gate_start"
| node: "gate_reach timeouts s \<Longrightarrow> node_step s = Some t \<Longrightarrow> gate_reach timeouts t"
| psc: "gate_reach timeouts s \<Longrightarrow> psc_step c s = Some t \<Longrightarrow> (c = Timeout \<longrightarrow> timeouts) \<Longrightarrow>
    gate_reach timeouts t"

inductive_cases gate_reachE: "gate_reach timeouts s"

lemmas gate_steps = node_step_def psc_step_def

section \<open>Confirmed quiescence\<close>

text \<open>Which states occur while no wait has timed out.\<close>

definition gate_inv :: "gate \<Rightarrow> bool" where
  "gate_inv s \<longleftrightarrow>
     (g_node s \<in> {NodeSignal, NodeWait} \<longrightarrow> \<not> g_sockets s) \<and>
     (g_psc s \<noteq> PscWaiting \<longrightarrow> g_node s \<in> {NodeLoop, NodeWait, NodeReopen}) \<and>
     (g_psc s \<noteq> PscWaiting \<and> g_sleepRequested s \<longrightarrow> g_node s = NodeWait \<and> \<not> g_resumed s) \<and>
     (g_psc s \<in> {PscClearResumed, PscSetFlag} \<longrightarrow> \<not> g_quiesced s) \<and>
     (g_psc s \<in> {PscSetFlag, PscWaiting} \<longrightarrow> \<not> g_resumed s) \<and>
     (g_psc s = PscWaiting \<and> g_quiesced s \<longrightarrow> g_node s = NodeWait) \<and>
     (g_psc s = PscAcked True \<longrightarrow> g_node s = NodeWait \<and> \<not> g_resumed s) \<and>
     (g_psc s = PscSignal \<longrightarrow> \<not> g_sleepRequested s) \<and>
     g_psc s \<noteq> PscAcked False"

lemma gate_inv_start: "gate_inv gate_start"
  by (simp add: gate_inv_def gate_start_def)

lemma gate_inv_node: "gate_inv s \<Longrightarrow> node_step s = Some t \<Longrightarrow> gate_inv t"
  by (cases "g_node s"; cases "g_psc s")
    (clarsimp simp: gate_inv_def node_step_def split: if_splits)+

lemma gate_inv_psc: "gate_inv s \<Longrightarrow> psc_step c s = Some t \<Longrightarrow> c \<noteq> Timeout \<Longrightarrow> gate_inv t"
  by (cases "g_psc s"; cases "g_node s"; cases c)
    (clarsimp simp: gate_inv_def psc_step_def split: if_splits)+

lemma gate_reach_inv: "gate_reach False s \<Longrightarrow> gate_inv s"
  by (induction rule: gate_reach.induct)
    (auto intro: gate_inv_start gate_inv_node gate_inv_psc)

text \<open>
  C20. Confirmed quiescence is real.  As long as no wait has timed out, whenever the power thread has
  acknowledged a sleep the node thread is stopped in its wait with the sockets closed, and it cannot
  take a step until the resume: the only way out of that state is the power thread's.
\<close>

theorem quiesce_confirmed:
  assumes "gate_reach False s" and "g_psc s = PscAcked b"
  shows "b \<and> g_node s = NodeWait \<and> \<not> g_sockets s \<and> node_step s = None"
proof -
  have "gate_inv s" using assms(1) by (rule gate_reach_inv)
  with assms(2) show ?thesis by (cases b) (auto simp: gate_inv_def node_step_def)
qed

text \<open>A schedule: the steps of the two threads, in order.\<close>

datatype move = N | P psc_choice

fun schedule :: "move list \<Rightarrow> gate \<Rightarrow> gate option" where
  "schedule [] s = Some s"
| "schedule (N # ms) s = do { t \<leftarrow> node_step s; schedule ms t }"
| "schedule (P c # ms) s = do { t \<leftarrow> psc_step c s; schedule ms t }"

fun allowed :: "bool \<Rightarrow> move \<Rightarrow> bool" where
  "allowed timeouts (P Timeout) = timeouts"
| "allowed timeouts _ = True"

lemma allowed_False [simp]: "allowed False (P c) \<longleftrightarrow> c \<noteq> Timeout"
  by (cases c) auto

lemma schedule_reach:
  "gate_reach timeouts s \<Longrightarrow> schedule ms s = Some t \<Longrightarrow> list_all (allowed timeouts) ms \<Longrightarrow> gate_reach timeouts t"
proof (induction ms s rule: schedule.induct)
  case (2 ms s)
  then show ?case by (auto split: bind_splits intro: gate_reach.node)
next
  case (3 c ms s)
  then obtain u where u: "psc_step c s = Some u" "schedule ms u = Some t" by (auto split: bind_splits)
  have "c = Timeout \<longrightarrow> timeouts" using 3(4) by auto
  with 3 u show ?case by (auto intro: gate_reach.psc)
qed simp

definition sleep_cycle :: "move list" where
  "sleep_cycle = [P SleepState, P Go, P Go, P Go, N, N, N, P Go]"

lemma quiesce_confirmed_witness:
  "\<exists>s. schedule sleep_cycle gate_start = Some s \<and> g_psc s = PscAcked True \<and> g_node s = NodeWait"
proof -
  obtain s where s: "schedule sleep_cycle gate_start = Some s" "g_psc s = PscAcked True"
    by (simp add: sleep_cycle_def gate_start_def gate_steps)
  have "gate_reach False s"
    by (rule schedule_reach [OF gate_reach.start s(1)]) (simp add: sleep_cycle_def)
  from quiesce_confirmed [OF this s(2)] s show ?thesis by blast
qed

section \<open>Progress\<close>



section \<open>Where the handshake falls short\<close>

text \<open>
  A second sleep request without a resume in between (the power states come as a sequence) cannot
  be confirmed: \<^verbatim>\<open>RequestQuiesce\<close> clears \<^verbatim>\<open>g_quiesced\<close>, and the node thread, already stopped, never
  sets it again.  Whatever steps follow, the power thread waits until its timeout.
\<close>

theorem second_request_times_out:
  assumes "gate_reach False s" and "g_psc s = PscAcked True"
    and "schedule ([P SleepState, P Go, P Go, P Go] @ ms) s = Some t"
    and "list_all (allowed False) ms"
  shows "g_psc t = PscWaiting \<and> \<not> g_quiesced t \<and> g_node t = NodeWait"
proof -
  have inv: "gate_inv s" using assms(1) by (rule gate_reach_inv)
  define u where "u = s\<lparr>g_quiesced := False, g_resumed := False, g_sleepRequested := True, g_psc := PscWaiting\<rparr>"
  have "schedule ms u = Some t" using assms(2, 3) by (simp add: psc_step_def u_def)
  moreover have "g_psc u = PscWaiting" "\<not> g_quiesced u" "g_node u = NodeWait" "\<not> g_resumed u"
    using inv assms(2) by (simp_all add: u_def gate_inv_def)
  moreover have "node_step u = None" "c \<noteq> Timeout \<Longrightarrow> psc_step c u = None" for c
    using calculation(2-5) by (simp_all add: gate_steps)
  moreover have "ms = []"
  proof (cases ms)
    case (Cons m rest)
    with calculation assms(4) show ?thesis by (cases m) auto
  qed
  ultimately show ?thesis by simp
qed

lemma second_request_times_out_witness:
  "\<exists>s t. schedule sleep_cycle gate_start = Some s \<and> schedule [P SleepState, P Go, P Go, P Go] s = Some t \<and>
     g_psc t = PscWaiting \<and> \<not> g_quiesced t"
proof -
  obtain s where s: "schedule sleep_cycle gate_start = Some s" "g_psc s = PscAcked True"
    by (simp add: sleep_cycle_def gate_start_def gate_steps)
  have r: "gate_reach False s"
    by (rule schedule_reach [OF gate_reach.start s(1)]) (simp add: sleep_cycle_def)
  obtain t where t: "schedule ([P SleepState, P Go, P Go, P Go] @ []) s = Some t"
    using s(2) by (simp add: psc_step_def)
  from second_request_times_out [OF r s(2) t] s(1) t show ?thesis by auto
qed

text \<open>
  After a wait that timed out, a later confirmation can be stale: the node thread signals between
  the two clears of the next \<^verbatim>\<open>RequestQuiesce\<close> and runs on past its wait on the old resume, and the
  power thread acknowledges the sleep as confirmed while the node thread is back in its loop with the
  sockets open.
\<close>

definition stale_schedule :: "move list" where
  "stale_schedule =
     [P SleepState, P Go, P Go, P Go, N, N, P Timeout, P AwakeState, P Go, P Go,
      P SleepState, P Go, N, N, N, P Go, P Go, P Go]"

theorem stale_confirmation:
  "\<exists>s. schedule stale_schedule gate_start = Some s \<and> gate_reach True s \<and>
    g_psc s = PscAcked True \<and> g_node s = NodeLoop \<and> g_sockets s"
proof -
  obtain s where s: "schedule stale_schedule gate_start = Some s" "g_psc s = PscAcked True"
    "g_node s = NodeLoop" "g_sockets s"
    by (simp add: stale_schedule_def gate_start_def gate_steps)
  have "gate_reach True s"
    by (rule schedule_reach [OF gate_reach.start s(1)]) (simp add: stale_schedule_def)
  with s show ?thesis by blast
qed

end
