(* ===== verification/Logs.thy ===== *)
theory Logs
  imports Prelude "HOL-Library.Char_ord"
begin

text \<open>
  The two logs of \<^verbatim>\<open>source/zt_port.cpp\<close> kept in memory: the boot trace, a buffer that is appended to
  until it is nearly full, and the event log, a ring of lines whose end is rewritten to
  \<^verbatim>\<open>uplink.log\<close> at every event.  Formatting is done by the caller: the prefix with the tick and the
  message are arguments.
\<close>

abbreviation (input) nul :: char where "nul \<equiv> CHR 0x00"
abbreviation (input) nl :: char where "nl \<equiv> CHR 0x0A"

section \<open>The boot trace\<close>

definition TraceCapacity :: nat where "TraceCapacity = 4096"

record trace =
  g_trace :: string
  g_traceLen :: nat

definition trace_start :: trace where
  "trace_start = \<lparr>g_trace = replicate TraceCapacity nul, g_traceLen = 0\<rparr>"

text \<open>
  \<^verbatim>\<open>snprintf(buf + off, size, ...)\<close> of a text: what fits with its terminator is written; the result
  is the length of the whole text.
\<close>

definition snprintf :: "string \<Rightarrow> nat \<Rightarrow> nat \<Rightarrow> string \<Rightarrow> string option" where
  "snprintf buf off room text =
     (if room = 0 then Some buf else memcpy buf off (take (room - 1) text @ [nul]))"

definition Trace :: "string \<Rightarrow> string \<Rightarrow> trace \<Rightarrow> trace option" where
  "Trace prefix msg t =
     (if TraceCapacity \<le> g_traceLen t + 128 then Some t
      else do {
        b1 \<leftarrow> snprintf (g_trace t) (g_traceLen t) (TraceCapacity - g_traceLen t) prefix;
        let n1 = g_traceLen t + length prefix;
        b2 \<leftarrow> snprintf b1 n1 (TraceCapacity - n1) msg;
        let n2 = n1 + length msg;
        (b3, n3) \<leftarrow> (if n2 < TraceCapacity - 1
                    then map_option (\<lambda>b. (b, n2 + 1)) (aset b2 (int n2) nl) else Some (b2, n2));
        b4 \<leftarrow> aset b3 (int n3) nul;
        Some \<lparr>g_trace = b4, g_traceLen = n3\<rparr> })"

definition trace_inv :: "trace \<Rightarrow> bool" where
  "trace_inv t \<longleftrightarrow> length (g_trace t) = TraceCapacity \<and> g_traceLen t < TraceCapacity"

definition trace_text :: "trace \<Rightarrow> string" where
  "trace_text t = take (g_traceLen t) (g_trace t)"

lemma snprintf_fits:
  "off + length text < length buf \<Longrightarrow> room = length buf - off \<Longrightarrow>
   snprintf buf off room text = Some (take off buf @ text @ [nul] @ drop (Suc (off + length text)) buf)"
  by (simp add: snprintf_def)

lemma trace_fits:
  assumes "trace_inv t" and "g_traceLen t + 128 < TraceCapacity"
    and "g_traceLen t + length prefix + length msg < TraceCapacity"
  obtains u where "Trace prefix msg t = Some u" "trace_inv u"
    "trace_text u = trace_text t @ prefix @ msg @
       (if g_traceLen t + length prefix + length msg < TraceCapacity - 1 then [nl] else [])"
proof -
  let ?l = "g_traceLen t" and ?b = "g_trace t"
  let ?n = "?l + length prefix + length msg"
  have len: "length ?b = 4096" "?l < 4096" using assms(1) by (simp_all add: trace_inv_def TraceCapacity_def)
  have fits: "?n < 4096" using assms(3) by (simp add: TraceCapacity_def)
  define b1 where "b1 = take ?l ?b @ prefix @ [nul] @ drop (Suc (?l + length prefix)) ?b"
  have s1: "snprintf ?b ?l (4096 - ?l) prefix = Some b1"
    unfolding b1_def by (rule snprintf_fits) (use len fits in simp_all)
  have l1: "length b1 = 4096" using len fits by (simp add: b1_def)
  have t1: "take (?l + length prefix) b1 = take ?l ?b @ prefix" using len by (simp add: b1_def)
  define b2 where "b2 = take (?l + length prefix) b1 @ msg @ [nul] @ drop (Suc ?n) b1"
  have s2: "snprintf b1 (?l + length prefix) (4096 - (?l + length prefix)) msg = Some b2"
    unfolding b2_def by (rule snprintf_fits) (use l1 fits in simp_all)
  have l2: "length b2 = 4096" using l1 fits by (simp add: b2_def)
  have t2: "take ?n b2 = take ?l ?b @ prefix @ msg" unfolding b2_def t1 using len by simp
  show ?thesis
  proof (cases "?n < 4095")
    case True
    define u where "u = \<lparr>g_trace = (b2[?n := nl])[?n + 1 := nul], g_traceLen = ?n + 1\<rparr>"
    have "Trace prefix msg t = Some u"
      using assms(2) s1 s2 True aset_int [of ?n b2 nl] aset_int [of "?n + 1" "b2[?n := nl]" nul] l2
      by (simp add: Trace_def TraceCapacity_def u_def Let_def del: of_nat_add aset_in aset_int)
    moreover have "trace_inv u" using True l2 by (simp add: u_def trace_inv_def TraceCapacity_def)
    moreover have "take (?n + 1) (b2[?n := nl]) = take ?n b2 @ [nl]"
      using True l2 by (simp add: take_Suc_conv_app_nth)
    then have "trace_text u = trace_text t @ prefix @ msg @ [nl]"
      using t2 by (simp add: u_def trace_text_def)
    ultimately show ?thesis using True that by (simp add: TraceCapacity_def)
  next
    case False
    define u where "u = \<lparr>g_trace = b2[?n := nul], g_traceLen = ?n\<rparr>"
    have "Trace prefix msg t = Some u"
      using assms(2) s1 s2 False fits aset_int [of ?n b2 nul] l2
      by (simp add: Trace_def TraceCapacity_def u_def Let_def del: of_nat_add aset_in aset_int)
    moreover have "trace_inv u" using fits l2 by (simp add: u_def trace_inv_def TraceCapacity_def)
    moreover have "trace_text u = trace_text t @ prefix @ msg"
      using t2 by (simp add: u_def trace_text_def)
    ultimately show ?thesis using False that by (simp add: TraceCapacity_def)
  qed
qed

text \<open>
  Tracing stays within its buffer: with a prefix of at most 23 characters (the longest
  \<^verbatim>\<open>%6llu\<close> in brackets) and a message of at most 105, the longest one of the module, every call
  returns, keeps the invariant, and either appends the whole line or, when fewer than 129 bytes are
  left, drops it whole; nothing already logged changes.
\<close>

theorem trace_bounded:
  assumes "trace_inv t" and "length prefix \<le> 23" and "length msg \<le> 105"
  shows "\<exists>u. Trace prefix msg t = Some u \<and> trace_inv u \<and>
    (trace_text u = trace_text t \<or> (\<exists>e. (e = [nl] \<or> e = []) \<and> trace_text u = trace_text t @ prefix @ msg @ e))"
proof (cases "TraceCapacity \<le> g_traceLen t + 128")
  case True
  then show ?thesis using assms(1) by (simp add: Trace_def)
next
  case False
  then have room: "g_traceLen t + 128 < TraceCapacity" by simp
  have "g_traceLen t + length prefix + length msg \<le> g_traceLen t + 128"
    using assms(2, 3) by linarith
  then have fits: "g_traceLen t + length prefix + length msg < TraceCapacity" using room by linarith
  obtain u where "Trace prefix msg t = Some u" "trace_inv u"
    "trace_text u = trace_text t @ prefix @ msg @
       (if g_traceLen t + length prefix + length msg < TraceCapacity - 1 then [nl] else [])"
    by (rule trace_fits [OF assms(1) room fits])
  then show ?thesis by auto
qed

lemma trace_bounded_witness:
  "\<exists>u. Trace ''[    12] '' ''init: sm'' trace_start = Some u \<and> trace_inv u"
  using trace_bounded [of trace_start "''[    12] ''" "''init: sm''"]
  by (auto simp: trace_inv_def trace_start_def TraceCapacity_def)

section \<open>The event log\<close>

definition EventLines :: nat where "EventLines = 48"
definition EventLineLen :: nat where "EventLineLen = 96"

record event_log =
  g_events :: "string list"
  g_eventCount :: nat

definition events_start :: event_log where
  "events_start = \<lparr>g_events = replicate EventLines [], g_eventCount = 0\<rparr>"

text \<open>A line as the two \<^verbatim>\<open>snprintf\<close> calls leave it in its slot: the C string up to the terminator.\<close>

definition event_line :: "string \<Rightarrow> string \<Rightarrow> string" where
  "event_line prefix msg =
     (let n = (if length prefix < EventLineLen then length prefix else 0)
      in take n prefix @ take (EventLineLen - 1 - n) msg)"

text \<open>
  The loop that gathers the lines of a ring of \<open>n\<close> lines of \<open>w\<close> characters from index \<open>i\<close> on, while another
  line fits; the text so far is \<open>acc\<close>.  The same loop gathers the two logs of the interposers.
\<close>

function gather :: "nat \<Rightarrow> nat \<Rightarrow> string list \<Rightarrow> nat \<Rightarrow> nat \<Rightarrow> string \<Rightarrow> string" where
  "gather n w evs i count acc =
     (if i < count \<and> length acc + w + 2 < n * w + 64
      then gather n w evs (i + 1) count (acc @ evs ! (i mod n) @ [nl])
      else acc)"
  by pat_completeness auto
termination by (relation "measure (\<lambda>(n, w, evs, i, count, acc). count - i)") auto

declare gather.simps [simp del]

definition render :: "string list \<Rightarrow> nat \<Rightarrow> nat \<Rightarrow> string \<Rightarrow> string" where
  "render = gather EventLines EventLineLen"

text \<open>\<^verbatim>\<open>Event\<close>: the new log and the text written to \<^verbatim>\<open>uplink.log\<close>.\<close>

definition Event :: "string \<Rightarrow> string \<Rightarrow> event_log \<Rightarrow> event_log \<times> string" where
  "Event prefix msg l =
     (let evs = (g_events l)[g_eventCount l mod EventLines := event_line prefix msg];
          count = g_eventCount l + 1;
          first = (if EventLines < count then count - EventLines else 0)
      in (\<lparr>g_events = evs, g_eventCount = count\<rparr>, render evs first count []))"

fun events :: "(string \<times> string) list \<Rightarrow> event_log \<Rightarrow> string \<Rightarrow> event_log \<times> string" where
  "events [] l file = (l, file)"
| "events ((p, m) # es) l file = (case Event p m l of (l1, file1) \<Rightarrow> events es l1 file1)"

definition lines_of :: "(string \<times> string) list \<Rightarrow> string list" where
  "lines_of es = map (\<lambda>(p, m). event_line p m) es"

definition file_of :: "string list \<Rightarrow> string" where
  "file_of ls = concat (map (\<lambda>l. l @ [nl]) ls)"

lemma event_line_length: "length (event_line p m) < EventLineLen"
  by (auto simp: event_line_def EventLineLen_def Let_def)

text \<open>The ring holds the last lines of the history, each at its index modulo the size.\<close>

definition ring_holds :: "nat \<Rightarrow> string list \<Rightarrow> string list \<Rightarrow> bool" where
  "ring_holds n h evs \<longleftrightarrow> length evs = n \<and> (\<forall>i < length h. length h \<le> i + n \<longrightarrow> evs ! (i mod n) = h ! i)"

lemma ring_holds_add:
  assumes "ring_holds n h evs" and "0 < n"
  shows "ring_holds n (h @ [x]) (evs[length h mod n := x])"
proof -
  let ?evs = "evs[length h mod n := x]"
  have l: "length evs = n" "\<And>i. i < length h \<Longrightarrow> length h \<le> i + n \<Longrightarrow> evs ! (i mod n) = h ! i"
    using assms(1) by (auto simp: ring_holds_def)
  have "?evs ! (i mod n) = (h @ [x]) ! i" if "i < Suc (length h)" "Suc (length h) \<le> i + n" for i
  proof (cases "i = length h")
    case True
    then show ?thesis using l(1) assms(2) by simp
  next
    case False
    with that have i: "i < length h" "length h < i + n" by simp_all
    have "i mod n \<noteq> length h mod n"
    proof
      assume "i mod n = length h mod n"
      then have "n dvd length h - i" using i by (metis mod_eq_dvd_iff_nat less_imp_le)
      moreover have "0 < length h - i" "length h - i < n" using i by simp_all
      ultimately show False by (meson dvd_imp_le not_le)
    qed
    with l(2) [of i] i show ?thesis by (simp add: nth_append)
  qed
  with l(1) show ?thesis by (simp add: ring_holds_def)
qed

lemma gather_from:
  assumes "ring_holds n h evs" and "\<forall>l \<in> set h. length l < w"
    and "length h - n \<le> i" and "i \<le> length h" and "length acc \<le> (i - (length h - n)) * w"
  shows "gather n w evs i (length h) acc = acc @ file_of (drop i h)"
  using assms(3-5)
proof (induction "length h - i" arbitrary: i acc)
  case 0
  then show ?case by (subst gather.simps) (simp add: file_of_def)
next
  case (Suc m)
  let ?f = "length h - n"
  from Suc have i: "i < length h" by simp
  have "Suc (i - ?f) \<le> n" using Suc.prems i by linarith
  then have "Suc (i - ?f) * w \<le> n * w" by (rule mult_le_mono1)
  with Suc.prems(3) have room: "length acc + w + 2 < n * w + 64" by simp
  let ?acc = "acc @ evs ! (i mod n) @ [nl]"
  have line: "evs ! (i mod n) = h ! i" using assms(1) i Suc.prems(1) by (simp add: ring_holds_def)
  have "length (h ! i) < w" using assms(2) i by simp
  with Suc.prems(3) have len: "length ?acc \<le> (Suc i - ?f) * w"
    using Suc.prems(1) by (simp add: line Suc_diff_le)
  have "gather n w evs i (length h) acc = gather n w evs (i + 1) (length h) ?acc"
    using i room by (subst gather.simps) simp
  also have "\<dots> = ?acc @ file_of (drop (Suc i) h)"
    using Suc.hyps(1) [of "Suc i" ?acc] Suc.hyps(2) Suc.prems i len by simp
  also have "\<dots> = acc @ file_of (drop i h)"
    using i by (simp add: line file_of_def flip: Cons_nth_drop_Suc)
  finally show ?case .
qed

lemma first_line: "(if n < c then c - n else 0) = c - (n :: nat)"
  by simp

lemma gather_ring:
  "ring_holds n h evs \<Longrightarrow> \<forall>l \<in> set h. length l < w \<Longrightarrow>
   gather n w evs (if n < length h then length h - n else 0) (length h) [] = file_of (drop (length h - n) h)"
  unfolding first_line using gather_from [of n h evs w "length h - n" "[]"] by simp

definition log_holds :: "string list \<Rightarrow> event_log \<Rightarrow> bool" where
  "log_holds h l \<longleftrightarrow> ring_holds EventLines h (g_events l) \<and> g_eventCount l = length h"

lemma event_step:
  assumes "log_holds h l" and "\<forall>x \<in> set h. length x < EventLineLen"
  shows "log_holds (h @ [event_line p m]) (fst (Event p m l)) \<and>
    snd (Event p m l) = file_of (drop (Suc (length h) - EventLines) (h @ [event_line p m]))"
proof -
  let ?h = "h @ [event_line p m]"
  have "0 < EventLines" by (simp add: EventLines_def)
  then have ring: "ring_holds EventLines ?h ((g_events l)[g_eventCount l mod EventLines := event_line p m])"
    using assms(1) ring_holds_add by (auto simp: log_holds_def)
  moreover have "\<forall>x \<in> set ?h. length x < EventLineLen" using assms(2) event_line_length by auto
  note gather_ring [OF ring this]
  ultimately show ?thesis using assms(1) unfolding Event_def first_line by (simp add: log_holds_def render_def Let_def first_line)
qed

text \<open>
  The event log is the end of the history: after any sequence of events the file holds the last 48
  lines, oldest first, each the prefix and message cut at 95 characters, and no line twice.
\<close>

theorem event_log_tail:
  assumes "es \<noteq> []"
  shows "snd (events es events_start f0) = file_of (drop (length es - EventLines) (lines_of es))"
proof -
  have "log_holds (h @ lines_of es) (fst (events es l f0)) \<and>
      (es \<noteq> [] \<longrightarrow> snd (events es l f0) =
         file_of (drop (length (h @ lines_of es) - EventLines) (h @ lines_of es)))"
    if "log_holds h l" "\<forall>x \<in> set h. length x < EventLineLen" for h l f0
    using that
  proof (induction es arbitrary: h l f0)
    case (Cons e es)
    obtain p m where e: "e = (p, m)" by (cases e)
    obtain l1 f1 where E: "Event p m l = (l1, f1)" by (cases "Event p m l")
    from event_step [OF Cons.prems, of p m] have s: "log_holds (h @ [event_line p m]) l1"
      "f1 = file_of (drop (Suc (length h) - EventLines) (h @ [event_line p m]))" by (simp_all add: E)
    have "\<forall>x \<in> set (h @ [event_line p m]). length x < EventLineLen"
      using Cons.prems(2) event_line_length by auto
    from Cons.IH [OF s(1) this, of f1] s(2) show ?case
      by (cases es) (simp_all add: e E lines_of_def)
  qed (simp add: lines_of_def)
  from this [of "[]" events_start f0] assms show ?thesis
    by (simp add: log_holds_def ring_holds_def events_start_def lines_of_def)
qed

lemma event_log_tail_witness:
  "snd (events [(''[1] '', ''ONLINE''), (''[2] '', ''DOWN'')] events_start []) =
   ''[1] ONLINE'' @ [nl] @ ''[2] DOWN'' @ [nl]"
  using event_log_tail [of "[(''[1] '', ''ONLINE''), (''[2] '', ''DOWN'')]" "[]"]
  by (simp add: file_of_def lines_of_def event_line_def EventLineLen_def EventLines_def Let_def)

end
