(* ===== verification/StateStore.thy ===== *)
theory StateStore
  imports IniConfig
begin

text \<open>
  State on the SD card (\<^verbatim>\<open>source/zt_port.cpp\<close>): the file of each object of ZeroTier's core, reading and
  writing it, and the text files of the configuration.  The card is a map from paths to contents;
  which of its operations fail is an argument.
\<close>

section \<open>The card\<close>

record fs_result =
  x_create :: bool
  x_open :: bool
  x_write :: bool
  x_size :: bool
  x_read :: bool

definition fs_fine :: fs_result where
  "fs_fine = \<lparr>x_create = True, x_open = True, x_write = True, x_size = True, x_read = True\<rparr>"

type_synonym 'c card = "string \<Rightarrow> 'c list option"

text \<open>
  The sequence both writers share: delete, create with the length, open, write.  \<open>blank\<close> is what a
  file holds that was created and not, or not completely, written.
\<close>

definition replace_file :: "fs_result \<Rightarrow> 'c list \<Rightarrow> string \<Rightarrow> 'c list \<Rightarrow> 'c card \<Rightarrow> 'c card \<times> bool" where
  "replace_file x blank path data fs =
     (let fs1 = fs(path := None) in
      if \<not> x_create x then (fs1, False)
      else let fs2 = fs1(path \<mapsto> blank) in
        if \<not> x_open x then (fs2, False)
        else if \<not> x_write x then (fs2, False)
        else (fs2(path \<mapsto> data), True))"

text \<open>\<^verbatim>\<open>WriteWholeFile\<close>, with the counter of failures.\<close>

definition WriteWholeFile ::
  "fs_result \<Rightarrow> string \<Rightarrow> string \<Rightarrow> string \<Rightarrow> char card \<times> nat \<Rightarrow> (char card \<times> nat) \<times> bool" where
  "WriteWholeFile x blank path text s =
     (case replace_file x blank path text (fst s) of
        (fs, ok) \<Rightarrow> ((fs, if ok then snd s else snd s + 1), ok))"

text \<open>\<^verbatim>\<open>ReadWholeFile\<close> into a buffer of \<open>cap\<close> characters.\<close>

definition ReadWholeFile :: "fs_result \<Rightarrow> nat \<Rightarrow> string \<Rightarrow> 'c card \<Rightarrow> 'c list option" where
  "ReadWholeFile x cap path fs =
     (case fs path of
        None \<Rightarrow> None
      | Some data \<Rightarrow>
          if x_open x \<and> x_size x \<and> length data < cap \<and> x_read x then Some data else None)"

definition ConfigFileCapacity :: nat where "ConfigFileCapacity = 4096"

section \<open>Names of the objects\<close>

datatype state_object = IdentityPublic | IdentitySecret | Planet | NetworkConfig | Peer | OtherObject

text \<open>\<^verbatim>\<open>%.<k>llx\<close>: at least \<open>k\<close> hexadecimal digits.\<close>

fun digits_for :: "nat \<Rightarrow> nat \<Rightarrow> u64 \<Rightarrow> nat" where
  "digits_for 0 k v = k"
| "digits_for (Suc n) k v = (if drop_bit (4 * k) v = 0 then k else digits_for n (k + 1) v)"

definition hex_fmt :: "nat \<Rightarrow> u64 \<Rightarrow> string" where
  "hex_fmt k v = hex_digits (digits_for (16 - k) k v) v"

definition StateRoot :: string where
  "StateRoot = ''sdmc:/atmosphere/contents/4200000000005A54/zt''"

definition StatePath :: "state_object \<Rightarrow> u64 \<Rightarrow> string option" where
  "StatePath type ident =
     (case type of
        IdentityPublic \<Rightarrow> Some (StateRoot @ ''/identity.public'')
      | IdentitySecret \<Rightarrow> Some (StateRoot @ ''/identity.secret'')
      | Planet \<Rightarrow> Some (StateRoot @ ''/planet'')
      | NetworkConfig \<Rightarrow> Some (StateRoot @ ''/networks.d/'' @ hex_fmt 16 ident @ ''.conf'')
      | Peer \<Rightarrow> Some (StateRoot @ ''/peers.d/'' @ hex_fmt 10 ident @ ''.peer'')
      | OtherObject \<Rightarrow> None)"

section \<open>The callbacks\<close>

text \<open>\<^verbatim>\<open>cbStateGet\<close>: the data, or \<open>None\<close> for the code's \<open>-1\<close>.\<close>

definition cbStateGet :: "fs_result \<Rightarrow> state_object \<Rightarrow> u64 \<Rightarrow> nat \<Rightarrow> u8 card \<Rightarrow> u8 list option" where
  "cbStateGet x type ident maxlen fs =
     (case StatePath type ident of
        None \<Rightarrow> None
      | Some path \<Rightarrow>
          (case fs path of
             None \<Rightarrow> None
           | Some data \<Rightarrow>
               if x_open x \<and> x_size x \<and> length data \<le> maxlen \<and> x_read x then Some data else None))"

text \<open>\<^verbatim>\<open>cbStatePut\<close>: \<open>None\<close> for the data is a negative length, which deletes.\<close>

definition cbStatePut ::
  "fs_result \<Rightarrow> u8 list \<Rightarrow> state_object \<Rightarrow> u64 \<Rightarrow> u8 list option \<Rightarrow> u8 card \<Rightarrow> u8 card" where
  "cbStatePut x blank type ident data fs =
     (case StatePath type ident of
        None \<Rightarrow> fs
      | Some path \<Rightarrow>
          (case data of
             None \<Rightarrow> fs(path := None)
           | Some d \<Rightarrow> fst (replace_file x blank path d fs)))"

section \<open>Distinct objects have distinct files\<close>

lemma digits_for_le: "k \<le> 16 \<Longrightarrow> digits_for (16 - k) k v \<le> 16 \<and> drop_bit (4 * digits_for (16 - k) k v) v = 0"
proof -
  have "drop_bit (4 * digits_for n k v) v = 0 \<and> digits_for n k v \<le> k + n" if "k + n = 16" for n k
    using that
  proof (induction n arbitrary: k)
    case 0
    have "drop_bit 64 v = 0" by (rule bit_eqI) (auto simp: bit_simps dest: bit_imp_le_length)
    with 0 show ?case by simp
  qed auto
  from this [of k "16 - k"] show "k \<le> 16 \<Longrightarrow> ?thesis" by simp
qed

lemma hex_fmt_read:
  assumes "k \<le> 16"
  shows "hex_run (length (hex_fmt k v)) (hex_fmt k v @ rest) 0 0 = (v, length (hex_fmt k v))"
  using hex_run_digits [of "digits_for (16 - k) k v" v rest 0] digits_for_le [OF assms, of v]
  by (simp add: hex_fmt_def)

lemma hex_fmt_inj: "k \<le> 16 \<Longrightarrow> hex_fmt k v = hex_fmt k w \<Longrightarrow> v = w"
  using hex_fmt_read [of k v "[]"] hex_fmt_read [of k w "[]"] by simp

lemma hex_fmt_eq [simp]: "k \<le> 16 \<Longrightarrow> hex_fmt k v = hex_fmt k w \<longleftrightarrow> v = w"
  using hex_fmt_inj by blast

lemma state_path_suffix:
  "StatePath IdentityPublic i = Some (StateRoot @ CHR ''/'' # CHR ''i'' # ''dentity.public'')"
  "StatePath IdentitySecret i = Some (StateRoot @ CHR ''/'' # CHR ''i'' # ''dentity.secret'')"
  "StatePath Planet i = Some (StateRoot @ CHR ''/'' # CHR ''p'' # CHR ''l'' # ''anet'')"
  "StatePath NetworkConfig i = Some (StateRoot @ CHR ''/'' # CHR ''n'' # ''etworks.d/'' @ hex_fmt 16 i @ ''.conf'')"
  "StatePath Peer i = Some (StateRoot @ CHR ''/'' # CHR ''p'' # CHR ''e'' # ''ers.d/'' @ hex_fmt 10 i @ ''.peer'')"
  by (simp_all add: StatePath_def)

definition keyed :: "state_object \<Rightarrow> bool" where
  "keyed type \<longleftrightarrow> type = NetworkConfig \<or> type = Peer"

lemma StatePath_inj:
  assumes "StatePath t i = Some path" and "StatePath u j = Some path"
  shows "t = u \<and> (keyed t \<longrightarrow> i = j)"
proof -
  have "StatePath t i = StatePath u j" "StatePath t i \<noteq> None" using assms by simp_all
  then show ?thesis
    by (cases t; cases u) (simp_all add: state_path_suffix keyed_def, simp_all add: StatePath_def)
qed

section \<open>Properties\<close>

text \<open>
  C35. State persists: on a working card an object that the core stores is what it gets back, if its
  buffer is large enough, and any other object is untouched; a negative length removes it.  Objects
  of the kinds that have no file are ignored.
\<close>

theorem state_roundtrip:
  assumes "t \<noteq> OtherObject" and "length d \<le> maxlen" and "t \<noteq> u \<or> (keyed t \<and> i \<noteq> j)"
  shows "cbStateGet fs_fine t i maxlen (cbStatePut fs_fine blank t i (Some d) fs) = Some d \<and>
    cbStateGet y u j n (cbStatePut x blank t i (Some d) fs) = cbStateGet y u j n fs \<and>
    cbStateGet fs_fine t i maxlen (cbStatePut x blank t i None fs) = None"
proof -
  obtain path where p: "StatePath t i = Some path"
    using assms(1) by (cases t) (auto simp: StatePath_def)
  have "path2 \<noteq> path" if "StatePath u j = Some path2" for path2
    using StatePath_inj [OF p, of u j] that assms(3) by auto
  then show ?thesis
    using p assms(2)
    by (auto simp: cbStateGet_def cbStatePut_def replace_file_def fs_fine_def Let_def split: option.split)
qed

lemma state_roundtrip_witness:
  "cbStateGet fs_fine Peer 0x1d71939404 100
     (cbStatePut fs_fine [] Peer 0x1d71939404 (Some [1, 2, 3]) (\<lambda>_. None)) = Some [1, 2, 3]"
  using state_roundtrip [of Peer "[1, 2, 3]" 100 Planet] by simp

text \<open>
  C36. A failed write does not keep the old state: the file is deleted before the new one is created,
  so when the card refuses the new file or the write, the object that was stored before is gone,
  the identity of the node included.
\<close>

theorem failed_put_loses_state:
  assumes "t \<noteq> OtherObject" and "\<not> (x_create x \<and> x_open x \<and> x_write x)" and "old \<noteq> blank"
    and "cbStateGet fs_fine t i maxlen fs = Some old"
  shows "cbStateGet fs_fine t i maxlen (cbStatePut x blank t i (Some d) fs) \<noteq> Some old \<and>
    (\<not> x_create x \<longrightarrow> cbStateGet y t i n (cbStatePut x blank t i (Some d) fs) = None)"
proof -
  obtain path where p: "StatePath t i = Some path"
    using assms(1) by (cases t) (auto simp: StatePath_def)
  with assms(2-4) show ?thesis
    by (auto simp: cbStateGet_def cbStatePut_def replace_file_def fs_fine_def Let_def split: option.splits if_splits)
qed

lemma failed_put_loses_state_witness:
  "cbStateGet fs_fine IdentitySecret 0 100
     (cbStatePut (fs_fine\<lparr>x_create := False\<rparr>) [] IdentitySecret 0 (Some [9])
       (\<lambda>_. Some [7])) \<noteq> Some [7]"
  using failed_put_loses_state [of IdentitySecret "fs_fine\<lparr>x_create := False\<rparr>" "[7]" "[]" 0 100 "\<lambda>_. Some [7]" "[9]"]
  by (simp add: cbStateGet_def StatePath_def fs_fine_def)

lemma template_length: "length ConfigTemplate < ConfigFileCapacity"
proof -
  have "foldl (\<lambda>n l. n + (length l + 1)) 0 TemplateLines < (4096 :: nat)" by code_simp
  moreover have "foldl (\<lambda>n l. n + (length l + 1)) a ls = a + length (concat (map (\<lambda>l. l @ [newline]) ls))" for a ls
    by (induction ls arbitrary: a) simp_all
  ultimately show ?thesis by (simp add: ConfigTemplate_def ConfigFileCapacity_def)
qed

definition config_path :: string where
  "config_path = ''sdmc:/config/sys-zerotier/config.ini''"

text \<open>
  A fresh card ends up with a configuration the module can read: the template it writes fits the
  buffer of the reader, is read back character by character, and a line for the network id appended
  to it selects that network.
\<close>

theorem template_readable:
  assumes "v \<noteq> 0"
  shows "(case WriteWholeFile fs_fine blank config_path ConfigTemplate s of ((fs, fails), ok) \<Rightarrow>
      ok \<and> fails = snd s \<and> ReadWholeFile fs_fine ConfigFileCapacity config_path fs = Some ConfigTemplate) \<and>
    ResolveConfiguredNetworkId (Some (ConfigTemplate @ assign ''nwid'' (hex16 v) @ [newline])) None = Some v"
proof -
  have "TemplateLines \<noteq> []" by (simp add: TemplateLines_def)
  then obtain ls l where eq: "TemplateLines = ls @ [l]" by (metis rev_exhaust)
  have ends: "ends_line ConfigTemplate"
    unfolding ConfigTemplate_def eq by (simp add: ends_line_def)
  have new: "newline \<notin> set (assign ''nwid'' (hex16 v))" by (simp add: assign_def)
  have "file_lines (ConfigTemplate @ assign ''nwid'' (hex16 v) @ [newline]) =
      file_lines ConfigTemplate @ [assign ''nwid'' (hex16 v)]"
    using file_lines_line [OF new, of "[]"] by (simp add: file_lines_append ends)
  then have nw: "ParseNwid False (ConfigTemplate @ assign ''nwid'' (hex16 v) @ [newline]) = Some v"
    by (simp add: ParseNwid_last nwid_line_hex16 [OF assms] Let_def List.map_filter_def)
  show ?thesis
    using template_length nw
    by (simp add: WriteWholeFile_def ReadWholeFile_def replace_file_def fs_fine_def Let_def
        ResolveConfiguredNetworkId_def split: option.split)
qed

lemma template_readable_witness:
  "ResolveConfiguredNetworkId (Some (ConfigTemplate @ assign ''nwid'' (hex16 0x8056c2e21c000001) @ [newline])) None =
     Some 0x8056c2e21c000001"
  using template_readable [of "0x8056c2e21c000001"] by simp

end
