(* ===== verification/NatMapper.thy ===== *)
theory NatMapper
  imports Prelude
begin

text \<open>
  The port-mapping worker (\<^verbatim>\<open>source/nat_mapper.cpp\<close>) and its glue below the vendored NAT-PMP and UPnP
  libraries (\<^verbatim>\<open>compat/nat/support.c\<close>).  The libraries, the router and the clock are not in the
  repository: their answers are arguments.
\<close>

section \<open>Requests and results\<close>

text \<open>
  \<open>n_desired\<close> is the request of the node thread, a generation above a port; the worker serves the one
  it copied into \<open>n_active\<close> and publishes its result under it.
\<close>

record mapper =
  n_desired :: u64
  n_active :: u64
  n_endpoint :: "u32 \<times> u16"
  n_generation :: u64
  n_expiry :: int
  n_deadline :: int
  n_gateway :: u32
  n_prev_ip :: u32
  n_prev_gateway :: u32
  n_prev_generation :: u64
  n_retry_at :: int

definition mapper_start :: mapper where
  "mapper_start = \<lparr>n_desired = 0, n_active = 0, n_endpoint = (0, 0), n_generation = 0, n_expiry = 0,
     n_deadline = 0, n_gateway = 0, n_prev_ip = 0, n_prev_gateway = 0, n_prev_generation = 0, n_retry_at = 0\<rparr>"

definition ConfigureNatMapper :: "u16 \<Rightarrow> mapper \<Rightarrow> mapper" where
  "ConfigureNatMapper port m =
     (let old = n_desired m in
      if (ucast old :: u16) \<noteq> port
      then m\<lparr>n_desired := push_bit 16 (drop_bit 16 old + 1) OR ucast port\<rparr> else m)"

definition Publish :: "u32 \<times> u16 \<Rightarrow> int \<Rightarrow> mapper \<Rightarrow> mapper" where
  "Publish v expiry m = m\<lparr>n_endpoint := v, n_generation := n_active m, n_expiry := expiry\<rparr>"

definition GetNatEndpoint :: "int \<Rightarrow> mapper \<Rightarrow> u32 \<times> u16" where
  "GetNatEndpoint now m =
     (if n_generation m \<noteq> n_desired m \<or> n_expiry m \<le> now then (0, 0) else n_endpoint m)"

definition nat_cancelled :: "int \<Rightarrow> bool \<Rightarrow> mapper \<Rightarrow> bool" where
  "nat_cancelled now sleeping m \<longleftrightarrow> n_desired m \<noteq> n_active m \<or> sleeping \<or> n_deadline m \<le> now"

text \<open>
  A turn of the worker in the three parts between which the node thread may act: taking the request,
  looking up the route, and using the router's answer (\<open>None\<close> when neither protocol maps the port,
  else the endpoint and the lease in seconds).
\<close>

definition worker_take :: "int \<Rightarrow> bool \<Rightarrow> mapper \<Rightarrow> mapper option" where
  "worker_take now sleeping m =
     (let request = n_desired m in
      if request AND 0xFFFF = 0 \<or> sleeping then None
      else Some (m\<lparr>n_active := request, n_deadline := now + 15000\<rparr>))"

definition worker_route :: "(u32 \<times> u32) option \<Rightarrow> mapper \<Rightarrow> mapper option" where
  "worker_route route m =
     (case route of
        Some (ip, gw) \<Rightarrow>
          if ip = 0 \<or> gw = 0 then None
          else let m1 = m\<lparr>n_gateway := gw\<rparr> in
            Some (if ip \<noteq> n_prev_ip m1 \<or> gw \<noteq> n_prev_gateway m1 \<or> n_active m1 \<noteq> n_prev_generation m1
                  then (Publish (0, 0) 0 m1)\<lparr>n_retry_at := 0, n_prev_ip := ip, n_prev_gateway := gw,
                                             n_prev_generation := n_active m1\<rparr>
                  else m1)
      | None \<Rightarrow> None)"

definition worker_no_route :: "mapper \<Rightarrow> mapper" where
  "worker_no_route m = (Publish (0, 0) 0 m)\<lparr>n_prev_ip := 0, n_prev_gateway := 0\<rparr>"

definition worker_result :: "int \<Rightarrow> bool \<Rightarrow> ((u32 \<times> u16) \<times> nat) option \<Rightarrow> mapper \<Rightarrow> mapper" where
  "worker_result now sleeping result m =
     (if \<not> nat_cancelled now sleeping m then
        (case result of
           Some (mapped, lease) \<Rightarrow>
             let l = min lease 600 in
             (Publish mapped (now + int (l * 1000)) m)\<lparr>n_retry_at := now + int (l * 500)\<rparr>
         | None \<Rightarrow> m\<lparr>n_retry_at := now + 60000\<rparr>)
      else if n_desired m = n_active m then m\<lparr>n_retry_at := now + 60000\<rparr>
      else m)"

datatype nat_step =
    Configure u16
  | TakeRequest int bool
  | Route "(u32 \<times> u32) option"
  | Result int bool "((u32 \<times> u16) \<times> nat) option"

fun nat_exec :: "nat_step \<Rightarrow> mapper \<Rightarrow> mapper" where
  "nat_exec (Configure port) m = ConfigureNatMapper port m"
| "nat_exec (TakeRequest now sleeping) m = (case worker_take now sleeping m of Some n \<Rightarrow> n | None \<Rightarrow> m)"
| "nat_exec (Route route) m = (case worker_route route m of Some n \<Rightarrow> n | None \<Rightarrow> worker_no_route m)"
| "nat_exec (Result now sleeping result) m = worker_result now sleeping result m"

definition generation :: "u64 \<Rightarrow> nat" where
  "generation r = unat (drop_bit 16 r)"

text \<open>Requests and results never run ahead of the node thread.\<close>

definition mapper_inv :: "mapper \<Rightarrow> bool" where
  "mapper_inv m \<longleftrightarrow> generation (n_active m) \<le> generation (n_desired m) \<and>
     generation (n_generation m) \<le> generation (n_desired m)"

lemma configure_desired:
  "n_desired (ConfigureNatMapper port m) =
     (if (ucast (n_desired m) :: u16) = port then n_desired m
      else push_bit 16 (drop_bit 16 (n_desired m) + 1) OR ucast port)"
  by (simp add: ConfigureNatMapper_def Let_def)

lemma generation_next:
  assumes "generation r + 1 < 2 ^ 48"
  shows "generation (push_bit 16 (drop_bit 16 r + 1) OR ucast (p :: u16)) = generation r + 1"
proof -
  let ?g = "drop_bit 16 r + 1"
  have lt: "unat (drop_bit 16 r) + 1 < 2 ^ 48" using assms by (simp add: generation_def)
  then have g: "unat ?g = unat (drop_bit 16 r) + 1" by (simp add: unat_word_ariths)
  then have "take_bit 48 ?g = ?g"
    using lt by (intro word_unat_eq_iff [THEN iffD2]) (simp add: unsigned_take_bit_eq take_bit_nat_eq_self)
  then have small: "n < 48" if "bit ?g n" for n using that by (metis bit_take_bit_iff)
  have "drop_bit 16 (push_bit 16 ?g OR ucast p) = ?g"
    by (rule bit_eqI) (auto simp: bit_simps dest: small)
  then show ?thesis using g by (simp add: generation_def)
qed

lemma configure_inv:
  "mapper_inv m \<Longrightarrow> generation (n_desired m) + 1 < 2 ^ 48 \<Longrightarrow> mapper_inv (ConfigureNatMapper port m)"
  by (auto simp: mapper_inv_def configure_desired generation_next) (simp_all add: ConfigureNatMapper_def Let_def)

lemma worker_inv:
  "mapper_inv m \<Longrightarrow> (\<forall>port. s \<noteq> Configure port) \<Longrightarrow> mapper_inv (nat_exec s m) \<and> n_desired (nat_exec s m) = n_desired m"
  by (cases s)
    (auto simp: mapper_inv_def worker_take_def worker_route_def worker_no_route_def worker_result_def
      Publish_def Let_def split: option.splits prod.splits)

lemma mapper_inv_start: "mapper_inv mapper_start"
  by (simp add: mapper_inv_def mapper_start_def)

definition reconfigures :: "nat_step list \<Rightarrow> nat" where
  "reconfigures steps = length (List.filter (\<lambda>s. case s of Configure _ \<Rightarrow> True | _ \<Rightarrow> False) steps)"

lemma nat_exec_generation:
  assumes "mapper_inv m" and "generation (n_desired m) + reconfigures (s # rest) < 2 ^ 48"
  shows "mapper_inv (nat_exec s m) \<and> generation (n_desired (nat_exec s m)) + reconfigures rest < 2 ^ 48 \<and>
    generation (n_desired m) \<le> generation (n_desired (nat_exec s m)) \<and>
    generation (n_desired (nat_exec s m)) + reconfigures rest \<le> generation (n_desired m) + reconfigures (s # rest)"
proof (cases "\<exists>port. s = Configure port")
  case True
  then obtain port where s: "s = Configure port" by blast
  with assms have b: "generation (n_desired m) + 1 < 2 ^ 48" by (simp add: reconfigures_def)
  with configure_inv [OF assms(1) b, of port] assms(2) show ?thesis
    by (auto simp: s configure_desired generation_next reconfigures_def)
next
  case False
  with worker_inv [OF assms(1), of s] assms(2) show ?thesis
    by (cases s) (simp_all add: reconfigures_def)
qed

lemma nat_run_generation:
  assumes "mapper_inv m" and "generation (n_desired m) + reconfigures steps < 2 ^ 48"
  shows "mapper_inv (fold nat_exec steps m) \<and>
    generation (n_desired (fold nat_exec steps m)) \<le> generation (n_desired m) + reconfigures steps"
  using assms
proof (induction steps arbitrary: m)
  case (Cons s rest)
  from nat_exec_generation [OF Cons.prems] Cons.IH [of "nat_exec s m"] show ?case by auto
qed simp

text \<open>Node-thread steps only: the worker does not finish in between.\<close>

lemma configures_generation:
  assumes "generation (n_desired m) + length ports < 2 ^ 48"
    and "\<exists>p \<in> set ports. p \<noteq> (ucast (n_desired m) :: u16)"
  shows "generation (n_desired m) < generation (n_desired (fold ConfigureNatMapper ports m)) \<and>
    n_generation (fold ConfigureNatMapper ports m) = n_generation m"
proof -
  have mono: "generation (n_desired m) \<le> generation (n_desired (fold ConfigureNatMapper ps m)) \<and>
      n_generation (fold ConfigureNatMapper ps m) = n_generation m"
    if "generation (n_desired m) + length ps < 2 ^ 48" for ps m
    using that
  proof (induction ps arbitrary: m)
    case (Cons p ps)
    have "generation (n_desired (ConfigureNatMapper p m)) \<le> generation (n_desired m) + 1"
      "generation (n_desired m) \<le> generation (n_desired (ConfigureNatMapper p m))"
      using Cons.prems by (simp_all add: configure_desired generation_next)
    moreover have "n_generation (ConfigureNatMapper p m) = n_generation m"
      by (simp add: ConfigureNatMapper_def Let_def)
    ultimately show ?case using Cons.IH [of "ConfigureNatMapper p m"] Cons.prems by simp
  qed simp
  show ?thesis
    using assms
  proof (induction ports)
    case (Cons p ps)
    have n: "n_generation (ConfigureNatMapper p m) = n_generation m"
      by (simp add: ConfigureNatMapper_def Let_def)
    show ?case
    proof (cases "p = ucast (n_desired m)")
      case True
      then have "ConfigureNatMapper p m = m" by (simp add: ConfigureNatMapper_def Let_def)
      with Cons True show ?thesis by simp
    next
      case False
      then have "generation (n_desired (ConfigureNatMapper p m)) = generation (n_desired m) + 1"
        using Cons.prems by (simp add: configure_desired generation_next)
      with mono [of "ConfigureNatMapper p m" ps] Cons.prems n show ?thesis by simp
    qed
  qed simp
qed


definition demo_mapping :: "nat_step list" where
  "demo_mapping = [Configure 20001, TakeRequest 0 False, Route (Some (0x0A00A8C0, 0x0100A8C0)),
     Result 5 False (Some ((0x01020304, 20001), 600))]"


section \<open>The protocols\<close>

text \<open>
  \<^verbatim>\<open>MapPmp\<close>: the public address the router answers, then the mapping it answers (internal port,
  external port, lifetime); \<open>None\<close> for no or a wrong answer.
\<close>

definition MapPmp :: "u16 \<Rightarrow> u32 option \<Rightarrow> (u16 \<times> u16 \<times> nat) option \<Rightarrow> ((u32 \<times> u16) \<times> nat) option" where
  "MapPmp port address mapping =
     (case address of
        None \<Rightarrow> None
      | Some a \<Rightarrow>
          if a = 0 then None
          else (case mapping of
                  None \<Rightarrow> None
                | Some (private, public, lifetime) \<Rightarrow>
                    if private = port \<and> public \<noteq> 0 \<and> 30 \<le> lifetime then Some ((a, public), lifetime) else None))"

text \<open>
  The attempts of \<^verbatim>\<open>MapUpnp\<close>.  For an external port the router answers a code and, for an existing
  mapping, its client, port and description; \<open>stop\<close> says whether the request was cancelled before an
  attempt.  The result is the port mapped, with the ports the router was asked to add.
\<close>

definition upnp_candidate :: "u16 \<Rightarrow> nat \<Rightarrow> u32" where
  "upnp_candidate port attempt = 20000 + (ucast port - 20000 + of_nat attempt) mod 40000"

type_synonym upnp_router = "u32 \<Rightarrow> nat \<times> string \<times> string \<times> string"

definition own_or_free :: "upnp_router \<Rightarrow> string \<Rightarrow> string \<Rightarrow> string \<Rightarrow> u32 \<Rightarrow> bool" where
  "own_or_free router here internal description candidate =
     (case router candidate of (code, client, assigned, desc) \<Rightarrow>
        code = 714 \<or> (code = 0 \<and> client = here \<and> assigned = internal \<and> desc = description))"

fun upnp_tries ::
  "nat \<Rightarrow> nat \<Rightarrow> u16 \<Rightarrow> upnp_router \<Rightarrow> (u32 \<Rightarrow> bool) \<Rightarrow> (nat \<Rightarrow> bool) \<Rightarrow> string \<Rightarrow> string \<Rightarrow> string \<Rightarrow>
   u32 option \<times> u32 list" where
  "upnp_tries 0 attempt port router add stop here internal description = (None, [])"
| "upnp_tries (Suc n) attempt port router add stop here internal description =
     (if stop attempt then (None, [])
      else let candidate = upnp_candidate port attempt in
        if \<not> own_or_free router here internal description candidate
        then upnp_tries n (attempt + 1) port router add stop here internal description
        else if add candidate then (Some candidate, [candidate])
        else (case upnp_tries n (attempt + 1) port router add stop here internal description of
                (r, added) \<Rightarrow> (r, candidate # added)))"

definition MapUpnp ::
  "u16 \<Rightarrow> u32 option \<Rightarrow> upnp_router \<Rightarrow> (u32 \<Rightarrow> bool) \<Rightarrow> (nat \<Rightarrow> bool) \<Rightarrow> string \<Rightarrow> string \<Rightarrow> string \<Rightarrow>
   (u32 \<times> u16) option \<times> u32 list" where
  "MapUpnp port external router add stop here internal description =
     (case external of
        None \<Rightarrow> (None, [])
      | Some a \<Rightarrow>
          if a = 0 then (None, [])
          else (case upnp_tries 4 0 port router add stop here internal description of
                  (r, added) \<Rightarrow> (map_option (\<lambda>c. (a, ucast c)) r, added)))"

lemma upnp_candidate_range: "20000 \<le> unat (upnp_candidate port k) \<and> unat (upnp_candidate port k) < 60000"
proof -
  define x :: u32 where "x = (ucast port - 20000 + of_nat k) mod 40000"
  have "unat x < 40000" by (simp add: x_def unat_mod)
  then show ?thesis by (simp add: upnp_candidate_def unat_word_ariths flip: x_def)
qed

lemma upnp_tries_safe:
  "upnp_tries n k port router add stop here internal description = (r, added) \<Longrightarrow>
   (\<forall>c \<in> set added. own_or_free router here internal description c \<and> 20000 \<le> unat c \<and> unat c < 60000) \<and>
   length added \<le> n \<and> (case r of None \<Rightarrow> True | Some c \<Rightarrow> c \<in> set added \<and> add c)"
proof (induction n arbitrary: k r added)
  case (Suc n)
  show ?case
  proof (cases "stop k")
    case False
    obtain r1 a1 where rest: "upnp_tries n (k + 1) port router add stop here internal description = (r1, a1)"
      by fastforce
    from Suc.IH [OF rest] Suc.prems False rest upnp_candidate_range [of port k] show ?thesis
      by (auto simp: Let_def split: if_splits option.splits)
  qed (use Suc.prems in simp)
qed simp

text \<open>
  UPnP never takes over a mapping of another device: every external port the router is asked to
  map was free or already ours with the same client, port and description; at most four are tried,
  all between 20000 and 59999; and a reported mapping is one the router accepted, for its public
  address.
\<close>

theorem upnp_respects_others:
  assumes "MapUpnp port external router add stop here internal description = (result, added)"
  shows "(\<forall>c \<in> set added. own_or_free router here internal description c \<and> 20000 \<le> unat c \<and> unat c < 60000) \<and>
    length added \<le> 4 \<and>
    (case result of None \<Rightarrow> True
     | Some (a, p) \<Rightarrow> external = Some a \<and> a \<noteq> 0 \<and> (\<exists>c \<in> set added. add c \<and> unat p = unat c))"
proof (cases "\<exists>a. external = Some a \<and> a \<noteq> 0")
  case False
  with assms show ?thesis by (auto simp: MapUpnp_def split: option.splits if_splits)
next
  case True
  then obtain a where a: "external = Some a" "a \<noteq> 0" by blast
  obtain r where r: "upnp_tries 4 0 port router add stop here internal description = (r, added)"
    "result = map_option (\<lambda>c. (a, ucast c)) r"
    using assms a by (auto simp: MapUpnp_def split: prod.splits)
  have "unat (ucast c :: u16) = unat c" if "unat c < 60000" for c :: u32
    using that by (simp add: unsigned_ucast_eq take_bit_nat_eq_self)
  with upnp_tries_safe [OF r(1)] r(2) a show ?thesis by (cases r) auto
qed

lemma upnp_respects_others_witness:
  "\<exists>result added. MapUpnp 20001 (Some 7) (\<lambda>c. if c = 20001 then (0, ''other'', ''1'', ''x'') else (714, [], [], []))
      (\<lambda>c. True) (\<lambda>k. False) ''me'' ''20001'' ''zt'' = (result, added) \<and> result = Some (7, 20002) \<and>
    (\<forall>c \<in> set added. c \<noteq> 20001)"
proof -
  let ?r = "\<lambda>c :: u32. if c = 20001 then (0 :: nat, ''other'', ''1'', ''x'') else (714, [], [], [])"
  have run: "MapUpnp 20001 (Some 7) ?r (\<lambda>c. True) (\<lambda>k. False) ''me'' ''20001'' ''zt'' = (Some (7, 20002), [20002])"
    by code_simp
  from upnp_respects_others [OF run] run show ?thesis by auto
qed

end
