(* ===== verification/NatSupport.thy ===== *)
theory NatSupport
  imports Prelude
begin

text \<open>
  The glue below the vendored port-mapping libraries, \<^verbatim>\<open>compat/nat/support.c\<close>: a budget on their
  allocations, a check of the length of NAT-PMP datagrams, waits in slices that a cancellation
  interrupts, and the connection to the router, which never leaks its socket.
\<close>

section \<open>The allocation budget\<close>

definition Budget :: u64 where "Budget = 64 * 1024"
definition MaxAllocation :: u64 where "MaxAllocation = 32 * 1024"

text \<open>
  The live blocks, by address, with the size each header records, and the total.  The address of a
  new block, or \<open>None\<close> when \<^verbatim>\<open>malloc\<close> fails, is an argument; freeing a block that is not live is
  undefined behaviour.
\<close>

record nat_heap =
  h_live :: "nat \<Rightarrow> u64 option"
  h_allocated :: u64

definition nat_heap_start :: nat_heap where
  "nat_heap_start = \<lparr>h_live = (\<lambda>_. None), h_allocated = 0\<rparr>"

definition nat_malloc :: "nat option \<Rightarrow> u64 \<Rightarrow> nat_heap \<Rightarrow> nat_heap \<times> nat option" where
  "nat_malloc fresh len h =
     (if MaxAllocation < len \<or> Budget - h_allocated h < len then (h, None)
      else case fresh of
             None \<Rightarrow> (h, None)
           | Some p \<Rightarrow> (\<lparr>h_live = (h_live h)(p \<mapsto> len), h_allocated = h_allocated h + len\<rparr>, Some p))"

definition nat_free :: "nat option \<Rightarrow> nat_heap \<Rightarrow> nat_heap option" where
  "nat_free ptr h =
     (case ptr of
        None \<Rightarrow> Some h
      | Some p \<Rightarrow>
          (case h_live h p of
             None \<Rightarrow> None
           | Some len \<Rightarrow> Some \<lparr>h_live = (h_live h)(p := None), h_allocated = h_allocated h - len\<rparr>))"

definition nat_calloc :: "nat option \<Rightarrow> u64 \<Rightarrow> u64 \<Rightarrow> nat_heap \<Rightarrow> nat_heap \<times> nat option" where
  "nat_calloc fresh count len h =
     (if count \<noteq> 0 \<and> MaxAllocation div count < len then (h, None)
      else nat_malloc fresh (count * len) h)"

text \<open>\<open>fresh\<close> is where \<^verbatim>\<open>realloc\<close> moves the block; the old one is gone then.\<close>

definition nat_realloc :: "nat option \<Rightarrow> nat option \<Rightarrow> u64 \<Rightarrow> nat_heap \<Rightarrow> (nat_heap \<times> nat option) option" where
  "nat_realloc fresh ptr len h =
     (case ptr of
        None \<Rightarrow> Some (nat_malloc fresh len h)
      | Some p \<Rightarrow>
          if len = 0 then map_option (\<lambda>g. (g, None)) (nat_free (Some p) h)
          else (case h_live h p of
                  None \<Rightarrow> None
                | Some old \<Rightarrow>
                    if MaxAllocation < len \<or> Budget - h_allocated h + old < len then Some (h, None)
                    else (case fresh of
                            None \<Rightarrow> Some (h, None)
                          | Some q \<Rightarrow>
                              Some (\<lparr>h_live = (h_live h)(p := None, q \<mapsto> len),
                                     h_allocated = h_allocated h - old + len\<rparr>, Some q))))"

datatype nat_alloc =
    Malloc "nat option" u64
  | Calloc "nat option" u64 u64
  | Realloc "nat option" "nat option" u64
  | Free "nat option"

fun nat_heap_step :: "nat_alloc \<Rightarrow> nat_heap \<Rightarrow> nat_heap option" where
  "nat_heap_step (Malloc fresh len) h = Some (fst (nat_malloc fresh len h))"
| "nat_heap_step (Calloc fresh count len) h = Some (fst (nat_calloc fresh count len h))"
| "nat_heap_step (Realloc fresh ptr len) h = map_option fst (nat_realloc fresh ptr len h)"
| "nat_heap_step (Free ptr) h = nat_free ptr h"

text \<open>\<^verbatim>\<open>malloc\<close> returns an address that is not live; \<^verbatim>\<open>realloc\<close> may return the block's own.\<close>

fun fresh_ok :: "nat_alloc \<Rightarrow> nat_heap \<Rightarrow> bool" where
  "fresh_ok (Malloc (Some q) len) h = (h_live h q = None)"
| "fresh_ok (Calloc (Some q) count len) h = (h_live h q = None)"
| "fresh_ok (Realloc (Some q) ptr len) h = (h_live h q = None \<or> ptr = Some q)"
| "fresh_ok _ h = True"

inductive nat_heap_run :: "nat_heap \<Rightarrow> bool" where
  start: "nat_heap_run nat_heap_start"
| step: "nat_heap_run h \<Longrightarrow> fresh_ok a h \<Longrightarrow> nat_heap_step a h = Some g \<Longrightarrow> nat_heap_run g"

inductive_cases nat_heap_runE: "nat_heap_run h"

definition live_total :: "(nat \<Rightarrow> u64 option) \<Rightarrow> nat" where
  "live_total live = (\<Sum>p \<in> dom live. unat (the (live p)))"

definition heap_inv :: "nat_heap \<Rightarrow> bool" where
  "heap_inv h \<longleftrightarrow> finite (dom (h_live h)) \<and> live_total (h_live h) = unat (h_allocated h) \<and>
     unat (h_allocated h) \<le> 65536 \<and> (\<forall>p len. h_live h p = Some len \<longrightarrow> unat len \<le> 32768)"

lemma live_total_insert:
  "finite (dom live) \<Longrightarrow> live p = None \<Longrightarrow> live_total (live(p \<mapsto> s)) = live_total live + unat s"
proof -
  assume fin: "finite (dom live)" and new: "live p = None"
  have "(\<Sum>q \<in> insert p (dom live). unat (the ((live(p \<mapsto> s)) q))) =
      unat s + (\<Sum>q \<in> dom live. unat (the ((live(p \<mapsto> s)) q)))"
    using fin new by (subst sum.insert) auto
  also have "(\<Sum>q \<in> dom live. unat (the ((live(p \<mapsto> s)) q))) = live_total live"
    unfolding live_total_def by (rule sum.cong) (use new in auto)
  finally show ?thesis by (simp add: live_total_def)
qed

lemma live_total_remove:
  "finite (dom live) \<Longrightarrow> live p = Some s \<Longrightarrow> live_total live = live_total (live(p := None)) + unat s"
proof -
  assume fin: "finite (dom live)" and old: "live p = Some s"
  have "live_total ((live(p := None))(p \<mapsto> s)) = live_total (live(p := None)) + unat s"
    by (rule live_total_insert) (use fin in simp_all)
  moreover have "(live(p := None))(p \<mapsto> s) = live" using old by auto
  ultimately show ?thesis by simp
qed

lemma budget_left: "unat (a :: u64) \<le> 65536 \<Longrightarrow> unat (Budget - a) = 65536 - unat a"
  by (simp add: Budget_def unat_sub word_le_nat_alt)

lemma malloc_inv:
  assumes "heap_inv h" and "fresh \<noteq> None \<longrightarrow> h_live h (the fresh) = None"
  shows "heap_inv (fst (nat_malloc fresh len h))"
proof (cases "MaxAllocation < len \<or> Budget - h_allocated h < len \<or> fresh = None")
  case True
  with assms(1) show ?thesis by (auto simp: nat_malloc_def split: option.split)
next
  case False
  then obtain p where p: "fresh = Some p" by auto
  have a: "unat (h_allocated h) \<le> 65536" using assms(1) by (simp add: heap_inv_def)
  have s: "unat len \<le> 32768" using False by (simp add: MaxAllocation_def not_less word_le_nat_alt)
  have t: "unat (h_allocated h) + unat len \<le> 65536"
    using False budget_left [OF a] a by (auto simp: not_less word_le_nat_alt)
  then have u: "unat (h_allocated h + len) = unat (h_allocated h) + unat len"
    by (simp add: unat_word_ariths)
  show ?thesis
    using assms p False s t u
    by (auto simp: heap_inv_def nat_malloc_def live_total_insert)
qed

lemma free_inv: "heap_inv h \<Longrightarrow> nat_free ptr h = Some g \<Longrightarrow> heap_inv g"
proof -
  assume inv: "heap_inv h" and run: "nat_free ptr h = Some g"
  show ?thesis
  proof (cases ptr)
    case (Some p)
    then obtain s where s: "h_live h p = Some s"
      "g = \<lparr>h_live = (h_live h)(p := None), h_allocated = h_allocated h - s\<rparr>"
      using run by (auto simp: nat_free_def split: option.splits)
    have "live_total (h_live h) = live_total ((h_live h)(p := None)) + unat s"
      using inv s(1) by (intro live_total_remove) (simp_all add: heap_inv_def)
    then have "unat s \<le> unat (h_allocated h)" "live_total ((h_live h)(p := None)) = unat (h_allocated h - s)"
      using inv by (auto simp: heap_inv_def unat_sub word_le_nat_alt)
    with inv s(2) show ?thesis by (auto simp: heap_inv_def unat_sub word_le_nat_alt)
  qed (use inv run in \<open>simp add: nat_free_def\<close>)
qed

text \<open>The sizes of a block that is exchanged for one of \<open>len\<close> bytes.\<close>

lemma realloc_sizes:
  assumes "heap_inv h" and "h_live h p = Some old" and "\<not> (MaxAllocation < len \<or> Budget - h_allocated h + old < len)"
  shows "live_total (h_live h) = live_total ((h_live h)(p := None)) + unat old" and "unat old \<le> unat (h_allocated h)"
    and "unat (h_allocated h - old + len) = unat (h_allocated h) - unat old + unat len"
    and "unat (h_allocated h - old + len) \<le> 65536" and "unat len \<le> 32768"
proof -
  show tot: "live_total (h_live h) = live_total ((h_live h)(p := None)) + unat old"
    using assms(1,2) by (intro live_total_remove) (simp_all add: heap_inv_def)
  have a: "unat (h_allocated h) \<le> 65536" using assms(1) by (simp add: heap_inv_def)
  show le: "unat old \<le> unat (h_allocated h)" using tot assms(1) by (simp add: heap_inv_def)
  have room: "unat (Budget - h_allocated h + old) = 65536 - unat (h_allocated h) + unat old"
    using budget_left [OF a] a le by (simp add: unat_word_ariths)
  show s: "unat len \<le> 32768" using assms(3) by (simp add: MaxAllocation_def not_less word_le_nat_alt)
  have t: "unat len \<le> 65536 - unat (h_allocated h) + unat old"
    using assms(3) room by (simp add: not_less word_le_nat_alt)
  have d: "unat (h_allocated h - old) = unat (h_allocated h) - unat old"
    using le by (simp add: unat_sub word_le_nat_alt)
  show n: "unat (h_allocated h - old + len) = unat (h_allocated h) - unat old + unat len"
    using d t a le by (simp add: unat_word_ariths)
  show "unat (h_allocated h - old + len) \<le> 65536" using n t a le by simp
qed

lemma realloc_inv:
  assumes "heap_inv h" and "fresh \<noteq> None \<longrightarrow> h_live h (the fresh) = None \<or> ptr = fresh"
    and "nat_realloc fresh ptr len h = Some (g, r)"
  shows "heap_inv g"
proof (cases "ptr = None \<or> len = 0")
  case True
  then show ?thesis
  proof (cases "ptr = None")
    case True
    with assms malloc_inv [of h fresh len] show ?thesis
      by (cases fresh) (auto simp: nat_realloc_def prod_eq_iff)
  next
    case False
    with True assms free_inv [of h ptr] show ?thesis
      by (auto simp: nat_realloc_def split: option.splits)
  qed
next
  case False
  then obtain p where p: "ptr = Some p" by auto
  with assms(3) False obtain old where old: "h_live h p = Some old"
    by (auto simp: nat_realloc_def split: option.splits)
  show ?thesis
  proof (cases "MaxAllocation < len \<or> Budget - h_allocated h + old < len \<or> fresh = None")
    case True
    with assms p old False show ?thesis by (auto simp: nat_realloc_def split: option.splits if_splits)
  next
    case ok: False
    then obtain q where q: "fresh = Some q" by auto
    have g: "g = \<lparr>h_live = (h_live h)(p := None, q \<mapsto> len), h_allocated = h_allocated h - old + len\<rparr>"
      using assms(3) p old q ok False by (simp add: nat_realloc_def)
    let ?live = "(h_live h)(p := None)"
    have "\<not> (MaxAllocation < len \<or> Budget - h_allocated h + old < len)" using ok by simp
    note sz = realloc_sizes [OF assms(1) old this]
    have q0: "?live q = None" using assms(2) q p by auto
    have fin: "finite (dom ?live)" using assms(1) by (simp add: heap_inv_def)
    have "live_total (?live(q \<mapsto> len)) = live_total ?live + unat len"
      by (rule live_total_insert) (fact fin, fact q0)
    also have "\<dots> = unat (h_allocated h - old + len)"
      using sz(1-3) assms(1) by (auto simp: heap_inv_def)
    finally have "live_total (?live(q \<mapsto> len)) = unat (h_allocated h - old + len)" .
    moreover have "unat n \<le> 32768" if "(?live(q \<mapsto> len)) p = Some n" for p n
      using that sz(5) assms(1) by (auto simp: heap_inv_def split: if_splits)
    ultimately show ?thesis using g fin sz(4) by (simp add: heap_inv_def)
  qed
qed

lemma heap_step_inv: "heap_inv h \<Longrightarrow> fresh_ok a h \<Longrightarrow> nat_heap_step a h = Some g \<Longrightarrow> heap_inv g"
proof (cases a)
  case (Malloc fresh len)
  moreover assume "heap_inv h" "fresh_ok a h" "nat_heap_step a h = Some g"
  ultimately show ?thesis using malloc_inv [of h fresh len] by (cases fresh) auto
next
  case (Calloc fresh count len)
  moreover assume "heap_inv h" "fresh_ok a h" "nat_heap_step a h = Some g"
  ultimately show ?thesis
    using malloc_inv [of h fresh "count * len"] by (cases fresh) (auto simp: nat_calloc_def split: if_splits)
next
  case (Realloc fresh ptr len)
  moreover assume "heap_inv h" "fresh_ok a h" "nat_heap_step a h = Some g"
  ultimately show ?thesis using realloc_inv [of h fresh ptr len g] by (cases fresh) auto
next
  case (Free ptr)
  moreover assume "heap_inv h" "fresh_ok a h" "nat_heap_step a h = Some g"
  ultimately show ?thesis using free_inv by auto
qed

text \<open>
  The budget holds: whatever the libraries allocate, resize and free, the live blocks sum up to
  exactly the counter and to at most 64 KiB, none is larger than 32 KiB, and the 64-bit arithmetic of
  the checks never wraps, so freeing a live block always succeeds.
\<close>

theorem nat_budget:
  assumes "nat_heap_run h"
  shows "live_total (h_live h) = unat (h_allocated h) \<and> live_total (h_live h) \<le> 65536 \<and>
    (\<forall>p len. h_live h p = Some len \<longrightarrow>
       unat len \<le> 32768 \<and> (\<exists>g. nat_free (Some p) h = Some g \<and>
         unat (h_allocated g) = unat (h_allocated h) - unat len))"
proof -
  have inv: "heap_inv h" using assms
  proof (induction rule: nat_heap_run.induct)
    case start
    show ?case by (simp add: heap_inv_def nat_heap_start_def live_total_def)
  next
    case (step h a g)
    from step.IH step.hyps(2,3) show ?case by (rule heap_step_inv)
  qed
  have free: "\<exists>g. nat_free (Some p) h = Some g \<and> unat (h_allocated g) = unat (h_allocated h) - unat len"
    if "h_live h p = Some len" for p len
  proof -
    have "unat len \<le> unat (h_allocated h)"
      using live_total_remove [of "h_live h" p len] that inv by (simp add: heap_inv_def)
    with that show ?thesis by (simp add: nat_free_def unat_sub word_le_nat_alt)
  qed
  show ?thesis
  proof (intro conjI allI impI)
    fix p len assume l: "h_live h p = Some len"
    show "unat len \<le> 32768" using inv l by (simp add: heap_inv_def)
    show "\<exists>g. nat_free (Some p) h = Some g \<and> unat (h_allocated g) = unat (h_allocated h) - unat len"
      by (rule free [OF l])
  qed (use inv in \<open>simp_all add: heap_inv_def\<close>)
qed

lemma nat_budget_witness:
  "nat_heap_run (fst (nat_malloc (Some 1) 100 nat_heap_start)) \<and>
   live_total (h_live (fst (nat_malloc (Some 1) 100 nat_heap_start))) \<le> 65536"
proof -
  have "nat_heap_run (fst (nat_malloc (Some 1) 100 nat_heap_start))"
    by (rule nat_heap_run.step [OF nat_heap_run.start, of "Malloc (Some 1) 100"])
      (simp_all add: nat_heap_start_def)
  with nat_budget [OF this] show ?thesis by blast
qed

section \<open>Datagrams\<close>

text \<open>\<^verbatim>\<open>ztnx_nat_recvfrom\<close>: what \<^verbatim>\<open>recvfrom\<close> stored, or \<open>None\<close> for a datagram it hides as \<^verbatim>\<open>EAGAIN\<close>.\<close>

definition nat_recvfrom :: "u8 list \<Rightarrow> u8 list option" where
  "nat_recvfrom p =
     (if length p < 8 \<or>
         ((p ! 2 = 0 \<and> p ! 3 = 0) \<and>
          ((p ! 1 = 128 \<and> length p < 12) \<or> ((p ! 1 = 129 \<or> p ! 1 = 130) \<and> length p < 16)))
      then None else Some p)"

section \<open>Waiting\<close>

text \<open>
  \<^verbatim>\<open>wait_socket\<close>: before each slice whether the work was cancelled, and what \<^verbatim>\<open>poll\<close> answers.  The
  result is the code's, with the milliseconds slept; \<open>None\<close> when the answers run out.
\<close>

datatype poll_answer = Interrupted | Failed | Ready bool | TimedOut

fun wait_socket :: "int \<Rightarrow> (bool \<times> poll_answer) list \<Rightarrow> (int \<times> int) option" where
  "wait_socket ms [] = (if ms \<le> 0 then Some (0, 0) else None)"
| "wait_socket ms ((cancelled, answer) # rest) =
     (if ms \<le> 0 \<or> cancelled then Some (0, 0)
      else let slice = (if ms < 100 then ms else 100) in
        case answer of
          Interrupted \<Rightarrow> wait_socket ms rest
        | Failed \<Rightarrow> Some (-1, 0)
        | Ready wanted \<Rightarrow> Some (if wanted then 1 else -1, 0)
        | TimedOut \<Rightarrow> map_option (\<lambda>(r, t). (r, t + slice)) (wait_socket (ms - slice) rest))"

lemma wait_bounded:
  "wait_socket ms answers = Some (r, slept) \<Longrightarrow> 0 \<le> slept \<and> (0 \<le> ms \<longrightarrow> slept \<le> ms)"
proof (induction ms answers arbitrary: r slept rule: wait_socket.induct)
  case (2 ms cancelled answer rest)
  show ?case
  proof (cases "ms \<le> 0 \<or> cancelled \<or> answer \<noteq> TimedOut")
    case True
    then show ?thesis using 2 by (cases answer) (auto simp: Let_def split: if_splits)
  next
    case False
    let ?slice = "if ms < 100 then ms else 100"
    obtain t where t: "wait_socket (ms - ?slice) rest = Some (r, t)" "slept = t + ?slice"
      using 2(3) False by (auto simp: Let_def)
    have "0 \<le> t \<and> (0 \<le> ms - ?slice \<longrightarrow> t \<le> ms - ?slice)"
      by (rule 2(2) [OF _ refl _ t(1)]) (use False in simp_all)
    with t(2) False show ?thesis by (simp split: if_splits)
  qed
qed (auto split: if_splits)

section \<open>Connecting to the router\<close>

record connect_env =
  k_cancelled :: bool
  k_address :: "u32 option"
  k_gateway :: u32
  k_socket :: int
  k_flags :: bool
  k_nonblock :: bool
  k_connect :: int
  k_in_progress :: bool
  k_wait :: int
  k_error :: bool
  k_restore :: bool
  k_timeouts :: bool

text \<open>\<^verbatim>\<open>connecthostport\<close>: the descriptor or \<open>-1\<close>, and the descriptors closed on the way.\<close>

definition connecthostport :: "connect_env \<Rightarrow> int \<times> int list" where
  "connecthostport e =
     (if k_cancelled e \<or> k_address e = None \<or> the (k_address e) \<noteq> k_gateway e then (-1, [])
      else let fd = k_socket e in
        if fd < 0 then (-1, [])
        else if \<not> k_flags e \<or> \<not> k_nonblock e then (-1, [fd])
        else if k_connect e < 0 \<and> (\<not> k_in_progress e \<or> k_wait e \<noteq> 1 \<or> k_error e) then (-1, [fd])
        else if \<not> k_restore e then (-1, [fd])
        else if \<not> k_timeouts e then (-1, [fd])
        else (fd, []))"

text \<open>
  The glue to the router: a connection is made only to the current gateway, and on every failing
  path the socket that was opened is closed exactly once, while a descriptor that is returned is
  open; a NAT-PMP answer that reports success reaches the parser only complete (12 bytes for an
  address, 16 for a mapping); and a wait sleeps at most the time it was given.
\<close>

theorem nat_glue:
  "(fst (connecthostport e) = -1 \<longrightarrow>
      snd (connecthostport e) = [] \<or> snd (connecthostport e) = [k_socket e] \<and> 0 \<le> k_socket e) \<and>
   (0 \<le> fst (connecthostport e) \<longrightarrow>
      k_address e = Some (k_gateway e) \<and> fst (connecthostport e) = k_socket e \<and> snd (connecthostport e) = []) \<and>
   (k_address e = Some (k_gateway e) \<and> \<not> k_cancelled e \<and> 0 \<le> k_socket e \<and> fst (connecthostport e) < 0 \<longrightarrow>
      snd (connecthostport e) = [k_socket e]) \<and>
   (nat_recvfrom p = Some q \<longrightarrow> q = p \<and> 8 \<le> length p \<and>
      (p ! 2 = 0 \<and> p ! 3 = 0 \<longrightarrow> (p ! 1 = 128 \<longrightarrow> 12 \<le> length p) \<and> (p ! 1 \<in> {129, 130} \<longrightarrow> 16 \<le> length p))) \<and>
   (wait_socket ms answers = Some (r, slept) \<longrightarrow> 0 \<le> slept \<and> (0 \<le> ms \<longrightarrow> slept \<le> ms))"
proof -
  have cases: "connecthostport e = (-1, []) \<and> \<not> (k_address e = Some (k_gateway e) \<and> \<not> k_cancelled e \<and> 0 \<le> k_socket e) \<or>
      connecthostport e = (-1, [k_socket e]) \<and> 0 \<le> k_socket e \<or>
      connecthostport e = (k_socket e, []) \<and> 0 \<le> k_socket e \<and> k_address e = Some (k_gateway e)"
    unfolding connecthostport_def Let_def by (simp split: if_splits) force
  have gate: "nat_recvfrom p = Some q \<longrightarrow> q = p \<and> 8 \<le> length p \<and>
      (p ! 2 = 0 \<and> p ! 3 = 0 \<longrightarrow> (p ! 1 = 128 \<longrightarrow> 12 \<le> length p) \<and> (p ! 1 \<in> {129, 130} \<longrightarrow> 16 \<le> length p))"
    unfolding nat_recvfrom_def by (simp split: if_splits) (metis not_less)
  show ?thesis using cases gate wait_bounded [of ms answers r slept]
    by (elim disjE) simp_all
qed

lemma nat_glue_witness:
  "connecthostport \<lparr>k_cancelled = False, k_address = Some 7, k_gateway = 7, k_socket = 5, k_flags = True,
     k_nonblock = True, k_connect = -1, k_in_progress = False, k_wait = 0, k_error = False, k_restore = True,
     k_timeouts = True\<rparr> = (-1, [5])"
  using nat_glue [of "\<lparr>k_cancelled = False, k_address = Some 7, k_gateway = 7, k_socket = 5, k_flags = True,
     k_nonblock = True, k_connect = -1, k_in_progress = False, k_wait = 0, k_error = False, k_restore = True,
     k_timeouts = True\<rparr>" "[]" "[]" 0 "[]" 0 0]
  by (simp add: connecthostport_def prod_eq_iff)

end
