(* ===== verification/BsdTable.thy ===== *)
theory BsdTable
  imports PortLoop
begin

text \<open>
  The interposer's table of shadow sockets, \<^verbatim>\<open>mitm/bsd_shim.cpp\<close>: for each UDP socket of a game the
  descriptor of the real service and, once mirrored, the socket of the virtual interface.

  The requests of a game arrive on several threads and the table's lock is not held across a call
  into the port.  What other threads do in such a gap is the argument \<open>w\<close> of the operations, a
  function on the state; \<open>keeps\<close> below is what it is relied on for, and every request of the
  interposer has that property in turn.
\<close>

section \<open>State\<close>

record LanSocket =
  l_pid :: u64
  l_bsdFd :: int
  l_vnetFd :: int
  l_boundPort :: u16
  l_connectedPort :: u16
  l_connectedIp :: u32
  l_udp :: bool
  l_broadcast :: bool
  l_mirrored :: bool
  l_connected :: bool

definition MaxLanSockets :: nat where "MaxLanSockets = 8"

definition lan_zero :: LanSocket where
  "lan_zero = \<lparr>l_pid = 0, l_bsdFd = 0, l_vnetFd = 0, l_boundPort = 0, l_connectedPort = 0,
     l_connectedIp = 0, l_udp = False, l_broadcast = False, l_mirrored = False, l_connected = False\<rparr>"

text \<open>The globals \<^verbatim>\<open>g_lan_sockets\<close>, \<^verbatim>\<open>g_port\<close> and \<^verbatim>\<open>g_mmsgPayload\<close>.\<close>

definition MMsgPayloadMax :: nat where "MMsgPayloadMax = 2048"

record shim =
  b_socks :: "LanSocket list"
  b_port :: "Port option"
  b_mmsg :: "u8 list"

definition shim_start :: shim where
  "shim_start = \<lparr>b_socks = replicate MaxLanSockets lan_zero, b_port = None, b_mmsg = replicate MMsgPayloadMax 0\<rparr>"

definition SetPort :: "Port option \<Rightarrow> shim \<Rightarrow> shim" where
  "SetPort p s = s\<lparr>b_port := p\<rparr>"

text \<open>A call on \<^verbatim>\<open>g_port\<close>, which must not be null there.\<close>

definition on_port :: "(Port \<Rightarrow> (Port \<times> 'a) option) \<Rightarrow> shim \<Rightarrow> (shim \<times> 'a) option" where
  "on_port f s = (case b_port s of
     None \<Rightarrow> None
   | Some p \<Rightarrow> map_option (\<lambda>(q, r). (s\<lparr>b_port := Some q\<rparr>, r)) (f p))"

section \<open>The table\<close>

definition IsPiaLanPort :: "u16 \<Rightarrow> bool" where
  "IsPiaLanPort port \<longleftrightarrow> port = 30000 \<or> port = 35000 \<or> port = 40000 \<or> (49152 \<le> port \<and> port \<le> 49155)"

definition FindLanSocketLocked :: "u64 \<Rightarrow> int \<Rightarrow> shim \<Rightarrow> nat option" where
  "FindLanSocketLocked pid fd s =
     (if fd = InvalidSocket then None
      else find_index (\<lambda>e. l_pid e = pid \<and> l_bsdFd e = fd) (b_socks s))"

definition set_lan :: "nat \<Rightarrow> (LanSocket \<Rightarrow> LanSocket) \<Rightarrow> shim \<Rightarrow> shim" where
  "set_lan i f s = s\<lparr>b_socks := (b_socks s)[i := f (b_socks s ! i)]\<rparr>"

definition GetLanVfd :: "u64 \<Rightarrow> int \<Rightarrow> shim \<Rightarrow> int" where
  "GetLanVfd pid fd s =
     (case FindLanSocketLocked pid fd s of
        Some i \<Rightarrow> if l_mirrored (b_socks s ! i) then l_vnetFd (b_socks s ! i) else InvalidSocket
      | None \<Rightarrow> InvalidSocket)"

definition GetConnectedLanPeer :: "u64 \<Rightarrow> int \<Rightarrow> shim \<Rightarrow> (int \<times> u32 \<times> u16) option" where
  "GetConnectedLanPeer pid fd s =
     (case FindLanSocketLocked pid fd s of
        None \<Rightarrow> None
      | Some i \<Rightarrow> let e = b_socks s ! i in
          if \<not> l_mirrored e \<or> \<not> l_connected e then None
          else Some (l_vnetFd e, l_connectedIp e, l_connectedPort e))"

text \<open>Whether an address is on the virtual network, and whether it is its broadcast address.\<close>

definition IsOverlayDestination :: "u32 \<Rightarrow> shim \<Rightarrow> bool \<times> bool" where
  "IsOverlayDestination ip s =
     (case Option.bind (b_port s) GetLanIpConfig of
        None \<Rightarrow> (False, False)
      | Some (local, netmask) \<Rightarrow>
          let broadcast = (ip = 0xFFFFFFFF \<or> ip = (local OR NOT netmask)) in
          (broadcast \<or> ip AND netmask = local AND netmask, broadcast))"

type_synonym window = "shim \<Rightarrow> shim option"

definition close_vfd :: "int \<Rightarrow> shim \<Rightarrow> shim option" where
  "close_vfd vfd s = map_option fst (on_port (\<lambda>p. map_option (\<lambda>q. (q, ())) (CloseLanSocket vfd p)) s)"

definition ForgetLanSocket :: "window \<Rightarrow> u64 \<Rightarrow> int \<Rightarrow> shim \<Rightarrow> shim option" where
  "ForgetLanSocket w pid fd s =
     (case FindLanSocketLocked pid fd s of
        None \<Rightarrow> Some s
      | Some i \<Rightarrow> do {
          let vfd = l_vnetFd (b_socks s ! i);
          s1 \<leftarrow> w (set_lan i (\<lambda>_. lan_zero) s);
          if vfd \<noteq> InvalidSocket \<and> b_port s1 \<noteq> None then close_vfd vfd s1 else Some s1 })"

definition belongs :: "u64 \<Rightarrow> LanSocket \<Rightarrow> bool" where
  "belongs pid e \<longleftrightarrow> l_pid e = pid"

fun close_vfds :: "int list \<Rightarrow> shim \<Rightarrow> shim option" where
  "close_vfds [] s = Some s"
| "close_vfds (vfd # vfds) s = do { s1 \<leftarrow> close_vfd vfd s; close_vfds vfds s1 }"

text \<open>The array \<^verbatim>\<open>vfds\<close> has room for all eight entries, so the bound on its counter never cuts it.\<close>

definition ForgetLanSocketsForPid :: "window \<Rightarrow> u64 \<Rightarrow> shim \<Rightarrow> (shim \<times> nat) option" where
  "ForgetLanSocketsForPid w pid s = do {
     let vfds = map l_vnetFd (List.filter (\<lambda>e. belongs pid e \<and> l_vnetFd e \<noteq> InvalidSocket) (b_socks s));
     s1 \<leftarrow> w (s\<lparr>b_socks := map (\<lambda>e. if belongs pid e then lan_zero else e) (b_socks s)\<rparr>);
     s2 \<leftarrow> (if b_port s1 \<noteq> None then close_vfds vfds s1 else Some s1);
     Some (s2, length vfds) }"

section \<open>Socket addresses\<close>

text \<open>Port and address of a \<^verbatim>\<open>sockaddr_in\<close>, as every request reads them.\<close>

definition addr_port :: "u8 list \<Rightarrow> u16" where
  "addr_port a = push_bit 8 (ucast (a ! 2)) OR ucast (a ! 3)"

definition addr_ip :: "u8 list \<Rightarrow> u32" where
  "addr_ip a = push_bit 24 (ucast (a ! 4)) OR push_bit 16 (ucast (a ! 5)) OR push_bit 8 (ucast (a ! 6)) OR ucast (a ! 7)"

section \<open>Mirroring a socket\<close>

text \<open>
  \<^verbatim>\<open>EnsureLanMirror\<close>: the check, the opening and binding of a candidate, and the installation each
  take the lock anew.
\<close>

definition open_bound :: "window \<Rightarrow> u16 \<Rightarrow> shim \<Rightarrow> (shim \<times> int) option" where
  "open_bound w port s = do {
     (s1, candidate) \<leftarrow> on_port OpenLanSocket s;
     if candidate = InvalidSocket then Some (s1, InvalidSocket)
     else do {
       s1 \<leftarrow> w s1;
       (s2, bound) \<leftarrow> on_port (BindLanSocket candidate port) s1;
       if bound then Some (s2, candidate)
       else do { s3 \<leftarrow> close_vfd candidate s2; Some (s3, InvalidSocket) } } }"

definition install_mirror :: "u64 \<Rightarrow> int \<Rightarrow> int \<Rightarrow> shim \<Rightarrow> (shim \<times> int) option" where
  "install_mirror pid fd candidate s =
     (case FindLanSocketLocked pid fd s of
        Some i \<Rightarrow>
          if \<not> l_udp (b_socks s ! i) then do { s1 \<leftarrow> close_vfd candidate s; Some (s1, InvalidSocket) }
          else if \<not> l_mirrored (b_socks s ! i)
          then Some (set_lan i (\<lambda>e. e\<lparr>l_vnetFd := candidate, l_mirrored := True\<rparr>) s, candidate)
          else do { s1 \<leftarrow> close_vfd candidate s; Some (s1, l_vnetFd (b_socks s ! i)) }
      | None \<Rightarrow> do { s1 \<leftarrow> close_vfd candidate s; Some (s1, InvalidSocket) })"

definition EnsureLanMirror :: "window \<Rightarrow> u64 \<Rightarrow> int \<Rightarrow> u16 \<Rightarrow> shim \<Rightarrow> (shim \<times> int) option" where
  "EnsureLanMirror w pid fd port s =
     (if b_port s = None \<or> port = 0 then Some (s, InvalidSocket)
      else case FindLanSocketLocked pid fd s of
        None \<Rightarrow> Some (s, InvalidSocket)
      | Some i \<Rightarrow>
          if \<not> l_udp (b_socks s ! i) then Some (s, InvalidSocket)
          else if l_mirrored (b_socks s ! i) then Some (s, l_vnetFd (b_socks s ! i))
          else do {
            s1 \<leftarrow> w s;
            (s2, candidate) \<leftarrow> open_bound w port s1;
            if candidate = InvalidSocket then Some (s2, InvalidSocket)
            else do { s3 \<leftarrow> w s2; install_mirror pid fd candidate s3 } })"

section \<open>Datagrams through the mirror\<close>

definition mirror_datagram :: "int \<Rightarrow> u32 \<Rightarrow> u16 \<Rightarrow> u8 list \<Rightarrow> shim \<Rightarrow> (shim \<times> bool) option" where
  "mirror_datagram vfd ip port data s = on_port (MirrorLanDatagram vfd ip port (Some data) (length data)) s"

definition mirror_broadcast :: "int \<Rightarrow> u16 \<Rightarrow> u8 list \<Rightarrow> shim \<Rightarrow> (shim \<times> bool) option" where
  "mirror_broadcast vfd port data s = on_port (MirrorLanBroadcast vfd port (Some data) (length data)) s"

text \<open>A browse reply (first byte 1 to port 30000) is always sent to the address given.\<close>

definition browse_reply :: "u16 \<Rightarrow> u8 list \<Rightarrow> bool" where
  "browse_reply port data \<longleftrightarrow> \<not> (port \<noteq> 30000 \<or> length data < 5 \<or> data ! 0 \<noteq> 1)"

definition MirrorLanPayload :: "int \<Rightarrow> u32 \<Rightarrow> u16 \<Rightarrow> bool \<Rightarrow> u8 list \<Rightarrow> shim \<Rightarrow> (shim \<times> bool) option" where
  "MirrorLanPayload vfd ip port broadcast data s =
     (if b_port s = None then Some (s, False)
      else if \<not> browse_reply port data \<and> broadcast then mirror_broadcast vfd port data s
      else mirror_datagram vfd ip port data s)"

definition MirrorConnectedLanDatagram :: "window \<Rightarrow> u64 \<Rightarrow> int \<Rightarrow> u8 list \<Rightarrow> shim \<Rightarrow> (shim \<times> bool) option" where
  "MirrorConnectedLanDatagram w pid fd data s =
     (case (b_port s, GetConnectedLanPeer pid fd s) of
        (Some _, Some (vfd, ip, port)) \<Rightarrow> do { s1 \<leftarrow> w s; mirror_datagram vfd ip port data s1 }
      | _ \<Rightarrow> Some (s, False))"

definition shadow_readable :: "u64 \<Rightarrow> int \<Rightarrow> shim \<Rightarrow> bool" where
  "shadow_readable pid fd s =
     (let vfd = GetLanVfd pid fd s in
      vfd \<noteq> InvalidSocket \<and> (case b_port s of None \<Rightarrow> False | Some p \<Rightarrow> PortState.LanSocketReadable vfd p))"

definition receive_shadow ::
  "window \<Rightarrow> u64 \<Rightarrow> int \<Rightarrow> u8 list \<Rightarrow> bool \<Rightarrow> shim \<Rightarrow> (shim \<times> int \<times> u8 list option \<times> (u32 \<times> u16) option) option" where
  "receive_shadow w pid fd buf peek s =
     (let vfd = GetLanVfd pid fd s in
      if vfd = InvalidSocket \<or> b_port s = None then Some (s, -1, Some buf, None)
      else do {
        s1 \<leftarrow> w s;
        on_port (PortState.ReceiveLanDatagram vfd (Some buf) (length buf) peek) s1 })"

text \<open>Errors of the physical duplicate that a mirrored socket reports as an empty queue.\<close>

definition route_errors :: "int list" where "route_errors = [101, 102, 104, 110, 111, 113]"

definition SuppressPhysicalUdpError :: "u64 \<Rightarrow> int \<Rightarrow> int \<times> int \<Rightarrow> shim \<Rightarrow> (int \<times> int) \<times> bool" where
  "SuppressPhysicalUdpError pid fd result s =
     (if 0 \<le> fst result \<or> GetLanVfd pid fd s = InvalidSocket then (result, False)
      else if snd result \<in> set route_errors then ((fst result, 11), True)
      else (result, False))"

end
