(* ===== verification/BsdOwner.thy ===== *)
theory BsdOwner
  imports BsdTable
begin

text \<open>
  Who owns the sockets of the virtual interface: the contract between the table of shadow sockets
  and the requests built on it, as the locale \<open>shadow_table\<close>, and its two interpretations.
  \<open>safe\<close> says only that nothing goes wrong in memory, and survives a reset of the interface;
  \<open>owned\<close> says that every open socket belongs to exactly one entry of the table or to one operation
  in progress, and lasts until such a reset.
\<close>

section \<open>Which sockets of the interface are open\<close>

lemma vfd_ok_used:
  "map s_used (m_socks v) = map s_used (m_socks w) \<Longrightarrow> length (m_socks v) = MaxSockets \<Longrightarrow>
   vfd_ok v k = vfd_ok w k"
proof -
  assume eq: "map s_used (m_socks v) = map s_used (m_socks w)" and ln: "length (m_socks v) = MaxSockets"
  then have "length (m_socks w) = MaxSockets" by (metis length_map)
  moreover have "s_used (m_socks v ! i) = s_used (m_socks w ! i)" if "i < MaxSockets" for i
    using eq that ln calculation by (metis nth_map)
  ultimately show ?thesis by (auto simp: vfd_ok_def)
qed

lemma vnet_socks_length: "vnet_inv v \<Longrightarrow> length (m_socks v) = MaxSockets"
  by (auto simp: vnet_inv_def pool_inv_def dest: layout_lengths)

lemma vfd_ok_emitted [simp]: "vfd_ok (v\<lparr>m_emitted := x\<rparr>) k = vfd_ok v k"
  by (simp add: vfd_ok_def)

lemma open_used:
  assumes "vnet_inv v" and "udpOpen v = (w, k)"
  shows "k = -1 \<and> w = v \<or>
    0 \<le> k \<and> \<not> vfd_ok v k \<and> (\<forall>j. vfd_ok w j \<longleftrightarrow> j = k \<or> vfd_ok v j)"
proof (cases "find_index (\<lambda>s. \<not> s_used s) (m_socks v)")
  case None
  with assms(2) show ?thesis by (simp add: udpOpen_def InvalidSocket_def)
next
  case (Some i)
  note ln = vnet_socks_length [OF assms(1)]
  have i: "i < MaxSockets" "\<not> s_used (m_socks v ! i)" using find_index_SomeD [OF Some] ln by simp_all
  have w: "k = int i" "w = v\<lparr>m_socks := (m_socks v)[i := zero_sock\<lparr>s_used := True, s_qHead := -1, s_qTail := -1\<rparr>]\<rparr>"
    using assms(2) Some by (simp_all add: udpOpen_def)
  have "vfd_ok w j \<longleftrightarrow> j = k \<or> vfd_ok v j" for j
    using i ln by (auto simp: w vfd_ok_def nth_list_update)
  with i w show ?thesis by (simp add: vfd_ok_def)
qed

lemma bind_used:
  assumes "vnet_inv v"
  shows "vfd_ok (fst (udpBind vfd ip port v)) k = vfd_ok v k"
proof (cases "vfd_ok v vfd")
  case True
  obtain w p where b: "(if port = 0 then bind_tries 4096 v else (v, port)) = (w, p)" by fastforce
  then obtain e where w: "w = v\<lparr>m_nextEphemeral := e\<rparr>"
    using bind_tries_frame [of 4096 v w p] by (cases "port = 0") (auto intro: that [of "m_nextEphemeral v"])
  show ?thesis
    by (rule vfd_ok_used)
      (use True b w vnet_socks_length [OF assms] in
        \<open>simp_all add: udpBind_def Let_def map_update list_update_same_conv nth_map vfd_ok_range\<close>)
qed (simp add: udpBind_def)

lemma send_used:
  assumes "vnet_inv v" and "len \<le> length b" and "udpSendTo vfd dst dp (Some b) len v = Some (w, n)"
  shows "vfd_ok w k = vfd_ok v k"
proof (cases "vfd_ok v vfd \<and> m_configured v \<and> len \<le> MaxDatagram")
  case False
  with assms(3) show ?thesis by (auto simp: udpSendTo_def vfd_ok_def bump_def split: if_splits)
next
  case True
  have "pool_inv v" "49152 \<le> unat (m_nextEphemeral v)" "mtu_ok v" using assms(1) by (simp_all add: vnet_inv_def)
  from udpSendTo_ok [OF this(1,2) _ this(3) _ _ assms(2), of vfd dst dp] True assms(3) obtain fs st where
    "w = sent (after_send (udp_source vfd v) dst) fs st" by auto
  then have "vfd_ok w k = vfd_ok (udp_source vfd v) k"
    by (simp add: vfd_ok_def sent_def after_send_def)
  then show ?thesis using bind_used [OF assms(1)] by (simp add: udp_source_def)
qed

lemma recv_used:
  assumes "vnet_inv v" and "\<And>b. buf = Some b \<Longrightarrow> maxlen \<le> length b"
    and "udpRecvFrom vfd buf maxlen peek v = Some (w, r)"
  shows "vfd_ok w k = vfd_ok v k"
proof (cases "vfd_ok v vfd")
  case True
  then have i: "int (nat vfd) = vfd" "nat vfd < MaxSockets" "s_used (m_socks v ! nat vfd)"
    using vfd_ok_range by auto
  from assms(1) obtain fl qs where l: "layout v fl qs" by (rule vnet_inv_obtain)
  show ?thesis
  proof (cases "qs ! nat vfd")
    case Nil
    from recv_empty [OF l i(2) Nil] i(1) assms(3) show ?thesis by simp
  next
    case (Cons x q)
    obtain ip port data where dg: "pkt_datagram (m_pool v ! x) = (ip, port, data)" by (cases "pkt_datagram (m_pool v ! x)")
    from recv_ok(1) [OF l i(2,3) Cons assms(2) dg] i(1) assms(3)
    have w: "w = (if peek then v else pop_state (nat vfd) x v)" by simp
    have "vfd_ok (pop_state (nat vfd) x v) k = vfd_ok v k"
      by (rule vfd_ok_used)
        (use vnet_socks_length [OF assms(1)] i in \<open>simp_all add: pop_state_def Let_def map_update list_update_same_conv\<close>)
    with w show ?thesis by simp
  qed
qed (use assms(3) in \<open>simp add: recv_closed\<close>)

lemma close_used:
  assumes "vnet_inv v" and "udpClose vfd v = Some w"
  shows "vfd_ok w k \<longleftrightarrow> vfd_ok v k \<and> k \<noteq> vfd"
proof (cases "vfd_ok v vfd")
  case True
  then have i: "int (nat vfd) = vfd" "nat vfd < MaxSockets" "s_used (m_socks v ! nat vfd)"
    using vfd_ok_range by auto
  from assms(1) obtain fl qs where l: "layout v fl qs" by (rule vnet_inv_obtain)
  from close_ok [OF l i(2,3)] i(1) assms(2) have
    "m_socks w = (m_socks v)[nat vfd := empty_sock]" by auto
  moreover have "0 \<le> vfd" using i(1) by (metis of_nat_0_le_iff)
  ultimately show ?thesis using i(2,3) vnet_socks_length [OF assms(1)]
    by (auto simp: vfd_ok_def nth_list_update empty_sock_def zero_sock_def)
qed (use assms(2) in \<open>auto simp: udpClose_def\<close>)


text \<open>An inbound frame opens and closes no socket either.\<close>

definition used :: "VNet \<Rightarrow> bool list" where
  "used v = map s_used (m_socks v)"

lemma used_bump [simp]: "used (bump f v) = used v"
  by (simp add: used_def bump_def)

lemma used_emit [simp]: "used (emit m t d v) = used v"
  by (simp add: used_def emit_def)

lemma used_learn [simp]: "used (learnMac ip mac v) = used v"
  by (simp add: used_def learnMac_def Let_def split: sum.split)

lemma used_other [simp]:
  "used (v\<lparr>m_reasm := r\<rparr>) = used v" "used (v\<lparr>m_tick := t\<rparr>) = used v"
  "used (v\<lparr>m_pool := p\<rparr>) = used v" "used (v\<lparr>m_freeList := h\<rparr>) = used v"
  by (simp_all add: used_def)

lemma used_sock:
  "0 \<le> i \<Longrightarrow> i < int (length (m_socks v)) \<Longrightarrow> s_used s = s_used (m_socks v ! nat i) \<Longrightarrow>
   used (v\<lparr>m_pool := p, m_socks := (m_socks v)[nat i := s]\<rparr>) = used v"
  by (simp add: used_def map_update list_update_same_conv)

lemma alloc_socks: "allocPkt v = Some (w, i) \<Longrightarrow> m_socks w = m_socks v"
  by (auto simp: allocPkt_def Let_def Option.bind_eq_Some_conv split: if_splits)

lemma used_aset:
  "aget (m_socks u) j = Some e \<Longrightarrow> aset (m_socks u) j d = Some ss \<Longrightarrow> s_used d = s_used e \<Longrightarrow>
   used (u\<lparr>m_pool := p, m_socks := ss\<rparr>) = used u"
  by (auto simp: used_def aset_def aget_def map_update list_update_same_conv split: if_splits)

lemma push_used:
  assumes "pushToSocket i ip port data v = Some w"
  shows "used w = used v"
proof (cases "MaxDatagram < length data")
  case False
  obtain v1 idx where a: "allocPkt v = Some (v1, idx)"
    using assms False by (cases "allocPkt v") (auto simp: pushToSocket_def)
  have u: "used v1 = used v" using alloc_socks [OF a] by (simp add: used_def)
  show ?thesis
  proof (cases "idx < 0")
    case neg: False
    from assms False a neg obtain pool e where e: "aget (m_socks v1) (int i) = Some e"
      and w: "(\<exists>ss. aset (m_socks v1) (int i) (e\<lparr>s_qHead := idx, s_qTail := idx, s_qCount := s_qCount e + 1\<rparr>) = Some ss \<and>
           w = v1\<lparr>m_pool := pool, m_socks := ss\<rparr>) \<or>
         (\<exists>ss pool2. aset (m_socks v1) (int i) (e\<lparr>s_qTail := idx, s_qCount := s_qCount e + 1\<rparr>) = Some ss \<and>
           w = v1\<lparr>m_pool := pool2, m_socks := ss\<rparr>)"
      unfolding pushToSocket_def by (simp add: Option.bind_eq_Some_conv split: if_splits) blast+
    from w show ?thesis
      using used_aset [OF e] u by (elim disjE exE conjE) simp_all
  qed (use assms False a u in \<open>auto simp: pushToSocket_def\<close>)
qed (use assms in \<open>auto simp: pushToSocket_def\<close>)

lemma deliver_used: "udp_deliver a b c d e socks v x = Some (w, y) \<Longrightarrow> used w = used v"
proof (induction socks arbitrary: v x)
  case (Cons i socks)
  then show ?case
    by (auto simp: Option.bind_eq_Some_conv split: if_splits dest: push_used)
qed simp

lemma send_used_ip: "sendIpv4 dst proto p v = Some w \<Longrightarrow> mtu_ok v \<Longrightarrow> used w = used v"
  using sendIpv4_ok [of v dst proto p] by (auto simp: used_def sent_def after_send_def)

lemma mtu_ok_bump [simp]: "mtu_ok (bump f v) = mtu_ok v"
  by (simp add: mtu_ok_def bump_def)

lemma mtu_ok_learn [simp]: "mtu_ok (learnMac ip mac v) = mtu_ok v"
  by (simp add: mtu_ok_def learnMac_def Let_def split: sum.split)

lemma udp_used: "onUdp a b p v = Some w \<Longrightarrow> used w = used v"
  by (auto simp: onUdp_def Let_def Option.bind_eq_Some_conv split: if_splits dest!: deliver_used)

lemma icmp_used: "onIcmp a p v = Some w \<Longrightarrow> mtu_ok v \<Longrightarrow> used w = used v"
  by (auto simp: onIcmp_def Let_def Option.bind_eq_Some_conv split: if_splits dest!: send_used_ip)

lemma deliverIpv4_used: "deliverIpv4 a b c p v = Some w \<Longrightarrow> mtu_ok v \<Longrightarrow> used w = used v"
  by (auto simp: deliverIpv4_def split: if_splits dest: udp_used icmp_used)

lemma mtu_ok_reasm: "mtu_ok (v\<lparr>m_reasm := r, m_tick := t\<rparr>) = mtu_ok v"
  by (simp add: mtu_ok_def)

lemma reasm_used: "reasm_frag a b c d e m p v = Some w \<Longrightarrow> mtu_ok v \<Longrightarrow> used w = used v"
  by (auto simp: reasm_frag_def Let_def Option.bind_eq_Some_conv mtu_ok_reasm
      split: if_splits prod.splits dest!: deliverIpv4_used)

lemma ip_used: "onIpv4 a p v = Some w \<Longrightarrow> mtu_ok v \<Longrightarrow> used w = used v"
  by (auto simp: onIpv4_def Let_def Option.bind_eq_Some_conv split: if_splits
      dest!: deliverIpv4_used reasm_used)

lemma arp_used: "onArp a p v = Some w \<Longrightarrow> used w = used v"
  by (auto simp: onArp_def Let_def Option.bind_eq_Some_conv split: if_splits)

lemma frame_used:
  assumes "vnet_inv v" and "onFrame a b c p v = Some w"
  shows "vfd_ok w k = vfd_ok v k"
proof (rule vfd_ok_used)
  have "mtu_ok v" using assms(1) by (simp add: vnet_inv_def)
  then show "map s_used (m_socks w) = map s_used (m_socks v)"
    using assms(2) by (fold used_def)
      (auto simp: onFrame_def Let_def split: if_splits option.splits dest!: ip_used arp_used)
  then show "length (m_socks w) = MaxSockets"
    using vnet_socks_length [OF assms(1)] by (metis length_map)
qed

section \<open>The contract\<close>

locale shadow_table =
  fixes inv :: "int list \<Rightarrow> shim \<Rightarrow> bool"
  assumes shape: "inv fl s \<Longrightarrow> length (b_socks s) = MaxLanSockets \<and> b_port s \<noteq> None"
    and scratch: "inv fl s \<Longrightarrow> length (b_mmsg s) = MMsgPayloadMax"
    and scratch_law: "inv fl s \<Longrightarrow> length b = MMsgPayloadMax \<Longrightarrow> inv fl (s\<lparr>b_mmsg := b\<rparr>)"
    and open_law: "inv fl s \<Longrightarrow>
      \<exists>t c. on_port OpenLanSocket s = Some (t, c) \<and> inv (if c = InvalidSocket then fl else c # fl) t"
    and bind_law: "inv fl s \<Longrightarrow> \<exists>t ok. on_port (BindLanSocket vfd port) s = Some (t, ok) \<and> inv fl t"
    and close_law: "inv (c # fl) s \<Longrightarrow> \<exists>t. close_vfd c s = Some t \<and> inv fl t"
    and install_law: "inv (c # fl) s \<Longrightarrow> i < MaxLanSockets \<Longrightarrow> l_pid (b_socks s ! i) \<noteq> 0 \<Longrightarrow>
      \<not> l_mirrored (b_socks s ! i) \<Longrightarrow>
      inv fl (set_lan i (\<lambda>e. e\<lparr>l_vnetFd := c, l_mirrored := True\<rparr>) s)"
    and forget_law: "inv fl s \<Longrightarrow> i < MaxLanSockets \<Longrightarrow> l_pid (b_socks s ! i) \<noteq> 0 \<Longrightarrow>
      inv (if l_vnetFd (b_socks s ! i) \<noteq> InvalidSocket then l_vnetFd (b_socks s ! i) # fl else fl)
        (set_lan i (\<lambda>_. lan_zero) s)"
    and forget_pid_law: "inv fl s \<Longrightarrow> pid \<noteq> 0 \<Longrightarrow>
      inv (map l_vnetFd (List.filter (\<lambda>e. belongs pid e \<and> l_vnetFd e \<noteq> InvalidSocket) (b_socks s)) @ fl)
        (s\<lparr>b_socks := map (\<lambda>e. if belongs pid e then lan_zero else e) (b_socks s)\<rparr>)"
    and edit_law: "inv fl s \<Longrightarrow> i < MaxLanSockets \<Longrightarrow>
      (\<And>e. l_pid (f e) = l_pid e \<and> l_vnetFd (f e) = l_vnetFd e \<and> l_mirrored (f e) = l_mirrored e) \<Longrightarrow>
      inv fl (set_lan i f s)"
    and track_law: "inv fl s \<Longrightarrow> i < MaxLanSockets \<Longrightarrow> l_pid (b_socks s ! i) = 0 \<Longrightarrow> pid \<noteq> 0 \<Longrightarrow>
      inv fl (set_lan i (\<lambda>_. lan_zero\<lparr>l_pid := pid, l_bsdFd := fd, l_vnetFd := InvalidSocket, l_udp := True\<rparr>) s)"
    and datagram_law: "inv fl s \<Longrightarrow> \<exists>t ok. mirror_datagram vfd ip port data s = Some (t, ok) \<and> inv fl t"
    and broadcast_law: "inv fl s \<Longrightarrow> \<exists>t ok. mirror_broadcast vfd port data s = Some (t, ok) \<and> inv fl t"
    and frame_law: "inv fl s \<Longrightarrow> \<exists>t. map_option fst (on_port
        (\<lambda>p. map_option (\<lambda>q. (q, ())) (cbVirtualFrame nwid smac dmac ethertype payload p)) s) = Some t \<and> inv fl t"
    and receive_law: "inv fl s \<Longrightarrow>
      \<exists>t n out from. on_port (PortState.ReceiveLanDatagram vfd (Some buf) (length buf) peek) s = Some (t, n, out, from) \<and>
        inv fl t \<and> (0 \<le> n \<longrightarrow> out \<noteq> None \<and> from \<noteq> None)"
begin

definition keeps :: "window \<Rightarrow> bool" where
  "keeps w \<longleftrightarrow> (\<forall>fl s. inv fl s \<longrightarrow> (\<exists>t. w s = Some t \<and> inv fl t))"

definition fine :: "int list \<Rightarrow> (shim \<times> 'a) option \<Rightarrow> bool" where
  "fine fl r \<longleftrightarrow> (\<exists>t x. r = Some (t, x) \<and> inv fl t)"

lemma fine_Some [simp]: "fine fl (Some (t, x)) \<longleftrightarrow> inv fl t"
  by (simp add: fine_def)

lemma fineE: "fine fl r \<Longrightarrow> (\<And>t x. r = Some (t, x) \<Longrightarrow> inv fl t \<Longrightarrow> P) \<Longrightarrow> P"
  by (auto simp: fine_def)

lemma keepsE: "keeps w \<Longrightarrow> inv fl s \<Longrightarrow> (\<And>t. w s = Some t \<Longrightarrow> inv fl t \<Longrightarrow> P) \<Longrightarrow> P"
  unfolding keeps_def by metis

lemma keeps_Some: "keeps Some"
  by (simp add: keeps_def)

lemma keeps_comp: "keeps w \<Longrightarrow> keeps x \<Longrightarrow> keeps (\<lambda>s. Option.bind (w s) x)"
  unfolding keeps_def by (metis Option.bind.bind_lunit)

lemma find_entry:
  assumes "inv fl s" and "FindLanSocketLocked pid fd s = Some i"
  shows "i < MaxLanSockets" and "i < length (b_socks s)" and "l_pid (b_socks s ! i) = pid" "l_bsdFd (b_socks s ! i) = fd"
  using assms shape [OF assms(1)] find_index_SomeD [of _ "b_socks s" i]
  by (auto simp: FindLanSocketLocked_def split: if_splits)

lemma close_fine: "inv (c # fl) s \<Longrightarrow> (\<And>t. close_vfd c s = Some t \<Longrightarrow> inv fl t \<Longrightarrow> P) \<Longrightarrow> P"
  using close_law by blast

lemma close_all_fine: "inv (cs @ fl) s \<Longrightarrow> \<exists>t. close_vfds cs s = Some t \<and> inv fl t"
proof (induction cs arbitrary: s)
  case (Cons c cs)
  then obtain t where "close_vfd c s = Some t" "inv (cs @ fl) t"
    using close_law [of c "cs @ fl" s] by auto
  with Cons.IH [of t] show ?case by simp
qed simp

lemma install_fine:
  assumes "inv (c # fl) s" and "pid \<noteq> 0"
  shows "fine fl (install_mirror pid fd c s)"
proof -
  obtain t where t: "close_vfd c s = Some t" "inv fl t" using close_law [OF assms(1)] by blast
  show ?thesis
  proof (cases "FindLanSocketLocked pid fd s")
    case (Some i)
    note e = find_entry [OF assms(1) Some]
    show ?thesis
    proof (cases "l_udp (b_socks s ! i) \<and> \<not> l_mirrored (b_socks s ! i)")
      case True
      from install_law [OF assms(1) e(1)] e(3) assms(2) True
      show ?thesis by (simp add: install_mirror_def Some)
    next
      case False
      with t Some show ?thesis by (auto simp: install_mirror_def)
    qed
  qed (use t in \<open>simp add: install_mirror_def\<close>)
qed

lemma open_bound_fine:
  assumes "inv fl s" and w: "keeps w"
  shows "\<exists>t c. open_bound w port s = Some (t, c) \<and> inv (if c = InvalidSocket then fl else c # fl) t"
proof -
  obtain s1 c where s1: "on_port OpenLanSocket s = Some (s1, c)" "inv (if c = InvalidSocket then fl else c # fl) s1"
    using open_law [OF assms(1)] by blast
  show ?thesis
  proof (cases "c = InvalidSocket")
    case False
    with s1(2) obtain s2 where s2: "w s1 = Some s2" "inv (c # fl) s2" using keepsE [OF w] by auto
    obtain s3 ok where s3: "on_port (BindLanSocket c port) s2 = Some (s3, ok)" "inv (c # fl) s3"
      using bind_law [OF s2(2)] by blast
    obtain s4 where "close_vfd c s3 = Some s4" "inv fl s4" using close_law [OF s3(2)] by blast
    with False s1 s2 s3 show ?thesis by (cases ok) (auto simp: open_bound_def)
  qed (use s1 in \<open>simp add: open_bound_def\<close>)
qed

lemma ensure_fine:
  assumes "inv fl s" and w: "keeps w" and pid: "pid \<noteq> 0"
  shows "fine fl (EnsureLanMirror w pid fd port s)"
proof (cases "b_port s = None \<or> port = 0 \<or> FindLanSocketLocked pid fd s = None")
  case True
  with assms(1) show ?thesis by (auto simp: EnsureLanMirror_def)
next
  case False
  then obtain i where i: "FindLanSocketLocked pid fd s = Some i" by auto
  show ?thesis
  proof (cases "l_udp (b_socks s ! i) \<and> \<not> l_mirrored (b_socks s ! i)")
    case True
    obtain s1 where s1: "w s = Some s1" "inv fl s1" using keepsE [OF w assms(1)] by blast
    obtain s2 c where s2: "open_bound w port s1 = Some (s2, c)" "inv (if c = InvalidSocket then fl else c # fl) s2"
      using open_bound_fine [OF s1(2) w] by blast
    show ?thesis
    proof (cases "c = InvalidSocket")
      case True
      with s1 s2 i \<open>l_udp _ \<and> _\<close> False show ?thesis by (auto simp: EnsureLanMirror_def)
    next
      case c: False
      with s2 have "inv (c # fl) s2" by simp
      then obtain s3 where s3: "w s2 = Some s3" "inv (c # fl) s3" using keepsE [OF w] by blast
      from install_fine [OF s3(2) pid, of fd] s1 s2 s3 i c \<open>l_udp _ \<and> _\<close> False
      show ?thesis by (auto simp: EnsureLanMirror_def)
    qed
  next
    case n: False
    with assms(1) i False show ?thesis by (auto simp: EnsureLanMirror_def)
  qed
qed

lemma close_if_fine:
  assumes "inv (if vfd \<noteq> InvalidSocket then vfd # fl else fl) s"
  shows "\<exists>t. (if vfd \<noteq> InvalidSocket \<and> b_port s \<noteq> None then close_vfd vfd s else Some s) = Some t \<and> inv fl t"
  using assms shape [OF assms] close_law [of vfd fl s] by auto

lemma forget_fine:
  assumes "inv fl s" and w: "keeps w" and pid: "pid \<noteq> 0"
  shows "\<exists>t. ForgetLanSocket w pid fd s = Some t \<and> inv fl t"
proof (cases "FindLanSocketLocked pid fd s")
  case (Some i)
  note e = find_entry [OF assms(1) Some]
  let ?vfd = "l_vnetFd (b_socks s ! i)"
  obtain s1 where s1: "w (set_lan i (\<lambda>_. lan_zero) s) = Some s1"
    "inv (if ?vfd \<noteq> InvalidSocket then ?vfd # fl else fl) s1"
    using keepsE [OF w forget_law [OF assms(1) e(1)]] e(3) pid by metis
  from close_if_fine [OF s1(2)] s1(1) Some show ?thesis by (simp add: ForgetLanSocket_def Let_def)
qed (use assms(1) in \<open>simp add: ForgetLanSocket_def\<close>)

lemma forget_pid_fine:
  assumes "inv fl s" and w: "keeps w" and pid: "pid \<noteq> 0"
  shows "fine fl (ForgetLanSocketsForPid w pid s)"
proof -
  obtain s1 where s1: "w (s\<lparr>b_socks := map (\<lambda>e. if belongs pid e then lan_zero else e) (b_socks s)\<rparr>) = Some s1"
    "inv (map l_vnetFd (List.filter (\<lambda>e. belongs pid e \<and> l_vnetFd e \<noteq> InvalidSocket) (b_socks s)) @ fl) s1"
    using keepsE [OF w forget_pid_law [OF assms(1) pid]] by blast
  from close_all_fine [OF s1(2)] shape [OF s1(2)] s1(1) show ?thesis
    by (auto simp: ForgetLanSocketsForPid_def Let_def)
qed

lemma payload_fine: "inv fl s \<Longrightarrow> fine fl (MirrorLanPayload vfd ip port br data s)"
  using datagram_law [of fl s vfd ip port data] broadcast_law [of fl s vfd port data]
  by (auto simp: MirrorLanPayload_def fine_def)

lemma connected_fine:
  assumes "inv fl s" and w: "keeps w"
  shows "fine fl (MirrorConnectedLanDatagram w pid fd data s)"
proof -
  obtain s1 where s1: "w s = Some s1" "inv fl s1" using keepsE [OF w assms(1)] by blast
  from s1(1) datagram_law [OF s1(2)] assms(1) show ?thesis
    by (auto simp: MirrorConnectedLanDatagram_def fine_def split: option.split)
qed

lemma receive_fine:
  assumes "inv fl s" and w: "keeps w"
  shows "\<exists>t n out from. receive_shadow w pid fd buf peek s = Some (t, n, out, from) \<and> inv fl t \<and>
    (0 \<le> n \<longrightarrow> out \<noteq> None \<and> from \<noteq> None)"
proof -
  obtain s1 where s1: "w s = Some s1" "inv fl s1" using keepsE [OF w assms(1)] by blast
  from s1(1) receive_law [OF s1(2), of "GetLanVfd pid fd s" buf peek] assms(1) show ?thesis
    by (auto simp: receive_shadow_def Let_def)
qed

end


section \<open>Memory safety\<close>

definition safe :: "int list \<Rightarrow> shim \<Rightarrow> bool" where
  "safe fl s \<longleftrightarrow> length (b_socks s) = MaxLanSockets \<and> length (b_mmsg s) = MMsgPayloadMax \<and>
     (\<exists>p. b_port s = Some p \<and> port_inv p)"

definition open_vfd :: "shim \<Rightarrow> int \<Rightarrow> bool" where
  "open_vfd s k \<longleftrightarrow> (case b_port s of None \<Rightarrow> False | Some p \<Rightarrow> vfd_ok (p_vnet p) k)"

text \<open>A call on the interface: the table stays, the open sockets are those of the new interface.\<close>

lemma vnet_call:
  assumes "safe fl s" and "\<And>p. b_port s = Some p \<Longrightarrow> port_inv p \<Longrightarrow> \<exists>v r. f (p_vnet p) = Some (v, r) \<and> vnet_inv v"
  shows "\<exists>t r p v. on_port (on_vnet f) s = Some (t, r) \<and> safe fl t \<and> b_socks t = b_socks s \<and>
    b_port s = Some p \<and> vnet_inv (p_vnet p) \<and> f (p_vnet p) = Some (v, r) \<and> (\<forall>k. open_vfd t k \<longleftrightarrow> vfd_ok v k)"
proof -
  obtain p where p: "b_port s = Some p" "port_inv p" using assms(1) by (auto simp: safe_def)
  have e: "p_vnet p\<lparr>m_emitted := []\<rparr> = p_vnet p" using p(2) by (simp add: port_inv_def)
  obtain v r where v: "f (p_vnet p) = Some (v, r)" "vnet_inv v" using assms(2) p by blast
  obtain g where g: "emit_all (m_emitted v) (p_ring p) = Some g" "ring_inv g"
    using emit_all_ok [of "p_ring p" "m_emitted v"] p(2) by (auto simp: port_inv_def)
  let ?q = "p\<lparr>p_vnet := v\<lparr>m_emitted := []\<rparr>, p_ring := g\<rparr>"
  have "on_port (on_vnet f) s = Some (s\<lparr>b_port := Some ?q\<rparr>, r)"
    using p v g e by (simp add: on_port_def on_vnet_def)
  moreover have "safe fl (s\<lparr>b_port := Some ?q\<rparr>)"
    using assms(1) v g by (simp add: safe_def port_inv_def)
  moreover have "open_vfd (s\<lparr>b_port := Some ?q\<rparr>) k \<longleftrightarrow> vfd_ok v k" for k by (simp add: open_vfd_def)
  ultimately show ?thesis using p v by (auto simp: port_inv_def)
qed

text \<open>What each call of the table on the port does to the open sockets.\<close>

lemma open_effect:
  assumes "safe fl s"
  shows "\<exists>t c. on_port OpenLanSocket s = Some (t, c) \<and> safe fl t \<and> b_socks t = b_socks s \<and>
    (c = InvalidSocket \<and> (\<forall>k. open_vfd t k \<longleftrightarrow> open_vfd s k) \<or>
     c \<noteq> InvalidSocket \<and> \<not> open_vfd s c \<and> (\<forall>k. open_vfd t k \<longleftrightarrow> k = c \<or> open_vfd s k))"
proof -
  let ?f = "\<lambda>v. Some (if m_configured v then udpOpen v else (v, InvalidSocket))"
  have "\<exists>t r p v. on_port (on_vnet ?f) s = Some (t, r) \<and> safe fl t \<and> b_socks t = b_socks s \<and>
      b_port s = Some p \<and> vnet_inv (p_vnet p) \<and> ?f (p_vnet p) = Some (v, r) \<and> (\<forall>k. open_vfd t k \<longleftrightarrow> vfd_ok v k)"
  proof (rule vnet_call [OF assms])
    fix p assume "port_inv p"
    then have "vnet_inv (p_vnet p)" by (simp add: port_inv_def)
    then show "\<exists>v r. ?f (p_vnet p) = Some (v, r) \<and> vnet_inv v"
      using vnet_inv_open [of "p_vnet p"] by (cases "udpOpen (p_vnet p)") auto
  qed
  then obtain t r p v where t: "on_port OpenLanSocket s = Some (t, r)" "safe fl t" "b_socks t = b_socks s"
    "b_port s = Some p" "vnet_inv (p_vnet p)" "?f (p_vnet p) = Some (v, r)" "\<forall>k. open_vfd t k \<longleftrightarrow> vfd_ok v k"
    by (auto simp: OpenLanSocket_def [abs_def])
  have "open_vfd s k = vfd_ok (p_vnet p) k" for k using t(4) by (simp add: open_vfd_def)
  with t open_used [OF t(5), of v r] show ?thesis
    by (auto simp: InvalidSocket_def split: if_splits)
qed

lemma bind_effect:
  assumes "safe fl s"
  shows "\<exists>t b. on_port (BindLanSocket vfd port) s = Some (t, b) \<and> safe fl t \<and> b_socks t = b_socks s \<and>
    (\<forall>k. open_vfd t k \<longleftrightarrow> open_vfd s k)"
proof -
  let ?f = "\<lambda>v. Some (if m_configured v then (case udpBind vfd 0 port v of (v1, r) \<Rightarrow> (v1, r = 0)) else (v, False))"
  have "\<exists>t r p v. on_port (on_vnet ?f) s = Some (t, r) \<and> safe fl t \<and> b_socks t = b_socks s \<and>
      b_port s = Some p \<and> vnet_inv (p_vnet p) \<and> ?f (p_vnet p) = Some (v, r) \<and> (\<forall>k. open_vfd t k \<longleftrightarrow> vfd_ok v k)"
  proof (rule vnet_call [OF assms])
    fix p assume "port_inv p"
    then have "vnet_inv (p_vnet p)" by (simp add: port_inv_def)
    then show "\<exists>v r. ?f (p_vnet p) = Some (v, r) \<and> vnet_inv v"
      using vnet_inv_bind [of "p_vnet p" vfd 0 port] by (cases "udpBind vfd 0 port (p_vnet p)") auto
  qed
  then obtain t r p v where t: "on_port (BindLanSocket vfd port) s = Some (t, r)" "safe fl t" "b_socks t = b_socks s"
    "b_port s = Some p" "vnet_inv (p_vnet p)" "?f (p_vnet p) = Some (v, r)" "\<forall>k. open_vfd t k \<longleftrightarrow> vfd_ok v k"
    by (auto simp: BindLanSocket_def [abs_def])
  have "vfd_ok v k = vfd_ok (p_vnet p) k" for k
    using t(6) bind_used [OF t(5), of vfd 0 port k] by (auto split: if_splits prod.splits)
  with t show ?thesis by (auto simp: open_vfd_def)
qed

lemma close_vfd_eq:
  "close_vfd vfd s = map_option fst (on_port (on_vnet (\<lambda>v. map_option (\<lambda>w. (w, ())) (udpClose vfd v))) s)"
proof -
  have "map_option (\<lambda>q. (q, ())) (map_option fst x) = x" for x :: "(Port \<times> unit) option" by (cases x) auto
  then show ?thesis by (simp add: close_vfd_def CloseLanSocket_def)
qed

lemma close_effect:
  assumes "safe fl s"
  shows "\<exists>t. close_vfd vfd s = Some t \<and> safe fl t \<and> b_socks t = b_socks s \<and>
    (\<forall>k. open_vfd t k \<longleftrightarrow> open_vfd s k \<and> k \<noteq> vfd)"
proof -
  let ?f = "\<lambda>v. map_option (\<lambda>w. (w, ())) (udpClose vfd v)"
  have "\<exists>t r p v. on_port (on_vnet ?f) s = Some (t, r) \<and> safe fl t \<and> b_socks t = b_socks s \<and>
      b_port s = Some p \<and> vnet_inv (p_vnet p) \<and> ?f (p_vnet p) = Some (v, r) \<and> (\<forall>k. open_vfd t k \<longleftrightarrow> vfd_ok v k)"
  proof (rule vnet_call [OF assms])
    fix p assume "port_inv p"
    then have "vnet_inv (p_vnet p)" by (simp add: port_inv_def)
    then show "\<exists>v r. ?f (p_vnet p) = Some (v, r) \<and> vnet_inv v"
      using close_inv [of "p_vnet p" vfd] by (auto simp: okinv_def)
  qed
  then obtain t r p v where t: "on_port (on_vnet ?f) s = Some (t, r)" "safe fl t" "b_socks t = b_socks s"
    "b_port s = Some p" "vnet_inv (p_vnet p)" "?f (p_vnet p) = Some (v, r)" "\<forall>k. open_vfd t k \<longleftrightarrow> vfd_ok v k"
    by blast
  have "vfd_ok v k \<longleftrightarrow> vfd_ok (p_vnet p) k \<and> k \<noteq> vfd" for k
    using t(6) close_used [OF t(5)] by auto
  with t show ?thesis by (auto simp: open_vfd_def close_vfd_eq)
qed

text \<open>Sending and receiving open and close nothing.\<close>

lemma transfer_effect:
  assumes "safe fl s"
    and inv: "\<And>v. vnet_inv v \<Longrightarrow> okinv (map_option fst (f v))"
    and used: "\<And>v w r k. vnet_inv v \<Longrightarrow> f v = Some (w, r) \<Longrightarrow> vfd_ok w k = vfd_ok v k"
  shows "\<exists>t r. on_port (on_vnet f) s = Some (t, r) \<and> safe fl t \<and> b_socks t = b_socks s \<and>
    (\<forall>k. open_vfd t k \<longleftrightarrow> open_vfd s k)"
proof -
  have "\<exists>t r p v. on_port (on_vnet f) s = Some (t, r) \<and> safe fl t \<and> b_socks t = b_socks s \<and>
      b_port s = Some p \<and> vnet_inv (p_vnet p) \<and> f (p_vnet p) = Some (v, r) \<and> (\<forall>k. open_vfd t k \<longleftrightarrow> vfd_ok v k)"
  proof (rule vnet_call [OF assms(1)])
    fix p assume "port_inv p"
    then have "vnet_inv (p_vnet p)" by (simp add: port_inv_def)
    then show "\<exists>v r. f (p_vnet p) = Some (v, r) \<and> vnet_inv v"
      using inv [of "p_vnet p"] by (auto simp: okinv_def)
  qed
  then obtain t r p v where t: "on_port (on_vnet f) s = Some (t, r)" "safe fl t" "b_socks t = b_socks s"
    "b_port s = Some p" "vnet_inv (p_vnet p)" "f (p_vnet p) = Some (v, r)" "\<forall>k. open_vfd t k \<longleftrightarrow> vfd_ok v k"
    by blast
  with used [OF t(5,6)] show ?thesis by (auto simp: open_vfd_def)
qed

lemma send_fst_inv:
  "vnet_inv v \<Longrightarrow> okinv (map_option fst (map_option (\<lambda>(v1, n). (v1, 0 \<le> n)) (udpSendTo vfd ip port (Some b) (length b) v)))"
  using send_inv [of v "Some b" "length b" vfd ip port] by (auto simp: okinv_def)

lemma datagram_effect:
  assumes "safe fl s"
  shows "\<exists>t b. mirror_datagram vfd ip port data s = Some (t, b) \<and> safe fl t \<and> b_socks t = b_socks s \<and>
    (\<forall>k. open_vfd t k \<longleftrightarrow> open_vfd s k)"
  unfolding mirror_datagram_def MirrorLanDatagram_def [abs_def]
  by (rule transfer_effect [OF assms])
    (auto simp: Let_def split: if_splits intro: send_fst_inv dest: send_used [OF _ le_refl])

lemma broadcast_effect:
  assumes "safe fl s"
  shows "\<exists>t b. mirror_broadcast vfd port data s = Some (t, b) \<and> safe fl t \<and> b_socks t = b_socks s \<and>
    (\<forall>k. open_vfd t k \<longleftrightarrow> open_vfd s k)"
  unfolding mirror_broadcast_def MirrorLanBroadcast_def [abs_def]
  by (rule transfer_effect [OF assms])
    (auto simp: Let_def split: if_splits intro: send_fst_inv dest: send_used [OF _ le_refl])

lemma recv_result:
  assumes "vnet_inv v" and "udpRecvFrom vfd (Some b) (length b) peek v = Some (w, n, out, from)" and "0 \<le> n"
  shows "out \<noteq> None \<and> from \<noteq> None"
proof (cases "vfd_ok v vfd")
  case True
  then have i: "int (nat vfd) = vfd" "nat vfd < MaxSockets" "s_used (m_socks v ! nat vfd)"
    using vfd_ok_range by auto
  from assms(1) obtain fl qs where l: "layout v fl qs" by (rule vnet_inv_obtain)
  show ?thesis
  proof (cases "qs ! nat vfd")
    case Nil
    from recv_empty [OF l i(2) Nil, of "Some b" "length b" peek] i(1) assms(2,3) show ?thesis by simp
  next
    case (Cons x q)
    obtain ip port data where dg: "pkt_datagram (m_pool v ! x) = (ip, port, data)" by (cases "pkt_datagram (m_pool v ! x)")
    from recv_ok(1) [OF l i(2,3) Cons _ dg, of "Some b" "length b" peek] i(1) assms(2)
    show ?thesis by (auto simp: recv_buf_def)
  qed
qed (use assms(2,3) in \<open>simp add: recv_closed\<close>)

lemma receive_effect:
  assumes "safe fl s"
  shows "\<exists>t n out from. on_port (PortState.ReceiveLanDatagram vfd (Some buf) (length buf) peek) s = Some (t, n, out, from) \<and>
    (0 \<le> n \<longrightarrow> out \<noteq> None \<and> from \<noteq> None) \<and>
    safe fl t \<and> b_socks t = b_socks s \<and> (\<forall>k. open_vfd t k \<longleftrightarrow> open_vfd s k)"
proof -
  have "\<exists>t r p v. on_port (on_vnet (udpRecvFrom vfd (Some buf) (length buf) peek)) s = Some (t, r) \<and> safe fl t \<and>
      b_socks t = b_socks s \<and> b_port s = Some p \<and> vnet_inv (p_vnet p) \<and>
      udpRecvFrom vfd (Some buf) (length buf) peek (p_vnet p) = Some (v, r) \<and> (\<forall>k. open_vfd t k \<longleftrightarrow> vfd_ok v k)"
  proof (rule vnet_call [OF assms])
    fix p assume "port_inv p"
    then have "vnet_inv (p_vnet p)" by (simp add: port_inv_def)
    then show "\<exists>v r. udpRecvFrom vfd (Some buf) (length buf) peek (p_vnet p) = Some (v, r) \<and> vnet_inv v"
      using recv_inv [of "p_vnet p" "Some buf" "length buf" vfd peek] by (auto simp: okinv_def)
  qed
  then obtain t n out src p v where t: "on_port (on_vnet (udpRecvFrom vfd (Some buf) (length buf) peek)) s = Some (t, n, out, src)"
    "safe fl t" "b_socks t = b_socks s" "b_port s = Some p" "vnet_inv (p_vnet p)"
    "udpRecvFrom vfd (Some buf) (length buf) peek (p_vnet p) = Some (v, n, out, src)" "\<forall>k. open_vfd t k \<longleftrightarrow> vfd_ok v k"
    by (elim exE conjE) (metis prod_cases3)
  have "vfd_ok v k = vfd_ok (p_vnet p) k" for k by (rule recv_used [OF t(5) _ t(6)]) simp
  then have "\<forall>k. open_vfd t k \<longleftrightarrow> open_vfd s k" using t(4,7) by (simp add: open_vfd_def)
  with t recv_result [OF t(5,6)] show ?thesis by (auto simp: PortState.ReceiveLanDatagram_def [abs_def])
qed

lemma frame_effect:
  assumes "safe fl s"
  shows "\<exists>t. map_option fst (on_port (\<lambda>p. map_option (\<lambda>q. (q, ())) (cbVirtualFrame nwid smac dmac et payload p)) s) = Some t \<and>
    safe fl t \<and> b_socks t = b_socks s \<and> (\<forall>k. open_vfd t k \<longleftrightarrow> open_vfd s k)"
proof (cases "\<exists>p. b_port s = Some p \<and> nwid \<noteq> p_nwid p")
  case True
  then obtain p where "b_port s = Some p" "nwid \<noteq> p_nwid p" by blast
  with assms show ?thesis by (simp add: on_port_def cbVirtualFrame_def safe_def open_vfd_def)
next
  case False
  let ?f = "\<lambda>v. map_option (\<lambda>w. (w, ())) (onFrame smac dmac et payload v)"
  have "\<exists>t r. on_port (on_vnet ?f) s = Some (t, r) \<and> safe fl t \<and> b_socks t = b_socks s \<and>
      (\<forall>k. open_vfd t k \<longleftrightarrow> open_vfd s k)"
  proof (rule transfer_effect [OF assms])
    fix v assume "vnet_inv v"
    then show "okinv (map_option fst (?f v))"
      using frame_inv [of v smac dmac et payload] by (auto simp: okinv_def)
  next
    fix v w r k assume "vnet_inv v" "?f v = Some (w, r)"
    then show "vfd_ok w k = vfd_ok v k" using frame_used by auto
  qed
  moreover have "map_option (\<lambda>q. (q, ())) (map_option fst x) = x" for x :: "(Port \<times> unit) option" by (cases x) auto
  then have "on_port (\<lambda>p. map_option (\<lambda>q. (q, ())) (cbVirtualFrame nwid smac dmac et payload p)) s = on_port (on_vnet ?f) s"
    using False by (auto simp: on_port_def cbVirtualFrame_def split: option.split)
  ultimately show ?thesis by auto
qed

interpretation safe_table: shadow_table safe
proof
  show "safe fl s \<Longrightarrow> length (b_socks s) = MaxLanSockets \<and> b_port s \<noteq> None" for fl s
    by (auto simp: safe_def)
next
  show "safe fl s \<Longrightarrow> length (b_mmsg s) = MMsgPayloadMax" for fl s
    by (simp add: safe_def)
next
  show "safe fl s \<Longrightarrow> length b = MMsgPayloadMax \<Longrightarrow> safe fl (s\<lparr>b_mmsg := b\<rparr>)" for fl s b
    by (simp add: safe_def)
next
  fix fl s assume "safe fl s"
  then show "\<exists>t c. on_port OpenLanSocket s = Some (t, c) \<and> safe (if c = InvalidSocket then fl else c # fl) t"
    using open_effect by (fastforce simp: safe_def)
next
  fix fl s vfd port assume "safe fl s"
  then show "\<exists>t ok. on_port (BindLanSocket vfd port) s = Some (t, ok) \<and> safe fl t"
    using bind_effect by blast
next
  fix c fl s assume "safe (c # fl) s"
  then have "safe fl s" by (simp add: safe_def)
  then show "\<exists>t. close_vfd c s = Some t \<and> safe fl t" using close_effect by blast
next
  fix fl s vfd ip port data assume "safe fl s"
  then show "\<exists>t ok. mirror_datagram vfd ip port data s = Some (t, ok) \<and> safe fl t"
    using datagram_effect by blast
next
  fix fl s vfd port data assume "safe fl s"
  then show "\<exists>t ok. mirror_broadcast vfd port data s = Some (t, ok) \<and> safe fl t"
    using broadcast_effect by blast
next
  fix fl s nwid smac dmac et payload assume "safe fl s"
  then show "\<exists>t. map_option fst (on_port
      (\<lambda>p. map_option (\<lambda>q. (q, ())) (cbVirtualFrame nwid smac dmac et payload p)) s) = Some t \<and> safe fl t"
    using frame_effect by blast
next
  fix fl s vfd buf peek assume "safe fl s"
  then show "\<exists>t n out from. on_port (PortState.ReceiveLanDatagram vfd (Some buf) (length buf) peek) s = Some (t, n, out, from) \<and>
      safe fl t \<and> (0 \<le> n \<longrightarrow> out \<noteq> None \<and> from \<noteq> None)"
    using receive_effect by blast
qed (auto simp: safe_def set_lan_def)

section \<open>Ownership\<close>

definition shadow_vfds :: "shim \<Rightarrow> int list" where
  "shadow_vfds s = map l_vnetFd (List.filter l_mirrored (b_socks s))"

definition shadow_ok :: "LanSocket \<Rightarrow> bool" where
  "shadow_ok e \<longleftrightarrow> (l_mirrored e \<longrightarrow> l_pid e \<noteq> 0 \<and> l_vnetFd e \<noteq> InvalidSocket) \<and>
     (l_pid e \<noteq> 0 \<and> \<not> l_mirrored e \<longrightarrow> l_vnetFd e = InvalidSocket)"

definition owned :: "int list \<Rightarrow> shim \<Rightarrow> bool" where
  "owned fl s \<longleftrightarrow> safe fl s \<and> list_all shadow_ok (b_socks s) \<and> distinct (fl @ shadow_vfds s) \<and>
     (\<forall>k. open_vfd s k \<longleftrightarrow> k \<in> set (fl @ shadow_vfds s))"

lemma owned_change:
  assumes "owned fl s" and "safe gl t" and "list_all shadow_ok (b_socks t)"
    and "mset (gl @ shadow_vfds t) = mset (fl @ shadow_vfds s)" and "\<And>k. open_vfd t k = open_vfd s k"
  shows "owned gl t"
proof -
  have "set (gl @ shadow_vfds t) = set (fl @ shadow_vfds s)" using assms(4) by (rule mset_eq_setD)
  moreover have "distinct (gl @ shadow_vfds t) = distinct (fl @ shadow_vfds s)"
    using assms(4) by (rule mset_eq_imp_distinct_iff)
  ultimately show ?thesis using assms unfolding owned_def by simp
qed

lemma owned_same: "owned fl s \<Longrightarrow> safe fl t \<Longrightarrow> b_socks t = b_socks s \<Longrightarrow> (\<And>k. open_vfd t k = open_vfd s k) \<Longrightarrow> owned fl t"
  unfolding owned_def shadow_vfds_def by simp

lemma set_lan_split:
  assumes "i < length (b_socks s)"
  shows "b_socks s = take i (b_socks s) @ b_socks s ! i # drop (Suc i) (b_socks s)"
    and "b_socks (set_lan i f s) = take i (b_socks s) @ f (b_socks s ! i) # drop (Suc i) (b_socks s)"
  using assms by (simp_all add: id_take_nth_drop [symmetric] set_lan_def upd_conv_take_nth_drop)

text \<open>An edit of one entry: what matters is the entry before and after.\<close>

lemma owned_edit:
  assumes "owned fl s" and "i < MaxLanSockets" and "shadow_ok (f (b_socks s ! i))"
    and "mset gl + (if l_mirrored (f (b_socks s ! i)) then {#l_vnetFd (f (b_socks s ! i))#} else {#}) =
      mset fl + (if l_mirrored (b_socks s ! i) then {#l_vnetFd (b_socks s ! i)#} else {#})"
  shows "owned gl (set_lan i f s)"
proof -
  have i: "i < length (b_socks s)" using assms(1,2) by (simp add: owned_def safe_def)
  note sp = set_lan_split(1) [OF i] set_lan_split(2) [OF i, of f]
  show ?thesis
  proof (rule owned_change [OF assms(1)])
    show "safe gl (set_lan i f s)" using assms(1) by (simp add: owned_def safe_def set_lan_def)
    have "list_all shadow_ok (take i (b_socks s) @ b_socks s ! i # drop (Suc i) (b_socks s))"
      using assms(1) sp(1) by (simp add: owned_def)
    then show "list_all shadow_ok (b_socks (set_lan i f s))" using assms(3) sp(2) by simp
    have "mset (shadow_vfds (set_lan i f s)) =
        (if l_mirrored (f (b_socks s ! i)) then {#l_vnetFd (f (b_socks s ! i))#} else {#}) +
        mset (map l_vnetFd (List.filter l_mirrored (take i (b_socks s) @ drop (Suc i) (b_socks s))))"
      unfolding shadow_vfds_def sp(2) by simp
    moreover have "mset (shadow_vfds s) =
        (if l_mirrored (b_socks s ! i) then {#l_vnetFd (b_socks s ! i)#} else {#}) +
        mset (map l_vnetFd (List.filter l_mirrored (take i (b_socks s) @ drop (Suc i) (b_socks s))))"
      unfolding shadow_vfds_def by (subst sp(1)) simp
    ultimately show "mset (gl @ shadow_vfds (set_lan i f s)) = mset (fl @ shadow_vfds s)"
      using assms(4) by (simp add: add.assoc [symmetric])
    show "open_vfd (set_lan i f s) k = open_vfd s k" for k by (simp add: open_vfd_def set_lan_def)
  qed
qed

lemma owned_safe: "owned fl s \<Longrightarrow> safe fl s"
  by (simp add: owned_def)

lemma owned_entry: "owned fl s \<Longrightarrow> i < MaxLanSockets \<Longrightarrow> shadow_ok (b_socks s ! i)"
  by (auto simp: owned_def safe_def list_all_length)

lemma forget_pid_mset:
  assumes "list_all shadow_ok es" and "pid \<noteq> 0"
  shows "mset (map l_vnetFd (List.filter (\<lambda>e. belongs pid e \<and> l_vnetFd e \<noteq> InvalidSocket) es)) +
    mset (map l_vnetFd (List.filter l_mirrored (map (\<lambda>e. if belongs pid e then lan_zero else e) es))) =
    mset (map l_vnetFd (List.filter l_mirrored es))"
  using assms by (induction es) (auto simp: shadow_ok_def belongs_def lan_zero_def)

interpretation owned_table: shadow_table owned
proof
  show "owned fl s \<Longrightarrow> length (b_socks s) = MaxLanSockets \<and> b_port s \<noteq> None" for fl s
    by (auto simp: owned_def safe_def)
next
  show "owned fl s \<Longrightarrow> length (b_mmsg s) = MMsgPayloadMax" for fl s
    by (simp add: owned_def safe_def)
next
  show "owned fl s \<Longrightarrow> length b = MMsgPayloadMax \<Longrightarrow> owned fl (s\<lparr>b_mmsg := b\<rparr>)" for fl s b
    by (simp add: owned_def safe_def shadow_vfds_def open_vfd_def)
next
  fix fl s assume o: "owned fl s"
  then obtain t c where t: "on_port OpenLanSocket s = Some (t, c)" "safe fl t" "b_socks t = b_socks s"
    "c = InvalidSocket \<and> (\<forall>k. open_vfd t k \<longleftrightarrow> open_vfd s k) \<or>
     c \<noteq> InvalidSocket \<and> \<not> open_vfd s c \<and> (\<forall>k. open_vfd t k \<longleftrightarrow> k = c \<or> open_vfd s k)"
    using open_effect [OF owned_safe] by blast
  have "owned (if c = InvalidSocket then fl else c # fl) t"
    using o t by (auto simp: owned_def safe_def shadow_vfds_def)
  with t show "\<exists>t c. on_port OpenLanSocket s = Some (t, c) \<and> owned (if c = InvalidSocket then fl else c # fl) t"
    by blast
next
  fix fl s vfd port assume "owned fl s"
  then show "\<exists>t ok. on_port (BindLanSocket vfd port) s = Some (t, ok) \<and> owned fl t"
    using bind_effect [OF owned_safe] owned_same by metis
next
  fix c fl s assume o: "owned (c # fl) s"
  obtain t where t: "close_vfd c s = Some t" "safe (c # fl) t" "b_socks t = b_socks s"
    "\<forall>k. open_vfd t k \<longleftrightarrow> open_vfd s k \<and> k \<noteq> c"
    using close_effect [OF owned_safe [OF o]] by blast
  have "owned fl t" using o t by (auto simp: owned_def safe_def shadow_vfds_def)
  with t show "\<exists>t. close_vfd c s = Some t \<and> owned fl t" by blast
next
  fix c fl s i assume o: "owned (c # fl) s" "i < MaxLanSockets" "l_pid (b_socks s ! i) \<noteq> 0" "\<not> l_mirrored (b_socks s ! i)"
  have "open_vfd s c" using o(1) by (simp add: owned_def)
  then have "c \<noteq> InvalidSocket" by (auto simp: open_vfd_def vfd_ok_def InvalidSocket_def split: option.splits)
  with o show "owned fl (set_lan i (\<lambda>e. e\<lparr>l_vnetFd := c, l_mirrored := True\<rparr>) s)"
    by (intro owned_edit [OF o(1)]) (simp_all add: shadow_ok_def)
next
  fix fl s i assume o: "owned fl s" "i < MaxLanSockets" "l_pid (b_socks s ! i) \<noteq> 0"
  from owned_entry [OF o(1,2)] o show
    "owned (if l_vnetFd (b_socks s ! i) \<noteq> InvalidSocket then l_vnetFd (b_socks s ! i) # fl else fl)
       (set_lan i (\<lambda>_. lan_zero) s)"
    by (intro owned_edit [OF o(1)]) (auto simp: shadow_ok_def lan_zero_def)
next
  fix fl s pid assume o: "owned fl s" and pid: "(pid :: u64) \<noteq> 0"
  let ?t = "s\<lparr>b_socks := map (\<lambda>e. if belongs pid e then lan_zero else e) (b_socks s)\<rparr>"
  show "owned (map l_vnetFd (List.filter (\<lambda>e. belongs pid e \<and> l_vnetFd e \<noteq> InvalidSocket) (b_socks s)) @ fl) ?t"
  proof (rule owned_change [OF o])
    show "safe (map l_vnetFd (List.filter (\<lambda>e. belongs pid e \<and> l_vnetFd e \<noteq> InvalidSocket) (b_socks s)) @ fl) ?t"
      using o by (simp add: owned_def safe_def)
    show "list_all shadow_ok (b_socks ?t)"
      using o by (auto simp: owned_def list_all_iff shadow_ok_def lan_zero_def)
    show "mset ((map l_vnetFd (List.filter (\<lambda>e. belongs pid e \<and> l_vnetFd e \<noteq> InvalidSocket) (b_socks s)) @ fl) @
        shadow_vfds ?t) = mset (fl @ shadow_vfds s)"
      using forget_pid_mset [of "b_socks s" pid] o pid
      by (simp add: owned_def shadow_vfds_def add.commute add.left_commute)
  qed (simp add: open_vfd_def)
next
  fix fl s i and f :: "LanSocket \<Rightarrow> LanSocket" assume o: "owned fl s" "i < MaxLanSockets"
    and f: "\<And>e. l_pid (f e) = l_pid e \<and> l_vnetFd (f e) = l_vnetFd e \<and> l_mirrored (f e) = l_mirrored e"
  from owned_entry [OF o] f show "owned fl (set_lan i f s)"
    by (intro owned_edit [OF o]) (simp_all add: shadow_ok_def)
next
  fix fl s i pid fd assume o: "owned fl s" "i < MaxLanSockets" "l_pid (b_socks s ! i) = 0" "(pid :: u64) \<noteq> 0"
  from owned_entry [OF o(1,2)] o show
    "owned fl (set_lan i (\<lambda>_. lan_zero\<lparr>l_pid := pid, l_bsdFd := fd, l_vnetFd := InvalidSocket, l_udp := True\<rparr>) s)"
    by (intro owned_edit [OF o(1)]) (auto simp: shadow_ok_def lan_zero_def)
next
  fix fl s vfd ip port data assume "owned fl s"
  then show "\<exists>t ok. mirror_datagram vfd ip port data s = Some (t, ok) \<and> owned fl t"
    using datagram_effect [OF owned_safe] owned_same by metis
next
  fix fl s vfd port data assume "owned fl s"
  then show "\<exists>t ok. mirror_broadcast vfd port data s = Some (t, ok) \<and> owned fl t"
    using broadcast_effect [OF owned_safe] owned_same by metis
next
  fix fl s nwid smac dmac et payload assume "owned fl s"
  then show "\<exists>t. map_option fst (on_port
      (\<lambda>p. map_option (\<lambda>q. (q, ())) (cbVirtualFrame nwid smac dmac et payload p)) s) = Some t \<and> owned fl t"
    using frame_effect [OF owned_safe, of fl s nwid smac dmac et payload] owned_same by metis
next
  fix fl s vfd buf peek assume "owned fl s"
  then show "\<exists>t n out from. on_port (PortState.ReceiveLanDatagram vfd (Some buf) (length buf) peek) s = Some (t, n, out, from) \<and>
      owned fl t \<and> (0 \<le> n \<longrightarrow> out \<noteq> None \<and> from \<noteq> None)"
    using receive_effect [OF owned_safe, of fl s vfd buf peek] owned_same by metis
qed

end
