(* ===== verification/BsdMMsg.thy ===== *)
theory BsdMMsg
  imports BsdOwner
begin

text \<open>
  Batched sending, \<^verbatim>\<open>SendMMsg\<close> of \<^verbatim>\<open>mitm/bsd_shim.cpp\<close>: the system's serialised form of an array of
  message headers, its parser, the resolution of each destination, and the loop that sends the batch.

  A cursor is the list of the bytes from its position to its end.  \<open>None\<close> of a function that reads a
  cursor is its \<^verbatim>\<open>return false\<close>, which the source tests in every case; undefined behaviour can only
  come from the copy into \<^verbatim>\<open>g_mmsgPayload\<close> and from reading more of a payload than there is, so
  \<open>None\<close> means that from \<open>mmsg_gather\<close> on.
\<close>

section \<open>Reading\<close>

definition MMsgTake :: "nat \<Rightarrow> u8 list \<Rightarrow> (u8 list \<times> u8 list) option" where
  "MMsgTake n c = (if length c < n then None else Some (take n c, drop n c))"

definition MMsgReadU32 :: "u8 list \<Rightarrow> (u32 \<times> u8 list) option" where
  "MMsgReadU32 c = do {
     (p, c1) \<leftarrow> MMsgTake 4 c;
     Some (le32_load (p ! 0) (p ! 1) (p ! 2) (p ! 3), c1) }"

definition MMsgReadU64 :: "u8 list \<Rightarrow> (u64 \<times> u8 list) option" where
  "MMsgReadU64 c = do {
     (p, c1) \<leftarrow> MMsgTake 8 c;
     Some (ucast (le32_load (p ! 0) (p ! 1) (p ! 2) (p ! 3)) OR
           push_bit 32 (ucast (le32_load (p ! 4) (p ! 5) (p ! 6) (p ! 7))), c1) }"

text \<open>\<open>mv_iov\<close> is the range from \<^verbatim>\<open>iov\<close> to \<^verbatim>\<open>iovEnd\<close>.\<close>

record MMsgView =
  mv_name :: "u8 list"
  mv_iov :: "u8 list"
  mv_iovCount :: nat
  mv_payloadLen :: nat

fun mmsg_parts :: "nat \<Rightarrow> nat \<Rightarrow> u8 list \<Rightarrow> (nat \<times> u8 list) option" where
  "mmsg_parts 0 n c = Some (n, c)"
| "mmsg_parts (Suc k) n c = do {
     (len, c1) \<leftarrow> MMsgReadU64 c;
     if MMsgPayloadMax < unat len \<or> MMsgPayloadMax - unat len < n then None
     else do {
       (_, c2) \<leftarrow> MMsgTake (unat len) c1;
       mmsg_parts k (n + unat len) c2 } }"

definition ParseMMsg :: "u8 list \<Rightarrow> (MMsgView \<times> u8 list) option" where
  "ParseMMsg c = do {
     (nameLen, c1) \<leftarrow> MMsgReadU32 c;
     (name, c2) \<leftarrow> MMsgTake (unat nameLen) c1;
     (count, iov) \<leftarrow> MMsgReadU32 c2;
     if 64 < count then None
     else do {
       (payloadLen, iovEnd) \<leftarrow> mmsg_parts (unat count) 0 iov;
       (controlLen, c3) \<leftarrow> MMsgReadU32 iovEnd;
       (_, c4) \<leftarrow> MMsgTake (unat controlLen) c3;
       (_, c5) \<leftarrow> MMsgTake 4 c4;
       (_, c6) \<leftarrow> MMsgTake 4 c5;
       Some (\<lparr>mv_name = name, mv_iov = take (length iov - length iovEnd) iov,
              mv_iovCount = unat count, mv_payloadLen = payloadLen\<rparr>, c6) } }"

text \<open>The socket of the virtual network, the destination, and whether that is its broadcast address.\<close>

definition ResolveMMsgDestination :: "u64 \<Rightarrow> int \<Rightarrow> u8 list \<Rightarrow> shim \<Rightarrow> (int \<times> u32 \<times> u16 \<times> bool) option" where
  "ResolveMMsgDestination pid fd name s =
     (let overlay = (\<lambda>(vfd, ip, port). case IsOverlayDestination ip s of
            (True, broadcast) \<Rightarrow> Some (vfd, ip, port, broadcast) | _ \<Rightarrow> None) in
      if length name = 0 then Option.bind (GetConnectedLanPeer pid fd s) overlay
      else if length name < 8 \<or> name ! 1 \<noteq> 2 then None
      else if GetLanVfd pid fd s = InvalidSocket then None
      else overlay (GetLanVfd pid fd s, addr_ip name, addr_port name))"

section \<open>Assembling a payload\<close>

text \<open>
  One part is used where it stands, several are copied into the buffer one after the other: the new
  buffer, whether all parts could be read, and the part of a single one.
\<close>

fun mmsg_gather :: "nat \<Rightarrow> bool \<Rightarrow> u8 list \<Rightarrow> nat \<Rightarrow> u8 list \<Rightarrow> u8 list option \<Rightarrow> (u8 list \<times> bool \<times> u8 list option) option" where
  "mmsg_gather 0 one c off buf single = Some (buf, True, single)"
| "mmsg_gather (Suc k) one c off buf single =
     (case MMsgReadU64 c of
        None \<Rightarrow> Some (buf, False, single)
      | Some (len, c1) \<Rightarrow>
          (case MMsgTake (unat len) c1 of
             None \<Rightarrow> Some (buf, False, single)
           | Some (part, c2) \<Rightarrow>
               if one then mmsg_gather k one c2 (off + unat len) buf (Some part)
               else if len \<noteq> 0 then do {
                 buf1 \<leftarrow> memcpy buf off part;
                 mmsg_gather k one c2 (off + unat len) buf1 single }
               else mmsg_gather k one c2 (off + unat len) buf single))"

definition AssembleMMsgPayload :: "MMsgView \<Rightarrow> u8 list \<Rightarrow> (u8 list \<times> u8 list option) option" where
  "AssembleMMsgPayload view buf = do {
     (buf1, ok, single) \<leftarrow> mmsg_gather (mv_iovCount view) (mv_iovCount view = 1) (mv_iov view) 0 buf None;
     if \<not> ok then Some (buf1, None)
     else if mv_iovCount view = 1 then do { p \<leftarrow> single; Some (buf1, Some p) }
     else Some (buf1, Some buf1) }"

section \<open>Sending a batch\<close>

fun mmsg_check :: "u64 \<Rightarrow> int \<Rightarrow> shim \<Rightarrow> nat \<Rightarrow> u8 list \<Rightarrow> bool" where
  "mmsg_check pid fd s 0 c = True"
| "mmsg_check pid fd s (Suc k) c =
     (case ParseMMsg c of
        None \<Rightarrow> False
      | Some (view, c1) \<Rightarrow> ResolveMMsgDestination pid fd (mv_name view) s \<noteq> None \<and> mmsg_check pid fd s k c1)"

text \<open>The number of messages sent before the first that fails.\<close>

fun mmsg_send :: "window \<Rightarrow> u64 \<Rightarrow> int \<Rightarrow> nat \<Rightarrow> u8 list \<Rightarrow> shim \<Rightarrow> (shim \<times> nat) option" where
  "mmsg_send w pid fd 0 c s = Some (s, 0)"
| "mmsg_send w pid fd (Suc k) c s =
     (case ParseMMsg c of
        None \<Rightarrow> Some (s, 0)
      | Some (view, c1) \<Rightarrow>
          (case ResolveMMsgDestination pid fd (mv_name view) s of
             None \<Rightarrow> Some (s, 0)
           | Some (vfd, ip, port, broadcast) \<Rightarrow> do {
               (buf, r) \<leftarrow> AssembleMMsgPayload view (b_mmsg s);
               case r of
                 None \<Rightarrow> Some (s\<lparr>b_mmsg := buf\<rparr>, 0)
               | Some payload \<Rightarrow>
                   if length payload < mv_payloadLen view then None
                   else do {
                     s1 \<leftarrow> w (s\<lparr>b_mmsg := buf\<rparr>);
                     let dat = take (mv_payloadLen view) payload;
                     (s2, ok) \<leftarrow> (if broadcast then mirror_broadcast vfd port dat s1
                                 else mirror_datagram vfd ip port dat s1);
                     if \<not> ok then Some (s2, 0)
                     else do {
                       s3 \<leftarrow> w s2;
                       (t, n) \<leftarrow> mmsg_send w pid fd k c1 s3;
                       Some (t, Suc n) } } }))"

definition MirrorMMsgBuffer :: "window \<Rightarrow> u64 \<Rightarrow> int \<Rightarrow> int \<Rightarrow> u8 list \<Rightarrow> shim \<Rightarrow> (shim \<times> nat option) option" where
  "MirrorMMsgBuffer w pid fd vlen bytes s =
     (if b_port s = None \<or> vlen \<le> 0 \<or> 64 < vlen \<or> length bytes < 1 then Some (s, None)
      else if \<not> mmsg_check pid fd s (nat vlen) (drop 1 bytes) then Some (s, None)
      else do {
        s1 \<leftarrow> w s;
        (t, sent) \<leftarrow> mmsg_send w pid fd (nat vlen) (drop 1 bytes) s1;
        Some (t, if sent = 0 then None else Some sent) })"

section \<open>The serialised form\<close>

record mmsg =
  mm_name :: "u8 list"
  mm_parts :: "u8 list list"
  mm_control :: "u8 list"
  mm_flags :: u32
  mm_len :: u32

definition le64_bytes :: "u64 \<Rightarrow> u8 list" where
  "le64_bytes x = le32_bytes (ucast x) @ le32_bytes (ucast (drop_bit 32 x))"

definition part_bytes :: "u8 list \<Rightarrow> u8 list" where
  "part_bytes p = le64_bytes (of_nat (length p)) @ p"

definition mmsg_bytes :: "mmsg \<Rightarrow> u8 list" where
  "mmsg_bytes m = le32_bytes (of_nat (length (mm_name m))) @ mm_name m @
     le32_bytes (of_nat (length (mm_parts m))) @ concat (map part_bytes (mm_parts m)) @
     le32_bytes (of_nat (length (mm_control m))) @ mm_control m @ le32_bytes (mm_flags m) @ le32_bytes (mm_len m)"

definition mmsg_wf :: "mmsg \<Rightarrow> bool" where
  "mmsg_wf m \<longleftrightarrow> length (mm_name m) < 2 ^ 32 \<and> length (mm_parts m) \<le> 64 \<and>
     length (concat (mm_parts m)) \<le> MMsgPayloadMax \<and> length (mm_control m) < 2 ^ 32"

section \<open>Parsing what was serialised\<close>

lemma take_bytes: "MMsgTake n c = Some (p, c1) \<longleftrightarrow> length p = n \<and> c = p @ c1"
  by (auto simp: MMsgTake_def append_eq_conv_conj)

lemma le32_load_bytes:
  "le32_load (ucast x) (ucast (drop_bit 8 x)) (ucast (drop_bit 16 x)) (ucast (drop_bit 24 x)) = x"
proof (rule bit_word_eqI)
  fix n assume n: "n < LENGTH(32)"
  then consider "n < 8" | "8 \<le> n" "n < 16" | "16 \<le> n" "n < 24" | "24 \<le> n" "n < 32" by force
  then show "bit (le32_load (ucast x) (ucast (drop_bit 8 x)) (ucast (drop_bit 16 x)) (ucast (drop_bit 24 x))) n = bit x n"
    by cases (auto simp: le32_load_def bit_simps)
qed

lemma le32_bytes_load: "le32_bytes (le32_load a b c d) = [a, b, c, d]"
  unfolding le32_bytes_def by (intro list.inject [THEN iffD2] conjI refl; rule bit_word_eqI; auto simp: le32_load_def bit_simps)

lemma le32_list:
  assumes "length p = 4"
  shows "le32_load (p ! 0) (p ! 1) (p ! 2) (p ! 3) = x \<longleftrightarrow> p = le32_bytes x"
proof -
  obtain a b c d where "p = [a, b, c, d]" using assms by (auto simp: numeral_nat length_Suc_conv)
  then show ?thesis using le32_bytes_load [of a b c d] le32_load_bytes [of x] by (auto simp: le32_bytes_def)
qed

lemma le32_length [simp]: "length (le32_bytes x) = 4"
  by (simp add: le32_bytes_def)

lemma read32_bytes: "MMsgReadU32 c = Some (x, c1) \<longleftrightarrow> c = le32_bytes x @ c1"
  using le32_list [of _ x] by (auto simp: MMsgReadU32_def Option.bind_eq_Some_conv take_bytes simp del: One_nat_def)

lemma le64_halves:
  "ucast (lo :: u32) OR push_bit 32 (ucast (hi :: u32)) = (x :: u64) \<longleftrightarrow> lo = ucast x \<and> hi = ucast (drop_bit 32 x)"
proof
  assume "ucast lo OR push_bit 32 (ucast hi) = x"
  then have x: "x = ucast lo OR push_bit 32 (ucast hi)" by simp
  have "lo = ucast x" by (rule bit_word_eqI) (simp add: x bit_simps)
  moreover have "hi = ucast (drop_bit 32 x)" by (rule bit_word_eqI) (auto simp: x bit_simps dest: bit_imp_le_length)
  ultimately show "lo = ucast x \<and> hi = ucast (drop_bit 32 x)" by simp
next
  assume "lo = ucast x \<and> hi = ucast (drop_bit 32 x)"
  then show "ucast lo OR push_bit 32 (ucast hi) = x" by (auto intro!: bit_word_eqI simp: bit_simps)
qed

lemma le64_length [simp]: "length (le64_bytes x) = 8"
  by (simp add: le64_bytes_def)

lemma read64_bytes: "MMsgReadU64 c = Some (x, c1) \<longleftrightarrow> c = le64_bytes x @ c1"
proof -
  have "le32_load (p ! 0) (p ! 1) (p ! 2) (p ! 3) = ucast x \<and> le32_load (p ! 4) (p ! 5) (p ! 6) (p ! 7) = ucast (drop_bit 32 x)
      \<longleftrightarrow> p = le64_bytes x" if "length p = 8" for p
  proof -
    have l: "length (take 4 p) = 4" "length (drop 4 p) = 4" using that by simp_all
    from le32_list [OF l(1), of "ucast x"] le32_list [OF l(2), of "ucast (drop_bit 32 x)"] that
    have "le32_load (p ! 0) (p ! 1) (p ! 2) (p ! 3) = ucast x \<and> le32_load (p ! 4) (p ! 5) (p ! 6) (p ! 7) = ucast (drop_bit 32 x)
        \<longleftrightarrow> take 4 p = le32_bytes (ucast x) \<and> drop 4 p = le32_bytes (ucast (drop_bit 32 x))" by simp
    also have "\<dots> \<longleftrightarrow> p = le64_bytes x" by (auto simp: le64_bytes_def) (metis append_take_drop_id)
    finally show ?thesis .
  qed
  then show ?thesis by (auto simp: MMsgReadU64_def Option.bind_eq_Some_conv take_bytes le64_halves simp del: One_nat_def)
qed

lemma unat_of_nat64: "n < 18446744073709551616 \<Longrightarrow> unat (of_nat n :: u64) = n"
  by (simp add: unsigned_of_nat take_bit_nat_eq_self)

lemma read_part:
  assumes "length p \<le> MMsgPayloadMax"
  shows "MMsgReadU64 (part_bytes p @ c) = Some (of_nat (length p), p @ c)"
    and "unat (of_nat (length p) :: u64) = length p" and "(of_nat (length p) :: u64) = 0 \<longleftrightarrow> p = []"
proof -
  show len: "unat (of_nat (length p) :: u64) = length p"
    using assms by (intro unat_of_nat64) (simp add: MMsgPayloadMax_def)
  then show "(of_nat (length p) :: u64) = 0 \<longleftrightarrow> p = []" by (metis length_0_conv unat_eq_zero)
  show "MMsgReadU64 (part_bytes p @ c) = Some (of_nat (length p), p @ c)"
    by (simp add: read64_bytes part_bytes_def)
qed

lemma parts_bytes:
  "mmsg_parts k n c = Some (m, c1) \<longleftrightarrow>
     (\<exists>ps. length ps = k \<and> c = concat (map part_bytes ps) @ c1 \<and> m = n + length (concat ps) \<and>
       (k \<noteq> 0 \<longrightarrow> m \<le> MMsgPayloadMax))"
proof (induction k arbitrary: n c)
  case (Suc k)
  have "mmsg_parts (Suc k) n c = Some (m, c1) \<longleftrightarrow>
      (\<exists>p c2. n + length p \<le> MMsgPayloadMax \<and> c = part_bytes p @ c2 \<and> mmsg_parts k (n + length p) c2 = Some (m, c1))"
    (is "?l = ?r")
  proof
    assume ?l
    then obtain len c3 p c2 where h: "MMsgReadU64 c = Some (len, c3)" "MMsgTake (unat len) c3 = Some (p, c2)"
      "\<not> (MMsgPayloadMax < unat len \<or> MMsgPayloadMax - unat len < n)" "mmsg_parts k (n + unat len) c2 = Some (m, c1)"
      by (auto simp: Option.bind_eq_Some_conv split: if_splits)
    then show ?r
      by (intro exI [of _ p] exI [of _ c2]) (auto simp: read64_bytes take_bytes part_bytes_def)
  next
    assume ?r
    then obtain p c2 where h: "n + length p \<le> MMsgPayloadMax" "c = part_bytes p @ c2"
      "mmsg_parts k (n + length p) c2 = Some (m, c1)" by blast
    have len: "unat (of_nat (length p) :: u64) = length p"
      using h(1) by (intro unat_of_nat64) (simp add: MMsgPayloadMax_def)
    have "MMsgReadU64 c = Some (of_nat (length p), p @ c2)" by (simp add: read64_bytes h(2) part_bytes_def)
    moreover have "MMsgTake (unat (of_nat (length p) :: u64)) (p @ c2) = Some (p, c2)" by (simp add: take_bytes len)
    ultimately show ?l using h(1,3) len by simp
  qed
  also have "\<dots> \<longleftrightarrow> (\<exists>ps. length ps = Suc k \<and> c = concat (map part_bytes ps) @ c1 \<and> m = n + length (concat ps) \<and>
       (Suc k \<noteq> 0 \<longrightarrow> m \<le> MMsgPayloadMax))" (is "_ = (\<exists>ps. ?q ps)")
  proof
    assume "\<exists>p c2. n + length p \<le> MMsgPayloadMax \<and> c = part_bytes p @ c2 \<and> mmsg_parts k (n + length p) c2 = Some (m, c1)"
    then obtain p c2 ps where "n + length p \<le> MMsgPayloadMax" "c = part_bytes p @ c2" "length ps = k"
      "c2 = concat (map part_bytes ps) @ c1" "m = n + length p + length (concat ps)" "k \<noteq> 0 \<longrightarrow> m \<le> MMsgPayloadMax"
      using Suc.IH by blast
    then have "?q (p # ps)" by (cases "k = 0") auto
    then show "\<exists>ps. ?q ps" ..
  next
    assume "\<exists>ps. ?q ps"
    then obtain ps where ps: "?q ps" ..
    then obtain p qs where "ps = p # qs" by (cases ps) auto
    moreover from this ps have "mmsg_parts k (n + length p) (concat (map part_bytes qs) @ c1) = Some (m, c1)"
      unfolding Suc.IH by (intro exI [of _ qs]) auto
    ultimately show "\<exists>p c2. n + length p \<le> MMsgPayloadMax \<and> c = part_bytes p @ c2 \<and> mmsg_parts k (n + length p) c2 = Some (m, c1)"
      using ps by (metis (no_types, lifting) add.assoc add_leD1 append.assoc concat.simps(2) length_append list.simps(9) nat.simps(3))
  qed
  finally show ?case .
qed auto

definition mmsg_view :: "mmsg \<Rightarrow> MMsgView" where
  "mmsg_view m = \<lparr>mv_name = mm_name m, mv_iov = concat (map part_bytes (mm_parts m)),
     mv_iovCount = length (mm_parts m), mv_payloadLen = length (concat (mm_parts m))\<rparr>"

lemma parse_serialised:
  assumes "mmsg_wf m"
  shows "ParseMMsg (mmsg_bytes m @ c) = Some (mmsg_view m, c)"
proof -
  have n: "unat (of_nat (length (mm_name m)) :: u32) = length (mm_name m)"
    "unat (of_nat (length (mm_parts m)) :: u32) = length (mm_parts m)"
    "unat (of_nat (length (mm_control m)) :: u32) = length (mm_control m)"
    using assms by (auto simp: mmsg_wf_def intro!: unat_of_nat32)
  have small: "\<not> 64 < (of_nat (length (mm_parts m)) :: u32)"
    using assms n(2) by (simp add: word_less_nat_alt mmsg_wf_def)
  let ?c3 = "le32_bytes (of_nat (length (mm_control m))) @ mm_control m @ le32_bytes (mm_flags m) @ le32_bytes (mm_len m) @ c"
  let ?iov = "concat (map part_bytes (mm_parts m)) @ ?c3"
  let ?c1 = "mm_name m @ le32_bytes (of_nat (length (mm_parts m))) @ ?iov"
  have "MMsgReadU32 (mmsg_bytes m @ c) = Some (of_nat (length (mm_name m)), ?c1)"
    by (simp add: read32_bytes mmsg_bytes_def)
  moreover have "MMsgTake (length (mm_name m)) ?c1 = Some (mm_name m, le32_bytes (of_nat (length (mm_parts m))) @ ?iov)"
    by (simp add: take_bytes)
  moreover have "MMsgReadU32 (le32_bytes (of_nat (length (mm_parts m))) @ ?iov) = Some (of_nat (length (mm_parts m)), ?iov)"
    by (simp add: read32_bytes)
  moreover have "mmsg_parts (length (mm_parts m)) 0 ?iov = Some (length (concat (mm_parts m)), ?c3)"
    using assms unfolding parts_bytes by (intro exI [of _ "mm_parts m"]) (simp add: mmsg_wf_def)
  moreover have "MMsgReadU32 ?c3 = Some (of_nat (length (mm_control m)), mm_control m @ le32_bytes (mm_flags m) @ le32_bytes (mm_len m) @ c)"
    by (simp add: read32_bytes)
  moreover have "MMsgTake (length (mm_control m)) (mm_control m @ le32_bytes (mm_flags m) @ le32_bytes (mm_len m) @ c) =
      Some (mm_control m, le32_bytes (mm_flags m) @ le32_bytes (mm_len m) @ c)" by (simp add: take_bytes)
  moreover have "MMsgTake 4 (le32_bytes (mm_flags m) @ le32_bytes (mm_len m) @ c) = Some (le32_bytes (mm_flags m), le32_bytes (mm_len m) @ c)"
    by (simp add: take_bytes)
  moreover have "MMsgTake 4 (le32_bytes (mm_len m) @ c) = Some (le32_bytes (mm_len m), c)" by (simp add: take_bytes)
  ultimately show ?thesis using n small by (simp add: ParseMMsg_def mmsg_view_def)
qed

lemma parse_only_serialised:
  assumes "ParseMMsg c = Some (v, c1)"
  shows "\<exists>m. mmsg_wf m \<and> c = mmsg_bytes m @ c1 \<and> v = mmsg_view m"
proof -
  from assms obtain nl a name b cnt iov pl ie cl x con y fl z ml where
    h: "MMsgReadU32 c = Some (nl, a)" "MMsgTake (unat nl) a = Some (name, b)" "MMsgReadU32 b = Some (cnt, iov)"
      "\<not> 64 < cnt" "mmsg_parts (unat cnt) 0 iov = Some (pl, ie)" "MMsgReadU32 ie = Some (cl, x)"
      "MMsgTake (unat cl) x = Some (con, y)" "MMsgTake 4 y = Some (fl, z)" "MMsgTake 4 z = Some (ml, c1)"
      "v = \<lparr>mv_name = name, mv_iov = take (length iov - length ie) iov, mv_iovCount = unat cnt, mv_payloadLen = pl\<rparr>"
    by (auto simp: ParseMMsg_def Option.bind_eq_Some_conv split: if_splits)
  from h(5) obtain ps where ps: "length ps = unat cnt" "iov = concat (map part_bytes ps) @ ie" "pl = length (concat ps)"
    "unat cnt \<noteq> 0 \<longrightarrow> pl \<le> MMsgPayloadMax" unfolding parts_bytes by auto
  let ?m = "\<lparr>mm_name = name, mm_parts = ps, mm_control = con,
    mm_flags = le32_load (fl ! 0) (fl ! 1) (fl ! 2) (fl ! 3), mm_len = le32_load (ml ! 0) (ml ! 1) (ml ! 2) (ml ! 3)\<rparr>"
  have len: "length name = unat nl" "length con = unat cl" "length fl = 4" "length ml = 4"
    using h(2,7-9) by (simp_all add: take_bytes)
  have "unat cnt \<le> 64" using h(4) by (simp add: word_less_nat_alt not_less)
  then have "mmsg_wf ?m" using ps len unsigned_less [of nl] unsigned_less [of cl] by (cases "ps = []") (auto simp: mmsg_wf_def)
  moreover have "le32_bytes (mm_flags ?m) = fl" "le32_bytes (mm_len ?m) = ml"
    using le32_list [OF len(3), THEN iffD1, OF refl] le32_list [OF len(4), THEN iffD1, OF refl] by simp_all
  then have "c = mmsg_bytes ?m @ c1"
    using h(1-3,6-9) ps(1,2) len by (auto simp: read32_bytes take_bytes mmsg_bytes_def)
  moreover have "v = mmsg_view ?m" using h(10) ps by (simp add: mmsg_view_def)
  ultimately show ?thesis by blast
qed

text \<open>
  C16. The parser of batched messages accepts exactly the serialised messages: a cursor parses if and
  only if it starts with the bytes of a message of at most 64 parts and 2048 bytes of payload, and the
  view and the rest of the cursor are those of that message.
\<close>

theorem parse_mmsg_exact:
  "ParseMMsg c = Some (v, c1) \<longleftrightarrow> (\<exists>m. mmsg_wf m \<and> c = mmsg_bytes m @ c1 \<and> v = mmsg_view m)"
  using parse_serialised parse_only_serialised by blast

section \<open>Assembling what was parsed\<close>

lemma gather_copies:
  assumes "off + length (concat ps) \<le> length buf" and "length (concat ps) \<le> MMsgPayloadMax"
  shows "\<exists>b. mmsg_gather (length ps) False (concat (map part_bytes ps) @ c) off buf single = Some (b, True, single) \<and>
    length b = length buf \<and> take (off + length (concat ps)) b = take off buf @ concat ps"
  using assms
proof (induction ps arbitrary: off buf)
  case (Cons p ps)
  let ?c = "concat (map part_bytes ps) @ c"
  have p: "length p \<le> MMsgPayloadMax" using Cons.prems(2) by simp
  have t: "MMsgTake (length p) (p @ ?c) = Some (p, ?c)" by (simp add: take_bytes)
  show ?case
  proof (cases "p = []")
    case True
    with Cons.IH [of off buf] Cons.prems read_part(1) [OF p, of ?c] read_part(2,3) [OF p] t show ?thesis by simp
  next
    case False
    define b1 where "b1 = take off buf @ p @ drop (off + length p) buf"
    have b1: "memcpy buf off p = Some b1" "length b1 = length buf" "take (off + length p) b1 = take off buf @ p"
      using Cons.prems(1) by (simp_all add: b1_def)
    from Cons.IH [of "off + length p" b1] Cons.prems b1(2) obtain b where
      b: "mmsg_gather (length ps) False ?c (off + length p) b1 single = Some (b, True, single)" "length b = length b1"
        "take (off + length p + length (concat ps)) b = take (off + length p) b1 @ concat ps" by auto
    then show ?thesis using read_part(1) [OF p, of ?c] read_part(2,3) [OF p] t False b1 by (simp add: add.assoc)
  qed
qed simp

lemma assemble_serialised:
  assumes "mmsg_wf m" and "length buf = MMsgPayloadMax"
  shows "\<exists>b d. AssembleMMsgPayload (mmsg_view m) buf = Some (b, Some d) \<and> length b = MMsgPayloadMax \<and>
    length (concat (mm_parts m)) \<le> length d \<and> take (length (concat (mm_parts m))) d = concat (mm_parts m)"
proof (cases "length (mm_parts m) = 1")
  case True
  then obtain p where p: "mm_parts m = [p]" by (auto simp: length_Suc_conv)
  then have "length p \<le> MMsgPayloadMax" using assms(1) by (simp add: mmsg_wf_def)
  from read_part(1) [OF this, of "[]"] read_part(2) [OF this] p assms(2) show ?thesis
    by (simp add: AssembleMMsgPayload_def mmsg_view_def MMsgTake_def)
next
  case False
  with gather_copies [of 0 "mm_parts m" buf "[]" None] assms show ?thesis
    by (auto simp: AssembleMMsgPayload_def mmsg_view_def mmsg_wf_def)
qed

section \<open>The table under batched sending\<close>

context shadow_table
begin

lemma mmsg_send_fine:
  assumes w: "keeps w"
  shows "inv fl s \<Longrightarrow> fine fl (mmsg_send w pid fd k c s)"
proof (induction k arbitrary: c s)
  case (Suc k)
  show ?case
  proof (cases "ParseMMsg c")
    case (Some r)
    obtain v c1 where r: "r = (v, c1)" by (cases r)
    with Some parse_only_serialised obtain m where m: "mmsg_wf m" "v = mmsg_view m" by blast
    show ?thesis
    proof (cases "ResolveMMsgDestination pid fd (mv_name v) s")
      case (Some d)
      obtain vfd ip port bc where d: "d = (vfd, ip, port, bc)" by (cases d)
      obtain b pl where b: "AssembleMMsgPayload v (b_mmsg s) = Some (b, Some pl)" "length b = MMsgPayloadMax"
        "mv_payloadLen v \<le> length pl"
        using assemble_serialised [OF m(1) scratch [OF Suc.prems]] m(2) by (auto simp: mmsg_view_def)
      obtain s1 where s1: "w (s\<lparr>b_mmsg := b\<rparr>) = Some s1" "inv fl s1"
        using keepsE [OF w scratch_law [OF Suc.prems b(2)]] by blast
      let ?r = "if bc then mirror_broadcast vfd port (take (mv_payloadLen v) pl) s1
                else mirror_datagram vfd ip port (take (mv_payloadLen v) pl) s1"
      obtain s2 ok where s2: "?r = Some (s2, ok)" "inv fl s2"
        using broadcast_law [OF s1(2), of vfd port "take (mv_payloadLen v) pl"]
          datagram_law [OF s1(2), of vfd ip port "take (mv_payloadLen v) pl"] by (cases bc) auto
      obtain s3 where s3: "w s2 = Some s3" "inv fl s3" using keepsE [OF w s2(2)] by blast
      obtain t n where t: "mmsg_send w pid fd k c1 s3 = Some (t, n)" "inv fl t"
        using Suc.IH [OF s3(2), of c1] by (auto simp: fine_def)
      have "\<not> length pl < mv_payloadLen v" using b(3) by simp
      with \<open>ParseMMsg c = Some r\<close> r Some d b(1) s1(1) s2 s3(1) t show ?thesis by (simp add: Let_def)
    qed (use \<open>ParseMMsg c = Some r\<close> r Suc.prems in simp)
  qed (use Suc.prems in simp)
qed simp

lemma mmsg_fine:
  assumes "inv fl s" and w: "keeps w"
  shows "fine fl (MirrorMMsgBuffer w pid fd vlen bytes s)"
proof -
  obtain s1 where s1: "w s = Some s1" "inv fl s1" using keepsE [OF w assms(1)] by blast
  from mmsg_send_fine [OF w s1(2), of pid fd "nat vlen" "drop 1 bytes"] obtain t n where
    "mmsg_send w pid fd (nat vlen) (drop 1 bytes) s1 = Some (t, n)" "inv fl t" by (rule fineE)
  with s1 assms(1) show ?thesis by (simp add: MirrorMMsgBuffer_def)
qed

end

end
