(* ===== verification/BsdCalls.thy ===== *)
theory BsdCalls
  imports BsdMMsg
begin

text \<open>
  The requests of a game to the interposed socket service, \<^verbatim>\<open>class BsdShim\<close> of \<^verbatim>\<open>mitm/bsd_shim.cpp\<close>.
  The real service is outside: what it answers to a forwarded request is an argument, \<open>Inl\<close> the
  failure of the call or \<open>Inr\<close> its result and \<^verbatim>\<open>errno\<close>.  The result of a request says whether it was
  answered \<open>Local\<close>ly, without asking the real service, or by the \<open>Service\<close>.
\<close>

datatype 'a answer = Local 'a | Service "nat + 'a"

type_synonym reply = "nat + int \<times> int"

section \<open>Socket addresses\<close>

definition ip_bytes :: "u32 \<Rightarrow> u8 list" where
  "ip_bytes ip = [ucast (drop_bit 24 ip), ucast (drop_bit 16 ip), ucast (drop_bit 8 ip), ucast ip]"

definition port_bytes :: "u16 \<Rightarrow> u8 list" where
  "port_bytes port = [ucast (drop_bit 8 port), ucast port]"

definition sockaddr :: "u32 \<Rightarrow> u16 \<Rightarrow> u8 list" where
  "sockaddr ip port = [16, 2] @ port_bytes port @ ip_bytes ip @ replicate 8 0"

section \<open>Opening, binding and closing\<close>

definition track :: "u64 \<Rightarrow> int \<Rightarrow> shim \<Rightarrow> shim" where
  "track pid fd s =
     (case find_index (\<lambda>e. l_pid e = 0) (b_socks s) of
        None \<Rightarrow> s
      | Some i \<Rightarrow> set_lan i (\<lambda>_. lan_zero\<lparr>l_pid := pid, l_bsdFd := fd, l_vnetFd := InvalidSocket, l_udp := True\<rparr>) s)"

definition bsd_Socket :: "u64 \<Rightarrow> int \<Rightarrow> int \<Rightarrow> int \<Rightarrow> reply \<Rightarrow> shim \<Rightarrow> shim \<times> (int \<times> int) answer" where
  "bsd_Socket pid domain kind protocol rep s =
     (case rep of
        Inl rc \<Rightarrow> (s, Service rep)
      | Inr (ret, err) \<Rightarrow>
          (if 0 \<le> ret \<and> domain = 2 \<and> kind = 2 \<and> (protocol = 0 \<or> protocol = 17)
           then track pid ret s else s, Service rep))"

definition bsd_Bind :: "window \<Rightarrow> u64 \<Rightarrow> int \<Rightarrow> u8 list \<Rightarrow> reply \<Rightarrow> shim \<Rightarrow> (shim \<times> (int \<times> int) answer) option" where
  "bsd_Bind w pid fd addr rep s =
     (case rep of
        Inl rc \<Rightarrow> Some (s, Service rep)
      | Inr (ret, err) \<Rightarrow>
          if ret = 0 \<and> 8 \<le> length addr \<and> b_port s \<noteq> None then
            (let port = addr_port addr in
             case FindLanSocketLocked pid fd s of
               None \<Rightarrow> Some (s, Service rep)
             | Some i \<Rightarrow>
                 if \<not> l_udp (b_socks s ! i) then Some (s, Service rep)
                 else let s1 = set_lan i (\<lambda>e. e\<lparr>l_boundPort := port\<rparr>) s in
                   if IsPiaLanPort port \<or> l_broadcast (b_socks s ! i)
                   then map_option (\<lambda>(t, _). (t, Service rep)) (EnsureLanMirror w pid fd port s1)
                   else Some (s1, Service rep))
          else Some (s, Service rep))"

text \<open>The option value as the code reads it, and the request that may mirror a bound socket.\<close>

definition opt_value :: "u8 list \<Rightarrow> u32" where
  "opt_value v = (if 4 \<le> length v
     then ucast (v ! 0) OR push_bit 8 (ucast (v ! 1)) OR push_bit 16 (ucast (v ! 2)) OR push_bit 24 (ucast (v ! 3))
     else -1)"

definition bsd_SetSockOpt ::
  "window \<Rightarrow> u64 \<Rightarrow> int \<Rightarrow> int \<Rightarrow> int \<Rightarrow> u8 list \<Rightarrow> reply \<Rightarrow> shim \<Rightarrow> (shim \<times> (int \<times> int) answer) option" where
  "bsd_SetSockOpt w pid fd level optname optval rep s =
     (case rep of
        Inl rc \<Rightarrow> Some (s, Service rep)
      | Inr (ret, err) \<Rightarrow>
          if ret = 0 \<and> level = 0xFFFF \<and> optname = 0x20 then
            (case FindLanSocketLocked pid fd s of
               None \<Rightarrow> Some (s, Service rep)
             | Some i \<Rightarrow>
                 let v = opt_value optval;
                     bound = l_boundPort (b_socks s ! i);
                     s1 = set_lan i (\<lambda>e. e\<lparr>l_broadcast := (v \<noteq> 0)\<rparr>) s in
                 if v \<noteq> 0 \<and> bound \<noteq> 0
                 then map_option (\<lambda>(t, _). (t, Service rep)) (EnsureLanMirror w pid fd bound s1)
                 else Some (s1, Service rep))
          else Some (s, Service rep))"

definition bsd_Close :: "window \<Rightarrow> u64 \<Rightarrow> int \<Rightarrow> reply \<Rightarrow> shim \<Rightarrow> (shim \<times> (int \<times> int) answer) option" where
  "bsd_Close w pid fd rep s =
     (case rep of
        Inl rc \<Rightarrow> Some (s, Service rep)
      | Inr (ret, err) \<Rightarrow>
          if ret = 0 then map_option (\<lambda>t. (t, Service rep)) (ForgetLanSocket w pid fd s)
          else Some (s, Service rep))"

definition bsd_ShutdownAllSockets :: "window \<Rightarrow> u64 \<Rightarrow> reply \<Rightarrow> shim \<Rightarrow> (shim \<times> (int \<times> int) answer) option" where
  "bsd_ShutdownAllSockets w pid rep s =
     (case rep of
        Inl rc \<Rightarrow> Some (s, Service rep)
      | Inr (ret, err) \<Rightarrow>
          if ret = 0 then map_option (\<lambda>(t, _). (t, Service rep)) (ForgetLanSocketsForPid w pid s)
          else Some (s, Service rep))"

section \<open>Sending\<close>

definition send_shadow :: "u64 \<Rightarrow> int \<Rightarrow> shim \<Rightarrow> int \<times> u16" where
  "send_shadow pid fd s =
     (case FindLanSocketLocked pid fd s of
        None \<Rightarrow> (InvalidSocket, 0)
      | Some i \<Rightarrow> let e = b_socks s ! i in
          if \<not> l_udp e then (InvalidSocket, 0)
          else (if l_mirrored e then l_vnetFd e else InvalidSocket, l_boundPort e))"

definition send_overlay :: "window \<Rightarrow> u64 \<Rightarrow> int \<Rightarrow> u8 list \<Rightarrow> u8 list \<Rightarrow> shim \<Rightarrow> (shim \<times> bool) option" where
  "send_overlay w pid fd buf addr s =
     (if \<not> (8 \<le> length addr \<and> b_port s \<noteq> None) then Some (s, False)
      else do {
        let port = addr_port addr;
        let ip = addr_ip addr;
        let directed = (addr ! 7 = 0xFF);
        let (vfd, bound) = send_shadow pid fd s;
        (s1, vfd1) \<leftarrow> (if vfd = InvalidSocket \<and> directed \<and> bound \<noteq> 0
                      then EnsureLanMirror w pid fd bound s else Some (s, vfd));
        if vfd1 = InvalidSocket then Some (s1, False)
        else do { s2 \<leftarrow> w s1; MirrorLanPayload vfd1 ip port directed buf s2 } })"

definition bsd_SendTo ::
  "window \<Rightarrow> u64 \<Rightarrow> int \<Rightarrow> u8 list \<Rightarrow> u8 list \<Rightarrow> reply \<Rightarrow> shim \<Rightarrow> (shim \<times> (int \<times> int) answer) option" where
  "bsd_SendTo w pid fd buf addr rep s = do {
     (t, sent) \<leftarrow> send_overlay w pid fd buf addr s;
     Some (t, if sent then Local (int (length buf), 0) else Service rep) }"

text \<open>\<^verbatim>\<open>Send\<close> and \<^verbatim>\<open>Write\<close>: on a connected shadow socket.\<close>

definition bsd_Send :: "window \<Rightarrow> u64 \<Rightarrow> int \<Rightarrow> u8 list \<Rightarrow> reply \<Rightarrow> shim \<Rightarrow> (shim \<times> (int \<times> int) answer) option" where
  "bsd_Send w pid fd buf rep s = do {
     (t, sent) \<leftarrow> MirrorConnectedLanDatagram w pid fd buf s;
     Some (t, if sent then Local (int (length buf), 0) else Service rep) }"

definition bsd_Write :: "window \<Rightarrow> u64 \<Rightarrow> int \<Rightarrow> u8 list \<Rightarrow> reply \<Rightarrow> shim \<Rightarrow> (shim \<times> (int \<times> int) answer) option" where
  "bsd_Write w pid fd buf rep s = do {
     (t, sent) \<leftarrow> MirrorConnectedLanDatagram w pid fd buf s;
     Some (t, if sent then Local (int (length buf), 0) else Service rep) }"

text \<open>\<^verbatim>\<open>SendMMsg\<close>: the number of messages that went to the virtual network.\<close>

definition bsd_SendMMsg ::
  "window \<Rightarrow> u64 \<Rightarrow> int \<Rightarrow> int \<Rightarrow> u8 list \<Rightarrow> reply \<Rightarrow> shim \<Rightarrow> (shim \<times> (int \<times> int) answer) option" where
  "bsd_SendMMsg w pid fd vlen buf rep s = do {
     (t, r) \<leftarrow> MirrorMMsgBuffer w pid fd vlen buf s;
     Some (t, case r of Some n \<Rightarrow> Local (int n, 0) | None \<Rightarrow> Service rep) }"

section \<open>Connecting\<close>

definition set_peer :: "(u32 \<times> u16) option \<Rightarrow> LanSocket \<Rightarrow> LanSocket" where
  "set_peer peer e =
     (case peer of
        None \<Rightarrow> e\<lparr>l_connectedPort := 0, l_connectedIp := 0, l_connected := False\<rparr>
      | Some (ip, port) \<Rightarrow> e\<lparr>l_connectedPort := port, l_connectedIp := ip, l_connected := True\<rparr>)"

definition edit_found :: "(LanSocket \<Rightarrow> bool) \<Rightarrow> (LanSocket \<Rightarrow> LanSocket) \<Rightarrow> u64 \<Rightarrow> int \<Rightarrow> shim \<Rightarrow> shim option" where
  "edit_found want f pid fd s =
     (case FindLanSocketLocked pid fd s of
        None \<Rightarrow> None
      | Some i \<Rightarrow> if want (b_socks s ! i) then Some (set_lan i f s) else None)"

definition connect_local :: "u64 \<Rightarrow> int \<Rightarrow> u8 list \<Rightarrow> shim \<Rightarrow> shim option" where
  "connect_local pid fd addr s =
     (if 2 \<le> length addr \<and> GetLanVfd pid fd s \<noteq> InvalidSocket then
        if addr ! 1 = 0 then edit_found l_udp (set_peer None) pid fd s
        else if addr ! 1 = 2 \<and> 8 \<le> length addr then
          if fst (IsOverlayDestination (addr_ip addr) s)
          then edit_found (\<lambda>e. l_udp e \<and> l_mirrored e) (set_peer (Some (addr_ip addr, addr_port addr))) pid fd s
          else None
        else None
      else None)"

definition connect_real :: "u64 \<Rightarrow> int \<Rightarrow> u8 list \<Rightarrow> reply \<Rightarrow> shim \<Rightarrow> shim" where
  "connect_real pid fd addr rep s =
     (case rep of
        Inl rc \<Rightarrow> s
      | Inr (ret, err) \<Rightarrow>
          if ret = 0 \<and> 2 \<le> length addr then
            if addr ! 1 = 2 \<and> 8 \<le> length addr
            then (case edit_found l_udp (set_peer (Some (addr_ip addr, addr_port addr))) pid fd s of
                    None \<Rightarrow> s | Some t \<Rightarrow> t)
            else if addr ! 1 = 0
            then (case edit_found l_udp (set_peer None) pid fd s of None \<Rightarrow> s | Some t \<Rightarrow> t)
            else s
          else s)"

definition bsd_Connect :: "u64 \<Rightarrow> int \<Rightarrow> u8 list \<Rightarrow> reply \<Rightarrow> shim \<Rightarrow> shim \<times> (int \<times> int) answer" where
  "bsd_Connect pid fd addr rep s =
     (case connect_local pid fd addr s of
        Some t \<Rightarrow> (t, Local (0, 0))
      | None \<Rightarrow> (connect_real pid fd addr rep s, Service rep))"

section \<open>Receiving\<close>

text \<open>
  What a receive leaves in the buffers: data, address, and the length of the address.  The real
  service's answer comes with the buffers as it leaves them.
\<close>

record received =
  v_data :: "u8 list"
  v_addr :: "u8 list"
  v_addrlen :: nat

type_synonym recv_reply = "nat + (int \<times> int) \<times> received"

definition put_sockaddr :: "u32 \<times> u16 \<Rightarrow> u8 list \<Rightarrow> u8 list" where
  "put_sockaddr from addr = sockaddr (fst from) (snd from) @ drop 16 addr"

definition MsgPeek :: u32 where "MsgPeek = 2"

definition physical_receive :: "u64 \<Rightarrow> int \<Rightarrow> recv_reply \<Rightarrow> shim \<Rightarrow> ((int \<times> int) \<times> received) answer" where
  "physical_receive pid fd rep s =
     Service (case rep of
        Inl rc \<Rightarrow> Inl rc
      | Inr (result, bufs) \<Rightarrow>
          (case SuppressPhysicalUdpError pid fd result s of
             (result1, suppressed) \<Rightarrow> Inr (result1, if suppressed then bufs\<lparr>v_addrlen := 0\<rparr> else bufs)))"

definition bsd_RecvFrom ::
  "window \<Rightarrow> u64 \<Rightarrow> int \<Rightarrow> u32 \<Rightarrow> u8 list \<Rightarrow> u8 list \<Rightarrow> recv_reply \<Rightarrow> shim \<Rightarrow>
   (shim \<times> ((int \<times> int) \<times> received) answer) option" where
  "bsd_RecvFrom w pid fd flags buf addr rep s = do {
     (t, n, out, from) \<leftarrow> receive_shadow w pid fd buf (flags AND MsgPeek \<noteq> 0) s;
     if 0 \<le> n then do {
       dat \<leftarrow> out;
       src \<leftarrow> from;
       Some (t, Local ((n, 0),
         if 16 \<le> length addr then \<lparr>v_data = dat, v_addr = put_sockaddr src addr, v_addrlen = 16\<rparr>
         else \<lparr>v_data = dat, v_addr = addr, v_addrlen = 0\<rparr>)) }
     else Some (t, physical_receive pid fd rep t) }"

text \<open>\<^verbatim>\<open>Recv\<close> and \<^verbatim>\<open>Read\<close> (\<open>flags = 0\<close>) have no address buffer.\<close>

definition bsd_Recv ::
  "window \<Rightarrow> u64 \<Rightarrow> int \<Rightarrow> u32 \<Rightarrow> u8 list \<Rightarrow> recv_reply \<Rightarrow> shim \<Rightarrow>
   (shim \<times> ((int \<times> int) \<times> received) answer) option" where
  "bsd_Recv w pid fd flags buf rep s = do {
     (t, n, out, from) \<leftarrow> receive_shadow w pid fd buf (flags AND MsgPeek \<noteq> 0) s;
     if 0 \<le> n then do { dat \<leftarrow> out; Some (t, Local ((n, 0), \<lparr>v_data = dat, v_addr = [], v_addrlen = 0\<rparr>)) }
     else Some (t, physical_receive pid fd rep t) }"

definition bsd_Read ::
  "window \<Rightarrow> u64 \<Rightarrow> int \<Rightarrow> u8 list \<Rightarrow> recv_reply \<Rightarrow> shim \<Rightarrow> (shim \<times> ((int \<times> int) \<times> received) answer) option" where
  "bsd_Read w pid fd buf rep s = do {
     (t, n, out, from) \<leftarrow> receive_shadow w pid fd buf False s;
     if 0 \<le> n then do { dat \<leftarrow> out; Some (t, Local ((n, 0), \<lparr>v_data = dat, v_addr = [], v_addrlen = 0\<rparr>)) }
     else Some (t, physical_receive pid fd rep t) }"

section \<open>Names of a socket\<close>

definition bsd_GetPeerName :: "u64 \<Rightarrow> int \<Rightarrow> u8 list \<Rightarrow> recv_reply \<Rightarrow> shim \<Rightarrow> ((int \<times> int) \<times> received) answer" where
  "bsd_GetPeerName pid fd addr rep s =
     (case GetConnectedLanPeer pid fd s of
        Some (vfd, ip, port) \<Rightarrow>
          Local (if 16 \<le> length addr
                 then ((0, 0), \<lparr>v_data = [], v_addr = put_sockaddr (ip, port) addr, v_addrlen = 16\<rparr>)
                 else ((-1, 22), \<lparr>v_data = [], v_addr = addr, v_addrlen = 0\<rparr>))
      | None \<Rightarrow> Service rep)"

definition managed_name :: "u32 \<Rightarrow> u8 list \<Rightarrow> u8 list" where
  "managed_name ip a = [16, 2] @ take 2 (drop 2 a) @ ip_bytes ip @ drop 8 a"

definition bsd_GetSockName :: "u64 \<Rightarrow> int \<Rightarrow> recv_reply \<Rightarrow> shim \<Rightarrow> shim \<times> ((int \<times> int) \<times> received) answer" where
  "bsd_GetSockName pid fd rep s =
     (case rep of
        Inl rc \<Rightarrow> (s, Service rep)
      | Inr ((ret, err), bufs) \<Rightarrow>
          let a = v_addr bufs;
              t = (if ret = 0 \<and> 4 \<le> length a \<and> addr_port a \<noteq> 0
                   then (case edit_found l_udp (\<lambda>e. e\<lparr>l_boundPort := addr_port a\<rparr>) pid fd s of
                           None \<Rightarrow> s | Some t \<Rightarrow> t)
                   else s)
          in if ret = 0 \<and> 8 \<le> length a \<and> GetLanVfd pid fd t \<noteq> InvalidSocket
             then (case Option.bind (b_port t) GetLanIpConfig of
                     None \<Rightarrow> (t, Service rep)
                   | Some (ip, _) \<Rightarrow>
                       (t, Service (Inr ((ret, err),
                          bufs\<lparr>v_addr := managed_name ip a, v_addrlen := max 16 (v_addrlen bufs)\<rparr>))))
             else (t, Service rep))"

section \<open>All requests\<close>

datatype request =
    ReqSocket int int int reply
  | ReqBind int "u8 list" reply
  | ReqSetSockOpt int int int "u8 list" reply
  | ReqClose int reply
  | ReqShutdownAll reply
  | ReqSendTo int "u8 list" "u8 list" reply
  | ReqSend int "u8 list" reply
  | ReqWrite int "u8 list" reply
  | ReqSendMMsg int int "u8 list" reply
  | ReqConnect int "u8 list" reply
  | ReqRecvFrom int u32 "u8 list" "u8 list" recv_reply
  | ReqRecv int u32 "u8 list" recv_reply
  | ReqRead int "u8 list" recv_reply
  | ReqGetSockName int recv_reply
  | ReqExit
  | InFrame u64 u64 u64 u16 "u8 list option"

text \<open>
  The state after a request; \<open>ReqExit\<close> is the cleanup for a process that has ended, \<open>InFrame\<close> a frame
  from the virtual network that the node thread delivers.
\<close>

fun bsd_exec :: "window \<Rightarrow> u64 \<Rightarrow> request \<Rightarrow> shim \<Rightarrow> shim option" where
  "bsd_exec w pid (ReqSocket d k p rep) s = Some (fst (bsd_Socket pid d k p rep s))"
| "bsd_exec w pid (ReqBind fd addr rep) s = map_option fst (bsd_Bind w pid fd addr rep s)"
| "bsd_exec w pid (ReqSetSockOpt fd l n v rep) s = map_option fst (bsd_SetSockOpt w pid fd l n v rep s)"
| "bsd_exec w pid (ReqClose fd rep) s = map_option fst (bsd_Close w pid fd rep s)"
| "bsd_exec w pid (ReqShutdownAll rep) s = map_option fst (bsd_ShutdownAllSockets w pid rep s)"
| "bsd_exec w pid (ReqSendTo fd buf addr rep) s = map_option fst (bsd_SendTo w pid fd buf addr rep s)"
| "bsd_exec w pid (ReqSend fd buf rep) s = map_option fst (bsd_Send w pid fd buf rep s)"
| "bsd_exec w pid (ReqWrite fd buf rep) s = map_option fst (bsd_Write w pid fd buf rep s)"
| "bsd_exec w pid (ReqSendMMsg fd vlen buf rep) s = map_option fst (bsd_SendMMsg w pid fd vlen buf rep s)"
| "bsd_exec w pid (ReqConnect fd addr rep) s = Some (fst (bsd_Connect pid fd addr rep s))"
| "bsd_exec w pid (ReqRecvFrom fd fl buf addr rep) s = map_option fst (bsd_RecvFrom w pid fd fl buf addr rep s)"
| "bsd_exec w pid (ReqRecv fd fl buf rep) s = map_option fst (bsd_Recv w pid fd fl buf rep s)"
| "bsd_exec w pid (ReqRead fd buf rep) s = map_option fst (bsd_Read w pid fd buf rep s)"
| "bsd_exec w pid (ReqGetSockName fd rep) s = Some (fst (bsd_GetSockName pid fd rep s))"
| "bsd_exec w pid ReqExit s = map_option fst (ForgetLanSocketsForPid w pid s)"
| "bsd_exec w pid (InFrame nwid smac dmac et payload) s = map_option fst (on_port
     (\<lambda>p. map_option (\<lambda>q. (q, ())) (cbVirtualFrame nwid smac dmac et payload p)) s)"

section \<open>The table under all requests\<close>

context shadow_table
begin

lemma fine_ex: "fine fl r \<Longrightarrow> \<exists>t. (\<exists>b. r = Some (t, b)) \<and> inv fl t"
  by (auto simp: fine_def)

lemma track_inv: "inv fl s \<Longrightarrow> pid \<noteq> 0 \<Longrightarrow> inv fl (track pid fd s)"
proof (cases "find_index (\<lambda>e. l_pid e = 0) (b_socks s)")
  case (Some i)
  assume inv: "inv fl s" and pid: "pid \<noteq> 0"
  have "i < MaxLanSockets" "l_pid (b_socks s ! i) = 0"
    using find_index_SomeD [OF Some] shape [OF inv] by simp_all
  from track_law [OF inv this pid] Some show ?thesis by (simp add: track_def)
qed (simp add: track_def)

lemma edit_found_inv:
  assumes "inv fl s" and "edit_found want f pid fd s = Some t"
    and "\<And>e. l_pid (f e) = l_pid e \<and> l_vnetFd (f e) = l_vnetFd e \<and> l_mirrored (f e) = l_mirrored e"
  shows "inv fl t"
proof -
  obtain i where i: "FindLanSocketLocked pid fd s = Some i" "t = set_lan i f s"
    using assms(2) by (auto simp: edit_found_def split: option.splits if_splits)
  from edit_law [OF assms(1) find_entry(1) [OF assms(1) i(1)] assms(3)] i(2) show ?thesis by simp
qed

lemma set_peer_owner:
  "l_pid (set_peer x e) = l_pid e \<and> l_vnetFd (set_peer x e) = l_vnetFd e \<and> l_mirrored (set_peer x e) = l_mirrored e"
  by (simp add: set_peer_def split: option.split)

lemma edit_or_same_inv:
  "inv fl s \<Longrightarrow> (\<And>e. l_pid (f e) = l_pid e \<and> l_vnetFd (f e) = l_vnetFd e \<and> l_mirrored (f e) = l_mirrored e) \<Longrightarrow>
   inv fl (case edit_found want f pid fd s of None \<Rightarrow> s | Some t \<Rightarrow> t)"
  using edit_found_inv by (cases "edit_found want f pid fd s") auto

lemma bind_fine:
  assumes "inv fl s" "keeps w" "pid \<noteq> 0"
  shows "\<exists>t. map_option fst (bsd_Bind w pid fd addr rep s) = Some t \<and> inv fl t"
proof (cases "FindLanSocketLocked pid fd s")
  case (Some i)
  let ?s = "set_lan i (\<lambda>e. e\<lparr>l_boundPort := addr_port addr\<rparr>) s"
  have "inv fl ?s" by (rule edit_law [OF assms(1) find_entry(1) [OF assms(1) Some]]) simp
  from this ensure_fine [OF this assms(2,3), of fd "addr_port addr", THEN fine_ex] assms(1) Some show ?thesis
    by (auto simp: bsd_Bind_def Let_def split: sum.splits prod.splits)
qed (use assms(1) in \<open>auto simp: bsd_Bind_def Let_def split: sum.splits prod.splits\<close>)

lemma setsockopt_fine:
  assumes "inv fl s" "keeps w" "pid \<noteq> 0"
  shows "\<exists>t. map_option fst (bsd_SetSockOpt w pid fd level name v rep s) = Some t \<and> inv fl t"
proof (cases "FindLanSocketLocked pid fd s")
  case (Some i)
  let ?s = "set_lan i (\<lambda>e. e\<lparr>l_broadcast := (opt_value v \<noteq> 0)\<rparr>) s"
  have "inv fl ?s" by (rule edit_law [OF assms(1) find_entry(1) [OF assms(1) Some]]) simp
  from this ensure_fine [OF this assms(2,3), of fd "l_boundPort (b_socks s ! i)", THEN fine_ex] assms(1) Some show ?thesis
    by (auto simp: bsd_SetSockOpt_def Let_def split: sum.splits prod.splits)
qed (use assms(1) in \<open>auto simp: bsd_SetSockOpt_def Let_def split: sum.splits prod.splits\<close>)

lemma overlay_fine:
  assumes "inv fl s" "keeps w" "pid \<noteq> 0"
  shows "fine fl (send_overlay w pid fd buf addr s)"
proof (cases "8 \<le> length addr \<and> b_port s \<noteq> None")
  case True
  obtain vfd bound where sh: "send_shadow pid fd s = (vfd, bound)" by (cases "send_shadow pid fd s")
  let ?r = "if vfd = InvalidSocket \<and> addr ! 7 = 0xFF \<and> bound \<noteq> 0
            then EnsureLanMirror w pid fd bound s else Some (s, vfd)"
  have "fine fl ?r" using ensure_fine [OF assms, of fd bound] assms(1) by simp
  then obtain s1 v1 where s1: "?r = Some (s1, v1)" "inv fl s1" by (rule fineE)
  obtain s2 where s2: "w s1 = Some s2" "inv fl s2" using keepsE [OF assms(2) s1(2)] by blast
  from payload_fine [OF s2(2)] s1 s2 True sh show ?thesis
    by (simp add: send_overlay_def Let_def)
qed (use assms(1) in \<open>auto simp: send_overlay_def\<close>)

lemma send_exec_fine:
  assumes "inv fl s" "keeps w" "pid \<noteq> 0"
  shows "\<exists>t. bsd_exec w pid (ReqSendTo fd buf addr rep) s = Some t \<and> inv fl t"
    and "\<exists>t. bsd_exec w pid (ReqSend fd buf rep) s = Some t \<and> inv fl t"
    and "\<exists>t. bsd_exec w pid (ReqWrite fd buf rep) s = Some t \<and> inv fl t"
    and "\<exists>t. bsd_exec w pid (ReqSendMMsg fd vlen batch rep) s = Some t \<and> inv fl t"
proof -
  from overlay_fine [OF assms] obtain t b where "send_overlay w pid fd buf addr s = Some (t, b)" "inv fl t" by (rule fineE)
  then show "\<exists>t. bsd_exec w pid (ReqSendTo fd buf addr rep) s = Some t \<and> inv fl t" by (simp add: bsd_SendTo_def)
next
  from connected_fine [OF assms(1,2)] obtain t b where
    "MirrorConnectedLanDatagram w pid fd buf s = Some (t, b)" "inv fl t" by (rule fineE)
  then show "\<exists>t. bsd_exec w pid (ReqSend fd buf rep) s = Some t \<and> inv fl t"
    and "\<exists>t. bsd_exec w pid (ReqWrite fd buf rep) s = Some t \<and> inv fl t" by (simp_all add: bsd_Send_def bsd_Write_def)
next
  from mmsg_fine [OF assms(1,2)] obtain t b where
    "MirrorMMsgBuffer w pid fd vlen batch s = Some (t, b)" "inv fl t" by (rule fineE)
  then show "\<exists>t. bsd_exec w pid (ReqSendMMsg fd vlen batch rep) s = Some t \<and> inv fl t" by (simp add: bsd_SendMMsg_def)
qed

lemma connect_exec_fine:
  assumes "inv fl s"
  shows "\<exists>t. bsd_exec w pid (ReqConnect fd addr rep) s = Some t \<and> inv fl t"
proof -
  have "inv fl t" if "connect_local pid fd addr s = Some t" for t
    using that edit_found_inv [OF assms] set_peer_owner
    by (auto simp: connect_local_def split: if_splits)
  moreover have "inv fl (connect_real pid fd addr rep s)"
    using edit_or_same_inv [OF assms] set_peer_owner assms
    by (auto simp: connect_real_def split: sum.split)
  ultimately show ?thesis by (simp add: bsd_Connect_def split: option.split)
qed

lemma sockname_exec_fine:
  assumes "inv fl s"
  shows "\<exists>t. bsd_exec w pid (ReqGetSockName fd rep) s = Some t \<and> inv fl t"
proof -
  have "inv fl (case edit_found l_udp (\<lambda>e. e\<lparr>l_boundPort := p\<rparr>) pid fd s of None \<Rightarrow> s | Some t \<Rightarrow> t)" for p
    by (rule edit_or_same_inv [OF assms]) simp
  with assms show ?thesis by (auto simp: bsd_GetSockName_def Let_def split: sum.split option.split)
qed

lemma exec_fine:
  assumes "inv fl s" "keeps w" "pid \<noteq> 0"
  shows "\<exists>t. bsd_exec w pid req s = Some t \<and> inv fl t"
proof (cases req)
  case (ReqSocket d k p rep)
  with assms track_inv show ?thesis by (auto simp: bsd_Socket_def split: sum.split)
next
  case (ReqBind fd addr rep)
  with bind_fine [OF assms] show ?thesis by simp
next
  case (ReqSetSockOpt fd l n v rep)
  with setsockopt_fine [OF assms] show ?thesis by simp
next
  case (ReqClose fd rep)
  with forget_fine [OF assms, of fd] assms(1) show ?thesis
    by (auto simp: bsd_Close_def split: sum.split)
next
  case (ReqShutdownAll rep)
  with forget_pid_fine [OF assms, THEN fine_ex] assms(1) show ?thesis
    by (auto simp: bsd_ShutdownAllSockets_def split: sum.split)
next
  case (ReqSendTo fd buf addr rep)
  with send_exec_fine(1) [OF assms] show ?thesis by blast
next
  case (ReqSend fd buf rep)
  with send_exec_fine(2) [OF assms] show ?thesis by blast
next
  case (ReqWrite fd buf rep)
  with send_exec_fine(3) [OF assms] show ?thesis by blast
next
  case (ReqSendMMsg fd vlen buf rep)
  with send_exec_fine(4) [OF assms] show ?thesis by blast
next
  case (ReqConnect fd addr rep)
  with connect_exec_fine [OF assms(1)] show ?thesis by blast
next
  case (ReqRecvFrom fd flags buf addr rep)
  with receive_fine [OF assms(1,2), of pid fd buf "flags AND MsgPeek \<noteq> 0"] show ?thesis
    by (fastforce simp: bsd_RecvFrom_def)
next
  case (ReqRecv fd flags buf rep)
  with receive_fine [OF assms(1,2), of pid fd buf "flags AND MsgPeek \<noteq> 0"] show ?thesis
    by (fastforce simp: bsd_Recv_def)
next
  case (ReqRead fd buf rep)
  with receive_fine [OF assms(1,2), of pid fd buf False] show ?thesis
    by (fastforce simp: bsd_Read_def)
next
  case (ReqGetSockName fd rep)
  with sockname_exec_fine [OF assms(1)] show ?thesis by blast
next
  case ReqExit
  with forget_pid_fine [OF assms] show ?thesis by (auto simp: fine_def)
next
  case (InFrame nwid smac dmac et payload)
  with frame_law [OF assms(1)] show ?thesis by simp
qed

end

end
