(* ===== verification/BsdFlow.thy ===== *)
theory BsdFlow
  imports BsdCalls
begin

text \<open>
  What the interposer guarantees over whole runs: who owns the sockets of the virtual interface, and
  where datagrams go.  A run is any sequence of requests by any processes and of arriving frames;
  in the gaps of a request any further such steps may run, nested without bound.
\<close>

section \<open>Runs\<close>

inductive shim_window :: "window \<Rightarrow> bool" where
  idle: "shim_window Some"
| busy: "shim_window w \<Longrightarrow> pid \<noteq> 0 \<Longrightarrow> shim_window x \<Longrightarrow>
    shim_window (\<lambda>s. Option.bind (bsd_exec w pid req s) x)"

inductive shim_reach :: "shim \<Rightarrow> bool" where
  start: "port_inv p \<Longrightarrow> (\<And>k. \<not> vfd_ok (p_vnet p) k) \<Longrightarrow> shim_reach (SetPort (Some p) shim_start)"
| request: "shim_reach s \<Longrightarrow> shim_window w \<Longrightarrow> pid \<noteq> 0 \<Longrightarrow> bsd_exec w pid req s = Some t \<Longrightarrow> shim_reach t"

inductive_cases shim_reachE: "shim_reach s"

lemma window_keeps: "shim_window w \<Longrightarrow> owned_table.keeps w"
proof (induction rule: shim_window.induct)
  case idle
  show ?case by (rule owned_table.keeps_Some)
next
  case (busy w pid x req)
  have "owned_table.keeps (bsd_exec w pid req)"
    unfolding owned_table.keeps_def using owned_table.exec_fine [OF _ busy.IH(1) busy.hyps(2)] by blast
  from owned_table.keeps_comp [OF this busy.IH(2)] show ?case .
qed

lemma owned_start: "port_inv p \<Longrightarrow> (\<And>k. \<not> vfd_ok (p_vnet p) k) \<Longrightarrow> owned [] (SetPort (Some p) shim_start)"
  by (simp add: owned_def safe_def SetPort_def shim_start_def shadow_vfds_def open_vfd_def
      list_all_iff shadow_ok_def lan_zero_def MaxLanSockets_def)

lemma reach_owned: "shim_reach s \<Longrightarrow> owned [] s"
proof (induction rule: shim_reach.induct)
  case (start p)
  then show ?case by (rule owned_start)
next
  case (request s w pid req t)
  from owned_table.exec_fine [OF request.IH window_keeps [OF request.hyps(2)] request.hyps(3), of req]
    request.hyps(4) show ?case by simp
qed


lemma start_reach: "shim_reach (SetPort (Some (port_fresh\<lparr>p_vnet := reset vnet_fresh\<rparr>)) shim_start)"
proof (rule shim_reach.start)
  show "port_inv (port_fresh\<lparr>p_vnet := reset vnet_fresh\<rparr>)"
    using port_ok_fresh by (simp only: port_ok_def)
  show "\<not> vfd_ok (p_vnet (port_fresh\<lparr>p_vnet := reset vnet_fresh\<rparr>)) k" for k
    by (auto simp: vfd_ok_def reset_def MaxSockets_def vnet_fresh_def zero_sock_def)
qed


section \<open>Where a datagram goes\<close>

lemma addr_ip_bytes:
  "push_bit 24 (ucast (ucast (drop_bit 24 ip) :: u8)) OR push_bit 16 (ucast (ucast (drop_bit 16 ip) :: u8)) OR
   push_bit 8 (ucast (ucast (drop_bit 8 ip) :: u8)) OR ucast (ucast ip :: u8) = (ip :: u32)"
proof (rule bit_word_eqI)
  fix n assume n: "n < LENGTH(32)"
  then consider "n < 8" | "8 \<le> n" "n < 16" | "16 \<le> n" "n < 24" | "24 \<le> n" "n < 32" by force
  then show "bit (push_bit 24 (ucast (ucast (drop_bit 24 ip) :: u8)) OR push_bit 16 (ucast (ucast (drop_bit 16 ip) :: u8)) OR
      push_bit 8 (ucast (ucast (drop_bit 8 ip) :: u8)) OR ucast (ucast ip :: u8) :: u32) n = bit ip n"
    by cases (auto simp: bit_simps)
qed

lemma addr_port_bytes:
  "push_bit 8 (ucast (ucast (drop_bit 8 port) :: u8)) OR ucast (ucast port :: u8) = (port :: u16)"
proof (rule bit_word_eqI)
  fix n assume n: "n < LENGTH(16)"
  then consider "n < 8" | "8 \<le> n" "n < 16" by force
  then show "bit (push_bit 8 (ucast (ucast (drop_bit 8 port) :: u8)) OR ucast (ucast port :: u8) :: u16) n = bit port n"
    by cases (auto simp: bit_simps)
qed

lemma sockaddr_fields:
  "addr_port (sockaddr ip port @ x) = port" "addr_ip (sockaddr ip port @ x) = ip"
  "length (sockaddr ip port) = 16"
  by (simp_all add: addr_port_def addr_ip_def sockaddr_def port_bytes_def ip_bytes_def
      addr_port_bytes addr_ip_bytes)

lemma on_port_vnet:
  assumes "b_port s = Some p" and "on_port (on_vnet f) s = Some (t, r)"
  shows "\<exists>q v. b_port t = Some q \<and> f (p_vnet p\<lparr>m_emitted := []\<rparr>) = Some (v, r) \<and> p_vnet q = v\<lparr>m_emitted := []\<rparr>"
  using assms by (auto simp: on_port_def on_vnet_def Option.bind_eq_Some_conv)

lemma safe_vnet:
  "safe fl s \<Longrightarrow> b_port s = Some p \<Longrightarrow> vnet_inv (p_vnet p)"
  "safe fl s \<Longrightarrow> b_port s = Some p \<Longrightarrow> p_vnet p\<lparr>m_emitted := []\<rparr> = p_vnet p"
  by (auto simp: safe_def port_inv_def)

text \<open>The address of the interface, which sending leaves alone.\<close>

definition lan_net :: "VNet \<Rightarrow> bool \<times> u32 \<times> u32" where
  "lan_net v = (m_configured v, m_ip v, m_netmask v)"

lemma lan_net_emitted [simp]: "lan_net (v\<lparr>m_emitted := x\<rparr>) = lan_net v"
  by (simp add: lan_net_def)

lemma send_result:
  assumes "vnet_inv v"
  shows "\<exists>w. udpSendTo vfd dst dp (Some b) (length b) v =
    Some (w, if vfd_ok v vfd \<and> m_configured v \<and> length b \<le> MaxDatagram then int (length b) else -1) \<and>
    lan_net w = lan_net v"
proof (cases "vfd_ok v vfd \<and> m_configured v \<and> length b \<le> MaxDatagram")
  case True
  have i: "pool_inv v" "49152 \<le> unat (m_nextEphemeral v)" "mtu_ok v" using assms by (simp_all add: vnet_inv_def)
  from udp_source_bound(5) [OF i(1,2), of vfd] True have "lan_net (udp_source vfd v) = lan_net v"
    by (auto simp: lan_net_def)
  then have "lan_net (sent (after_send (udp_source vfd v) dst) fs st) = lan_net v" for fs st
    by (simp add: sent_def after_send_def lan_net_def)
  with udpSendTo_ok [OF i(1,2) _ i(3) _ _ le_refl, of vfd b dst dp] True show ?thesis by fastforce
qed (auto simp: udpSendTo_def lan_net_def bump_def)

lemma datagram_result:
  assumes "safe fl s" and "b_port s = Some p"
  shows "\<exists>t q. mirror_datagram vfd ip port data s =
    Some (t, m_configured (p_vnet p) \<and> ip AND m_netmask (p_vnet p) = m_ip (p_vnet p) AND m_netmask (p_vnet p) \<and>
      vfd_ok (p_vnet p) vfd \<and> length data \<le> MaxDatagram) \<and> b_port t = Some q \<and> lan_net (p_vnet q) = lan_net (p_vnet p)"
proof -
  let ?f = "\<lambda>v. if \<not> m_configured v then Some (v, False)
    else let netmask = m_netmask v in
      if ip AND netmask \<noteq> m_ip v AND netmask then Some (v, False)
      else map_option (\<lambda>(v1, n). (v1, 0 \<le> n)) (udpSendTo vfd ip port (Some data) (length data) v)"
  obtain t b where t: "mirror_datagram vfd ip port data s = Some (t, b)" using datagram_effect [OF assms(1)] by blast
  from on_port_vnet [OF assms(2) t [unfolded mirror_datagram_def MirrorLanDatagram_def [abs_def]], unfolded safe_vnet [OF assms]]
  obtain q v where q: "b_port t = Some q" "?f (p_vnet p) = Some (v, b)" "p_vnet q = v\<lparr>m_emitted := []\<rparr>" by blast
  then have "b = (m_configured (p_vnet p) \<and> ip AND m_netmask (p_vnet p) = m_ip (p_vnet p) AND m_netmask (p_vnet p) \<and>
      vfd_ok (p_vnet p) vfd \<and> length data \<le> MaxDatagram)" "lan_net v = lan_net (p_vnet p)"
    using send_result [OF safe_vnet(1) [OF assms], of vfd ip port data] by (auto simp: Let_def split: if_splits)
  with t q show ?thesis by auto
qed

lemma broadcast_result:
  assumes "safe fl s" and "b_port s = Some p"
  shows "\<exists>t q. mirror_broadcast vfd port data s =
    Some (t, m_configured (p_vnet p) \<and> vfd_ok (p_vnet p) vfd \<and> length data \<le> MaxDatagram) \<and>
    b_port t = Some q \<and> lan_net (p_vnet q) = lan_net (p_vnet p)"
proof -
  let ?f = "\<lambda>v. if \<not> m_configured v then Some (v, False)
      else map_option (\<lambda>(v1, n). (v1, 0 \<le> n)) (udpSendTo vfd (broadcastIp v) port (Some data) (length data) v)"
  obtain t b where t: "mirror_broadcast vfd port data s = Some (t, b)" using broadcast_effect [OF assms(1)] by blast
  from on_port_vnet [OF assms(2) t [unfolded mirror_broadcast_def MirrorLanBroadcast_def [abs_def]], unfolded safe_vnet [OF assms]]
  obtain q v where q: "b_port t = Some q" "?f (p_vnet p) = Some (v, b)" "p_vnet q = v\<lparr>m_emitted := []\<rparr>" by blast
  then have "b = (m_configured (p_vnet p) \<and> vfd_ok (p_vnet p) vfd \<and> length data \<le> MaxDatagram)"
    "lan_net v = lan_net (p_vnet p)"
    using send_result [OF safe_vnet(1) [OF assms], of vfd "broadcastIp (p_vnet p)" port data] by (auto split: if_splits)
  with t q show ?thesis by auto
qed

definition overlay_takes :: "VNet \<Rightarrow> u8 list \<Rightarrow> u8 list \<Rightarrow> bool" where
  "overlay_takes v buf addr \<longleftrightarrow> m_configured v \<and> length buf \<le> MaxDatagram \<and>
     (addr ! 7 = 0xFF \<and> \<not> browse_reply (addr_port addr) buf \<or>
      addr_ip addr AND m_netmask v = m_ip v AND m_netmask v)"

text \<open>Sending from a mirrored descriptor goes to its shadow.\<close>

lemma send_mirrored:
  assumes "shim_reach s" and "b_port s = Some p" and "8 \<le> length addr"
    and "FindLanSocketLocked pid fd s = Some i" and "l_udp (b_socks s ! i)" and "l_mirrored (b_socks s ! i)"
  shows "vfd_ok (p_vnet p) (l_vnetFd (b_socks s ! i))"
    and "send_overlay Some pid fd buf addr s =
      MirrorLanPayload (l_vnetFd (b_socks s ! i)) (addr_ip addr) (addr_port addr) (addr ! 7 = 0xFF) buf s"
proof -
  have o: "owned [] s" using assms(1) by (rule reach_owned)
  note e = owned_table.find_entry [OF o assms(4)]
  let ?vfd = "l_vnetFd (b_socks s ! i)"
  have "?vfd \<in> set (shadow_vfds s)" using e(2) assms(6) by (auto simp: shadow_vfds_def)
  then have "open_vfd s ?vfd" using o by (simp add: owned_def)
  then show vfd: "vfd_ok (p_vnet p) ?vfd" using assms(2) by (simp add: open_vfd_def)
  have "?vfd \<noteq> InvalidSocket" using vfd_ok_range [OF vfd] by (simp add: InvalidSocket_def)
  then show "send_overlay Some pid fd buf addr s =
      MirrorLanPayload ?vfd (addr_ip addr) (addr_port addr) (addr ! 7 = 0xFF) buf s"
    using assms by (simp add: send_overlay_def send_shadow_def Let_def)
qed


abbreviation (input) "demo_shim \<equiv> SetPort (Some (port_fresh\<lparr>p_vnet := reset vnet_fresh\<rparr>)) shim_start"


section \<open>Binding always finds a socket\<close>

lemma open_finds:
  assumes "safe fl s" and "b_port s = Some p" and "m_configured (p_vnet p)"
    and "find_index (\<lambda>e. \<not> s_used e) (m_socks (p_vnet p)) = Some j"
  shows "\<exists>t q. on_port OpenLanSocket s = Some (t, int j) \<and> safe fl t \<and> b_socks t = b_socks s \<and>
    b_port t = Some q \<and> m_configured (p_vnet q) \<and> open_vfd t (int j)"
proof -
  from open_effect [OF assms(1)] obtain t c where
    t: "on_port OpenLanSocket s = Some (t, c)" "safe fl t" "b_socks t = b_socks s"
      "c \<noteq> InvalidSocket \<Longrightarrow> open_vfd t c" by blast
  from on_port_vnet [OF assms(2) t(1) [unfolded OpenLanSocket_def [abs_def]], unfolded safe_vnet [OF assms(1,2)]]
  obtain q v where q: "b_port t = Some q" "udpOpen (p_vnet p) = (v, c)" "p_vnet q = v\<lparr>m_emitted := []\<rparr>"
    using assms(3) by auto
  with assms(3,4) have "c = int j" "m_configured v" by (auto simp: udpOpen_def)
  with t q show ?thesis by (auto simp: InvalidSocket_def)
qed

lemma bind_succeeds:
  assumes "safe fl s" and "b_port s = Some p" and "m_configured (p_vnet p)" and "open_vfd s c" and "port \<noteq> 0"
  shows "\<exists>t. on_port (BindLanSocket c port) s = Some (t, True) \<and> b_socks t = b_socks s \<and> safe fl t"
proof -
  from bind_effect [OF assms(1)] obtain t b where
    t: "on_port (BindLanSocket c port) s = Some (t, b)" "b_socks t = b_socks s" "safe fl t" by blast
  from on_port_vnet [OF assms(2) t(1) [unfolded BindLanSocket_def [abs_def]], unfolded safe_vnet [OF assms(1,2)]]
  have b using assms(2-5) by (auto simp: open_vfd_def udpBind_def split: prod.splits)
  with t show ?thesis by simp
qed

lemma find_index_same:
  "find_index P xs = Some i \<Longrightarrow> i < length xs \<Longrightarrow> P y \<Longrightarrow> find_index P (xs[i := y]) = Some i"
proof (induction xs arbitrary: i)
  case (Cons x xs)
  then show ?case by (cases i) (auto split: if_splits)
qed simp

lemma find_index_other:
  "find_index P xs = Some j \<Longrightarrow> i \<noteq> j \<Longrightarrow> (i < j \<Longrightarrow> \<not> P y) \<Longrightarrow> find_index P (xs[i := y]) = Some j"
proof (induction xs arbitrary: i j)
  case (Cons x xs)
  show ?case
  proof (cases "P x")
    case True
    with Cons.prems show ?thesis by (cases i) auto
  next
    case False
    with Cons.prems obtain k where k: "find_index P xs = Some k" "j = Suc k" by auto
    with False Cons.prems Cons.IH [OF k(1)] show ?thesis by (cases i) auto
  qed
qed simp

lemma find_after_edit:
  assumes "FindLanSocketLocked pid fd s = Some i" and "i < length (b_socks s)"
    and "\<And>e. l_pid (f e) = l_pid e \<and> l_bsdFd (f e) = l_bsdFd e"
  shows "FindLanSocketLocked pid fd (set_lan i f s) = Some i"
proof -
  let ?P = "\<lambda>e. l_pid e = pid \<and> l_bsdFd e = fd"
  from assms(1) have f: "fd \<noteq> InvalidSocket" "find_index ?P (b_socks s) = Some i"
    by (auto simp: FindLanSocketLocked_def split: if_splits)
  have "?P (f (b_socks s ! i))" using find_index_SomeD [OF f(2)] assms(3) by simp
  from find_index_same [OF f(2) assms(2), of "f (b_socks s ! i)"] this f(1) show ?thesis
    by (simp add: FindLanSocketLocked_def set_lan_def)
qed

text \<open>An unmirrored entry leaves at most seven owners for the eight sockets of the interface.\<close>

lemma spare_socket:
  assumes "owned [] s" and "i < MaxLanSockets" and "\<not> l_mirrored (b_socks s ! i)"
    and "b_port s = Some p"
  shows "\<exists>j. find_index (\<lambda>e. \<not> s_used e) (m_socks (p_vnet p)) = Some j"
proof (rule ccontr)
  assume "\<not> ?thesis"
  then have none: "\<forall>e \<in> set (m_socks (p_vnet p)). s_used e" by (simp add: find_index_None_iff)
  have ln: "length (b_socks s) = MaxLanSockets" using assms(1) by (simp add: owned_def safe_def)
  have "int ` {..< MaxSockets} \<subseteq> set (shadow_vfds s)"
  proof
    fix k assume "k \<in> int ` {..< MaxSockets}"
    then have "0 \<le> k" "k < int MaxSockets" by auto
    then have "open_vfd s k"
      using none assms(4) vnet_socks_length [OF safe_vnet(1) [OF owned_safe [OF assms(1)] assms(4)]]
      by (simp add: open_vfd_def vfd_ok_def)
    with assms(1) show "k \<in> set (shadow_vfds s)" by (simp add: owned_def)
  qed
  then have "card (int ` {..< MaxSockets}) \<le> card (set (shadow_vfds s))" by (intro card_mono) simp_all
  also have "\<dots> \<le> length (List.filter l_mirrored (b_socks s))" using card_length [of "shadow_vfds s"]
    by (simp add: shadow_vfds_def)
  also have "\<dots> < length (b_socks s)"
    using length_filter_less [of "b_socks s ! i" "b_socks s" l_mirrored] assms(2,3) ln by auto
  finally show False by (simp add: ln card_image MaxSockets_def MaxLanSockets_def)
qed

lemma mirror_created:
  assumes "safe fl s" and "b_port s = Some p" and "m_configured (p_vnet p)" and "port \<noteq> 0"
    and "FindLanSocketLocked pid fd s = Some i" and "l_udp (b_socks s ! i)" and "\<not> l_mirrored (b_socks s ! i)"
    and "find_index (\<lambda>e. \<not> s_used e) (m_socks (p_vnet p)) = Some j"
  shows "\<exists>t. EnsureLanMirror Some pid fd port s =
      Some (set_lan i (\<lambda>e. e\<lparr>l_vnetFd := int j, l_mirrored := True\<rparr>) t, int j) \<and> b_socks t = b_socks s \<and> safe fl t"
proof -
  from open_finds [OF assms(1-3,8)] obtain s1 q where
    s1: "on_port OpenLanSocket s = Some (s1, int j)" "safe fl s1" "b_socks s1 = b_socks s"
      "b_port s1 = Some q" "m_configured (p_vnet q)" "open_vfd s1 (int j)" by blast
  from bind_succeeds [OF s1(2,4-6) assms(4)] obtain s2 where
    s2: "on_port (BindLanSocket (int j) port) s1 = Some (s2, True)" "b_socks s2 = b_socks s" "safe fl s2"
    using s1(3) by auto
  have "open_bound Some port s = Some (s2, int j)" using s1 s2 by (simp add: open_bound_def InvalidSocket_def)
  moreover have "FindLanSocketLocked pid fd s2 = Some i"
    using assms(5) s2(2) by (auto simp: FindLanSocketLocked_def split: if_splits)
  ultimately show ?thesis
    using assms s2(2,3) by (auto simp: EnsureLanMirror_def install_mirror_def InvalidSocket_def)
qed

text \<open>The whole request: the entry notes its port and has a shadow socket, the one it had or the first free one.\<close>

lemma bind_creates:
  assumes "safe fl s" and "b_port s = Some p" and "m_configured (p_vnet p)" and "8 \<le> length addr"
    and "IsPiaLanPort (addr_port addr)" and "FindLanSocketLocked pid fd s = Some i" and "l_udp (b_socks s ! i)"
    and "\<not> l_mirrored (b_socks s ! i) \<Longrightarrow> find_index (\<lambda>e. \<not> s_used e) (m_socks (p_vnet p)) = Some j"
  shows "\<exists>t. bsd_Bind Some pid fd addr (Inr (0, err)) s = Some (t, Service (Inr (0, err))) \<and> safe fl t \<and>
    b_socks t = (b_socks s)[i := (b_socks s ! i)\<lparr>l_boundPort := addr_port addr,
      l_vnetFd := (if l_mirrored (b_socks s ! i) then l_vnetFd (b_socks s ! i) else int j), l_mirrored := True\<rparr>] \<and>
    FindLanSocketLocked pid fd t = Some i"
proof -
  let ?s = "set_lan i (\<lambda>e. e\<lparr>l_boundPort := addr_port addr\<rparr>) s"
  have "find_index (\<lambda>e. l_pid e = pid \<and> l_bsdFd e = fd) (b_socks s) = Some i"
    using assms(6) by (simp add: FindLanSocketLocked_def split: if_splits)
  then have i: "i < length (b_socks s)" by (rule find_index_SomeD [THEN conjunct1])
  have sf: "safe fl ?s" using assms(1) by (simp add: safe_def set_lan_def)
  have s1: "b_port ?s = Some p" "b_socks ?s ! i = (b_socks s ! i)\<lparr>l_boundPort := addr_port addr\<rparr>"
    using assms(2) i by (simp_all add: set_lan_def)
  have find: "FindLanSocketLocked pid fd ?s = Some i" using assms(6) i by (rule find_after_edit) simp
  have port: "addr_port addr \<noteq> 0" using assms(5) by (auto simp: IsPiaLanPort_def)
  show ?thesis
  proof (cases "l_mirrored (b_socks s ! i)")
    case True
    then have "EnsureLanMirror Some pid fd (addr_port addr) ?s = Some (?s, l_vnetFd (b_socks s ! i))"
      using s1 find assms(7) port by (simp add: EnsureLanMirror_def)
    moreover have "(b_socks s)[i := (b_socks s ! i)\<lparr>l_boundPort := addr_port addr\<rparr>] =
        (b_socks s)[i := (b_socks s ! i)\<lparr>l_boundPort := addr_port addr, l_mirrored := True\<rparr>]"
      using True by (cases "b_socks s ! i") simp
    ultimately show ?thesis
      using True assms(2,4-7) find sf by (intro exI [of _ ?s]) (auto simp: bsd_Bind_def Let_def set_lan_def)
  next
    case False
    from mirror_created [OF sf s1(1) assms(3) port find _ _ assms(8) [OF False]] False assms(7) s1(2) obtain t where
      t: "EnsureLanMirror Some pid fd (addr_port addr) ?s = Some (set_lan i (\<lambda>e. e\<lparr>l_vnetFd := int j, l_mirrored := True\<rparr>) t, int j)"
        "b_socks t = b_socks ?s" "safe fl t" by auto
    have it: "i < length (b_socks t)" using t(2) i by (simp add: set_lan_def)
    have "FindLanSocketLocked pid fd t = Some i"
      using find t(2) by (auto simp: FindLanSocketLocked_def split: if_splits)
    from find_after_edit [OF this it, of "\<lambda>e. e\<lparr>l_vnetFd := int j, l_mirrored := True\<rparr>"]
    have "FindLanSocketLocked pid fd (set_lan i (\<lambda>e. e\<lparr>l_vnetFd := int j, l_mirrored := True\<rparr>) t) = Some i" by simp
    moreover have "b_socks (set_lan i (\<lambda>e. e\<lparr>l_vnetFd := int j, l_mirrored := True\<rparr>) t) =
        (b_socks s)[i := (b_socks s ! i)\<lparr>l_boundPort := addr_port addr, l_vnetFd := int j, l_mirrored := True\<rparr>]"
      using t(2) i by (simp add: set_lan_def)
    moreover have "safe fl (set_lan i (\<lambda>e. e\<lparr>l_vnetFd := int j, l_mirrored := True\<rparr>) t)"
      using t(3) by (simp add: safe_def set_lan_def)
    ultimately show ?thesis using False assms(2,4-7) t(1) by (simp add: bsd_Bind_def Let_def)
  qed
qed


text \<open>A game with one tracked socket on a configured network.\<close>

definition demo_net :: Port where
  "demo_net = port_fresh\<lparr>p_vnet := configure 0x020000000001 0x0A000001 0xFFFFFF00 1500 (reset vnet_fresh)\<rparr>"

definition demo_udp :: shim where "demo_udp = track 7 3 (SetPort (Some demo_net) shim_start)"

lemma demo_udp_reach: "shim_reach demo_udp"
proof -
  have f: "port_inv (port_fresh\<lparr>p_vnet := reset vnet_fresh\<rparr>)" using port_ok_fresh by (simp only: port_ok_def)
  then have "port_inv demo_net"
    unfolding demo_net_def port_inv_def by (simp add: vnet_inv_configure) (simp add: configure_def reset_def)
  moreover have "\<not> vfd_ok (p_vnet demo_net) k" for k
    by (auto simp: demo_net_def vfd_ok_def configure_def reset_def MaxSockets_def vnet_fresh_def zero_sock_def)
  ultimately have "shim_reach (SetPort (Some demo_net) shim_start)" by (rule shim_reach.start)
  then show ?thesis
    by (rule shim_reach.request [OF _ shim_window.idle, of _ 7 "ReqSocket 2 2 0 (Inr (3, 0))"])
      (simp_all add: bsd_Socket_def demo_udp_def)
qed

lemma demo_udp_facts:
  "b_port demo_udp = Some demo_net" "m_configured (p_vnet demo_net)"
  "FindLanSocketLocked 7 3 demo_udp = Some 0" "l_udp (b_socks demo_udp ! 0)" "\<not> l_mirrored (b_socks demo_udp ! 0)"
  "find_index (\<lambda>e. \<not> s_used e) (m_socks (p_vnet demo_net)) = Some 0"
  by (simp_all add: demo_udp_def track_def SetPort_def shim_start_def MaxLanSockets_def lan_zero_def set_lan_def
      FindLanSocketLocked_def InvalidSocket_def numeral_nat demo_net_def configure_def reset_def vnet_fresh_def
      MaxSockets_def zero_sock_def)


section \<open>Where a datagram comes from\<close>

lemma receive_queue:
  assumes "vnet_inv v" and "vfd_ok v vfd"
  shows "\<exists>w. udpRecvFrom vfd (Some buf) (length buf) peek v = Some (w,
      case queue_of v (nat vfd) of [] \<Rightarrow> (-1, Some buf, None)
      | (ip, port, d) # q \<Rightarrow> (int (min (length d) (length buf)),
          Some (take (length buf) d @ drop (length d) buf), Some (ip, port))) \<and>
    queue_of w (nat vfd) = (if peek then queue_of v (nat vfd) else tl (queue_of v (nat vfd)))"
proof -
  from assms(2) have i: "int (nat vfd) = vfd" "nat vfd < MaxSockets" "s_used (m_socks v ! nat vfd)"
    using vfd_ok_range by auto
  from assms(1) obtain fl qs where l: "layout v fl qs" by (rule vnet_inv_obtain)
  have sq: "queue_of v (nat vfd) = map (\<lambda>k. pkt_datagram (m_pool v ! k)) (qs ! nat vfd)"
    using layout_sock_queue [OF l i(2)] i(2) by (simp add: queue_of_def)
  show ?thesis
  proof (cases "qs ! nat vfd")
    case Nil
    from recv_empty [OF l i(2) Nil, of "Some buf" "length buf" peek] i(1) Nil sq show ?thesis by simp
  next
    case (Cons x q)
    obtain ip port d where dg: "pkt_datagram (m_pool v ! x) = (ip, port, d)" by (cases "pkt_datagram (m_pool v ! x)")
    have q: "queue_of (pop_state (nat vfd) x v) (nat vfd) = tl (queue_of v (nat vfd))"
      using pop_queue [OF l i(2,3) Cons i(2)] i(2) by (simp add: queue_of_def)
    have "recv_buf (Some buf) (take (length buf) d) = Some (take (length buf) d @ drop (length d) buf)"
      by (simp add: recv_buf_def min_def)
    with recv_ok(1) [OF l i(2,3) Cons _ dg, of "Some buf" "length buf" peek] i(1) q Cons sq dg show ?thesis
      by simp
  qed
qed

text \<open>Receiving at the shadow of a mirrored descriptor takes from its queue, or looks at it.\<close>

lemma receive_mirrored:
  assumes "shim_reach s" and "b_port s = Some p"
    and "FindLanSocketLocked pid fd s = Some i" and "l_mirrored (b_socks s ! i)"
    and "n = nat (l_vnetFd (b_socks s ! i))"
  shows "\<exists>t q k out src. receive_shadow Some pid fd buf peek s = Some (t, k, out, src) \<and> b_port t = Some q \<and>
    (k, out, src) = (case queue_of (p_vnet p) n of [] \<Rightarrow> (-1, Some buf, None)
      | (ip, port, d) # rest \<Rightarrow> (int (min (length d) (length buf)), Some (take (length buf) d @ drop (length d) buf), Some (ip, port))) \<and>
    queue_of (p_vnet q) n = (if peek then queue_of (p_vnet p) n else tl (queue_of (p_vnet p) n)) \<and>
    GetLanVfd pid fd t \<noteq> InvalidSocket"
proof -
  have o: "owned [] s" using assms(1) by (rule reach_owned)
  note e = owned_table.find_entry [OF o assms(3)]
  let ?vfd = "l_vnetFd (b_socks s ! i)"
  have "?vfd \<in> set (shadow_vfds s)" using e(2) assms(4) by (auto simp: shadow_vfds_def)
  then have "open_vfd s ?vfd" using o by (simp add: owned_def)
  then have vfd: "vfd_ok (p_vnet p) ?vfd" using assms(2) by (simp add: open_vfd_def)
  have get: "GetLanVfd pid fd s = ?vfd" "?vfd \<noteq> InvalidSocket"
    using assms(3,4) vfd_ok_range [OF vfd] by (simp_all add: GetLanVfd_def InvalidSocket_def)
  have inv: "vnet_inv (p_vnet p)" "p_vnet p\<lparr>m_emitted := []\<rparr> = p_vnet p"
    using owned_safe [OF o] assms(2) by (auto simp: safe_def port_inv_def)
  from receive_effect [OF owned_safe [OF o], of ?vfd buf peek] obtain t k out src where
    t: "on_port (PortState.ReceiveLanDatagram ?vfd (Some buf) (length buf) peek) s = Some (t, k, out, src)"
      "b_socks t = b_socks s" by blast
  from on_port_vnet [OF assms(2) t(1) [unfolded PortState.ReceiveLanDatagram_def [abs_def]], unfolded inv(2)]
  obtain q v where q: "b_port t = Some q" "udpRecvFrom ?vfd (Some buf) (length buf) peek (p_vnet p) = Some (v, k, out, src)"
    "p_vnet q = v\<lparr>m_emitted := []\<rparr>" by blast
  from receive_queue [OF inv(1) vfd, of buf peek] q(2) assms(5) have
    r: "(k, out, src) = (case queue_of (p_vnet p) n of [] \<Rightarrow> (-1, Some buf, None)
      | (ip, port, d) # rest \<Rightarrow> (int (min (length d) (length buf)),
          Some (take (length buf) d @ drop (length d) buf), Some (ip, port)))"
    and qq: "queue_of v n = (if peek then queue_of (p_vnet p) n else tl (queue_of (p_vnet p) n))" by auto
  have same: "queue_of (p_vnet q) n = queue_of v n"
    by (simp add: q(3) queue_of_def sock_queue_def queue_idx_def)
  have recv: "receive_shadow Some pid fd buf peek s = Some (t, k, out, src)"
    using get assms(2) t(1) by (simp add: receive_shadow_def)
  have "FindLanSocketLocked pid fd t = Some i"
    using assms(3) t(2) by (auto simp: FindLanSocketLocked_def split: if_splits)
  then have "GetLanVfd pid fd t \<noteq> InvalidSocket" using assms(4) t(2) get by (simp add: GetLanVfd_def)
  then show ?thesis using recv q(1) r same qq
    by (intro exI [of _ t] exI [of _ q] exI [of _ k] exI [of _ out] exI [of _ src]) simp
qed

text \<open>
  C7. Where a datagram comes from: a receive on a mirrored socket returns the datagram at the head of
  its queue of the virtual network, cut to the buffer, with the address of its sender in the form
  the other requests read, and removes it unless the game only peeks.  With an empty queue the real
  service answers, except that the errors of a lost route become \<^verbatim>\<open>EAGAIN\<close>, so that the duplicate
  on the physical network cannot end the game's session.
\<close>

theorem recv_routing:
  assumes "shim_reach s" and "b_port s = Some p" and "16 \<le> length addr"
    and "FindLanSocketLocked pid fd s = Some i" and "l_mirrored (b_socks s ! i)"
    and "n = nat (l_vnetFd (b_socks s ! i))"
  shows "\<exists>t q ans. bsd_RecvFrom Some pid fd flags buf addr rep s = Some (t, ans) \<and> b_port t = Some q \<and>
    (case queue_of (p_vnet p) n of
       [] \<Rightarrow> (case rep of Inl rc \<Rightarrow> ans = Service rep
            | Inr ((ret, err), bufs) \<Rightarrow>
                ans = (if ret < 0 \<and> err \<in> {101, 102, 104, 110, 111, 113}
                       then Service (Inr ((ret, 11), bufs\<lparr>v_addrlen := 0\<rparr>)) else Service rep))
     | (ip, port, d) # rest \<Rightarrow>
         (\<exists>a. ans = Local ((int (min (length d) (length buf)), 0),
            \<lparr>v_data = take (length buf) d @ drop (length d) buf, v_addr = a, v_addrlen = 16\<rparr>) \<and>
            addr_ip a = ip \<and> addr_port a = port \<and> length a = length addr)) \<and>
    queue_of (p_vnet q) n = (if flags AND MsgPeek \<noteq> 0 then queue_of (p_vnet p) n else tl (queue_of (p_vnet p) n))"
proof -
  let ?peek = "flags AND MsgPeek \<noteq> 0"
  obtain t q k out src where recv: "receive_shadow Some pid fd buf ?peek s = Some (t, k, out, src)" "b_port t = Some q"
    and r: "(k, out, src) = (case queue_of (p_vnet p) n of [] \<Rightarrow> (-1, Some buf, None)
      | (ip, port, d) # rest \<Rightarrow> (int (min (length d) (length buf)),
          Some (take (length buf) d @ drop (length d) buf), Some (ip, port)))"
    and qq: "queue_of (p_vnet q) n = (if ?peek then queue_of (p_vnet p) n else tl (queue_of (p_vnet p) n))"
    and vfd: "GetLanVfd pid fd t \<noteq> InvalidSocket"
    using receive_mirrored [OF assms(1,2,4,5,6), of buf ?peek] by blast
  have phys: "case rep of Inl rc \<Rightarrow> physical_receive pid fd rep t = Service rep
      | Inr ((ret, err), bufs) \<Rightarrow> physical_receive pid fd rep t = (if ret < 0 \<and> err \<in> {101, 102, 104, 110, 111, 113}
          then Service (Inr ((ret, 11), bufs\<lparr>v_addrlen := 0\<rparr>)) else Service rep)"
    using vfd by (auto simp: physical_receive_def SuppressPhysicalUdpError_def route_errors_def split: sum.split prod.split)
  show ?thesis
  proof (cases "queue_of (p_vnet p) n")
    case Nil
    with r have "k = -1" by simp
    then have "bsd_RecvFrom Some pid fd flags buf addr rep s = Some (t, physical_receive pid fd rep t)"
      using recv(1) by (simp add: bsd_RecvFrom_def)
    with Nil recv(2) qq phys show ?thesis
      by (intro exI [of _ t] exI [of _ q] exI [of _ "physical_receive pid fd rep t"]) simp
  next
    case (Cons x rest)
    obtain ip port d where x: "x = (ip, port, d)" by (cases x)
    have "bsd_RecvFrom Some pid fd flags buf addr rep s =
        Some (t, Local ((int (min (length d) (length buf)), 0),
          \<lparr>v_data = take (length buf) d @ drop (length d) buf, v_addr = put_sockaddr (ip, port) addr, v_addrlen = 16\<rparr>))"
      using recv(1) r Cons x assms(3) by (simp add: bsd_RecvFrom_def)
    with Cons x recv(2) qq assms(3) show ?thesis
      by (auto simp: put_sockaddr_def sockaddr_fields)
  qed
qed

text \<open>A receive on a mirrored descriptor whose queue holds a datagram.\<close>

lemma receive_head:
  assumes "shim_reach s" and "b_port s = Some p" and "16 \<le> length addr"
    and "FindLanSocketLocked pid fd s = Some i" and "l_mirrored (b_socks s ! i)"
    and "queue_of (p_vnet p) (nat (l_vnetFd (b_socks s ! i))) = (ip, port, d) # rest"
  shows "\<exists>t a. bsd_RecvFrom Some pid fd flags buf addr rep s = Some (t, Local ((int (min (length d) (length buf)), 0),
      \<lparr>v_data = take (length buf) d @ drop (length d) buf, v_addr = a, v_addrlen = 16\<rparr>)) \<and>
    addr_ip a = ip \<and> addr_port a = port"
  using receive_mirrored [OF assms(1,2,4,5) refl, of buf "flags AND MsgPeek \<noteq> 0"] assms(3,6)
  by (auto simp: bsd_RecvFrom_def put_sockaddr_def sockaddr_fields)

lemma two_entries: "replicate MaxLanSockets lan_zero = lan_zero # lan_zero # replicate 6 lan_zero"
  by (simp add: MaxLanSockets_def numeral_nat)

lemma zero_fields: "l_pid lan_zero = 0" "\<not> l_mirrored lan_zero"
  by (simp_all add: lan_zero_def)

text \<open>A game with two sockets, the first bound and mirrored.\<close>

lemma demo_mirrored:
  "\<exists>t q. shim_reach t \<and> b_port t = Some q \<and> FindLanSocketLocked 7 3 t = Some 0 \<and> l_mirrored (b_socks t ! 0) \<and>
    l_vnetFd (b_socks t ! 0) = 0 \<and> FindLanSocketLocked 7 5 t = Some 1 \<and> l_udp (b_socks t ! 1) \<and>
    \<not> l_mirrored (b_socks t ! 1)"
proof -
  let ?two = "track 7 5 demo_udp"
  have r: "shim_reach ?two"
    by (rule shim_reach.request [OF demo_udp_reach shim_window.idle, of 7 "ReqSocket 2 2 0 (Inr (5, 0))"])
      (simp_all add: bsd_Socket_def)
  have f: "b_port ?two = Some demo_net" "FindLanSocketLocked 7 3 ?two = Some 0" "l_udp (b_socks ?two ! 0)"
      "\<not> l_mirrored (b_socks ?two ! 0)" "length (b_socks ?two) = 8" "l_pid (b_socks ?two ! 0) = 7" "l_bsdFd (b_socks ?two ! 0) = 3"
      "b_socks ?two ! 1 = lan_zero\<lparr>l_pid := 7, l_bsdFd := 5, l_vnetFd := InvalidSocket, l_udp := True\<rparr>"
    by (simp_all add: demo_udp_def track_def SetPort_def shim_start_def two_entries zero_fields set_lan_def
        FindLanSocketLocked_def InvalidSocket_def)
  have a: "8 \<le> length (sockaddr 0 30000)" "IsPiaLanPort (addr_port (sockaddr 0 30000))"
    using sockaddr_fields(1) [of 0 30000 "[]"] sockaddr_fields(3) [of 0 30000] by (simp_all add: IsPiaLanPort_def)
  from bind_creates [OF owned_safe [OF reach_owned [OF r]] f(1) demo_udp_facts(2) a f(2,3) demo_udp_facts(6), of 0]
  obtain t where t: "bsd_Bind Some 7 3 (sockaddr 0 30000) (Inr (0, 0)) ?two = Some (t, Service (Inr (0, 0)))" "safe [] t"
    "b_socks t = (b_socks ?two)[0 := (b_socks ?two ! 0)\<lparr>l_boundPort := addr_port (sockaddr 0 30000),
       l_vnetFd := 0, l_mirrored := True\<rparr>]" "FindLanSocketLocked 7 3 t = Some 0"
    using f(4) by auto
  have "bsd_exec Some 7 (ReqBind 3 (sockaddr 0 30000) (Inr (0, 0))) ?two = Some t" by (simp add: t(1))
  then have "shim_reach t" by (rule shim_reach.request [OF r shim_window.idle, rotated]) simp
  moreover obtain q where "b_port t = Some q" using t(2) by (auto simp: safe_def)
  moreover have "FindLanSocketLocked 7 5 t = Some 1"
  proof -
    obtain x y zs where xs: "b_socks ?two = x # y # zs" using f(5) by (auto simp: numeral_nat length_Suc_conv)
    then show ?thesis using f(6-8) by (simp add: FindLanSocketLocked_def InvalidSocket_def t(3))
  qed
  ultimately show ?thesis using t(3,4) f(5,8) by (intro exI [of _ t] exI [of _ q]) (simp add: zero_fields)
qed

theorem recv_routing_witness:
  "\<exists>s t ans. shim_reach s \<and> l_mirrored (b_socks s ! 0) \<and>
    bsd_RecvFrom Some 7 3 0 [0, 0] (replicate 16 0) (Inl 1) s = Some (t, ans)"
proof -
  from demo_mirrored obtain s p where s: "shim_reach s" "b_port s = Some p" "FindLanSocketLocked 7 3 s = Some 0"
    "l_mirrored (b_socks s ! 0)" by blast
  from recv_routing [OF s(1,2) _ s(3,4) refl, of "replicate 16 0" 0 "[0, 0]" "Inl 1"] s(1,4) show ?thesis by auto
qed

section \<open>A network that goes away\<close>

text \<open>After the network went down and another came up every socket of the interface is free.\<close>

lemma network_swapped:
  assumes "safe [] s" and "b_port s = Some p"
    and "cbNetworkConfig nwid ConfigDestroy old p = Some p1"
    and "cbNetworkConfig nwid2 ConfigUp new p1 = Some p2"
    and "callback_ok (CbConfig nwid2 ConfigUp new)"
  shows "find_index (\<lambda>e. \<not> s_used e) (m_socks (p_vnet p2)) = Some 0" and "safe [] (SetPort (Some p2) s)"
proof -
  have p: "port_inv p" "length (b_socks s) = MaxLanSockets" using assms(1,2) by (auto simp: safe_def)
  have p1: "port_inv p1" "p_vnet p1 = setEmit True (reset (p_vnet p))"
  proof -
    have "vnet_inv (setEmit True (reset (p_vnet p)))"
      using p(1) vnet_inv_sizes by (auto simp: port_inv_def intro!: step_inv)
    then show "port_inv p1" "p_vnet p1 = setEmit True (reset (p_vnet p))"
      using assms(3) p(1) by (auto simp: cbNetworkConfig_def port_inv_def reset_def setEmit_def)
  qed
  have p2: "port_inv p2" using config_inv [OF p1(1) assms(5)] assms(4) by simp
  have "m_socks (p_vnet p2) = m_socks (p_vnet p1)"
    using assms(4) by (auto simp: cbNetworkConfig_def configure_def Let_def Option.bind_eq_Some_conv split: option.splits)
  moreover have "m_socks (p_vnet p) \<noteq> []"
    using p(1) vnet_socks_length [of "p_vnet p"] by (auto simp: port_inv_def MaxSockets_def)
  ultimately show "find_index (\<lambda>e. \<not> s_used e) (m_socks (p_vnet p2)) = Some 0"
    by (auto simp: p1(2) setEmit_def reset_def zero_sock_def neq_Nil_conv)
  show "safe [] (SetPort (Some p2) s)" using assms(1) p2 by (simp add: safe_def SetPort_def)
qed

text \<open>
  C40. Leaving a network forgets the owners: when the network goes down and another comes up, the
  interface closes all its sockets but the table keeps their numbers.  The next socket B that a
  game binds gets number 0, which the table still holds for A, so both names mean one socket; when
  A is closed, B's shadow is closed with it and B is deaf while the table says it is mirrored.
\<close>

theorem reset_aliases_shadows:
  assumes "shim_reach s" and "b_port s = Some p"
    and "cbNetworkConfig nwid ConfigDestroy old p = Some p1"
    and "cbNetworkConfig nwid2 ConfigUp new p1 = Some p2" and "m_configured (p_vnet p2)"
    and "callback_ok (CbConfig nwid2 ConfigUp new)"
    and "FindLanSocketLocked pid fdA s = Some i" and "l_mirrored (b_socks s ! i)" and "l_vnetFd (b_socks s ! i) = 0"
    and "FindLanSocketLocked pid2 fdB s = Some j" and "l_udp (b_socks s ! j)" and "\<not> l_mirrored (b_socks s ! j)"
    and "8 \<le> length addr" and "IsPiaLanPort (addr_port addr)" and "pid2 \<noteq> 0"
  shows "\<exists>t u. bsd_Bind Some pid2 fdB addr (Inr (0, 0)) (SetPort (Some p2) s) = Some (t, Service (Inr (0, 0))) \<and>
    GetLanVfd pid2 fdB t = 0 \<and> GetLanVfd pid fdA t = 0 \<and>
    bsd_Close Some pid fdA (Inr (0, 0)) t = Some (u, Service (Inr (0, 0))) \<and>
    GetLanVfd pid2 fdB u = 0 \<and> \<not> open_vfd u 0"
proof -
  let ?s = "SetPort (Some p2) s"
  have sf: "safe [] s" using assms(1) by (rule owned_safe [OF reach_owned])
  note free = network_swapped(1) [OF sf assms(2-4,6)] and sf2 = network_swapped(2) [OF sf assms(2-4,6)]
  have fB: "FindLanSocketLocked pid2 fdB ?s = Some j" "l_udp (b_socks ?s ! j)"
    using assms(10,11) by (auto simp: FindLanSocketLocked_def SetPort_def split: if_splits)
  from bind_creates [OF sf2 _ assms(5,13,14) fB free, where err = 0] assms(12) obtain t where
    t: "bsd_Bind Some pid2 fdB addr (Inr (0, 0)) ?s = Some (t, Service (Inr (0, 0)))" "safe [] t"
      "b_socks t = (b_socks s)[j := (b_socks s ! j)\<lparr>l_boundPort := addr_port addr, l_vnetFd := 0, l_mirrored := True\<rparr>]"
      "FindLanSocketLocked pid2 fdB t = Some j"
    by (auto simp: SetPort_def)
  have ij: "i \<noteq> j" using assms(8,12) by auto
  have raw: "find_index (\<lambda>e. l_pid e = pid \<and> l_bsdFd e = fdA) (b_socks s) = Some i" "fdA \<noteq> InvalidSocket"
    "find_index (\<lambda>e. l_pid e = pid2 \<and> l_bsdFd e = fdB) (b_socks t) = Some j" "fdB \<noteq> InvalidSocket"
    using assms(7) t(4) by (simp_all add: FindLanSocketLocked_def split: if_splits)
  have bounds: "i < length (b_socks t)" "j < length (b_socks t)"
    using find_index_SomeD [OF raw(1)] find_index_SomeD [OF raw(3)] t(3) by simp_all
  have "find_index (\<lambda>e. l_pid e = pid \<and> l_bsdFd e = fdA) (b_socks t) = Some i"
    unfolding t(3) by (rule find_index_other [OF raw(1)]) (use find_index_SomeD [OF raw(1)] ij in auto)
  then have "FindLanSocketLocked pid fdA t = Some i" using raw(2) by (simp add: FindLanSocketLocked_def)
  moreover have "b_socks t ! i = b_socks s ! i" using t(3) ij by simp
  ultimately have A: "GetLanVfd pid fdA t = 0" "ForgetLanSocket Some pid fdA t = close_vfd 0 (set_lan i (\<lambda>_. lan_zero) t)"
    using assms(8,9) t(2) by (auto simp: GetLanVfd_def ForgetLanSocket_def InvalidSocket_def safe_def set_lan_def)
  have "b_socks t ! j = (b_socks s ! j)\<lparr>l_boundPort := addr_port addr, l_vnetFd := 0, l_mirrored := True\<rparr>"
    using t(3) bounds by simp
  then have B: "GetLanVfd pid2 fdB t = 0" "l_mirrored (b_socks t ! j)" "l_vnetFd (b_socks t ! j) = 0"
    using t(4) by (simp_all add: GetLanVfd_def)
  have "safe [] (set_lan i (\<lambda>_. lan_zero) t)" using t(2) by (simp add: safe_def set_lan_def)
  from close_effect [OF this, of 0] obtain u where
    u: "close_vfd 0 (set_lan i (\<lambda>_. lan_zero) t) = Some u" "b_socks u = b_socks (set_lan i (\<lambda>_. lan_zero) t)" "\<not> open_vfd u 0"
    by blast
  have "FindLanSocketLocked pid2 fdB u = Some j"
    using raw(4) find_index_other [OF raw(3) ij, of lan_zero] assms(15)
    by (simp add: FindLanSocketLocked_def u(2) set_lan_def lan_zero_def)
  then have "GetLanVfd pid2 fdB u = 0" using B u(2) ij by (simp add: GetLanVfd_def set_lan_def)
  with t(1) A B(1) u show ?thesis by (simp add: bsd_Close_def)
qed

definition demo_conf :: net_config where
  "demo_conf = \<lparr>c_status = 0, c_mac = 0x020000000001, c_mtu = 2800, c_addresses = [Some (0x0A010001, 24)]\<rparr>"

theorem reset_aliases_shadows_witness:
  "\<exists>t u. GetLanVfd 7 3 t = 0 \<and> GetLanVfd 7 5 t = 0 \<and>
    bsd_Close Some 7 3 (Inr (0, 0)) t = Some (u, Service (Inr (0, 0))) \<and> GetLanVfd 7 5 u = 0 \<and> \<not> open_vfd u 0"
proof -
  from demo_mirrored obtain s p where s: "shim_reach s" "b_port s = Some p" "FindLanSocketLocked 7 3 s = Some 0"
    "l_mirrored (b_socks s ! 0)" "l_vnetFd (b_socks s ! 0) = 0" "FindLanSocketLocked 7 5 s = Some 1"
    "l_udp (b_socks s ! 1)" "\<not> l_mirrored (b_socks s ! 1)" by blast
  obtain p1 where p1: "cbNetworkConfig 1 ConfigDestroy demo_conf p = Some p1" by (simp add: cbNetworkConfig_def)
  obtain p2 where p2: "cbNetworkConfig 2 ConfigUp demo_conf p1 = Some p2" "m_configured (p_vnet p2)"
    by (simp add: cbNetworkConfig_def demo_conf_def prefix_mask_def configure_def)
  have "8 \<le> length (sockaddr 0 30000)" "IsPiaLanPort (addr_port (sockaddr 0 30000))"
    using sockaddr_fields(1) [of 0 30000 "[]"] sockaddr_fields(3) [of 0 30000] by (simp_all add: IsPiaLanPort_def)
  from reset_aliases_shadows [OF s(1,2) p1 p2 _ s(3-8) this] show ?thesis by (auto simp: demo_conf_def)
qed

end
