(* ===== verification/BsdBatch.thy ===== *)
theory BsdBatch
  imports BsdFlow
begin

text \<open>
  What a batch of datagrams does, \<^verbatim>\<open>MirrorMMsgBuffer\<close> of \<^verbatim>\<open>mitm/bsd_shim.cpp\<close>: a serialised batch whose
  destinations are all on the virtual network is sent whole, any other is left whole to the real
  service.
\<close>

lemma overlay_same:
  assumes "b_port s = Some p" and "b_port t = Some q" and "lan_net (p_vnet q) = lan_net (p_vnet p)"
  shows "IsOverlayDestination ip t = IsOverlayDestination ip s"
  using assms by (simp add: IsOverlayDestination_def GetLanIpConfig_def lan_net_def)

lemma resolve_same:
  assumes "b_socks t = b_socks s" and "b_port s = Some p" and "b_port t = Some q" and "lan_net (p_vnet q) = lan_net (p_vnet p)"
  shows "ResolveMMsgDestination pid fd name t = ResolveMMsgDestination pid fd name s"
proof -
  have "FindLanSocketLocked pid fd t = FindLanSocketLocked pid fd s" using assms(1) by (simp add: FindLanSocketLocked_def)
  then have "GetConnectedLanPeer pid fd t = GetConnectedLanPeer pid fd s" "GetLanVfd pid fd t = GetLanVfd pid fd s"
    using assms(1) by (simp_all add: GetConnectedLanPeer_def GetLanVfd_def split: option.split)
  then show ?thesis
    unfolding ResolveMMsgDestination_def Let_def overlay_same [OF assms(2-4)] by (simp only:)
qed

text \<open>A destination that resolves can be sent to.\<close>

lemma resolve_sends:
  assumes "owned [] s" and "b_port s = Some p" and "ResolveMMsgDestination pid fd name s = Some (vfd, ip, port, bc)"
  shows "m_configured (p_vnet p)" and "vfd_ok (p_vnet p) vfd"
    and "\<not> bc \<Longrightarrow> ip AND m_netmask (p_vnet p) = m_ip (p_vnet p) AND m_netmask (p_vnet p)"
proof -
  have "IsOverlayDestination ip s = (True, bc) \<and>
      (\<exists>i. FindLanSocketLocked pid fd s = Some i \<and> l_mirrored (b_socks s ! i) \<and> vfd = l_vnetFd (b_socks s ! i))"
    using assms(3) by (auto simp: ResolveMMsgDestination_def GetConnectedLanPeer_def GetLanVfd_def Let_def
        Option.bind_eq_Some_conv split: if_splits option.splits prod.splits bool.splits)
  then obtain i where i: "IsOverlayDestination ip s = (True, bc)" "FindLanSocketLocked pid fd s = Some i"
    "l_mirrored (b_socks s ! i)" "vfd = l_vnetFd (b_socks s ! i)" by blast
  have "vfd \<in> set (shadow_vfds s)"
    using owned_table.find_entry(2) [OF assms(1) i(2)] i(3,4) by (auto simp: shadow_vfds_def)
  then have "open_vfd s vfd" using assms(1) by (simp add: owned_def)
  then show "vfd_ok (p_vnet p) vfd" using assms(2) by (simp add: open_vfd_def)
  show "m_configured (p_vnet p)"
    "\<not> bc \<Longrightarrow> ip AND m_netmask (p_vnet p) = m_ip (p_vnet p) AND m_netmask (p_vnet p)"
    using i(1) assms(2) by (auto simp: IsOverlayDestination_def GetLanIpConfig_def Let_def split: if_splits)
qed

lemma mirror_resolved:
  assumes "owned [] s" and "b_port s = Some p" and "ResolveMMsgDestination pid fd name s = Some (vfd, ip, port, bc)"
    and "length dat \<le> MaxDatagram"
  shows "\<exists>t q. (if bc then mirror_broadcast vfd port dat s else mirror_datagram vfd ip port dat s) = Some (t, True) \<and>
    owned [] t \<and> b_socks t = b_socks s \<and> b_port t = Some q \<and> lan_net (p_vnet q) = lan_net (p_vnet p)"
proof -
  note r = resolve_sends [OF assms(1-3)]
  note sf = owned_safe [OF assms(1)]
  show ?thesis
  proof (cases bc)
    case True
    from broadcast_effect [OF sf, of vfd port dat] broadcast_result [OF sf assms(2), of vfd port dat] r(1,2) assms(4)
    obtain t q where t: "mirror_broadcast vfd port dat s = Some (t, True)" "safe [] t" "b_socks t = b_socks s"
      "\<forall>k. open_vfd t k \<longleftrightarrow> open_vfd s k" "b_port t = Some q" "lan_net (p_vnet q) = lan_net (p_vnet p)" by auto
    with owned_same [OF assms(1) t(2,3)] True show ?thesis by auto
  next
    case False
    from datagram_effect [OF sf, of vfd ip port dat] datagram_result [OF sf assms(2), of vfd ip port dat] r(1,2) r(3) [OF False] assms(4)
    obtain t q where t: "mirror_datagram vfd ip port dat s = Some (t, True)" "safe [] t" "b_socks t = b_socks s"
      "\<forall>k. open_vfd t k \<longleftrightarrow> open_vfd s k" "b_port t = Some q" "lan_net (p_vnet q) = lan_net (p_vnet p)" by auto
    with owned_same [OF assms(1) t(2,3)] False show ?thesis by auto
  qed
qed

lemma batch_sends:
  assumes "owned [] s" and "b_port s = Some p" and "list_all mmsg_wf ms"
    and "\<forall>m \<in> set ms. ResolveMMsgDestination pid fd (mm_name m) s \<noteq> None"
  shows "\<exists>t. mmsg_send Some pid fd (length ms) (concat (map mmsg_bytes ms)) s = Some (t, length ms)"
  using assms
proof (induction ms arbitrary: s p)
  case (Cons m ms)
  let ?c = "concat (map mmsg_bytes ms)"
  have wf: "mmsg_wf m" using Cons.prems(3) by simp
  obtain vfd ip port bc where d: "ResolveMMsgDestination pid fd (mm_name m) s = Some (vfd, ip, port, bc)"
    using Cons.prems(4) by (auto simp: prod_eq_iff)
  from assemble_serialised [OF wf owned_table.scratch [OF Cons.prems(1)]] obtain b pl where
    b: "AssembleMMsgPayload (mmsg_view m) (b_mmsg s) = Some (b, Some pl)" "length b = MMsgPayloadMax"
      "length (concat (mm_parts m)) \<le> length pl" "take (length (concat (mm_parts m))) pl = concat (mm_parts m)" by blast
  let ?s = "s\<lparr>b_mmsg := b\<rparr>"
  have s1: "owned [] ?s" "b_port ?s = Some p" using owned_table.scratch_law [OF Cons.prems(1) b(2)] Cons.prems(2) by simp_all
  have "ResolveMMsgDestination pid fd (mm_name m) ?s = Some (vfd, ip, port, bc)"
    using resolve_same [of ?s s p p] Cons.prems(2) d by simp
  moreover have "length (concat (mm_parts m)) \<le> MaxDatagram"
    using wf by (simp add: mmsg_wf_def MMsgPayloadMax_def MaxDatagram_def)
  ultimately obtain t q where t: "(if bc then mirror_broadcast vfd port (concat (mm_parts m)) ?s
      else mirror_datagram vfd ip port (concat (mm_parts m)) ?s) = Some (t, True)"
    "owned [] t" "b_socks t = b_socks s" "b_port t = Some q" "lan_net (p_vnet q) = lan_net (p_vnet p)"
    using mirror_resolved [OF s1] by fastforce
  have "\<forall>m \<in> set ms. ResolveMMsgDestination pid fd (mm_name m) t \<noteq> None"
    using Cons.prems(4) resolve_same [OF t(3) Cons.prems(2) t(4,5)] by simp
  with Cons.IH [OF t(2,4)] Cons.prems(3) obtain u where
    u: "mmsg_send Some pid fd (length ms) ?c t = Some (u, length ms)" by auto
  have v: "mv_name (mmsg_view m) = mm_name m" "mv_payloadLen (mmsg_view m) = length (concat (mm_parts m))"
    by (simp_all add: mmsg_view_def)
  show ?case
    using parse_serialised [OF wf, of ?c] d b(1,3,4) t(1) u by (simp add: v Let_def)
qed simp

lemma batch_check:
  "list_all mmsg_wf ms \<Longrightarrow> mmsg_check pid fd s (length ms) (concat (map mmsg_bytes ms)) \<longleftrightarrow>
    (\<forall>m \<in> set ms. ResolveMMsgDestination pid fd (mm_name m) s \<noteq> None)"
  by (induction ms) (simp_all add: parse_serialised mmsg_view_def)



end
