(* ===== verification/BsdSelect.thy ===== *)
theory BsdSelect
  imports BsdFlow
begin

text \<open>
  Waiting for readable sockets, \<^verbatim>\<open>Select\<close> and \<^verbatim>\<open>Poll\<close> of \<^verbatim>\<open>mitm/bsd_shim.cpp\<close>.  The kernel cannot wait on
  a queue of the virtual interface, so the physical wait is cut short while a mirrored socket is
  watched, and the sockets readable on the virtual network are merged into the answer.

  The answer of the real service is a function of the wait it is asked for; the window \<open>w\<close> is what
  other threads do during that wait.
\<close>

section \<open>Descriptor sets\<close>

definition FdIsSet :: "int \<Rightarrow> u8 list \<Rightarrow> bool" where
  "FdIsSet fd ds \<longleftrightarrow> \<not> (fd < 0 \<or> length ds \<le> nat (fd div 8)) \<and>
     (ds ! nat (fd div 8)) AND push_bit (nat (fd mod 8)) 1 \<noteq> 0"

definition FdSet :: "int \<Rightarrow> u8 list \<Rightarrow> u8 list" where
  "FdSet fd ds =
     (if fd < 0 \<or> length ds \<le> nat (fd div 8) then ds
      else ds[nat (fd div 8) := (ds ! nat (fd div 8)) OR push_bit (nat (fd mod 8)) 1])"

lemma fd_is_set_bit: "FdIsSet fd ds \<longleftrightarrow> 0 \<le> fd \<and> nat (fd div 8) < length ds \<and> bit (ds ! nat (fd div 8)) (nat (fd mod 8))"
  by (auto simp: FdIsSet_def push_bit_of_1 and_exp_eq_0_iff_not_bit)

lemma fd_set_length [simp]: "length (FdSet fd ds) = length ds"
  by (simp add: FdSet_def)

lemma fd_set_same: "FdIsSet fd (FdSet fd ds) \<longleftrightarrow> 0 \<le> fd \<and> nat (fd div 8) < length ds"
proof -
  have "nat (fd mod 8) < 8" by (simp add: nat_less_iff)
  then show ?thesis by (auto simp: fd_is_set_bit FdSet_def bit_simps not_le)
qed

lemma fd_set_other:
  assumes "a \<noteq> b"
  shows "FdIsSet a (FdSet b ds) \<longleftrightarrow> FdIsSet a ds"
proof (cases "0 \<le> a \<and> \<not> (b < 0 \<or> length ds \<le> nat (b div 8)) \<and> nat (a div 8) = nat (b div 8)")
  case True
  then have "0 \<le> a div 8" "0 \<le> b div 8" by (simp_all add: pos_imp_zdiv_nonneg_iff)
  with True have "a div 8 = b div 8" by (metis nat_eq_iff)
  with assms have "a mod 8 \<noteq> b mod 8" by (metis mult_div_mod_eq)
  then have "nat (a mod 8) \<noteq> nat (b mod 8)" by (simp add: eq_nat_nat_iff)
  with True show ?thesis by (auto simp: fd_is_set_bit FdSet_def bit_simps)
next
  case False
  then show ?thesis by (auto simp: fd_is_set_bit FdSet_def nth_list_update)
qed

section \<open>Select\<close>

record timeval =
  tv_sec :: int
  tv_usec :: int
  tv_null :: bool

text \<open>The scan ends at the first mirrored socket that is readable at once.\<close>

fun select_scan :: "u64 \<Rightarrow> u8 list \<Rightarrow> shim \<Rightarrow> int list \<Rightarrow> bool \<Rightarrow> bool \<times> bool" where
  "select_scan pid rd s [] watches = (watches, False)"
| "select_scan pid rd s (fd # ds) watches =
     (if FdIsSet fd rd \<and> GetLanVfd pid fd s \<noteq> InvalidSocket
      then if shadow_readable pid fd s then (True, True) else select_scan pid rd s ds True
      else select_scan pid rd s ds watches)"

definition select_wait :: "bool \<Rightarrow> bool \<Rightarrow> timeval \<Rightarrow> timeval" where
  "select_wait watches ready timeout =
     (if ready then \<lparr>tv_sec = 0, tv_usec = 0, tv_null = False\<rparr>
      else if watches \<and> (tv_null timeout \<or> tv_sec timeout \<noteq> 0 \<or> 10000 < tv_usec timeout)
      then \<lparr>tv_sec = 0, tv_usec = 10000, tv_null = False\<rparr> else timeout)"

fun select_merge :: "u64 \<Rightarrow> u8 list \<Rightarrow> shim \<Rightarrow> int list \<Rightarrow> int \<Rightarrow> u8 list \<Rightarrow> int \<times> u8 list" where
  "select_merge pid rd s [] merged out = (merged, out)"
| "select_merge pid rd s (fd # ds) merged out =
     (if \<not> FdIsSet fd rd \<or> \<not> shadow_readable pid fd s then select_merge pid rd s ds merged out
      else select_merge pid rd s ds (if FdIsSet fd out then merged else merged + 1) (FdSet fd out))"

definition descriptors :: "int \<Rightarrow> int list" where
  "descriptors nfds = map int [0..<nat nfds]"

definition bsd_Select ::
  "window \<Rightarrow> u64 \<Rightarrow> int \<Rightarrow> timeval \<Rightarrow> u8 list \<Rightarrow> (timeval \<Rightarrow> nat + (int \<times> int) \<times> u8 list) \<Rightarrow> shim \<Rightarrow>
   (shim \<times> ((int \<times> int) \<times> u8 list) answer) option" where
  "bsd_Select w pid nfds timeout rd rep s = do {
     let (watches, ready) = select_scan pid rd s (descriptors nfds) False;
     let answer = rep (select_wait watches ready timeout);
     s1 \<leftarrow> w s;
     Some (s1, Service (case answer of
         Inl rc \<Rightarrow> Inl rc
       | Inr ((ret, err), out) \<Rightarrow>
           if 0 \<le> ret \<and> watches
           then (case select_merge pid rd s1 (descriptors nfds) ret out of (merged, out1) \<Rightarrow> Inr ((merged, 0), out1))
           else Inr ((ret, err), out))) }"

text \<open>The mirrored descriptors a request watches, and those that have something to read.\<close>

definition watched :: "u64 \<Rightarrow> u8 list \<Rightarrow> int \<Rightarrow> shim \<Rightarrow> int set" where
  "watched pid rd nfds s = {fd. 0 \<le> fd \<and> fd < nfds \<and> FdIsSet fd rd \<and> GetLanVfd pid fd s \<noteq> InvalidSocket}"

definition arrived :: "u64 \<Rightarrow> u8 list \<Rightarrow> int \<Rightarrow> shim \<Rightarrow> int set" where
  "arrived pid rd nfds s = {fd. 0 \<le> fd \<and> fd < nfds \<and> FdIsSet fd rd \<and> shadow_readable pid fd s}"

lemma descriptors_set: "set (descriptors nfds) = {fd. 0 \<le> fd \<and> fd < nfds}" "distinct (descriptors nfds)"
proof -
  have "fd \<in> int ` {0..<nat nfds}" if "0 \<le> fd" "fd < nfds" for fd
    using that by (intro image_eqI [of _ _ "nat fd"]) auto
  then show "set (descriptors nfds) = {fd. 0 \<le> fd \<and> fd < nfds}" by (auto simp: descriptors_def)
qed (simp add: descriptors_def distinct_map)

lemma readable_mirrored: "shadow_readable pid fd s \<Longrightarrow> GetLanVfd pid fd s \<noteq> InvalidSocket"
  by (simp add: shadow_readable_def Let_def)

lemma scan_finds:
  "select_scan pid rd s ds watches =
     (watches \<or> (\<exists>fd \<in> set ds. FdIsSet fd rd \<and> GetLanVfd pid fd s \<noteq> InvalidSocket),
      \<exists>fd \<in> set ds. FdIsSet fd rd \<and> shadow_readable pid fd s)"
  by (induction ds arbitrary: watches) (auto dest: readable_mirrored)

lemma scan_sets:
  "select_scan pid rd s (descriptors nfds) False = (watched pid rd nfds s \<noteq> {}, arrived pid rd nfds s \<noteq> {})"
  by (auto simp: scan_finds descriptors_set watched_def arrived_def)

lemma merge_sets:
  assumes "distinct ds" and "\<forall>fd \<in> set ds. 0 \<le> fd" and "length rd \<le> length out"
  shows "\<exists>out1. select_merge pid rd s ds m out =
      (m + int (card {fd \<in> set ds. FdIsSet fd rd \<and> shadow_readable pid fd s \<and> \<not> FdIsSet fd out}), out1) \<and>
    length out1 = length out \<and>
    (\<forall>fd. FdIsSet fd out1 \<longleftrightarrow> FdIsSet fd out \<or> fd \<in> set ds \<and> FdIsSet fd rd \<and> shadow_readable pid fd s)"
  using assms
proof (induction ds arbitrary: m out)
  case (Cons a ds)
  let ?hit = "\<lambda>fd. FdIsSet fd rd \<and> shadow_readable pid fd s"
  show ?case
  proof (cases "?hit a")
    case False
    then have "{fd \<in> set (a # ds). ?hit fd \<and> \<not> FdIsSet fd out} = {fd \<in> set ds. ?hit fd \<and> \<not> FdIsSet fd out}" by auto
    with False Cons.IH [of out m] Cons.prems show ?thesis by auto
  next
    case True
    have fit: "FdIsSet a (FdSet a out)"
      using True Cons.prems(2,3) by (simp add: fd_set_same) (simp add: fd_is_set_bit)
    have same: "FdIsSet fd (FdSet a out) \<longleftrightarrow> fd = a \<or> FdIsSet fd out" for fd
      using fit fd_set_other [of fd a out] by (cases "fd = a") auto
    have fin: "finite {fd \<in> set ds. ?hit fd \<and> \<not> FdIsSet fd out}" by simp
    have "{fd \<in> set ds. ?hit fd \<and> \<not> FdIsSet fd (FdSet a out)} = {fd \<in> set ds. ?hit fd \<and> \<not> FdIsSet fd out}"
      using Cons.prems(1) by (auto simp: same)
    moreover have "card {fd \<in> set (a # ds). ?hit fd \<and> \<not> FdIsSet fd out} =
        (if FdIsSet a out then 0 else 1) + card {fd \<in> set ds. ?hit fd \<and> \<not> FdIsSet fd out}"
    proof (cases "FdIsSet a out")
      case True
      then have "{fd \<in> set (a # ds). ?hit fd \<and> \<not> FdIsSet fd out} = {fd \<in> set ds. ?hit fd \<and> \<not> FdIsSet fd out}" by auto
      with True show ?thesis by simp
    next
      case False
      with \<open>?hit a\<close> have "{fd \<in> set (a # ds). ?hit fd \<and> \<not> FdIsSet fd out} =
          insert a {fd \<in> set ds. ?hit fd \<and> \<not> FdIsSet fd out}" by auto
      moreover have "a \<notin> {fd \<in> set ds. ?hit fd \<and> \<not> FdIsSet fd out}" using Cons.prems(1) by simp
      ultimately show ?thesis using False card_insert_disjoint [OF fin] by simp
    qed
    ultimately have "int (card {fd \<in> set (a # ds). ?hit fd \<and> \<not> FdIsSet fd out}) =
        (if FdIsSet a out then 0 else 1) + int (card {fd \<in> set ds. ?hit fd \<and> \<not> FdIsSet fd (FdSet a out)})" by simp
    with Cons.IH [of "FdSet a out" "if FdIsSet a out then m else m + 1"] Cons.prems True show ?thesis
      by (auto simp: same)
  qed
qed simp

text \<open>
  C28. Select sees both networks: while a mirrored descriptor is watched the real service is asked to
  wait no longer than 10 ms, and not at all if a datagram is there already; its answer then gains
  exactly the watched descriptors that have a datagram on the virtual network, each counted once,
  and loses none.  When none is watched the wait and the answer are passed on as they are.
\<close>

theorem select_merges:
  assumes "length rd \<le> length out" and "0 \<le> ret" and "w s = Some t"
    and "wait = select_wait (watched pid rd nfds s \<noteq> {}) (arrived pid rd nfds s \<noteq> {}) timeout"
    and "rep wait = Inr ((ret, err), out)"
  shows "(watched pid rd nfds s = {} \<longrightarrow> wait = timeout \<and>
      bsd_Select w pid nfds timeout rd rep s = Some (t, Service (rep timeout))) \<and>
    (watched pid rd nfds s \<noteq> {} \<longrightarrow>
      \<not> tv_null wait \<and> tv_sec wait = 0 \<and> tv_usec wait \<le> 10000 \<and>
      (arrived pid rd nfds s \<noteq> {} \<longrightarrow> tv_usec wait = 0) \<and>
      (\<exists>out1. bsd_Select w pid nfds timeout rd rep s = Some (t, Service (Inr
          ((ret + int (card {fd \<in> arrived pid rd nfds t. \<not> FdIsSet fd out}), 0), out1))) \<and> length out1 = length out \<and>
        (\<forall>fd. FdIsSet fd out1 \<longleftrightarrow> FdIsSet fd out \<or> fd \<in> arrived pid rd nfds t)))"
proof (intro conjI impI)
  assume none: "watched pid rd nfds s = {}"
  then have "arrived pid rd nfds s = {}" using readable_mirrored by (fastforce simp: watched_def arrived_def)
  with none assms(4) show wait: "wait = timeout" by (simp add: select_wait_def)
  with none assms(3-5) show "bsd_Select w pid nfds timeout rd rep s = Some (t, Service (rep timeout))"
    by (simp add: bsd_Select_def scan_sets)
next
  assume some: "watched pid rd nfds s \<noteq> {}"
  then show "\<not> tv_null wait" "tv_sec wait = 0" "tv_usec wait \<le> 10000"
    by (auto simp: assms(4) select_wait_def)
  show "tv_usec wait = 0" if "arrived pid rd nfds s \<noteq> {}" using that by (simp add: assms(4) select_wait_def)
  have "{fd \<in> set (descriptors nfds). FdIsSet fd rd \<and> shadow_readable pid fd t \<and> \<not> FdIsSet fd out} =
      {fd \<in> arrived pid rd nfds t. \<not> FdIsSet fd out}" by (auto simp: descriptors_set arrived_def)
  with merge_sets [OF descriptors_set(2) _ assms(1), of nfds pid t ret] some assms(2-5)
  show "\<exists>out1. bsd_Select w pid nfds timeout rd rep s = Some (t, Service (Inr
          ((ret + int (card {fd \<in> arrived pid rd nfds t. \<not> FdIsSet fd out}), 0), out1))) \<and> length out1 = length out \<and>
        (\<forall>fd. FdIsSet fd out1 \<longleftrightarrow> FdIsSet fd out \<or> fd \<in> arrived pid rd nfds t)"
    by (auto simp: bsd_Select_def scan_sets descriptors_set arrived_def)
qed

theorem select_merges_witness:
  "\<exists>s n out. watched 7 [8] 4 s \<noteq> {} \<and>
    bsd_Select Some 7 4 \<lparr>tv_sec = 5, tv_usec = 0, tv_null = False\<rparr> [8] (\<lambda>_. Inr ((0, 0), [0])) s =
      Some (s, Service (Inr ((n, 0), out)))"
proof -
  from demo_mirrored obtain s where s: "FindLanSocketLocked 7 3 s = Some 0" "l_mirrored (b_socks s ! 0)"
    "l_vnetFd (b_socks s ! 0) = 0" by blast
  then have "3 \<in> watched 7 [8] 4 s" by (simp add: watched_def FdIsSet_def GetLanVfd_def InvalidSocket_def push_bit_of_1)
  then have "watched 7 [8] 4 s \<noteq> {}" by blast
  with select_merges [of "[8]" "[0]" 0 Some s s _ 7 4 "\<lparr>tv_sec = 5, tv_usec = 0, tv_null = False\<rparr>"
      "\<lambda>_. Inr ((0, 0), [0])" 0, OF _ _ _ refl] show ?thesis by fastforce
qed

section \<open>Poll\<close>

record PollFd =
  pf_fd :: u32
  pf_events :: u16
  pf_revents :: u16

definition PollIn :: u16 where "PollIn = 1"

definition poll_bytes :: "PollFd \<Rightarrow> u8 list" where
  "poll_bytes p = le32_bytes (pf_fd p) @ le16_bytes (pf_events p) @ le16_bytes (pf_revents p)"

definition poll_load :: "u8 list \<Rightarrow> nat \<Rightarrow> PollFd option" where
  "poll_load buf i = do {
     b \<leftarrow> slice buf (i * 8) 8;
     Some \<lparr>pf_fd = le32_load (b ! 0) (b ! 1) (b ! 2) (b ! 3), pf_events = le16_load (b ! 4) (b ! 5),
       pf_revents = le16_load (b ! 6) (b ! 7)\<rparr> }"

definition poll_count :: "int \<Rightarrow> u8 list \<Rightarrow> nat" where
  "poll_count nfds out = (if 0 < nfds then min (nat nfds) (length out div 8) else 0)"

definition poll_wants :: "PollFd \<Rightarrow> bool" where
  "poll_wants p \<longleftrightarrow> pf_events p AND PollIn \<noteq> 0"

definition poll_fd :: "PollFd \<Rightarrow> int" where "poll_fd p = sint (pf_fd p)"

fun poll_scan :: "u64 \<Rightarrow> u8 list \<Rightarrow> shim \<Rightarrow> nat list \<Rightarrow> bool \<times> bool \<Rightarrow> (bool \<times> bool) option" where
  "poll_scan pid buf s [] wr = Some wr"
| "poll_scan pid buf s (i # is) wr = do {
     p \<leftarrow> poll_load buf i;
     poll_scan pid buf s is
       (if poll_wants p \<and> GetLanVfd pid (poll_fd p) s \<noteq> InvalidSocket
        then (True, snd wr \<or> shadow_readable pid (poll_fd p) s) else wr) }"

definition poll_wait :: "bool \<times> bool \<Rightarrow> int \<Rightarrow> int" where
  "poll_wait wr timeout =
     (if snd wr then 0 else if fst wr \<and> (timeout < 0 \<or> 10 < timeout) then 10 else timeout)"

fun poll_merge :: "u64 \<Rightarrow> shim \<Rightarrow> nat list \<Rightarrow> int \<Rightarrow> u8 list \<Rightarrow> (int \<times> u8 list) option" where
  "poll_merge pid s [] merged out = Some (merged, out)"
| "poll_merge pid s (i # is) merged out = do {
     p \<leftarrow> poll_load out i;
     if poll_wants p \<and> shadow_readable pid (poll_fd p) s
     then do {
       out1 \<leftarrow> memcpy out (i * 8) (poll_bytes (p\<lparr>pf_revents := pf_revents p OR PollIn\<rparr>));
       poll_merge pid s is (if pf_revents p = 0 then merged + 1 else merged) out1 }
     else poll_merge pid s is merged out }"

text \<open>
  The buffer \<open>out\<close> of the game is filled with the request if it is large enough; the answer of the real
  service is its result and the buffer afterwards, given the timeout and the buffer before.
\<close>

definition bsd_Poll ::
  "window \<Rightarrow> u64 \<Rightarrow> int \<Rightarrow> int \<Rightarrow> u8 list \<Rightarrow> u8 list \<Rightarrow> (int \<Rightarrow> u8 list \<Rightarrow> nat + (int \<times> int) \<times> u8 list) \<Rightarrow> shim \<Rightarrow>
   (shim \<times> ((int \<times> int) \<times> u8 list) answer) option" where
  "bsd_Poll w pid nfds timeout in_fds out rep s = do {
     let count = poll_count nfds out;
     out1 \<leftarrow> (if length in_fds \<le> length out then memcpy out 0 in_fds else Some out);
     wr \<leftarrow> poll_scan pid in_fds s [0..<count] (False, False);
     let answer = rep (poll_wait wr timeout) out1;
     s1 \<leftarrow> w s;
     (case answer of
        Inl rc \<Rightarrow> Some (s1, Service (Inl rc))
      | Inr ((ret, err), out2) \<Rightarrow>
          if 0 \<le> ret \<and> fst wr then do {
            (merged, out3) \<leftarrow> poll_merge pid s1 [0..<count] ret out2;
            Some (s1, Service (Inr ((merged, 0), out3))) }
          else Some (s1, Service (Inr ((ret, err), out2)))) }"

lemma poll_load_in: "(i + 1) * 8 \<le> length buf \<Longrightarrow> \<exists>p. poll_load buf i = Some p"
  by (simp add: poll_load_def)

lemma poll_load_out: "length buf < (i + 1) * 8 \<Longrightarrow> poll_load buf i = None"
  by (simp add: poll_load_def slice_def)

lemma poll_scan_in:
  "\<forall>i \<in> set is. (i + 1) * 8 \<le> length buf \<Longrightarrow> \<exists>w r. poll_scan pid buf s is wr = Some (w, r)"
proof (induction "is" arbitrary: wr)
  case (Cons i "is")
  then obtain p where "poll_load buf i = Some p" using poll_load_in [of i buf] by auto
  with Cons show ?case by simp
qed auto

lemma poll_scan_out: "i \<in> set is \<Longrightarrow> length buf < (i + 1) * 8 \<Longrightarrow> poll_scan pid buf s is wr = None"
  by (induction "is" arbitrary: wr) (auto simp: poll_load_out Option.bind_eq_None_conv)

text \<open>Loading the entry that was stored, and the others.\<close>

lemma le16_load_bytes: "le16_load (ucast x) (ucast (drop_bit 8 x)) = x"
  by (rule bit_word_eqI) (auto simp: le16_load_def bit_simps)

lemma poll_bytes_length [simp]: "length (poll_bytes p) = 8"
  by (simp add: poll_bytes_def le16_bytes_def)

lemma poll_load_bytes: "poll_load (a @ poll_bytes p @ b) i = Some p" if "length a = i * 8"
  using that by (simp add: poll_load_def)
    (simp add: poll_bytes_def le32_bytes_def le16_bytes_def le32_load_bytes le16_load_bytes)

lemma poll_store_same:
  assumes "memcpy out (i * 8) (poll_bytes p) = Some out1"
  shows "poll_load out1 i = Some p"
proof -
  have "i * 8 + 8 \<le> length out" "out1 = take (i * 8) out @ poll_bytes p @ drop (i * 8 + 8) out"
    using assms by (auto simp: memcpy_def split: if_splits)
  then show ?thesis by (simp add: poll_load_bytes)
qed

lemma poll_store_other:
  assumes "memcpy out (i * 8) (poll_bytes p) = Some out1" and "j \<noteq> i"
  shows "poll_load out1 j = poll_load out j"
proof -
  have o: "i * 8 + 8 \<le> length out" "out1 = take (i * 8) out @ poll_bytes p @ drop (i * 8 + 8) out" "length out1 = length out"
    using assms(1) by (auto simp: memcpy_def split: if_splits)
  have "slice out1 (j * 8) 8 = slice out (j * 8) 8"
  proof (cases "j < i")
    case True
    then have "j * 8 + 8 \<le> i * 8" by simp
    with o show ?thesis by (simp add: slice_def take_drop min_def)
  next
    case False
    with assms(2) have le: "i * 8 + 8 \<le> j * 8" by simp
    have "drop (j * 8) out1 = drop (j * 8 - (i * 8 + 8)) (drop (i * 8 + 8) out)"
      using o(1) le unfolding o(2) by (simp add: min_def)
    also have "\<dots> = drop (j * 8) out" using le by simp
    finally show ?thesis using o(3) by (simp add: slice_def)
  qed
  then show ?thesis by (simp add: poll_load_def)
qed

text \<open>What a watched entry looks like after the merge, and which entries count as new.\<close>

definition poll_hit :: "u64 \<Rightarrow> shim \<Rightarrow> PollFd \<Rightarrow> bool" where
  "poll_hit pid s p \<longleftrightarrow> poll_wants p \<and> shadow_readable pid (poll_fd p) s"

definition poll_mark :: "u64 \<Rightarrow> shim \<Rightarrow> PollFd \<Rightarrow> PollFd" where
  "poll_mark pid s p = (if poll_hit pid s p then p\<lparr>pf_revents := pf_revents p OR PollIn\<rparr> else p)"

definition poll_new :: "u64 \<Rightarrow> shim \<Rightarrow> u8 list \<Rightarrow> nat \<Rightarrow> bool" where
  "poll_new pid s buf i \<longleftrightarrow> (\<exists>p. poll_load buf i = Some p \<and> poll_hit pid s p \<and> pf_revents p = 0)"

lemma poll_merge_entries:
  assumes "distinct is" and "\<forall>i \<in> set is. (i + 1) * 8 \<le> length out"
  shows "\<exists>out1. poll_merge pid s is m out = Some (m + int (card {i \<in> set is. poll_new pid s out i}), out1) \<and>
    length out1 = length out \<and>
    (\<forall>j. poll_load out1 j = (if j \<in> set is then map_option (poll_mark pid s) (poll_load out j) else poll_load out j))"
  using assms
proof (induction "is" arbitrary: m out)
  case (Cons i "is")
  obtain p where p: "poll_load out i = Some p" using poll_load_in [of i out] Cons.prems(2) by auto
  have fin: "finite {k \<in> set is. poll_new pid s out k}" and no: "i \<notin> {k \<in> set is. poll_new pid s out k}"
    using Cons.prems(1) by simp_all
  have count: "card {k \<in> set (i # is). poll_new pid s out k} =
      (if poll_new pid s out i then 1 else 0) + card {k \<in> set is. poll_new pid s out k}"
  proof (cases "poll_new pid s out i")
    case True
    then have "{k \<in> set (i # is). poll_new pid s out k} = insert i {k \<in> set is. poll_new pid s out k}" by auto
    with True show ?thesis using card_insert_disjoint [OF fin no] by simp
  next
    case False
    then have "{k \<in> set (i # is). poll_new pid s out k} = {k \<in> set is. poll_new pid s out k}" by auto
    with False show ?thesis by simp
  qed
  show ?case
  proof (cases "poll_hit pid s p")
    case False
    then have "\<not> poll_new pid s out i" using p by (simp add: poll_new_def)
    with Cons.IH [of out m] Cons.prems p False count show ?thesis
      by (auto simp: poll_hit_def poll_mark_def)
  next
    case True
    let ?p = "p\<lparr>pf_revents := pf_revents p OR PollIn\<rparr>"
    have "i * 8 + 8 \<le> length out" using Cons.prems(2) by simp
    then obtain out1 where o: "memcpy out (i * 8) (poll_bytes ?p) = Some out1" "length out1 = length out" by simp
    have l: "poll_load out1 j = (if j = i then Some ?p else poll_load out j)" for j
      using poll_store_same [OF o(1)] poll_store_other [OF o(1)] by simp
    have "poll_new pid s out i \<longleftrightarrow> pf_revents p = 0" using p True by (simp add: poll_new_def)
    moreover have "{k \<in> set is. poll_new pid s out1 k} = {k \<in> set is. poll_new pid s out k}"
      using Cons.prems(1) by (auto simp: poll_new_def l)
    moreover define m1 where "m1 = (if pf_revents p = 0 then m + 1 else m)"
    have "poll_merge pid s (i # is) m out = poll_merge pid s is m1 out1"
      using p True o(1) by (simp add: poll_hit_def m1_def del: memcpy_in)
    moreover have "poll_mark pid s p = ?p" using True by (simp add: poll_mark_def)
    moreover have "\<exists>out2. poll_merge pid s is m1 out1 = Some (m1 + int (card {k \<in> set is. poll_new pid s out1 k}), out2) \<and>
        length out2 = length out1 \<and> (\<forall>j. poll_load out2 j =
          (if j \<in> set is then map_option (poll_mark pid s) (poll_load out1 j) else poll_load out1 j))"
      using Cons.IH [of out1 m1] Cons.prems o(2) by simp
    ultimately show ?thesis using Cons.prems(1) p count o(2) by (auto simp: l m1_def)
  qed
qed simp

text \<open>
  C29. Poll sees both networks, and reads past the request: the entries looked at are counted by the
  size of the answer, so a request with fewer entries than that is read beyond its end.  Otherwise
  the answer of the real service gains, in each entry that asks for it and whose mirrored socket has a
  datagram, the readable flag and nothing else, and its count the entries that had no flag before.
\<close>

theorem poll_merges:
  assumes "w s = Some t" and "\<And>timeout buf. length buf = length out \<Longrightarrow> \<exists>ret err buf2.
      rep timeout buf = Inr ((ret, err), buf2) \<and> 0 \<le> ret \<and> length buf2 = length out"
  shows "(length in_fds < poll_count nfds out * 8 \<longrightarrow> bsd_Poll w pid nfds timeout in_fds out rep s = None) \<and>
    (poll_count nfds out * 8 \<le> length in_fds \<longrightarrow>
      (\<exists>wr ret err buf buf2 out3. poll_scan pid in_fds s [0..<poll_count nfds out] (False, False) = Some wr \<and>
        rep (poll_wait wr timeout) buf = Inr ((ret, err), buf2) \<and>
        bsd_Poll w pid nfds timeout in_fds out rep s = Some (t, Service (Inr
          (if fst wr then (ret + int (card {i. i < poll_count nfds out \<and> poll_new pid t buf2 i}), 0) else (ret, err), out3))) \<and>
        (\<forall>i. poll_load out3 i = (if fst wr \<and> i < poll_count nfds out
           then map_option (poll_mark pid t) (poll_load buf2 i) else poll_load buf2 i)) \<and>
        (fst wr \<longrightarrow> 0 \<le> poll_wait wr timeout \<and> poll_wait wr timeout \<le> 10)))"
proof (intro conjI impI)
  assume short: "length in_fds < poll_count nfds out * 8"
  let ?i = "length in_fds div 8"
  have "?i \<in> set [0..<poll_count nfds out]" "length in_fds < (?i + 1) * 8"
    using short by (simp_all add: less_mult_imp_div_less)
  from poll_scan_out [OF this] show "bsd_Poll w pid nfds timeout in_fds out rep s = None"
    by (auto simp: bsd_Poll_def Let_def Option.bind_eq_None_conv)
next
  let ?n = "poll_count nfds out"
  assume long: "?n * 8 \<le> length in_fds"
  have fits: "?n * 8 \<le> length out" using div_times_less_eq_dividend [of "length out" 8] by (auto simp: poll_count_def min_def)
  have range: "\<forall>i \<in> set [0..<?n]. (i + 1) * 8 \<le> length in_fds" "\<forall>i \<in> set [0..<?n]. (i + 1) * 8 \<le> length out"
    using long fits by auto
  obtain buf where buf: "(if length in_fds \<le> length out then memcpy out 0 in_fds else Some out) = Some buf"
    "length buf = length out" by (cases "length in_fds \<le> length out") auto
  obtain wa r where wr: "poll_scan pid in_fds s [0..<?n] (False, False) = Some (wa, r)"
    using poll_scan_in [OF range(1)] by blast
  obtain ret err buf2 where rep: "rep (poll_wait (wa, r) timeout) buf = Inr ((ret, err), buf2)" "0 \<le> ret"
    "length buf2 = length out" using assms(2) [OF buf(2)] by blast
  have "\<forall>i \<in> set [0..<?n]. (i + 1) * 8 \<le> length buf2" using range(2) rep(3) by simp
  from poll_merge_entries [OF distinct_upt this, of pid t ret] obtain out1 where
    m: "poll_merge pid t [0..<?n] ret buf2 = Some (ret + int (card {i. i < ?n \<and> poll_new pid t buf2 i}), out1)"
      "\<forall>j. poll_load out1 j = (if j < ?n then map_option (poll_mark pid t) (poll_load buf2 j) else poll_load buf2 j)"
    by auto
  define out3 where "out3 = (if wa then out1 else buf2)"
  have "bsd_Poll w pid nfds timeout in_fds out rep s = Some (t, Service (Inr
      (if wa then (ret + int (card {i. i < ?n \<and> poll_new pid t buf2 i}), 0) else (ret, err), out3)))"
    using buf wr rep m(1) assms(1) by (simp add: bsd_Poll_def Let_def out3_def)
  moreover have "\<forall>i. poll_load out3 i = (if wa \<and> i < ?n then map_option (poll_mark pid t) (poll_load buf2 i) else poll_load buf2 i)"
    using m(2) by (simp add: out3_def)
  ultimately show "\<exists>wr ret err buf buf2 out3. poll_scan pid in_fds s [0..<?n] (False, False) = Some wr \<and>
        rep (poll_wait wr timeout) buf = Inr ((ret, err), buf2) \<and>
        bsd_Poll w pid nfds timeout in_fds out rep s = Some (t, Service (Inr
          (if fst wr then (ret + int (card {i. i < ?n \<and> poll_new pid t buf2 i}), 0) else (ret, err), out3))) \<and>
        (\<forall>i. poll_load out3 i = (if fst wr \<and> i < ?n
           then map_option (poll_mark pid t) (poll_load buf2 i) else poll_load buf2 i)) \<and>
        (fst wr \<longrightarrow> 0 \<le> poll_wait wr timeout \<and> poll_wait wr timeout \<le> 10)"
    using wr rep(1)
    by (intro exI [of _ "(wa, r)"] exI [of _ ret] exI [of _ err] exI [of _ buf] exI [of _ buf2] exI [of _ out3])
      (simp add: poll_wait_def)
qed

theorem poll_merges_witness:
  "bsd_Poll Some 7 2 0 [3, 0, 0, 0, 1, 0, 0, 0] (replicate 16 0) (\<lambda>t buf. Inr ((0, 0), buf)) shim_start = None"
  using poll_merges [of Some shim_start shim_start "replicate 16 0" "\<lambda>t buf. Inr ((0, 0), buf)" "[3, 0, 0, 0, 1, 0, 0, 0]" 2 7 0]
  by (simp add: poll_count_def)

end
