(* ===== verification/BsdLife.thy ===== *)
theory BsdLife
  imports BsdOwner
begin

text \<open>
  Which sessions are intercepted, what memory the real service is given, and what is released when:
  the first part of \<^verbatim>\<open>class BsdShim\<close> of \<^verbatim>\<open>mitm/bsd_shim.cpp\<close>, with \<^verbatim>\<open>net/lifetime.hpp\<close> and
  \<^verbatim>\<open>mitm/lan_titles.hpp\<close>.

  Outside are the kernel's list of processes, the reference counts of \<^verbatim>\<open>shared_ptr\<close> (a function from
  services to numbers), whether a \<^verbatim>\<open>try_to_lock\<close> succeeds, and the answers of the real service.
\<close>

section \<open>Processes and titles\<close>

definition ProcessListConfirmsExit :: "u64 \<Rightarrow> u64 list \<Rightarrow> int \<Rightarrow> nat \<Rightarrow> bool \<Rightarrow> bool" where
  "ProcessListConfirmsExit pid live n capacity success \<longleftrightarrow>
     \<not> (pid = 0 \<or> \<not> success \<or> n < 0 \<or> int capacity \<le> n) \<and> pid \<notin> set (take (nat n) live)"

text \<open>The kernel's answer: \<open>None\<close> when the query fails.\<close>

type_synonym process_list = "(int \<times> u64 list) option"

definition ProcessHasExited :: "u64 \<Rightarrow> process_list \<Rightarrow> bool" where
  "ProcessHasExited pid q =
     (case q of None \<Rightarrow> False | Some (n, live) \<Rightarrow> ProcessListConfirmsExit pid live n 128 True)"

definition LanTitles :: "u64 list" where
  "LanTitles =
     [0x01009B500007C000, 0x01007960049A0000, 0x010044500C182000, 0x01007EF00CB88000,
      0x010002C00C270000, 0x010003000E146000, 0x010086000E148000, 0x010012700F232000,
      0x0100152000022000, 0x0100BDE00862A000, 0x0100D2F00D5C0000, 0x0100B3F000BE2000,
      0x0100ABF008968000, 0x01008DB008C2C000, 0x0100DE600BEEE000, 0x01008D100D43E000,
      0x01003C700009C000, 0x01003BC0000A0000, 0x0100F8F0000A2000, 0x0100C2500FC20000,
      0x0100605008268000]"

definition FindLanTitle :: "u64 \<Rightarrow> nat option" where
  "FindLanTitle i = find_index (\<lambda>t. t = i) LanTitles"

definition IsSplatoon2ProgramId :: "u64 \<Rightarrow> bool" where
  "IsSplatoon2ProgramId i \<longleftrightarrow> i = 0x01003C700009C000 \<or> i = 0x01003BC0000A0000 \<or> i = 0x0100F8F0000A2000"

section \<open>State\<close>

record service =
  sv_id :: nat
  sv_own :: bool
  sv_session :: u32

definition MaxTrackedClients :: nat where "MaxTrackedClients = 32"

text \<open>
  The tables of the module; \<open>c_closed\<close> logs the handles given to \<^verbatim>\<open>svcCloseHandle\<close> and \<open>c_lent\<close> the
  processes the real service has registered with the proxy memory.
\<close>

record life =
  c_sessions :: "(u64 \<times> int) list"
  c_parked :: "(u64 \<times> service) list"
  c_owner :: "service option"
  c_regpid :: u64
  c_regout :: u64
  c_tmem :: "u32 option"
  c_tick :: u64
  c_closed :: "u32 list"
  c_lent :: "u64 list"

definition life_start :: life where
  "life_start = \<lparr>c_sessions = replicate MaxTrackedClients (0, 0), c_parked = [], c_owner = None, c_regpid = 0,
     c_regout = 0, c_tmem = None, c_tick = 0, c_closed = [], c_lent = []\<rparr>"

section \<open>Which sessions are intercepted\<close>

definition CountClientSession :: "u64 \<Rightarrow> life \<Rightarrow> life \<times> int" where
  "CountClientSession pid s =
     (case find_index (\<lambda>e. fst e = pid) (c_sessions s) of
        Some i \<Rightarrow> (let n = snd (c_sessions s ! i) + 1 in (s\<lparr>c_sessions := (c_sessions s)[i := (pid, n)]\<rparr>, n))
      | None \<Rightarrow>
          (case find_index (\<lambda>e. fst e = 0) (c_sessions s) of
             Some i \<Rightarrow> (s\<lparr>c_sessions := (c_sessions s)[i := (pid, 1)]\<rparr>, 1)
           | None \<Rightarrow> (s, -1)))"

definition OwnProgramId :: u64 where "OwnProgramId = 0x4200000000005A54"

definition ShouldMitm :: "bool \<Rightarrow> u64 \<Rightarrow> u64 \<Rightarrow> life \<Rightarrow> life \<times> bool" where
  "ShouldMitm application program pid s =
     (if \<not> application \<or> FindLanTitle program = None then (s, False)
      else if program = OwnProgramId then (s, False)
      else case CountClientSession pid s of (t, n) \<Rightarrow> (t, \<not> n < 0 \<and> n \<noteq> 1))"

section \<open>The proxy memory\<close>

record BsdServiceConfig =
  sc_version :: u32
  sc_tcp_tx :: u32
  sc_tcp_rx :: u32
  sc_tcp_tx_max :: u32
  sc_tcp_rx_max :: u32
  sc_udp_tx :: u32
  sc_udp_rx :: u32
  sc_efficiency :: u32

definition BsdWorkPage :: u64 where "BsdWorkPage = 0x1000"
definition Splatoon2ProxyTmemSize :: u64 where "Splatoon2ProxyTmemSize = 0x94000"

text \<open>The configuration and the least size of the work area.\<close>

definition BuildSplatoon2ProxyConfig :: "BsdServiceConfig \<Rightarrow> (BsdServiceConfig \<times> u64) option" where
  "BuildSplatoon2ProxyConfig requested =
     (if sc_efficiency requested = 0 then None
      else
        let proxy = requested\<lparr>sc_tcp_tx_max := sc_tcp_tx requested, sc_tcp_rx_max := sc_tcp_rx requested\<rparr>;
            sum = (ucast (sc_tcp_tx proxy) + ucast (sc_tcp_rx proxy) + ucast (sc_udp_tx proxy) + ucast (sc_udp_rx proxy)) :: u64;
            aligned = (sum + (BsdWorkPage - 1)) AND NOT (BsdWorkPage - 1) in
        if aligned < BsdWorkPage \<or> Splatoon2ProxyTmemSize < aligned then None
        else
          let maximum = Splatoon2ProxyTmemSize div aligned;
              efficiency = (if maximum < ucast (sc_efficiency proxy) then ucast maximum else sc_efficiency proxy) in
          if efficiency = 0 \<or> Splatoon2ProxyTmemSize < aligned * ucast efficiency then None
          else Some (proxy\<lparr>sc_efficiency := efficiency\<rparr>, aligned * ucast efficiency))"

section \<open>Releasing services\<close>

definition ReleaseRetiredService :: "service \<Rightarrow> life \<Rightarrow> life" where
  "ReleaseRetiredService sv s =
     (if sv_own sv \<and> sv_session sv \<noteq> 0 then s\<lparr>c_closed := c_closed s @ [sv_session sv]\<rparr> else s)"

type_synonym uses = "nat \<Rightarrow> nat"

text \<open>The loop over the parked services of one process, which keeps those that are still referenced.\<close>

fun retire :: "uses \<Rightarrow> u64 \<Rightarrow> (u64 \<times> service) list \<Rightarrow> (u64 \<times> service) list \<times> service list" where
  "retire uses pid [] = ([], [])"
| "retire uses pid ((q, sv) # es) =
     (case retire uses pid es of (kept, released) \<Rightarrow>
        if q \<noteq> pid \<or> 1 < uses (sv_id sv) then ((q, sv) # kept, released) else (kept, sv # released))"

definition retire_parked :: "uses \<Rightarrow> u64 \<Rightarrow> life \<Rightarrow> life" where
  "retire_parked uses pid s =
     (case retire uses pid (c_parked s) of (kept, released) \<Rightarrow>
        fold ReleaseRetiredService released (s\<lparr>c_parked := kept\<rparr>))"

definition owner_uses :: "uses \<Rightarrow> life \<Rightarrow> nat" where
  "owner_uses uses s = (case c_owner s of None \<Rightarrow> 0 | Some sv \<Rightarrow> uses (sv_id sv))"

text \<open>Retiring the registration of the proxy memory.\<close>

definition retire_owner :: "life \<Rightarrow> life" where
  "retire_owner s =
     (case c_owner s of None \<Rightarrow> s | Some sv \<Rightarrow> ReleaseRetiredService sv s)\<lparr>c_owner := None, c_regpid := 0, c_regout := 0\<rparr>"

section \<open>Registering\<close>

record session =
  ss_service :: "service option"
  ss_pid :: u64
  ss_program :: u64
  ss_registered :: bool
  ss_proxy :: bool
  ss_proxy_owner :: bool

text \<open>An error is the module's own \<^verbatim>\<open>ResultBusy\<close> or a result of the system.\<close>

datatype result_code = ResultBusy | ResultOf nat

text \<open>What the outside answers during one registration.\<close>

record reg_env =
  e_processes :: process_list
  e_uses :: uses
  e_tmem :: "result_code + u32"
  e_proxy :: "result_code + u64"
  e_client :: "result_code + u64"

datatype forward = Forward BsdServiceConfig u64 u32

definition EnsureSplatoon2ProxyTmem :: "result_code + u32 \<Rightarrow> life \<Rightarrow> life \<times> (result_code + u32)" where
  "EnsureSplatoon2ProxyTmem create s =
     (case c_tmem s of
        Some h \<Rightarrow> (s, Inr h)
      | None \<Rightarrow> (case create of Inl rc \<Rightarrow> (s, Inl rc) | Inr h \<Rightarrow> (s\<lparr>c_tmem := Some h\<rparr>, Inr h)))"

text \<open>The proxy path; without a result the request goes on with the memory of the client.\<close>

definition register_proxy ::
  "reg_env \<Rightarrow> session \<Rightarrow> BsdServiceConfig \<Rightarrow> life \<Rightarrow> life \<times> (session \<times> (result_code + u64) \<times> forward list) option" where
  "register_proxy env ss proxy s =
     (if c_regpid s = ss_pid ss then (s, Some (ss\<lparr>ss_proxy := True\<rparr>, Inr (c_regout s), []))
      else if c_regpid s \<noteq> 0 \<and> \<not> ProcessHasExited (c_regpid s) (e_processes env) then (s, Some (ss, Inl ResultBusy, []))
      else if c_regpid s \<noteq> 0 \<and> \<not> owner_uses (e_uses env) s \<le> 1 then (s, Some (ss, Inl ResultBusy, []))
      else
        let s1 = (if c_regpid s \<noteq> 0 then retire_owner s else s) in
        case EnsureSplatoon2ProxyTmem (e_tmem env) s1 of
          (s2, Inl rc) \<Rightarrow> (s2, None)
        | (s2, Inr h) \<Rightarrow>
            (case e_proxy env of
               Inl rc \<Rightarrow> (s2, Some (ss, Inl rc, [Forward proxy Splatoon2ProxyTmemSize h]))
             | Inr out \<Rightarrow>
                 (s2\<lparr>c_owner := ss_service ss, c_regpid := ss_pid ss, c_regout := out, c_lent := c_lent s2 @ [ss_pid ss]\<rparr>,
                  Some (ss\<lparr>ss_registered := True, ss_proxy := True, ss_proxy_owner := True\<rparr>, Inr out,
                    [Forward proxy Splatoon2ProxyTmemSize h]))))"

definition register_client ::
  "reg_env \<Rightarrow> session \<Rightarrow> BsdServiceConfig \<Rightarrow> u64 \<Rightarrow> u32 \<Rightarrow> session \<times> (result_code + u64) \<times> forward list" where
  "register_client env ss config tmem_size h =
     (case e_client env of
        Inl rc \<Rightarrow> (ss, Inl rc, [Forward config tmem_size h])
      | Inr out \<Rightarrow> (ss\<lparr>ss_registered := True\<rparr>, Inr out, [Forward config tmem_size h]))"

definition RegisterClient ::
  "reg_env \<Rightarrow> BsdServiceConfig \<Rightarrow> u64 \<Rightarrow> u32 \<Rightarrow> session \<Rightarrow> life \<Rightarrow> life \<times> session \<times> (result_code + u64) \<times> forward list" where
  "RegisterClient env config tmem_size h ss s =
     (case (if IsSplatoon2ProgramId (ss_program ss) then BuildSplatoon2ProxyConfig config else None) of
        None \<Rightarrow> (s, register_client env ss config tmem_size h)
      | Some (proxy, minimum) \<Rightarrow>
          (case register_proxy env ss proxy s of
             (t, Some r) \<Rightarrow> (t, r)
           | (t, None) \<Rightarrow> (t, register_client env ss config tmem_size h)))"

definition RegisterClientShared :: "result_code + u64 \<Rightarrow> session \<Rightarrow> session \<times> (result_code + u64)" where
  "RegisterClientShared answer ss =
     (case answer of Inl rc \<Rightarrow> (ss, Inl rc) | Inr out \<Rightarrow> (ss\<lparr>ss_registered := True\<rparr>, Inr out))"

section \<open>The end of a session\<close>

definition park :: "session \<Rightarrow> service \<Rightarrow> life \<Rightarrow> life" where
  "park ss sv s = s\<lparr>c_parked := c_parked s @ [(ss_pid ss, sv)]\<rparr>"

definition destroy_session :: "process_list \<Rightarrow> session \<Rightarrow> life \<Rightarrow> life" where
  "destroy_session q ss s =
     (case ss_service ss of
        None \<Rightarrow> s
      | Some sv \<Rightarrow>
          if ss_proxy_owner ss \<and> c_regpid s = ss_pid ss
          then (if c_owner s = None then s\<lparr>c_owner := Some sv\<rparr> else s)
          else if ProcessHasExited (ss_pid ss) q then park ss sv s
          else if \<not> ss_registered ss then park ss sv s
          else s)"

section \<open>Maintenance\<close>

definition remember :: "u64 \<Rightarrow> u64 list \<Rightarrow> u64 list" where
  "remember pid cs = (if pid = 0 \<or> length cs = 128 then cs else if pid \<in> set cs then cs else cs @ [pid])"

definition candidates :: "life \<Rightarrow> u64 list" where
  "candidates s = remember (c_regpid s)
     (fold remember (map fst (c_sessions s)) (fold remember (map fst (c_parked s)) []))"

text \<open>One candidate; \<open>lock\<close> says whether the registration lock was free.\<close>

definition reap :: "window \<Rightarrow> bool \<Rightarrow> uses \<Rightarrow> u64 \<Rightarrow> life \<Rightarrow> shim \<Rightarrow> (life \<times> shim) option" where
  "reap w lock uses pid s b = do {
     (b1, shadows) \<leftarrow> ForgetLanSocketsForPid w pid b;
     let s1 = retire_parked uses pid s;
     if \<not> lock then Some (s1, b1)
     else if c_regpid s1 = pid \<and> 1 < owner_uses uses s1 then Some (s1, b1)
     else
       let s2 = (if c_regpid s1 = pid then retire_owner s1 else s1) in
       Some (s2\<lparr>c_sessions := map (\<lambda>e. if fst e = pid then (0, 0) else e) (c_sessions s2)\<rparr>, b1) }"

fun reap_all :: "window \<Rightarrow> (u64 \<Rightarrow> bool \<times> uses) \<Rightarrow> u64 list \<Rightarrow> int \<Rightarrow> u64 list \<Rightarrow> life \<Rightarrow> shim \<Rightarrow> (life \<times> shim) option" where
  "reap_all w visit live n [] s b = Some (s, b)"
| "reap_all w visit live n (pid # pids) s b =
     (if \<not> ProcessListConfirmsExit pid live n 128 True then reap_all w visit live n pids s b
      else do {
        (s1, b1) \<leftarrow> reap w (fst (visit pid)) (snd (visit pid)) pid s b;
        reap_all w visit live n pids s1 b1 })"

definition CleanupAbandonedServices ::
  "window \<Rightarrow> u64 \<Rightarrow> bool \<Rightarrow> process_list \<Rightarrow> (u64 \<Rightarrow> bool \<times> uses) \<Rightarrow> life \<Rightarrow> shim \<Rightarrow> (life \<times> shim) option" where
  "CleanupAbandonedServices w tick lock q visit s b =
     (if tick - c_tick s < 19200000 then Some (s, b)
      else
        let s1 = s\<lparr>c_tick := tick\<rparr> in
        if \<not> lock \<or> candidates s1 = [] then Some (s1, b)
        else case q of
          None \<Rightarrow> Some (s1, b)
        | Some (n, live) \<Rightarrow>
            if n < 0 \<or> 128 \<le> n then Some (s1, b)
            else reap_all w visit live n (candidates s1) s1 b)"

text \<open>The part of \<^verbatim>\<open>ShutdownAllSockets\<close> after the shadow sockets.\<close>

definition SHUT_RDWR :: int where "SHUT_RDWR = 2"

definition shutdown_parked :: "uses \<Rightarrow> u64 \<Rightarrow> int \<Rightarrow> bool \<Rightarrow> life \<Rightarrow> life" where
  "shutdown_parked uses pid how ok s = (if ok \<and> how = SHUT_RDWR then retire_parked uses pid s else s)"

section \<open>The first session is left alone\<close>

fun ask_all :: "(u64 \<times> u64) list \<Rightarrow> life \<Rightarrow> life \<times> bool list" where
  "ask_all [] s = (s, [])"
| "ask_all ((program, pid) # as) s =
     (case ShouldMitm True program pid s of (t, r) \<Rightarrow> (case ask_all as t of (u, rs) \<Rightarrow> (u, r # rs)))"

definition lan_client :: "u64 \<times> u64 \<Rightarrow> bool" where
  "lan_client a \<longleftrightarrow> FindLanTitle (fst a) \<noteq> None \<and> fst a \<noteq> OwnProgramId \<and> snd a \<noteq> 0"

text \<open>The table after the processes \<open>ps\<close> have asked, in this order and with repetition.\<close>

definition asked :: "u64 list \<Rightarrow> life \<Rightarrow> bool" where
  "asked ps s \<longleftrightarrow> length (c_sessions s) = MaxTrackedClients \<and> 0 \<notin> set ps \<and>
     (\<forall>e \<in> set (c_sessions s). fst e \<noteq> 0 \<longrightarrow> fst e \<in> set ps \<and> snd e = int (count_list ps (fst e))) \<and>
     (\<forall>p \<in> set ps. \<exists>e \<in> set (c_sessions s). fst e = p) \<and>
     (\<forall>i < MaxTrackedClients. \<forall>j < MaxTrackedClients.
        fst (c_sessions s ! i) \<noteq> 0 \<and> fst (c_sessions s ! i) = fst (c_sessions s ! j) \<longrightarrow> i = j)"

lemma asked_start: "asked [] life_start"
  by (auto simp: asked_def life_start_def)

lemma asked_room:
  assumes "asked ps s" and "p \<notin> set ps" and "card (set (ps @ [p])) \<le> MaxTrackedClients"
  shows "\<exists>e \<in> set (c_sessions s). fst e = 0"
proof (rule ccontr)
  assume full: "\<not> ?thesis"
  let ?fs = "map fst (c_sessions s)"
  have ln: "length (c_sessions s) = MaxTrackedClients" using assms(1) by (simp add: asked_def)
  have "fst (c_sessions s ! i) \<noteq> 0" if "i < MaxTrackedClients" for i using full that ln by auto
  then have "distinct ?fs" using assms(1) ln by (auto simp: distinct_conv_nth asked_def)
  then have "card (set ?fs) = MaxTrackedClients" using ln by (simp add: distinct_card flip: set_map)
  moreover have "set ?fs \<subseteq> set ps" using assms(1) full by (auto simp: asked_def)
  ultimately have "MaxTrackedClients \<le> card (set ps)" by (metis card_mono finite_set)
  with assms(2,3) show False by simp
qed

lemma asked_inj:
  "asked ps s \<Longrightarrow> i < MaxTrackedClients \<Longrightarrow> j < MaxTrackedClients \<Longrightarrow> fst (c_sessions s ! i) \<noteq> 0 \<Longrightarrow>
    fst (c_sessions s ! i) = fst (c_sessions s ! j) \<Longrightarrow> i = j"
  unfolding asked_def by blast

text \<open>A process that has asked before, and one that asks for the first time.\<close>

lemma asked_again:
  assumes "asked ps s" and "p \<noteq> 0" and "find_index (\<lambda>e. fst e = p) (c_sessions s) = Some i"
  shows "\<exists>t. CountClientSession p s = (t, int (count_list ps p) + 1) \<and> asked (ps @ [p]) t"
proof -
  have ln: "length (c_sessions s) = MaxTrackedClients" using assms(1) by (simp add: asked_def)
  have i: "i < MaxTrackedClients" "fst (c_sessions s ! i) = p" using find_index_SomeD [OF assms(3)] ln by simp_all
  then have "c_sessions s ! i \<in> set (c_sessions s)" using ln by simp
  with assms(1,2) i(2) have n: "snd (c_sessions s ! i) = int (count_list ps p)" "p \<in> set ps" by (auto simp: asked_def)
  have fsts: "fst ((c_sessions s)[i := (p, x)] ! j) = fst (c_sessions s ! j)" if "j < MaxTrackedClients" for j x
    using i ln that by (cases "j = i") auto
  have other: "fst e \<noteq> p" if "e \<in> set ((c_sessions s)[i := (p, x)])" "e \<noteq> (p, x)" for e x
  proof -
    from that(1) obtain j where j: "j < MaxTrackedClients" "e = (c_sessions s)[i := (p, x)] ! j"
      unfolding in_set_conv_nth length_list_update ln by blast
    then have "j \<noteq> i" using that(2) i ln by auto
    then have "e = c_sessions s ! j" using j(2) by simp
    with assms(1,2) i j(1) \<open>j \<noteq> i\<close> show ?thesis unfolding asked_def by metis
  qed
  let ?t = "s\<lparr>c_sessions := (c_sessions s)[i := (p, int (count_list ps p) + 1)]\<rparr>"
  have "asked (ps @ [p]) ?t"
    unfolding asked_def
  proof (intro conjI ballI allI impI)
    fix e assume e: "e \<in> set (c_sessions ?t)" "fst e \<noteq> 0"
    show "fst e \<in> set (ps @ [p])" "snd e = int (count_list (ps @ [p]) (fst e))"
    proof (atomize (full), cases "e = (p, int (count_list ps p) + 1)")
      case False
      with other e(1) have "fst e \<noteq> p" by simp
      moreover have "e \<in> set (c_sessions s)" using e(1) False set_update_subset_insert [of "c_sessions s" i] by fastforce
      ultimately show "fst e \<in> set (ps @ [p]) \<and> snd e = int (count_list (ps @ [p]) (fst e))"
        using assms(1) e(2) by (auto simp: asked_def)
    qed simp
  next
    fix q assume "q \<in> set (ps @ [p])"
    then have "q \<in> set ps" using n(2) by auto
    then obtain e where "e \<in> set (c_sessions s)" "fst e = q" using assms(1) by (auto simp: asked_def)
    then obtain j where "j < MaxTrackedClients" "fst (c_sessions s ! j) = q" unfolding in_set_conv_nth ln by blast
    then have "fst (c_sessions ?t ! j) = q" "c_sessions ?t ! j \<in> set (c_sessions ?t)" using fsts ln by simp_all
    then show "\<exists>e \<in> set (c_sessions ?t). fst e = q" by blast
  next
    fix j k assume "j < MaxTrackedClients" "k < MaxTrackedClients"
      "fst (c_sessions ?t ! j) \<noteq> 0 \<and> fst (c_sessions ?t ! j) = fst (c_sessions ?t ! k)"
    then show "j = k" using asked_inj [OF assms(1), of j k] fsts by (auto simp del: nth_list_update)
  qed (use ln assms(1,2) in \<open>simp_all add: asked_def\<close>)
  with assms(3) n(1) show ?thesis by (auto simp: CountClientSession_def Let_def)
qed

lemma asked_first:
  assumes "asked ps s" and "p \<noteq> 0" and "card (set (ps @ [p])) \<le> MaxTrackedClients"
    and "find_index (\<lambda>e. fst e = p) (c_sessions s) = None"
  shows "\<exists>t. CountClientSession p s = (t, int (count_list ps p) + 1) \<and> asked (ps @ [p]) t"
proof -
  have no: "\<forall>e \<in> set (c_sessions s). fst e \<noteq> p" using assms(4) by (simp add: find_index_None_iff)
  then have p: "p \<notin> set ps" using assms(1) by (auto simp: asked_def)
  have ln: "length (c_sessions s) = MaxTrackedClients" using assms(1) by (simp add: asked_def)
  obtain i where z: "find_index (\<lambda>e. fst e = 0) (c_sessions s) = Some i"
    using asked_room [OF assms(1) p assms(3)] by (fastforce simp flip: not_None_eq simp: find_index_None_iff)
  then have i: "i < MaxTrackedClients" "fst (c_sessions s ! i) = 0" using find_index_SomeD [OF z] ln by simp_all
  let ?t = "s\<lparr>c_sessions := (c_sessions s)[i := (p, 1)]\<rparr>"
  have "asked (ps @ [p]) ?t"
    unfolding asked_def
  proof (intro conjI ballI allI impI)
    fix e assume e: "e \<in> set (c_sessions ?t)" "fst e \<noteq> 0"
    have "e = (p, 1) \<or> e \<in> set (c_sessions s)" using e(1) set_update_subset_insert [of "c_sessions s" i] by fastforce
    with assms(1) e(2) p no show "fst e \<in> set (ps @ [p])" "snd e = int (count_list (ps @ [p]) (fst e))"
      by (auto simp: asked_def count_list_0_iff)
  next
    fix q assume "q \<in> set (ps @ [p])"
    show "\<exists>e \<in> set (c_sessions ?t). fst e = q"
    proof (cases "q = p")
      case True
      then have "(p, 1) \<in> set (c_sessions ?t)" using i(1) ln by (simp add: set_update_memI)
      with True show ?thesis by force
    next
      case False
      then obtain e where e: "e \<in> set (c_sessions s)" "fst e = q" using \<open>q \<in> set (ps @ [p])\<close> assms(1) by (auto simp: asked_def)
      have "q \<noteq> 0" using assms(1) \<open>q \<in> set (ps @ [p])\<close> False by (auto simp: asked_def)
      from e(1) obtain j where j: "j < MaxTrackedClients" "c_sessions s ! j = e" unfolding in_set_conv_nth ln by blast
      then have "j \<noteq> i" using i(2) e(2) \<open>q \<noteq> 0\<close> by auto
      then have "c_sessions ?t ! j = e" using j by simp
      moreover have "c_sessions ?t ! j \<in> set (c_sessions ?t)" using j(1) ln by (intro nth_mem) simp
      ultimately show ?thesis using e(2) by auto
    qed
  next
    fix j k assume "j < MaxTrackedClients" "k < MaxTrackedClients"
      "fst (c_sessions ?t ! j) \<noteq> 0 \<and> fst (c_sessions ?t ! j) = fst (c_sessions ?t ! k)"
    then show "j = k" using assms(1) no ln i(1) by (auto simp: asked_def nth_list_update split: if_splits)
  qed (use ln assms(1,2) in \<open>simp_all add: asked_def\<close>)
  with assms(4) z p show ?thesis by (auto simp: CountClientSession_def count_list_0_iff)
qed

lemma asked_step:
  assumes "asked ps s" and "p \<noteq> 0" and "card (set (ps @ [p])) \<le> MaxTrackedClients"
  shows "\<exists>t. CountClientSession p s = (t, int (count_list ps p) + 1) \<and> asked (ps @ [p]) t"
  using asked_again [OF assms(1,2)] asked_first [OF assms]
  by (cases "find_index (\<lambda>e. fst e = p) (c_sessions s)") blast+

lemma ask_all_results:
  assumes "asked ps s" and "list_all lan_client as" and "card (set (ps @ map snd as)) \<le> MaxTrackedClients"
  shows "snd (ask_all as s) = map (\<lambda>k. snd (as ! k) \<in> set ps \<union> set (take k (map snd as))) [0..<length as]"
  using assms
proof (induction "as" arbitrary: ps s)
  case (Cons a "as")
  obtain program pid where a: "a = (program, pid)" by (cases a)
  have c: "lan_client (program, pid)" "pid \<noteq> 0" using Cons.prems(2) by (simp_all add: a lan_client_def)
  have "card (set (ps @ [pid])) \<le> card (set (ps @ map snd (a # as)))" by (intro card_mono) (auto simp: a)
  with asked_step [OF Cons.prems(1) c(2)] Cons.prems(3) obtain t where
    t: "CountClientSession pid s = (t, int (count_list ps pid) + 1)" "asked (ps @ [pid]) t" by fastforce
  have r: "ShouldMitm True program pid s = (t, pid \<in> set ps)"
    using c(1) t(1) by (auto simp: ShouldMitm_def lan_client_def count_list_0_iff)
  have "snd (ask_all as t) = map (\<lambda>k. snd (as ! k) \<in> set (ps @ [pid]) \<union> set (take k (map snd as))) [0..<length as]"
    using Cons.IH [OF t(2)] Cons.prems(2,3) by (simp add: a)
  moreover have "[0..<length (a # as)] = 0 # map Suc [0..<length as]" by (simp add: map_Suc_upt upt_conv_Cons del: upt_Suc)
  ultimately show ?case by (auto simp: a r split: prod.split)
qed simp

text \<open>
  The dummy session: among the connections of LAN titles, from at most 32 processes, exactly the
  first one of each process is left to the real service and every later one is intercepted.
\<close>

theorem first_session_left_alone:
  assumes "list_all lan_client as" and "card (set (map snd as)) \<le> MaxTrackedClients" and "k < length as"
  shows "snd (ask_all as life_start) ! k \<longleftrightarrow> snd (as ! k) \<in> set (take k (map snd as))"
  using ask_all_results [OF asked_start assms(1)] assms(2,3) by simp

theorem first_session_left_alone_witness:
  "snd (ask_all [(0x0100152000022000, 81), (0x0100C2500FC20000, 90), (0x0100152000022000, 81)] life_start) ! 2"
proof -
  let ?as = "[(0x0100152000022000, 81), (0x0100C2500FC20000, 90), (0x0100152000022000, 81)] :: (u64 \<times> u64) list"
  have "list_all lan_client ?as" by (simp add: lan_client_def FindLanTitle_def LanTitles_def OwnProgramId_def)
  moreover have "card (set (map snd ?as)) \<le> MaxTrackedClients"
    by (rule order_trans [OF card_length]) (simp add: MaxTrackedClients_def)
  moreover have "2 < length ?as" by simp
  ultimately have "snd (ask_all ?as life_start) ! 2 \<longleftrightarrow> snd (?as ! 2) \<in> set (take 2 (map snd ?as))"
    by (rule first_session_left_alone)
  then show ?thesis by simp
qed

section \<open>The proxy configuration\<close>

definition buffers :: "BsdServiceConfig \<Rightarrow> nat" where
  "buffers c = unat (sc_tcp_tx c) + unat (sc_tcp_rx c) + unat (sc_udp_tx c) + unat (sc_udp_rx c)"

definition pages :: "BsdServiceConfig \<Rightarrow> nat" where
  "pages c = (buffers c + 4095) div 4096"

lemma page_aligned:
  assumes "unat x + 4095 < 2 ^ 64"
  shows "unat ((x + 0xFFF) AND NOT 0xFFF :: u64) = (unat x + 4095) div 4096 * 4096"
proof -
  have m: "(0xFFF :: u64) = mask 12" by (simp add: mask_eq_exp_minus_1)
  have "y AND NOT (mask 12) = push_bit 12 (drop_bit 12 y)" for y :: u64
    by (rule bit_word_eqI) (auto simp: bit_simps)
  moreover have "unat (x + 0xFFF) = unat x + 4095" using assms by (simp add: unat_word_ariths)
  then have "unat (drop_bit 12 (x + 0xFFF)) = (unat x + 4095) div 4096"
    by (simp only: unat_drop_bit_eq) (simp add: drop_bit_eq_div)
  moreover have "(unat x + 4095) div 4096 * 4096 < 2 ^ 64"
    using assms div_times_less_eq_dividend [of "unat x + 4095" 4096] by linarith
  ultimately show ?thesis
    by (simp add: m push_bit_eq_mult unat_word_ariths)
qed

text \<open>The buffers of a configuration rounded up to pages, as the 64-bit words of the code.\<close>

definition proxy_aligned :: "BsdServiceConfig \<Rightarrow> u64" where
  "proxy_aligned c = (ucast (sc_tcp_tx c) + ucast (sc_tcp_rx c) + ucast (sc_udp_tx c) + ucast (sc_udp_rx c) + 0xFFF) AND NOT 0xFFF"

lemma unat_ucast_u64: "unat (ucast (x :: u32) :: u64) = unat x"
  by (simp add: unsigned_ucast_eq take_bit_nat_eq_self order_less_trans [OF unat_u32_less])

lemma proxy_pages:
  shows "unat (proxy_aligned c) = pages c * 4096" and "proxy_aligned c < 0x1000 \<longleftrightarrow> pages c = 0"
    and "0x94000 < proxy_aligned c \<longleftrightarrow> 0x94 < pages c" and "unat (0x94000 div proxy_aligned c) = 0x94 div pages c"
proof -
  define sum where "sum = (ucast (sc_tcp_tx c) + ucast (sc_tcp_rx c) + ucast (sc_udp_tx c) + ucast (sc_udp_rx c) :: u64)"
  have "buffers c < 17179869184"
    using unat_u32_less [of "sc_tcp_tx c"] unat_u32_less [of "sc_tcp_rx c"]
      unat_u32_less [of "sc_udp_tx c"] unat_u32_less [of "sc_udp_rx c"] unfolding buffers_def by linarith
  then have "unat sum = buffers c" "buffers c + 4095 < 2 ^ 64"
    by (simp_all add: sum_def unat_word_ariths unat_ucast_u64 buffers_def mod_add_left_eq)
  with page_aligned [of sum] show al: "unat (proxy_aligned c) = pages c * 4096" by (simp add: proxy_aligned_def sum_def pages_def)
  show "proxy_aligned c < 0x1000 \<longleftrightarrow> pages c = 0" "0x94000 < proxy_aligned c \<longleftrightarrow> 0x94 < pages c"
    by (auto simp: word_less_nat_alt al)
  show "unat (0x94000 div proxy_aligned c) = 0x94 div pages c"
    using div_mult_mult2 [of 4096 "0x94" "pages c"] by (simp add: unat_div al)
qed

text \<open>
  The proxy configuration: it exists exactly when the buffers are not empty and fit the 592 KiB of
  proxy memory once; then it keeps the initial buffers, has no headroom for growth, and its efficiency
  is the requested one or the largest that fits; the work area it needs is whole pages and fits.
\<close>

theorem proxy_config_fits:
  "case BuildSplatoon2ProxyConfig c of
     None \<Rightarrow> sc_efficiency c = 0 \<or> pages c = 0 \<or> 0x94 < pages c
   | Some (p, m) \<Rightarrow> sc_efficiency c \<noteq> 0 \<and> 0 < pages c \<and> pages c \<le> 0x94 \<and>
       p = c\<lparr>sc_tcp_tx_max := sc_tcp_tx c, sc_tcp_rx_max := sc_tcp_rx c, sc_efficiency := sc_efficiency p\<rparr> \<and>
       unat (sc_efficiency p) = min (unat (sc_efficiency c)) (0x94 div pages c) \<and> 0 < unat (sc_efficiency p) \<and>
       unat m = pages c * 4096 * unat (sc_efficiency p) \<and> unat m \<le> 0x94000"
proof -
  let ?aligned = "proxy_aligned c"
  note al = proxy_pages(1) [of c] and none = proxy_pages(2,3) [of c] and max = proxy_pages(4) [of c] and u = unat_ucast_u64
  define e where "e = (if 0x94000 div ?aligned < ucast (sc_efficiency c) then ucast (0x94000 div ?aligned) else sc_efficiency c)"
  have B: "BuildSplatoon2ProxyConfig c =
      (if sc_efficiency c = 0 \<or> ?aligned < 0x1000 \<or> 0x94000 < ?aligned \<or> e = 0 \<or> 0x94000 < ?aligned * ucast e then None
       else Some (c\<lparr>sc_tcp_tx_max := sc_tcp_tx c, sc_tcp_rx_max := sc_tcp_rx c, sc_efficiency := e\<rparr>, ?aligned * ucast e))"
    by (simp add: BuildSplatoon2ProxyConfig_def Let_def BsdWorkPage_def Splatoon2ProxyTmemSize_def proxy_aligned_def e_def)
  show ?thesis
  proof (cases "sc_efficiency c = 0 \<or> pages c = 0 \<or> 0x94 < pages c")
    case True
    then have "BuildSplatoon2ProxyConfig c = None" unfolding B none by auto
    with True show ?thesis by simp
  next
    case False
    have pos: "0 < 0x94 div pages c" using False by (simp add: div_greater_zero_iff)
    have small: "0x94 div pages c \<le> 0x94" by simp
    have "unat (ucast (0x94000 div ?aligned) :: u32) = 0x94 div pages c"
      using le_less_trans [OF small, of "2 ^ 32"] by (simp add: unsigned_ucast_eq max take_bit_nat_eq_self)
    then have e: "unat e = min (unat (sc_efficiency c)) (0x94 div pages c)"
      by (auto simp: e_def word_less_nat_alt max u min_def)
    have "unat (sc_efficiency c) \<noteq> 0" using False by (simp add: unat_eq_zero)
    with pos have epos: "0 < unat e" by (simp add: e)
    have "pages c * unat e \<le> pages c * (0x94 div pages c)" by (simp add: e)
    also have "\<dots> \<le> 0x94" by (simp add: mult.commute div_times_less_eq_dividend)
    finally have fit: "pages c * 4096 * unat e \<le> 0x94000" by simp
    then have prod: "unat (?aligned * ucast e) = pages c * 4096 * unat e"
      by (simp add: unat_word_ariths al u)
    have "e \<noteq> 0" "\<not> 0x94000 < ?aligned * ucast e"
      using epos fit by (auto simp: word_less_nat_alt prod)
    then have "BuildSplatoon2ProxyConfig c = Some (c\<lparr>sc_tcp_tx_max := sc_tcp_tx c, sc_tcp_rx_max := sc_tcp_rx c,
        sc_efficiency := e\<rparr>, ?aligned * ucast e)"
      unfolding B none using False by simp
    then show ?thesis using False e epos fit prod by simp
  qed
qed

section \<open>Who holds the proxy memory\<close>

text \<open>A complete list contains every running process.\<close>

definition honest :: "u64 set \<Rightarrow> process_list \<Rightarrow> bool" where
  "honest A q \<longleftrightarrow> (case q of None \<Rightarrow> True
     | Some (n, live) \<Rightarrow> 0 \<le> n \<and> n < 128 \<longrightarrow> A \<subseteq> set (take (nat n) live))"

text \<open>
  The running processes and the tables, under any interleaving of processes that start and exit,
  connections, registrations, ends of sessions, shutdowns and maintenance.  A process id is not used
  again.
\<close>

inductive life_run :: "u64 set \<Rightarrow> life \<Rightarrow> bool" where
  start: "life_run {} life_start"
| born: "life_run A s \<Longrightarrow> p \<noteq> 0 \<Longrightarrow> p \<notin> set (c_lent s) \<Longrightarrow> life_run (insert p A) s"
| exit: "life_run A s \<Longrightarrow> life_run (A - {p}) s"
| ask: "life_run A s \<Longrightarrow> life_run A (fst (ShouldMitm application program pid s))"
| register: "life_run A s \<Longrightarrow> honest A (e_processes env) \<Longrightarrow>
    life_run A (fst (RegisterClient env config bytes h ss s))"
| destroy: "life_run A s \<Longrightarrow> life_run A (destroy_session q ss s)"
| shutdown: "life_run A s \<Longrightarrow> life_run A (shutdown_parked uses pid how ok s)"
| maintain: "life_run A s \<Longrightarrow> honest A q \<Longrightarrow>
    CleanupAbandonedServices w tick lock q visit s b = Some (t, c) \<Longrightarrow> life_run A t"

inductive_cases life_runE: "life_run A s"

definition one_owner :: "u64 set \<Rightarrow> life \<Rightarrow> bool" where
  "one_owner A s \<longleftrightarrow> 0 \<notin> A \<and> (\<forall>p \<in> set (c_lent s). p \<in> A \<longrightarrow> p = c_regpid s)"

lemma exited_gone: "honest A q \<Longrightarrow> ProcessHasExited p q \<Longrightarrow> p \<notin> A"
  by (auto simp: honest_def ProcessHasExited_def ProcessListConfirmsExit_def split: option.splits)

lemma release_fields [simp]:
  "c_lent (ReleaseRetiredService sv s) = c_lent s" "c_regpid (ReleaseRetiredService sv s) = c_regpid s"
  "c_owner (ReleaseRetiredService sv s) = c_owner s" "c_sessions (ReleaseRetiredService sv s) = c_sessions s"
  "c_parked (ReleaseRetiredService sv s) = c_parked s" "c_regout (ReleaseRetiredService sv s) = c_regout s"
  by (simp_all add: ReleaseRetiredService_def)

lemma release_all_fields [simp]:
  "c_lent (fold ReleaseRetiredService svs s) = c_lent s" "c_regpid (fold ReleaseRetiredService svs s) = c_regpid s"
  "c_owner (fold ReleaseRetiredService svs s) = c_owner s" "c_sessions (fold ReleaseRetiredService svs s) = c_sessions s"
  "c_parked (fold ReleaseRetiredService svs s) = c_parked s" "c_regout (fold ReleaseRetiredService svs s) = c_regout s"
  by (induction svs arbitrary: s) simp_all

lemma retire_parked_fields [simp]:
  "c_lent (retire_parked uses pid s) = c_lent s" "c_regpid (retire_parked uses pid s) = c_regpid s"
  "c_owner (retire_parked uses pid s) = c_owner s" "c_sessions (retire_parked uses pid s) = c_sessions s"
  "c_regout (retire_parked uses pid s) = c_regout s"
  by (simp_all add: retire_parked_def split: prod.split)

lemma retire_owner_fields [simp]:
  "c_lent (retire_owner s) = c_lent s" "c_regpid (retire_owner s) = 0" "c_owner (retire_owner s) = None"
  "c_sessions (retire_owner s) = c_sessions s" "c_parked (retire_owner s) = c_parked s"
  by (simp_all add: retire_owner_def split: option.split)

lemma owner_same: "one_owner A s \<Longrightarrow> c_lent t = c_lent s \<Longrightarrow> c_regpid t = c_regpid s \<Longrightarrow> one_owner A t"
  by (simp add: one_owner_def)

lemma owner_retired: "one_owner A s \<Longrightarrow> c_regpid s \<notin> A \<Longrightarrow> c_lent t = c_lent s \<Longrightarrow> one_owner A t"
  by (auto simp: one_owner_def)

lemma register_owner:
  assumes "one_owner A s" and "honest A (e_processes env)"
  shows "one_owner A (fst (register_proxy env ss proxy s))"
proof (cases "c_regpid s = ss_pid ss \<or> c_regpid s \<noteq> 0 \<and> \<not> ProcessHasExited (c_regpid s) (e_processes env) \<or>
    c_regpid s \<noteq> 0 \<and> \<not> owner_uses (e_uses env) s \<le> 1")
  case True
  then show ?thesis using assms(1) by (auto simp: register_proxy_def)
next
  case False
  define s1 where "s1 = (if c_regpid s \<noteq> 0 then retire_owner s else s)"
  have "c_regpid s \<notin> A" using False assms exited_gone by (auto simp: one_owner_def)
  moreover have "c_lent s1 = c_lent s" by (simp add: s1_def)
  ultimately have none: "\<forall>p \<in> set (c_lent s1). p \<notin> A" using assms(1) by (auto simp: one_owner_def)
  obtain s2 r where e: "EnsureSplatoon2ProxyTmem (e_tmem env) s1 = (s2, r)" by (cases "EnsureSplatoon2ProxyTmem (e_tmem env) s1")
  then have "c_lent s2 = c_lent s1" by (auto simp: EnsureSplatoon2ProxyTmem_def split: option.splits sum.splits)
  with none assms(1) have "one_owner A s2" "one_owner A (s2\<lparr>c_owner := ow, c_regpid := ss_pid ss, c_regout := x,
      c_lent := c_lent s2 @ [ss_pid ss]\<rparr>)" for ow x
    by (auto simp: one_owner_def)
  with False e show ?thesis
    by (auto simp: register_proxy_def Let_def simp flip: s1_def split: sum.split)
qed

lemma reap_owner:
  assumes "one_owner A s" and "pid \<notin> A" and "reap w lock uses pid s b = Some (t, c)"
  shows "one_owner A t"
proof -
  have "c_lent t = c_lent s" "c_regpid t = c_regpid s \<or> c_regpid s = pid"
    using assms(3) by (auto simp: reap_def Let_def Option.bind_eq_Some_conv split: if_splits)
  then show ?thesis using assms(1,2) owner_same owner_retired by metis
qed

lemma reap_all_owner:
  assumes "\<And>p. ProcessListConfirmsExit p live n 128 True \<Longrightarrow> p \<notin> A"
  shows "one_owner A s \<Longrightarrow> reap_all w visit live n pids s b = Some (t, c) \<Longrightarrow> one_owner A t"
proof (induction pids arbitrary: s b)
  case (Cons p ps)
  then show ?case using assms [of p] reap_owner
    by (auto simp: Option.bind_eq_Some_conv split: if_splits) (metis Cons.IH)
qed simp

lemma cleanup_owner:
  assumes "one_owner A s" and "honest A q" and "CleanupAbandonedServices w tick lock q visit s b = Some (t, c)"
  shows "one_owner A t"
proof -
  let ?s = "s\<lparr>c_tick := tick\<rparr>"
  have o: "one_owner A ?s" using assms(1) by (simp add: one_owner_def)
  show ?thesis
  proof (cases "tick - c_tick s < 19200000 \<or> \<not> lock \<or> candidates ?s = []")
    case True
    then show ?thesis using assms(1,3) o by (auto simp: CleanupAbandonedServices_def Let_def split: if_splits)
  next
    case False
    show ?thesis
    proof (cases q)
      case None
      with False assms(3) o show ?thesis by (simp add: CleanupAbandonedServices_def)
    next
      case (Some nl)
      obtain n live where nl: "nl = (n, live)" by (cases nl)
      show ?thesis
      proof (cases "n < 0 \<or> 128 \<le> n")
        case True
        with False Some nl assms(3) o show ?thesis by (simp add: CleanupAbandonedServices_def)
      next
        case in_range: False
        have gone: "p \<notin> A" if "ProcessListConfirmsExit p live n 128 True" for p
          using exited_gone [OF assms(2), of p] that by (simp add: ProcessHasExited_def Some nl)
        from in_range False Some nl assms(3) have "reap_all w visit live n (candidates ?s) ?s b = Some (t, c)"
          by (simp add: CleanupAbandonedServices_def Let_def)
        from reap_all_owner [OF gone o this] show ?thesis .
      qed
    qed
  qed
qed

lemma run_owner: "life_run A s \<Longrightarrow> one_owner A s"
proof (induction rule: life_run.induct)
  case start
  show ?case by (simp add: one_owner_def life_start_def)
next
  case (born A s p)
  then show ?case by (auto simp: one_owner_def)
next
  case (exit A s p)
  then show ?case by (auto simp: one_owner_def)
next
  case (ask A s application program pid)
  then show ?case
    by (auto simp: ShouldMitm_def CountClientSession_def Let_def one_owner_def split: option.splits prod.splits)
next
  case (register A s env config bytes h ss)
  show ?case
  proof (cases "if IsSplatoon2ProgramId (ss_program ss) then BuildSplatoon2ProxyConfig config else None")
    case None
    with register show ?thesis by (simp add: RegisterClient_def)
  next
    case (Some pm)
    with register_owner [OF register.IH register.hyps(2), of ss "fst pm"] show ?thesis
      by (auto simp: RegisterClient_def split: prod.splits option.splits)
  qed
next
  case (destroy A s q ss)
  then show ?case by (auto simp: destroy_session_def park_def one_owner_def split: option.splits)
next
  case (shutdown A s uses pid how ok)
  then show ?case by (simp add: shutdown_parked_def one_owner_def)
next
  case (maintain A s q w tick lock visit b t c)
  then show ?case using cleanup_owner by blast
qed

text \<open>
  C15. The proxy memory has one user: of the processes the real service was ever given the proxy
  memory for, at most one is running at any time, however processes, sessions, registrations and
  maintenance interleave; a registration by another title while it runs is refused as busy and sends
  the real service nothing.
\<close>

theorem proxy_memory_one_user:
  assumes "life_run A s" and "p \<in> set (c_lent s)" and "p \<in> A"
  shows "(\<forall>r \<in> set (c_lent s). r \<in> A \<longrightarrow> r = p) \<and>
    (\<forall>env config bytes h ss. honest A (e_processes env) \<and> IsSplatoon2ProgramId (ss_program ss) \<and>
       BuildSplatoon2ProxyConfig config \<noteq> None \<and> ss_pid ss \<noteq> p \<longrightarrow>
       RegisterClient env config bytes h ss s = (s, ss, Inl ResultBusy, []))"
proof -
  have o: "one_owner A s" using assms(1) by (rule run_owner)
  then have p: "c_regpid s = p" "p \<noteq> 0" using assms(2,3) by (auto simp: one_owner_def)
  show ?thesis
  proof (intro conjI allI impI)
    show "\<forall>r \<in> set (c_lent s). r \<in> A \<longrightarrow> r = p" using o p(1) by (auto simp: one_owner_def)
    fix env :: reg_env and config bytes h and ss :: session
    assume a: "honest A (e_processes env) \<and> IsSplatoon2ProgramId (ss_program ss) \<and>
       BuildSplatoon2ProxyConfig config \<noteq> None \<and> ss_pid ss \<noteq> p"
    then have "\<not> ProcessHasExited p (e_processes env)" using exited_gone assms(3) by blast
    with a p show "RegisterClient env config bytes h ss s = (s, ss, Inl ResultBusy, [])"
      by (auto simp: RegisterClient_def register_proxy_def)
  qed
qed

definition demo_reg :: life where
  "demo_reg = fst (RegisterClient \<lparr>e_processes = None, e_uses = \<lambda>_. 1, e_tmem = Inr 5, e_proxy = Inr 1, e_client = Inr 1\<rparr>
     \<lparr>sc_version = 1, sc_tcp_tx = 0x8000, sc_tcp_rx = 0x10000, sc_tcp_tx_max = 0x40000, sc_tcp_rx_max = 0x40000,
      sc_udp_tx = 0x2400, sc_udp_rx = 0xA500, sc_efficiency = 4\<rparr> 0x200000 9
     \<lparr>ss_service = Some \<lparr>sv_id = 1, sv_own = True, sv_session = 7\<rparr>, ss_pid = 81, ss_program = 0x01003C700009C000,
      ss_registered = False, ss_proxy = False, ss_proxy_owner = False\<rparr> life_start)"

theorem proxy_memory_one_user_witness:
  "life_run {81} demo_reg \<and> set (c_lent demo_reg) \<inter> {81} = {81}"
proof -
  have "life_run {81} life_start" using life_run.born [OF life_run.start, of 81] by (simp add: life_start_def)
  then have r: "life_run {81} demo_reg" unfolding demo_reg_def by (rule life_run.register) (simp add: honest_def)
  have "c_lent demo_reg = [81]"
    by (simp add: demo_reg_def RegisterClient_def IsSplatoon2ProgramId_def BuildSplatoon2ProxyConfig_def Let_def
        BsdWorkPage_def Splatoon2ProxyTmemSize_def register_proxy_def life_start_def EnsureSplatoon2ProxyTmem_def)
  with proxy_memory_one_user [OF r, of 81] r show ?thesis by auto
qed

section \<open>What maintenance releases\<close>

lemma close_vfds_socks: "safe fl s \<Longrightarrow> close_vfds vs s = Some t \<Longrightarrow> b_socks t = b_socks s"
proof (induction vs arbitrary: s)
  case (Cons v vs)
  obtain u where u: "close_vfd v s = Some u" "safe fl u" "b_socks u = b_socks s" using close_effect [OF Cons.prems(1)] by blast
  with Cons.prems(2) have "close_vfds vs u = Some t" by simp
  from Cons.IH [OF u(2) this] u(3) show ?case by simp
qed simp

lemma forget_pid_effect:
  assumes "owned [] b" and "pid \<noteq> 0"
  shows "\<exists>c n. ForgetLanSocketsForPid Some pid b = Some (c, n) \<and> owned [] c \<and>
    b_socks c = map (\<lambda>e. if belongs pid e then lan_zero else e) (b_socks b)"
proof -
  let ?b = "b\<lparr>b_socks := map (\<lambda>e. if belongs pid e then lan_zero else e) (b_socks b)\<rparr>"
  obtain c n where c: "ForgetLanSocketsForPid Some pid b = Some (c, n)" "owned [] c"
    using owned_table.forget_pid_fine [OF assms(1) owned_table.keeps_Some assms(2)] unfolding owned_table.fine_def by blast
  have sf: "safe [] ?b" using owned_safe [OF assms(1)] by (simp add: safe_def)
  then have "b_port ?b \<noteq> None" by (auto simp: safe_def)
  with c(1) obtain vs where "close_vfds vs ?b = Some c"
    by (simp add: ForgetLanSocketsForPid_def Let_def Option.bind_eq_Some_conv) blast
  from close_vfds_socks [OF sf this] c show ?thesis by auto
qed

text \<open>The traces of a process in the tables.\<close>

definition traces :: "u64 \<Rightarrow> life \<Rightarrow> shim \<Rightarrow> (u64 \<times> service) list \<times> (u64 \<times> int) list \<times> service option option \<times> LanSocket list" where
  "traces pid s b = (List.filter (\<lambda>e. fst e = pid) (c_parked s), List.filter (\<lambda>e. fst e = pid) (c_sessions s),
     if c_regpid s = pid then Some (c_owner s) else None, List.filter (belongs pid) (b_socks b))"

lemma retire_keeps: "p \<noteq> pid \<Longrightarrow> List.filter (\<lambda>e. fst e = p) (fst (retire uses pid es)) = List.filter (\<lambda>e. fst e = p) es"
  by (induction es rule: retire.induct) (auto split: prod.splits)

lemma retire_all: "(\<And>i. uses i \<le> 1) \<Longrightarrow> List.filter (\<lambda>e. fst e = pid) (fst (retire uses pid es)) = []"
  by (induction es) (auto split: prod.splits simp: not_less [symmetric])

lemma retire_parked_list: "c_parked (retire_parked uses pid s) = fst (retire uses pid (c_parked s))"
  by (simp add: retire_parked_def split: prod.split)

lemma reap_effect:
  assumes "owned [] b" and "pid \<noteq> 0"
  shows "\<exists>t c. reap Some lock uses pid s b = Some (t, c) \<and> owned [] c \<and>
    (\<forall>p. p \<noteq> pid \<and> p \<noteq> 0 \<longrightarrow> traces p t c = traces p s b) \<and>
    (lock \<and> (\<forall>i. uses i \<le> 1) \<longrightarrow> traces pid t c = ([], [], None, []))"
proof -
  obtain c n where c: "ForgetLanSocketsForPid Some pid b = Some (c, n)" "owned [] c"
    "b_socks c = map (\<lambda>e. if belongs pid e then lan_zero else e) (b_socks b)" using forget_pid_effect [OF assms] by blast
  have socks: "List.filter (belongs p) (b_socks c) = List.filter (belongs p) (b_socks b)" if "p \<noteq> pid" "p \<noteq> 0" for p
  proof -
    have "List.filter (belongs p) (map (\<lambda>e. if belongs pid e then lan_zero else e) es) = List.filter (belongs p) es" for es
      using that by (induction es) (auto simp: belongs_def lan_zero_def)
    then show ?thesis by (simp add: c(3))
  qed
  have none: "List.filter (belongs pid) (b_socks c) = []"
    using assms(2) by (auto simp: c(3) filter_empty_conv belongs_def lan_zero_def)
  let ?s = "retire_parked uses pid s"
  define t where "t = (if \<not> lock then ?s else if c_regpid ?s = pid \<and> 1 < owner_uses uses ?s then ?s
    else (if c_regpid ?s = pid then retire_owner ?s else ?s)\<lparr>c_sessions :=
      map (\<lambda>e. if fst e = pid then (0, 0) else e) (c_sessions (if c_regpid ?s = pid then retire_owner ?s else ?s))\<rparr>)"
  have "reap Some lock uses pid s b = Some (t, c)" using c(1) by (simp add: reap_def Let_def t_def)
  moreover have "traces p t c = traces p s b" if "p \<noteq> pid" "p \<noteq> 0" for p
  proof -
    have "List.filter (\<lambda>e. fst e = p) (map (\<lambda>e. if fst e = pid then (0, 0) else e) es) = List.filter (\<lambda>e. fst e = p) es"
      for es :: "(u64 \<times> int) list" using that by (induction es) auto
    then show ?thesis using that socks by (auto simp: traces_def t_def retire_parked_list retire_keeps)
  qed
  moreover have "traces pid t c = ([], [], None, [])" if "lock" "\<And>i. uses i \<le> 1"
  proof -
    have "\<not> 1 < owner_uses uses ?s" using that(2) by (auto simp: owner_uses_def not_less split: option.split)
    moreover have "List.filter (\<lambda>e. fst e = pid) (map (\<lambda>e. if fst e = pid then (0, 0) else e) es) = []"
      for es :: "(u64 \<times> int) list" using assms(2) by (induction es) auto
    ultimately show ?thesis using that none assms(2) by (auto simp: traces_def t_def retire_parked_list retire_all)
  qed
  ultimately show ?thesis using c(2) by blast
qed

lemma reap_all_effect:
  assumes "owned [] b" and "0 \<notin> set pids"
  shows "\<exists>t c. reap_all Some visit live n pids s b = Some (t, c) \<and> owned [] c \<and>
    (\<forall>p. p \<noteq> 0 \<and> (p \<in> set pids \<longrightarrow> \<not> ProcessListConfirmsExit p live n 128 True) \<longrightarrow> traces p t c = traces p s b) \<and>
    (\<forall>p \<in> set pids. ProcessListConfirmsExit p live n 128 True \<and> fst (visit p) \<and> (\<forall>i. snd (visit p) i \<le> 1) \<longrightarrow>
       traces p t c = ([], [], None, []))"
  using assms
proof (induction pids arbitrary: s b)
  case (Cons a pids)
  show ?case
  proof (cases "ProcessListConfirmsExit a live n 128 True")
    case False
    with Cons.IH [of b s] Cons.prems show ?thesis by auto
  next
    case True
    obtain s1 b1 where r: "reap Some (fst (visit a)) (snd (visit a)) a s b = Some (s1, b1)" "owned [] b1"
      "\<forall>p. p \<noteq> a \<and> p \<noteq> 0 \<longrightarrow> traces p s1 b1 = traces p s b"
      "fst (visit a) \<and> (\<forall>i. snd (visit a) i \<le> 1) \<longrightarrow> traces a s1 b1 = ([], [], None, [])"
      using reap_effect [OF Cons.prems(1), of a "fst (visit a)" "snd (visit a)" s] Cons.prems(2) by auto
    have "0 \<notin> set pids" using Cons.prems(2) by simp
    from Cons.IH [OF r(2) this, of s1] obtain t c where t: "reap_all Some visit live n pids s1 b1 = Some (t, c)" "owned [] c"
      "\<forall>p. p \<noteq> 0 \<and> (p \<in> set pids \<longrightarrow> \<not> ProcessListConfirmsExit p live n 128 True) \<longrightarrow> traces p t c = traces p s1 b1"
      "\<forall>p \<in> set pids. ProcessListConfirmsExit p live n 128 True \<and> fst (visit p) \<and> (\<forall>i. snd (visit p) i \<le> 1) \<longrightarrow>
         traces p t c = ([], [], None, [])" by blast
    have "reap_all Some visit live n (a # pids) s b = Some (t, c)" using True r(1) t(1) by simp
    moreover have "traces p t c = traces p s b"
      if "p \<noteq> 0" "p \<in> set (a # pids) \<longrightarrow> \<not> ProcessListConfirmsExit p live n 128 True" for p
      using that True r(3) t(3) by (metis list.set_intros)
    moreover have "traces p t c = ([], [], None, [])"
      if "p \<in> set (a # pids)" "ProcessListConfirmsExit p live n 128 True" "fst (visit p)" "\<forall>i. snd (visit p) i \<le> 1" for p
    proof (cases "p \<in> set pids")
      case False
      then have "p = a" "p \<noteq> 0" using that(1) Cons.prems(2) by auto
      with False that r(4) t(3) show ?thesis by metis
    qed (use that t(4) in blast)
    ultimately show ?thesis using t(2) by blast
  qed
qed auto

lemma remember_nonzero: "0 \<notin> set cs \<Longrightarrow> 0 \<notin> set (remember p cs)"
  by (simp add: remember_def)

lemma candidates_nonzero: "0 \<notin> set (candidates s)"
proof -
  have "0 \<notin> set cs \<Longrightarrow> 0 \<notin> set (fold remember ps cs)" for cs ps
    by (induction ps arbitrary: cs) (simp_all add: remember_nonzero)
  then show ?thesis by (simp add: candidates_def remember_nonzero)
qed



end
