(* ===== verification/Overlay.thy ===== *)
theory Overlay
  imports IniConfig
begin

text \<open>
  The overlay, \<^verbatim>\<open>overlay/source/main.cpp\<close>: the editor of network ids with its keypad and keyboard, what
  it saves, the boot flags, and how it reads the status file of the module.

  The library of the overlay is outside: \<open>set\<close> is its writer of values in an ini file, and keys are
  given as the outcomes of the tests the code makes on them.
\<close>

section \<open>Network ids\<close>

definition code :: "char \<Rightarrow> nat" where "code c = of_char c"

definition is_hex :: "char \<Rightarrow> bool" where
  "is_hex c \<longleftrightarrow> (code CHR ''0'' \<le> code c \<and> code c \<le> code CHR ''9'') \<or>
     (code CHR ''a'' \<le> code c \<and> code c \<le> code CHR ''f'') \<or> (code CHR ''A'' \<le> code c \<and> code c \<le> code CHR ''F'')"

definition IsHexNetworkId :: "string \<Rightarrow> bool" where
  "IsHexNetworkId v \<longleftrightarrow> length v = 16 \<and> list_all is_hex v \<and> list_ex (\<lambda>c. c \<noteq> CHR ''0'') v"

definition upper_char :: "char \<Rightarrow> char" where
  "upper_char c = (if code CHR ''a'' \<le> code c \<and> code c \<le> code CHR ''f''
     then char_of (code c - code CHR ''a'' + code CHR ''A'') else c)"

definition lower_char :: "char \<Rightarrow> char" where
  "lower_char c = (if code CHR ''A'' \<le> code c \<and> code c \<le> code CHR ''F''
     then char_of (code c - code CHR ''A'' + code CHR ''a'') else c)"

definition UpperHex :: "string \<Rightarrow> string" where "UpperHex v = map upper_char v"

section \<open>What is saved\<close>

type_synonym 'f ini_set = "string \<Rightarrow> string \<Rightarrow> string \<Rightarrow> 'f \<Rightarrow> 'f"

definition SelectNetwork :: "'f ini_set \<Rightarrow> string \<Rightarrow> 'f \<Rightarrow> 'f" where
  "SelectNetwork put section f = put ''sys-zerotier'' ''selected'' section f"

definition SaveAndSelectNetwork :: "'f ini_set \<Rightarrow> string \<Rightarrow> 'f \<Rightarrow> 'f" where
  "SaveAndSelectNetwork put nwid f =
     (let lower = map lower_char nwid in SelectNetwork put lower (put lower ''nwid'' lower f))"

text \<open>The two flag files; \<open>renames\<close> says whether a rename succeeds, \<open>creates\<close> whether a file can be made.\<close>

record flags =
  boot :: bool
  disabled :: bool

definition SetBootEnabled :: "bool \<Rightarrow> bool \<Rightarrow> bool \<Rightarrow> flags \<Rightarrow> flags" where
  "SetBootEnabled renames creates enabled f =
     (if enabled then
        if disabled f then (if renames then \<lparr>boot = True, disabled = False\<rparr> else f)
        else if \<not> boot f then (if creates then f\<lparr>boot := True\<rparr> else f)
        else f
      else if boot f then (if renames then \<lparr>boot = False, disabled = True\<rparr> else f)
      else f)"

definition initServices :: "bool \<Rightarrow> bool \<Rightarrow> flags \<Rightarrow> flags" where
  "initServices renames creates f =
     (if \<not> boot f \<and> \<not> disabled f then SetBootEnabled renames creates True f else f)"

section \<open>The status file\<close>

text \<open>\<^verbatim>\<open>fgets\<close> with a buffer of \<open>n + 1\<close> bytes: the line with its end, and the rest of the file.\<close>

definition fgets :: "nat \<Rightarrow> string \<Rightarrow> string \<times> string" where
  "fgets n t = (let body = takeWhile (\<lambda>c. c \<noteq> newline) (take n t);
                    k = (if length body < length (take n t) then Suc (length body) else length body)
                in (take k t, drop k t))"

definition status_end :: "char \<Rightarrow> bool" where
  "status_end c \<longleftrightarrow> c = newline \<or> c = CHR 0x0D \<or> c = CHR '' '' \<or> c = CHR 0x09"

definition status_line :: "string \<Rightarrow> string \<Rightarrow> string option" where
  "status_line wanted line =
     (let p = skip_blank line in
      if starts_with wanted p \<and> drop (length wanted) p \<noteq> [] \<and> is_blank (hd (drop (length wanted) p))
      then Some (rev (dropWhile status_end (rev (skip_blank (drop (length wanted) p)))))
      else None)"

lemma fgets_shorter: "t \<noteq> [] \<Longrightarrow> 0 < n \<Longrightarrow> length (snd (fgets n t)) < length t"
  by (cases t) (auto simp: fgets_def Let_def split: if_splits)

function status_scan :: "string \<Rightarrow> string \<Rightarrow> string" where
  "status_scan wanted t =
     (if t = [] then []
      else case status_line wanted (fst (fgets 511 t)) of
             Some v \<Rightarrow> v | None \<Rightarrow> status_scan wanted (snd (fgets 511 t)))"
  by pat_completeness auto
termination by (relation "measure (\<lambda>(w, t). length t)") (auto simp: fgets_shorter)

declare status_scan.simps [simp del]

text \<open>The first line that starts with the key; the empty text without one or without a file.\<close>

definition StatusValue :: "string option \<Rightarrow> string \<Rightarrow> string" where
  "StatusValue file wanted = (case file of None \<Rightarrow> [] | Some t \<Rightarrow> status_scan wanted t)"

definition InitialNetworkId :: "(string \<Rightarrow> string \<Rightarrow> string) \<Rightarrow> string option \<Rightarrow> string" where
  "InitialNetworkId networks status =
     (let selected = networks ''sys-zerotier'' ''selected'';
          saved = networks selected ''nwid'';
          active = StatusValue status ''network'' in
      if selected \<noteq> [] \<and> IsHexNetworkId saved then UpperHex saved
      else if IsHexNetworkId active then UpperHex active else ''0000000000000000'')"

text \<open>What the main page shows of the status.\<close>

definition RefreshStatus :: "string option \<Rightarrow> string \<times> string \<times> string" where
  "RefreshStatus status =
     (let online = StatusValue status ''online''; netstatus = StatusValue status ''netstatus'';
          address = StatusValue status ''address''; network = StatusValue status ''network'' in
      (if online = ''yes'' then (if netstatus = [] then ''Online'' else netstatus) else ''Connecting'',
       if address = [] \<or> starts_with ''0.0.0.0'' address then ''Not assigned'' else address,
       if IsHexNetworkId network then UpperHex network else ''None''))"

section \<open>The editor\<close>

definition Hex :: string where "Hex = ''0123456789ABCDEF''"

text \<open>
  The state of the keyboard: its sampling number and which of the keys 0 to 15 (the digits), 16
  (backspace) and 17 (return) are down.
\<close>

type_synonym keyboard = "u64 \<times> (nat \<Rightarrow> bool)"

record editor =
  ed_value :: string
  ed_key :: nat
  ed_replace :: bool
  ed_ready :: bool
  ed_commit :: bool
  ed_previous :: keyboard
  ed_shown :: "string \<times> string \<times> string"
  ed_message :: string

text \<open>\<^verbatim>\<open>display.append(16 - display.size(), '_')\<close> with more than 16 characters throws, which is \<open>None\<close> here.\<close>

definition insert_blank :: "nat \<Rightarrow> string \<Rightarrow> string" where
  "insert_blank pos s = take pos s @ '' '' @ drop pos s"

definition DisplayValue :: "editor \<Rightarrow> string option" where
  "DisplayValue e =
     (if 16 < length (ed_value e) then None
      else Some (fold insert_blank [12, 8, 4] (ed_value e @ replicate (16 - length (ed_value e)) CHR ''_'')))"

definition keypad_cell :: "nat \<Rightarrow> nat \<Rightarrow> string" where
  "keypad_cell key i = (if i = key then ''['' else '' '') @ [Hex ! i] @ (if i = key then '']'' else '' '')"

fun keypad_cells :: "nat \<Rightarrow> nat list \<Rightarrow> string \<Rightarrow> string" where
  "keypad_cells key [] out = out"
| "keypad_cells key (i # is) out =
     keypad_cells key is (out @ (if out \<noteq> [] then ''  '' else []) @ keypad_cell key i)"

definition KeypadRow :: "nat \<Rightarrow> editor \<Rightarrow> string" where
  "KeypadRow row e = keypad_cells (ed_key e) [row * 8..<row * 8 + 8] []"

definition hint :: string where "hint = ''+: save   X: erase   Y: clear''"

definition AppendHex :: "char \<Rightarrow> editor \<Rightarrow> editor" where
  "AppendHex c e =
     (let e1 = (if ed_replace e then e\<lparr>ed_value := [], ed_replace := False\<rparr> else e) in
      if 16 \<le> length (ed_value e1) then e1\<lparr>ed_message := ''16 digits maximum''\<rparr>
      else e1\<lparr>ed_value := ed_value e1 @ [c]\<rparr>)"

definition EraseHex :: "editor \<Rightarrow> editor" where
  "EraseHex e = e\<lparr>ed_replace := False, ed_value := butlast (ed_value e)\<rparr>"

definition ClearHex :: "editor \<Rightarrow> editor" where
  "ClearHex e = e\<lparr>ed_value := [], ed_replace := False\<rparr>"

definition RefreshEditor :: "editor \<Rightarrow> editor option" where
  "RefreshEditor e = do {
     d \<leftarrow> DisplayValue e;
     Some (e\<lparr>ed_shown := (d, KeypadRow 0 e, KeypadRow 1 e), ed_message := hint\<rparr>) }"

text \<open>The id that is given to \<open>SaveAndSelectNetwork\<close>, after which the editor closes.\<close>

definition Commit :: "editor \<Rightarrow> editor \<times> string option" where
  "Commit e =
     (if \<not> IsHexNetworkId (ed_value e)
      then (e\<lparr>ed_message := (if length (ed_value e) = 16 then ''ID cannot be all zero'' else ''Enter exactly 16 digits'')\<rparr>, None)
      else (e, Some (ed_value e)))"

datatype button = KeyLeft | KeyRight | KeyUpDown | KeyA | KeyX | KeyY | KeyPlus | KeyOther

definition handleInput :: "button \<Rightarrow> editor \<Rightarrow> (editor \<times> bool \<times> string option) option" where
  "handleInput b e =
     (if ed_commit e then (case Commit (e\<lparr>ed_commit := False\<rparr>) of (e1, saved) \<Rightarrow> Some (e1, True, saved))
      else let refresh = (\<lambda>e1. map_option (\<lambda>e2. (e2, True, None)) (RefreshEditor e1)) in
        case b of
          KeyLeft \<Rightarrow> refresh (e\<lparr>ed_key := (ed_key e + 15) mod 16\<rparr>)
        | KeyRight \<Rightarrow> refresh (e\<lparr>ed_key := (ed_key e + 1) mod 16\<rparr>)
        | KeyUpDown \<Rightarrow> refresh (e\<lparr>ed_key := ed_key e XOR 8\<rparr>)
        | KeyA \<Rightarrow> do { c \<leftarrow> aget Hex (int (ed_key e)); refresh (AppendHex c e) }
        | KeyX \<Rightarrow> refresh (EraseHex e)
        | KeyY \<Rightarrow> refresh (ClearHex e)
        | KeyPlus \<Rightarrow> (case Commit e of (e1, saved) \<Rightarrow> Some (e1, True, saved))
        | KeyOther \<Rightarrow> Some (e, False, None))"

text \<open>Whether a key went down since the last state that was seen.\<close>

definition fresh_press :: "keyboard \<Rightarrow> nat \<Rightarrow> editor \<Rightarrow> bool" where
  "fresh_press now k e \<longleftrightarrow> snd now k \<and> (\<not> ed_ready e \<or> \<not> snd (ed_previous e) k)"

fun type_keys :: "keyboard \<Rightarrow> nat list \<Rightarrow> editor \<times> bool \<Rightarrow> editor \<times> bool" where
  "type_keys now [] ec = ec"
| "type_keys now (k # ks) (e, changed) =
     type_keys now ks (if fresh_press now k e then (AppendHex (Hex ! k) e, True) else (e, changed))"

definition typed :: "keyboard \<Rightarrow> editor \<Rightarrow> editor \<times> bool" where
  "typed now e =
     (if \<not> ed_ready e \<or> fst now \<noteq> fst (ed_previous e) then
        let (e1, c1) = type_keys now [0..<16] (e, False);
            (e2, c2) = (if fresh_press now 16 e1 then (EraseHex e1, True) else (e1, c1)) in
        (if fresh_press now 17 e2 then e2\<lparr>ed_commit := True\<rparr> else e2, c2)
      else (e, False))"

definition ed_update :: "keyboard option \<Rightarrow> editor \<Rightarrow> editor option" where
  "ed_update current e =
     (case current of
        None \<Rightarrow> Some e
      | Some now \<Rightarrow>
          (case typed now e of (e1, changed) \<Rightarrow>
             let e2 = e1\<lparr>ed_previous := now, ed_ready := True\<rparr> in
             if changed then RefreshEditor e2 else Some e2))"

definition open_editor :: "string \<Rightarrow> editor option" where
  "open_editor initial =
     (let e = \<lparr>ed_value = initial, ed_key = 0, ed_replace = True, ed_ready = False, ed_commit = False,
               ed_previous = (0, \<lambda>_. False), ed_shown = ([], [], []), ed_message = hint\<rparr> in
      do { d \<leftarrow> DisplayValue e; Some (e\<lparr>ed_shown := (d, KeypadRow 0 e, KeypadRow 1 e)\<rparr>) })"

section \<open>Ids in the overlay and in the module\<close>

definition digits :: string where "digits = ''0123456789abcdefABCDEF''"

lemma hex_table:
  "list_all is_hex digits"
  "list_all (\<lambda>c. case hex_digit c of None \<Rightarrow> False | Some d \<Rightarrow> d < 16 \<and> lower_char c = hex_char d \<and> (d = 0 \<longleftrightarrow> c = CHR ''0'')) digits"
  "list_all (\<lambda>c. upper_char c \<in> set Hex \<and> lower_char (upper_char c) = lower_char c \<and> is_hex (upper_char c) \<and>
     (upper_char c = CHR ''0'' \<longleftrightarrow> c = CHR ''0'')) digits"
  "list_all (\<lambda>c. is_hex c \<and> upper_char c = c) Hex"
  by (simp_all add: digits_def Hex_def is_hex_def hex_digit_def lower_char_def upper_char_def code_def hex_char_def
      char_of_def bit_numeral_rec bit_0)

lemma code_range:
  "48 \<le> n \<Longrightarrow> n \<le> 57 \<Longrightarrow> n \<in> {48, 49, 50, 51, 52, 53, 54, 55, 56, 57 :: nat}"
  "97 \<le> n \<Longrightarrow> n \<le> 102 \<Longrightarrow> n \<in> {97, 98, 99, 100, 101, 102 :: nat}"
  "65 \<le> n \<Longrightarrow> n \<le> 70 \<Longrightarrow> n \<in> {65, 66, 67, 68, 69, 70 :: nat}"
  by (simp, presburger)+

lemma is_hex_digits: "is_hex c \<longleftrightarrow> c \<in> set digits"
proof
  assume "is_hex c"
  then have "code c \<in> {48, 49, 50, 51, 52, 53, 54, 55, 56, 57} \<union> {97, 98, 99, 100, 101, 102} \<union> {65, 66, 67, 68, 69, 70}"
    using code_range [of "code c"] by (auto simp: is_hex_def code_def)
  moreover have "c = char_of (code c)" by (simp add: code_def)
  ultimately have "c \<in> char_of ` ({48, 49, 50, 51, 52, 53, 54, 55, 56, 57} \<union> {97, 98, 99, 100, 101, 102} \<union> {65, 66, 67, 68, 69, 70 :: nat})"
    by blast
  then show "c \<in> set digits" by (simp add: digits_def char_of_def bit_numeral_rec bit_0) (elim disjE; simp)
next
  show "c \<in> set digits \<Longrightarrow> is_hex c" using hex_table(1) by (simp add: list_all_iff)
qed

lemma hex_cases:
  assumes "is_hex c"
  shows "\<exists>d < 16. hex_digit c = Some d \<and> lower_char c = hex_char d \<and> (d = 0 \<longleftrightarrow> c = CHR ''0'')"
    and "upper_char c \<in> set Hex" and "lower_char (upper_char c) = lower_char c" and "is_hex (upper_char c)"
    and "upper_char c = CHR ''0'' \<longleftrightarrow> c = CHR ''0''"
  using hex_table(2,3) assms unfolding is_hex_digits list_all_iff by (fastforce split: option.splits)+

definition hex_value :: "string \<Rightarrow> u64 \<Rightarrow> u64" where
  "hex_value s v = foldl (\<lambda>v c. push_bit 4 v OR of_nat (the (hex_digit c))) v s"

lemma hex_run_value:
  "list_all is_hex s \<Longrightarrow> length s \<le> n \<Longrightarrow> hex_run n s v k = (hex_value s v, k + length s)"
proof (induction s arbitrary: n v k)
  case (Cons c s)
  obtain d where "hex_digit c = Some d" using hex_cases(1) [of c] Cons.prems(1) by auto
  with Cons.IH [of "n - 1"] Cons.prems show ?case by (simp add: hex_value_def)
qed (simp add: hex_value_def)

lemma hex_digits_snoc: "hex_digits (Suc n) w = hex_digits n (drop_bit 4 w) @ [hex_char (nibble w 0)]"
proof (induction n)
  case (Suc n)
  have "nibble w (Suc n) = nibble (drop_bit 4 w) n" by (simp add: nibble_def add.commute)
  with Suc show ?case by simp
qed simp

lemma push_digit:
  assumes "d < 16" and "n \<le> 15" and "take_bit (4 * n) x = (x :: u64)"
  shows "drop_bit 4 (push_bit 4 x OR of_nat d) = x" and "nibble (push_bit 4 x OR of_nat d) 0 = d"
    and "take_bit (4 * Suc n) (push_bit 4 x OR of_nat d) = push_bit 4 x OR of_nat d"
proof -
  have "take_bit 4 d = d" using assms(1) by (simp add: take_bit_nat_eq_self)
  then have d: "bit d m \<Longrightarrow> m < 4" for m by (metis bit_take_bit_iff)
  have x: "bit x m \<Longrightarrow> m < 4 * n" for m using assms(3) by (metis bit_take_bit_iff)
  have xb: "bit x m \<Longrightarrow> m < 60" for m using x [of m] assms(2) by simp
  show "drop_bit 4 (push_bit 4 x OR of_nat d) = x"
    by (rule bit_word_eqI) (auto simp: bit_simps dest: d xb)
  have "(push_bit 4 x OR of_nat d) AND 15 = (of_nat d :: u64)"
  proof (rule bit_word_eqI)
    fix m assume "m < LENGTH(64)"
    have "bit (15 :: u64) m \<longleftrightarrow> m < 4 \<and> m < 64" using bit_mask_iff [of 4 m, where 'a = u64] by (auto simp: mask_eq_exp_minus_1)
    then show "bit ((push_bit 4 x OR of_nat d) AND 15 :: u64) m = bit (of_nat d :: u64) m"
      by (auto simp: bit_simps dest: d)
  qed
  then show "nibble (push_bit 4 x OR of_nat d) 0 = d"
    using assms(1) by (simp add: nibble_def unsigned_of_nat take_bit_nat_eq_self)
  show "take_bit (4 * Suc n) (push_bit 4 x OR of_nat d) = push_bit 4 x OR of_nat d"
    by (rule bit_word_eqI) (auto simp: bit_simps dest: d x)
qed

lemma hex_value_digits:
  "list_all is_hex s \<Longrightarrow> length s \<le> 16 \<Longrightarrow>
     hex_digits (length s) (hex_value s 0) = map lower_char s \<and> take_bit (4 * length s) (hex_value s 0) = hex_value s 0"
proof (induction s rule: rev_induct)
  case Nil
  then show ?case by (simp add: hex_value_def)
next
  case (snoc c s)
  then obtain d where d: "d < 16" "hex_digit c = Some d" "lower_char c = hex_char d" using hex_cases(1) [of c] by auto
  have v: "hex_value (s @ [c]) 0 = push_bit 4 (hex_value s 0) OR of_nat d" by (simp add: hex_value_def d(2))
  have ih: "hex_digits (length s) (hex_value s 0) = map lower_char s" "take_bit (4 * length s) (hex_value s 0) = hex_value s 0"
    using snoc by simp_all
  have "length s \<le> 15" using snoc.prems(2) by simp
  note p = push_digit [OF d(1) this ih(2)]
  show ?case
    unfolding v using p(1,2) ih(1) d(3) p(3) by (simp only: length_append_singleton hex_digits_snoc map_append) simp
qed

lemma saved_name:
  assumes "IsHexNetworkId v"
  shows "\<exists>n. n \<noteq> 0 \<and> hex_id v = Some n \<and> map lower_char v = hex16 n"
proof -
  have v: "length v = 16" "list_all is_hex v" using assms by (simp_all add: IsHexNetworkId_def)
  have h: "map lower_char v = hex16 (hex_value v 0)" using hex_value_digits [OF v(2)] v(1) by (simp add: hex16_def)
  have "hex_value v 0 \<noteq> 0"
  proof
    assume z: "hex_value v 0 = 0"
    have "hex_digits k 0 = replicate k (hex_char 0)" for k by (induction k) (simp_all add: nibble_def)
    then have "\<forall>c \<in> set v. lower_char c = hex_char 0" using h z by (metis hex16_def in_set_replicate list.set_map imageI)
    moreover have "hex_char d = hex_char 0 \<Longrightarrow> d < 16 \<Longrightarrow> d = 0" for d by (metis hex_digit_hex_char option.inject zero_less_numeral)
    ultimately have "\<forall>c \<in> set v. c = CHR ''0''" using v(2) hex_cases(1) unfolding list_all_iff by metis
    then show False using assms by (simp add: IsHexNetworkId_def list_ex_iff)
  qed
  moreover from this have "hex_id v = Some (hex_value v 0)" using hex_run_value [OF v(2), of 16 0 0] v(1) by (simp add: hex_id_def)
  ultimately show ?thesis using h by blast
qed



section \<open>The editor as the user sees it\<close>

datatype ed_event = Press button | Keyboard "keyboard option"

fun ed_step :: "ed_event \<Rightarrow> editor \<Rightarrow> (editor \<times> string option) option" where
  "ed_step (Press b) e = map_option (\<lambda>(e1, handled, saved). (e1, saved)) (handleInput b e)"
| "ed_step (Keyboard k) e = map_option (\<lambda>e1. (e1, None)) (ed_update k e)"

inductive ed_run :: "editor \<Rightarrow> bool" where
  opened: "open_editor (InitialNetworkId networks status) = Some e \<Longrightarrow> ed_run e"
| stepped: "ed_run e \<Longrightarrow> ed_step ev e = Some (e1, None) \<Longrightarrow> ed_run e1"

definition ed_ok :: "editor \<Rightarrow> bool" where
  "ed_ok e \<longleftrightarrow> length (ed_value e) \<le> 16 \<and> set (ed_value e) \<subseteq> set Hex \<and> ed_key e < 16"

text \<open>What is on the screen is the value and the key.\<close>

definition ed_current :: "editor \<Rightarrow> bool" where
  "ed_current e \<longleftrightarrow> DisplayValue e = Some (fst (ed_shown e)) \<and>
     snd (ed_shown e) = (KeypadRow 0 e, KeypadRow 1 e) \<and> ed_message e \<noteq> ''16 digits maximum''"

lemma insert_length [simp]: "length (insert_blank pos s) = Suc (length s)"
  by (simp add: insert_blank_def)

lemma display_ok: "length (ed_value e) \<le> 16 \<Longrightarrow> \<exists>d. DisplayValue e = Some d \<and> length d = 19"
  by (simp add: DisplayValue_def)

lemma display_same: "ed_value e = ed_value f \<Longrightarrow> DisplayValue e = DisplayValue f"
  by (simp add: DisplayValue_def)

lemma keypad_same: "ed_key e = ed_key f \<Longrightarrow> KeypadRow r e = KeypadRow r f"
  by (simp add: KeypadRow_def)

lemma refresh_ok:
  assumes "ed_ok e"
  shows "\<exists>f. RefreshEditor e = Some f \<and> ed_ok f \<and> ed_current f \<and> ed_commit f = ed_commit e"
proof -
  obtain d where d: "DisplayValue e = Some d" using display_ok assms by (auto simp: ed_ok_def)
  let ?f = "e\<lparr>ed_shown := (d, KeypadRow 0 e, KeypadRow 1 e), ed_message := hint\<rparr>"
  have "DisplayValue ?f = Some d" "KeypadRow r ?f = KeypadRow r e" for r
    using d display_same [of ?f e] keypad_same [of ?f e] by simp_all
  moreover have "hint \<noteq> ''16 digits maximum''" by (simp add: hint_def)
  ultimately show ?thesis using assms d by (simp add: RefreshEditor_def ed_ok_def ed_current_def)
qed

lemma append_ok: "ed_ok e \<Longrightarrow> c \<in> set Hex \<Longrightarrow> ed_ok (AppendHex c e)"
  by (auto simp: AppendHex_def Let_def ed_ok_def)

lemma erase_ok: "ed_ok e \<Longrightarrow> ed_ok (EraseHex e)"
  by (auto simp: EraseHex_def ed_ok_def dest: in_set_butlastD)

lemma clear_ok: "ed_ok e \<Longrightarrow> ed_ok (ClearHex e)"
  by (simp add: ClearHex_def ed_ok_def)

lemma hex_length: "length Hex = 16"
  by (simp add: Hex_def)

lemma hex_nth: "i < 16 \<Longrightarrow> Hex ! i \<in> set Hex"
  by (rule nth_mem) (simp add: hex_length)

lemma xor_key: "k < 16 \<Longrightarrow> k XOR 8 < (16 :: nat)"
proof -
  assume "k < 16"
  then have "take_bit 4 k = k" by (simp add: take_bit_nat_eq_self)
  then have "take_bit 4 (k XOR 8) = k XOR 8" by (simp add: take_bit_xor)
  then show ?thesis using take_bit_nat_less_exp [of 4 "k XOR 8"] by simp
qed

lemma commit_saves: "ed_ok e \<Longrightarrow> Commit e = (f, Some v) \<Longrightarrow> IsHexNetworkId v \<and> UpperHex v = v"
proof -
  assume e: "ed_ok e" and c: "Commit e = (f, Some v)"
  then have v: "v = ed_value e" "IsHexNetworkId v" by (auto simp: Commit_def split: if_splits)
  have "upper_char c = c" if "c \<in> set v" for c
    using e v that hex_table(4) by (auto simp: ed_ok_def list_all_iff)
  with v show ?thesis by (simp add: UpperHex_def map_idI)
qed

lemma commit_ok: "ed_ok e \<Longrightarrow> ed_current e \<Longrightarrow> ed_ok (fst (Commit e)) \<and> ed_current (fst (Commit e))"
  using display_same [of "fst (Commit e)" e] keypad_same [of "fst (Commit e)" e]
  by (auto simp: Commit_def ed_ok_def ed_current_def)

lemma type_keys_ok: "ed_ok e \<Longrightarrow> (\<forall>k \<in> set ks. k < 16) \<Longrightarrow> ed_ok (fst (type_keys now ks (e, c))) \<and>
    (\<not> snd (type_keys now ks (e, c)) \<longrightarrow> \<not> c \<and> fst (type_keys now ks (e, c)) = e)"
proof (induction ks arbitrary: e c)
  case (Cons k ks)
  let ?e = "if fresh_press now k e then AppendHex (Hex ! k) e else e"
  have "ed_ok ?e" using append_ok [OF Cons.prems(1) hex_nth [of k]] Cons.prems by simp
  with Cons.IH [of ?e "if fresh_press now k e then True else c"] Cons.prems(2) show ?case by (auto split: if_splits)
qed simp

lemma typed_ok:
  assumes "ed_ok e" and "typed now e = (f, c)"
  shows "ed_ok f" and "\<not> c \<Longrightarrow> f = e \<or> f = e\<lparr>ed_commit := True\<rparr>"
proof -
  obtain e1 c1 where e1: "type_keys now [0..<16] (e, False) = (e1, c1)" by (cases "type_keys now [0..<16] (e, False)")
  have r: "ed_ok e1" "\<not> c1 \<Longrightarrow> e1 = e" using type_keys_ok [OF assms(1), of "[0..<16]" now False] e1 by auto
  have "ed_ok f \<and> (\<not> c \<longrightarrow> f = e \<or> f = e\<lparr>ed_commit := True\<rparr>)"
  proof (cases "\<not> ed_ready e \<or> fst now \<noteq> fst (ed_previous e)")
    case True
    define e2 where "e2 = (if fresh_press now 16 e1 then EraseHex e1 else e1)"
    have "f = (if fresh_press now 17 e2 then e2\<lparr>ed_commit := True\<rparr> else e2)" "c = (fresh_press now 16 e1 \<or> c1)"
      using assms(2) True e1 by (auto simp: typed_def e2_def split: if_splits)
    moreover have "ed_ok e2" using erase_ok r(1) by (simp add: e2_def)
    ultimately show ?thesis using r(2) by (auto simp: ed_ok_def e2_def)
  next
    case False
    with assms show ?thesis by (auto simp: typed_def)
  qed
  then show "ed_ok f" "\<not> c \<Longrightarrow> f = e \<or> f = e\<lparr>ed_commit := True\<rparr>" by auto
qed

lemma press_ok:
  assumes "ed_ok e" and "ed_current e"
  shows "\<exists>f saved. ed_step (Press b) e = Some (f, saved) \<and> ed_ok f \<and> ed_current f \<and>
    (\<forall>v. saved = Some v \<longrightarrow> IsHexNetworkId v \<and> UpperHex v = v)"
proof -
  have shown: "ed_ok (e\<lparr>ed_commit := x\<rparr>) \<and> ed_current (e\<lparr>ed_commit := x\<rparr>)" for x
    using assms display_same [of "e\<lparr>ed_commit := x\<rparr>" e] keypad_same [of "e\<lparr>ed_commit := x\<rparr>" e]
    by (simp add: ed_ok_def ed_current_def)
  show ?thesis
  proof (cases "ed_commit e")
    case True
    with shown [of False] commit_ok [of "e\<lparr>ed_commit := False\<rparr>"] commit_saves [of "e\<lparr>ed_commit := False\<rparr>"]
    show ?thesis by (auto simp: handleInput_def split: prod.split)
  next
    case False
    have key: "ed_ok (e\<lparr>ed_key := k\<rparr>)" if "k < 16" for k using assms(1) that by (simp add: ed_ok_def)
    have k: "ed_key e < 16" using assms(1) by (simp add: ed_ok_def)
    have a: "aget Hex (int (ed_key e)) = Some (Hex ! ed_key e)" using k by (simp add: hex_length)
    have pressed: "\<exists>f. map_option (\<lambda>e2. (e2, True, None :: string option)) (RefreshEditor e1) = Some (f, True, None) \<and>
        ed_ok f \<and> ed_current f" if "ed_ok e1" for e1
      using refresh_ok [OF that] by auto
    from False pressed [OF key [of "(ed_key e + 15) mod 16"]] pressed [OF key [of "(ed_key e + 1) mod 16"]]
      pressed [OF key [OF xor_key [OF k]]] pressed [OF append_ok [OF assms(1) hex_nth [OF k]]]
      pressed [OF erase_ok [OF assms(1)]] pressed [OF clear_ok [OF assms(1)]]
      commit_ok [OF assms] commit_saves [OF assms(1)] assms a
    show ?thesis by (cases b) (auto simp: handleInput_def Let_def split: prod.split)
  qed
qed

lemma keyboard_ok:
  assumes "ed_ok e" and "ed_current e"
  shows "\<exists>f saved. ed_step (Keyboard k) e = Some (f, saved) \<and> ed_ok f \<and> ed_current f \<and>
    (\<forall>v. saved = Some v \<longrightarrow> IsHexNetworkId v \<and> UpperHex v = v)"
proof (cases k)
  case None
  with assms show ?thesis by (simp add: ed_update_def)
next
  case (Some now)
  obtain f c where f: "typed now e = (f, c)" by (cases "typed now e")
  note t = typed_ok [OF assms(1) f]
  let ?f = "f\<lparr>ed_previous := now, ed_ready := True\<rparr>"
  have ok: "ed_ok ?f" using t(1) by (simp add: ed_ok_def)
  show ?thesis
  proof (cases c)
    case True
    with refresh_ok [OF ok] Some f show ?thesis by (auto simp: ed_update_def)
  next
    case False
    have "ed_value ?f = ed_value e" "ed_key ?f = ed_key e" "ed_shown ?f = ed_shown e" "ed_message ?f = ed_message e"
      using t(2) [OF False] by auto
    then have "ed_current ?f" using assms(2) display_same [of ?f e] keypad_same [of ?f e] by (simp add: ed_current_def)
    with False ok Some f show ?thesis by (simp add: ed_update_def)
  qed
qed

lemma step_ok:
  assumes "ed_ok e" and "ed_current e"
  shows "\<exists>f saved. ed_step ev e = Some (f, saved) \<and> ed_ok f \<and> ed_current f \<and>
    (\<forall>v. saved = Some v \<longrightarrow> IsHexNetworkId v \<and> UpperHex v = v)"
  using press_ok [OF assms] keyboard_ok [OF assms] by (cases ev) blast+

lemma initial_ok: "length (InitialNetworkId networks status) = 16 \<and> set (InitialNetworkId networks status) \<subseteq> set Hex"
proof -
  have "length (UpperHex v) = 16 \<and> set (UpperHex v) \<subseteq> set Hex" if "IsHexNetworkId v" for v
    using that hex_cases(2) by (auto simp: UpperHex_def IsHexNetworkId_def list_all_iff)
  then show ?thesis by (auto simp: InitialNetworkId_def Let_def Hex_def)
qed

lemma run_ok: "ed_run e \<Longrightarrow> ed_ok e \<and> ed_current e"
proof (induction rule: ed_run.induct)
  case (opened networks status e)
  let ?v = "InitialNetworkId networks status"
  let ?e = "\<lparr>ed_value = ?v, ed_key = 0, ed_replace = True, ed_ready = False, ed_commit = False,
    ed_previous = (0, \<lambda>_. False), ed_shown = ([], [], []), ed_message = hint\<rparr>"
  from opened obtain d where d: "DisplayValue ?e = Some d" "e = ?e\<lparr>ed_shown := (d, KeypadRow 0 ?e, KeypadRow 1 ?e)\<rparr>"
    by (auto simp: open_editor_def Let_def Option.bind_eq_Some_conv)
  have "DisplayValue e = Some d" "KeypadRow r e = KeypadRow r ?e" for r
    using d display_same [of e ?e] keypad_same [of e ?e] by simp_all
  then show ?case using initial_ok [of networks status] d(2) by (simp add: ed_ok_def ed_current_def hint_def)
next
  case (stepped e ev e1)
  with step_ok [of e ev] show ?case by auto
qed

text \<open>
  C32. The editor: whatever is pressed and typed after it was opened, each event is handled without an
  exception, the value is at most 16 upper-case hexadecimal digits, what is on the screen is the value
  in groups of four and the keypad, and only complete nonzero ids are saved.  The message that 16
  digits are the maximum is never on the screen: every refresh replaces it.
\<close>

theorem editor_invariant:
  assumes "ed_run e"
  shows "length (ed_value e) \<le> 16 \<and> set (ed_value e) \<subseteq> set Hex \<and> ed_key e < 16 \<and>
    DisplayValue e = Some (fst (ed_shown e)) \<and> length (fst (ed_shown e)) = 19 \<and>
    snd (ed_shown e) = (KeypadRow 0 e, KeypadRow 1 e) \<and> ed_message e \<noteq> ''16 digits maximum'' \<and>
    (\<exists>f saved. ed_step ev e = Some (f, saved) \<and> (\<forall>v. saved = Some v \<longrightarrow> IsHexNetworkId v \<and> UpperHex v = v))"
proof -
  have e: "ed_ok e" "ed_current e" using run_ok [OF assms] by simp_all
  have "length (fst (ed_shown e)) = 19" using display_ok [of e] e by (auto simp: ed_ok_def ed_current_def)
  with e step_ok [OF e, of ev] show ?thesis by (auto simp: ed_ok_def ed_current_def)
qed

theorem editor_invariant_witness:
  "\<exists>e f saved. open_editor ''0000000000000000'' = Some e \<and> ed_step (Press KeyA) e = Some (f, saved) \<and> length (fst (ed_shown e)) = 19"
proof -
  have i: "InitialNetworkId (\<lambda>_ _. []) None = ''0000000000000000''"
    by (simp add: InitialNetworkId_def StatusValue_def IsHexNetworkId_def)
  obtain e where e: "open_editor ''0000000000000000'' = Some e" "\<not> ed_commit e"
    by (simp add: open_editor_def DisplayValue_def Let_def)
  have "ed_run e" by (rule ed_run.opened [of "\<lambda>_ _. []" None]) (simp add: i e(1))
  from editor_invariant [OF this, of "Press KeyA"] e show ?thesis
    by (auto simp del: ed_step.simps)
qed

end
