(* ===== verification/OverlayPage.thy ===== *)
theory OverlayPage
  imports Overlay "HOL-Library.AList"
begin

text \<open>
  The main page of the overlay (\<^verbatim>\<open>overlay/source/main.cpp\<close>): what it lists, what its switches write, and that
  the module reads a switch the way the overlay shows it.  The widget library and the INI functions of
  libultrahand are parameters.
\<close>

section \<open>The page\<close>

text \<open>\<^verbatim>\<open>ConfigSwitch\<close>, on the value the INI reader returns (empty when there is none).\<close>

definition ConfigSwitch :: "string \<Rightarrow> bool \<Rightarrow> bool" where
  "ConfigSwitch value dflt = (if value = [] then dflt else value \<noteq> ''0'')"

datatype page_item =
    CategoryHeader string
  | StatusItem
  | AddressItem
  | ActiveItem
  | EnterItem
  | SavedItem string string
  | ModuleToggle bool
  | ConfigToggle string string bool

record page =
  pg_items :: "page_item list"
  pg_shown :: "string \<times> string \<times> string"
  pg_last_refresh :: u64

text \<open>The loop over the sections of \<^verbatim>\<open>networks.ini\<close>; \<open>networks\<close> is the INI reader on it.\<close>

fun saved_items :: "(string \<Rightarrow> string \<Rightarrow> string) \<Rightarrow> string \<Rightarrow> bool \<Rightarrow> string list \<Rightarrow> page_item list" where
  "saved_items networks selected have_saved [] = []"
| "saved_items networks selected have_saved (s # ss) =
     (if s = ''sys-zerotier'' then saved_items networks selected have_saved ss
      else let nwid = networks s ''nwid'' in
        if \<not> IsHexNetworkId nwid then saved_items networks selected have_saved ss
        else (if have_saved then [] else [CategoryHeader ''Saved networks'']) @
          SavedItem s (if s = selected then ''Selected'' else UpperHex nwid) # saved_items networks selected True ss)"

definition createUI ::
  "(string \<Rightarrow> string \<Rightarrow> string) \<Rightarrow> string list \<Rightarrow> (string \<Rightarrow> string \<Rightarrow> string) \<Rightarrow> flags \<Rightarrow> string option \<Rightarrow> page" where
  "createUI networks sections config f status =
     (let switch = (\<lambda>key. ConfigSwitch (config ''sys-zerotier'' key)) in
      \<lparr>pg_items = [CategoryHeader ''Connection'', StatusItem, AddressItem, ActiveItem, EnterItem] @
         saved_items networks (networks ''sys-zerotier'' ''selected'') False sections @
         [CategoryHeader ''Services (next reboot)'', ModuleToggle (boot f \<or> \<not> disabled f),
          ConfigToggle ''BSD LAN bridge'' ''bsd_mitm'' (switch ''bsd_mitm'' True),
          ConfigToggle ''NIFM IP bridge'' ''nifm_mitm'' (switch ''nifm_mitm'' True),
          ConfigToggle ''Detailed diagnostics'' ''debug_logging'' (switch ''debug_logging'' False)],
       pg_shown = RefreshStatus status, pg_last_refresh = 0\<rparr>)"

text \<open>A second after the last refresh; \<open>ns\<close> converts ticks.\<close>

definition page_update :: "(u64 \<Rightarrow> u64) \<Rightarrow> u64 \<Rightarrow> string option \<Rightarrow> page \<Rightarrow> page" where
  "page_update ns now status p =
     (if pg_last_refresh p = 0 \<or> 1000000000 \<le> ns (now - pg_last_refresh p)
      then p\<lparr>pg_last_refresh := now, pg_shown := RefreshStatus status\<rparr> else p)"

text \<open>A key on an item: whether it is used, and what the page, the file and the screen become.\<close>

datatype page_exit = StayOnPage | OpenEditor | OpenLauncher

fun page_click :: "'f ini_set \<Rightarrow> bool \<Rightarrow> page_item \<Rightarrow> page \<times> 'f \<Rightarrow> (page \<times> 'f) \<times> page_exit \<times> bool" where
  "page_click put key_a EnterItem s = (if key_a then (s, OpenEditor, True) else (s, StayOnPage, False))"
| "page_click put key_a (SavedItem section label) (p, f) =
     (if key_a then ((p\<lparr>pg_shown := (''Switching...'', snd (pg_shown p))\<rparr>, SelectNetwork put section f), StayOnPage, True)
      else ((p, f), StayOnPage, False))"
| "page_click put key_a _ s = (s, StayOnPage, False)"

definition page_handleInput :: "bool \<Rightarrow> page_exit \<times> bool" where
  "page_handleInput key_b = (if \<not> key_b then (StayOnPage, False) else (OpenLauncher, True))"

text \<open>A switch that the user turns.\<close>

fun page_toggle :: "'f ini_set \<Rightarrow> bool \<Rightarrow> bool \<Rightarrow> page_item \<Rightarrow> bool \<Rightarrow> flags \<times> 'f \<Rightarrow> flags \<times> 'f" where
  "page_toggle put renames creates (ModuleToggle _) on (fl, f) = (SetBootEnabled renames creates on fl, f)"
| "page_toggle put renames creates (ConfigToggle _ key _) on (fl, f) =
     (fl, put ''sys-zerotier'' key (if on then ''1'' else ''0'') f)"
| "page_toggle put renames creates _ on s = s"

section \<open>The list of saved networks\<close>

lemma saved_items_set:
  "SavedItem s label \<in> set (saved_items networks selected started ss) \<longleftrightarrow>
     s \<in> set ss \<and> s \<noteq> ''sys-zerotier'' \<and> IsHexNetworkId (networks s ''nwid'') \<and>
     label = (if s = selected then ''Selected'' else UpperHex (networks s ''nwid''))"
  by (induction networks selected started ss rule: saved_items.induct) (auto simp: Let_def)

section \<open>A switch takes effect\<close>

text \<open>
  The file as the overlay keeps it: its section with one line per key.  The setter replaces the line of
  the key or appends one; the reader returns the value.
\<close>

definition config_text :: "(string \<times> string) list \<Rightarrow> string" where
  "config_text kvs = concat (map (\<lambda>l. l @ [newline]) (''[sys-zerotier]'' # map (\<lambda>(k, v). assign k v) kvs))"

definition config_put :: "(string \<times> string) list ini_set" where
  "config_put section key v kvs = AList.update key v kvs"

definition config_value :: "(string \<times> string) list \<Rightarrow> string \<Rightarrow> string" where
  "config_value kvs key = (case map_of kvs key of Some v \<Rightarrow> v | None \<Rightarrow> [])"

definition key_ok :: "string \<Rightarrow> bool" where
  "key_ok k \<longleftrightarrow> k \<noteq> [] \<and> (\<forall>c \<in> set k. \<not> is_blank c \<and> c \<noteq> newline \<and> c \<noteq> CHR ''='' \<and> \<not> comment_mark c \<and> c \<noteq> CHR ''['')"

definition value_ok :: "string \<Rightarrow> bool" where
  "value_ok v \<longleftrightarrow> newline \<notin> set v \<and> (v = [] \<or> v = ''0'' \<or> hd v \<noteq> CHR ''0'' \<and> \<not> is_blank (hd v))"

lemma after_equals_longer:
  assumes "key_ok key" and "key_ok (key @ r)" and "r \<noteq> []"
  shows "after_equals (length key) (assign (key @ r) v) = None"
proof -
  obtain c r' where r: "r = c # r'" using assms(3) by (cases r) auto
  then have "\<not> is_blank c" "c \<noteq> CHR ''=''" using assms(2) by (auto simp: key_ok_def)
  then show ?thesis by (simp add: after_equals_def assign_def r skip_blank_id)
qed

lemma key_line_assign:
  assumes "key_ok key" and "key_ok k"
  shows "key_line key (assign k v) = (if k = key then Some (skip_blank v) else None)"
proof -
  have k: "k \<noteq> []" "\<not> is_blank (hd k)" "hd k \<noteq> CHR ''[''" "\<not> comment_mark (hd k)" using assms(2) by (auto simp: key_ok_def)
  show ?thesis
  proof (cases "starts_with key (assign k v)")
    case True
    then have t: "take (length key) (k @ '' = '' @ v) = key" "length key \<le> length (k @ '' = '' @ v)" by (simp_all add: starts_with_def assign_def)
    show ?thesis
    proof (cases "length key \<le> length k")
      case True
      then have "take (length key) k = key" using t(1) by simp
      then obtain r where r: "k = key @ r" by (metis append_take_drop_id)
      then show ?thesis using k assms after_equals_longer [OF assms(1), of r v] by (cases "r = []") (simp_all add: key_line_def Let_def)
    next
      case False
      then have "key ! length k = (k @ '' = '' @ v) ! length k" using t(1) by (metis not_le nth_take)
      then have "is_blank (key ! length k)" by (simp add: nth_append is_blank_def)
      then have False using assms(1) False by (auto simp: key_ok_def)
      then show ?thesis ..
    qed
  next
    case False
    then show ?thesis using k by (auto simp: key_line_def Let_def)
  qed
qed

lemma config_lines:
  assumes "\<forall>(k, v) \<in> set kvs. key_ok k \<and> value_ok v"
  shows "file_lines (config_text kvs) = ''[sys-zerotier]'' # map (\<lambda>(k, v). assign k v) kvs"
  unfolding config_text_def
  by (rule file_lines_concat) (use assms in \<open>fastforce simp: assign_def key_ok_def value_ok_def\<close>)

lemma value_ok_first:
  assumes "value_ok v"
  shows "skip_blank v = v" and "(case v of c # _ \<Rightarrow> c \<noteq> CHR ''0'' | [] \<Rightarrow> d) = ConfigSwitch v d"
proof -
  show "skip_blank v = v" using assms by (intro skip_blank_id) (auto simp: value_ok_def is_blank_def)
  show "(case v of c # _ \<Rightarrow> c \<noteq> CHR ''0'' | [] \<Rightarrow> d) = ConfigSwitch v d"
  proof (cases v)
    case (Cons c cs)
    have "v = ''0'' \<or> hd v \<noteq> CHR ''0''" using assms Cons by (auto simp: value_ok_def)
    then have "c \<noteq> CHR ''0'' \<longleftrightarrow> v \<noteq> ''0''" unfolding Cons by (metis list.sel(1))
    then show ?thesis unfolding ConfigSwitch_def by (simp add: Cons)
  qed (simp add: ConfigSwitch_def)
qed

lemma fold_flag:
  assumes "distinct (map fst kvs)" and "\<forall>(k, v) \<in> set kvs. key_ok k \<and> value_ok v" and "key_ok key"
  shows "fold (\<lambda>line result. case key_line key line of Some (c # _) \<Rightarrow> c \<noteq> CHR ''0'' | _ \<Rightarrow> result) (map (\<lambda>(k, v). assign k v) kvs) d =
    ConfigSwitch (config_value kvs key) d"
  using assms(1,2)
proof (induction kvs arbitrary: d)
  case (Cons e kvs)
  obtain k v where e: "e = (k, v)" by (cases e)
  have ih: "fold (\<lambda>line result. case key_line key line of Some (c # _) \<Rightarrow> c \<noteq> CHR ''0'' | _ \<Rightarrow> result) (map (\<lambda>(k, v). assign k v) kvs) d =
    ConfigSwitch (config_value kvs key) d" for d using Cons by simp
  have kl: "key_line key (assign k v) = (if k = key then Some (skip_blank v) else None)"
    using key_line_assign [OF assms(3)] Cons.prems e by simp
  show ?case
  proof (cases "k = key")
    case True
    then have "map_of kvs key = None" using Cons.prems(1) e by (simp add: map_of_eq_None_iff)
    then have "ConfigSwitch (config_value kvs key) b = b" for b by (simp add: config_value_def ConfigSwitch_def)
    moreover have "value_ok v" using Cons.prems(2) e by simp
    note value_ok_first [OF this]
    ultimately show ?thesis using True kl ih e by (simp add: config_value_def)
  next
    case False
    then show ?thesis using kl ih e by (simp add: config_value_def)
  qed
qed (simp add: config_value_def ConfigSwitch_def)

lemma flag_is_switch:
  assumes "distinct (map fst kvs)" and "\<forall>(k, v) \<in> set kvs. key_ok k \<and> value_ok v" and "key_ok key"
  shows "ConfigFlag (Some (config_text kvs)) key d = ConfigSwitch (config_value kvs key) d"
proof -
  have "key_line key ''[sys-zerotier]'' = None"
    using assms(3) by (cases key) (auto simp: key_line_def skip_blank_id is_blank_def comment_mark_def starts_with_def key_ok_def Let_def)
  then show ?thesis
    using fold_flag [OF assms, of d] by (simp add: ConfigFlag_def scan_lines_fold config_lines [OF assms(2)])
qed

lemma update_set: "set (AList.update k v al) \<subseteq> insert (k, v) (set al)"
  by (induction al) auto

text \<open>
  A switch of the overlay takes effect: for a configuration that the overlay keeps, whatever values it has
  -- none is a longer number that starts with 0 --, turning the switch of a service to a position writes a
  file in which the module, at its next start, reads that position; every other flag reads as before;
  and the page that is opened next shows for each key what the module reads.
\<close>

theorem switch_takes_effect:
  assumes "distinct (map fst kvs)" and "\<forall>(k, v) \<in> set kvs. key_ok k \<and> value_ok v"
    and "key \<in> {''bsd_mitm'', ''nifm_mitm'', ''debug_logging''}"
    and "page_toggle config_put renames creates (ConfigToggle title key shown) on (fl, kvs) = (fl1, kvs1)"
  shows "fl1 = fl \<and> ConfigFlag (Some (config_text kvs1)) key d = on \<and>
    (\<forall>k. key_ok k \<and> k \<noteq> key \<longrightarrow> ConfigFlag (Some (config_text kvs1)) k d = ConfigFlag (Some (config_text kvs)) k d) \<and>
    (\<forall>k. key_ok k \<longrightarrow> ConfigSwitch (config_value kvs1 k) d = ConfigFlag (Some (config_text kvs1)) k d)"
proof -
  have put: "kvs1 = AList.update key (if on then ''1'' else ''0'') kvs" "fl1 = fl" using assms(4) by (simp_all add: config_put_def)
  have key: "key_ok key" using assms(3) by (auto simp: key_ok_def is_blank_def comment_mark_def)
  have dist: "distinct (map fst kvs1)" using assms(1) put by (simp add: distinct_update)
  have "set kvs1 \<subseteq> insert (key, if on then ''1'' else ''0'') (set kvs)" using put update_set [of key _ kvs] by simp
  moreover have "value_ok (if on then ''1'' else ''0'')" by (simp add: value_ok_def is_blank_def)
  ultimately have "\<forall>(k, v) \<in> set kvs1. key_ok k \<and> value_ok v" using assms(2) key by blast
  note f = flag_is_switch [OF dist this]
  have v: "config_value kvs1 k = (if k = key then (if on then ''1'' else ''0'') else config_value kvs k)" for k
    by (simp add: put config_value_def update_conv')
  then have "ConfigSwitch (config_value kvs1 key) d = on" by (simp add: ConfigSwitch_def)
  then show ?thesis using put f key v flag_is_switch [OF assms(1,2)] by simp
qed

lemma switch_takes_effect_witness:
  "ConfigFlag (Some (config_text [(''nwid'', ''1d71939404f0a001''), (''bsd_mitm'', ''0'')])) ''bsd_mitm'' True = False"
proof -
  have "page_toggle config_put True True (ConfigToggle ''BSD LAN bridge'' ''bsd_mitm'' True) False
      (\<lparr>boot = True, disabled = False\<rparr>, [(''nwid'', ''1d71939404f0a001'')]) =
    (\<lparr>boot = True, disabled = False\<rparr>, [(''nwid'', ''1d71939404f0a001''), (''bsd_mitm'', ''0'')])"
    by (simp add: config_put_def)
  from switch_takes_effect [OF _ _ _ this, of True] show ?thesis
    by (simp add: key_ok_def value_ok_def is_blank_def comment_mark_def)
qed

text \<open>The two readings differ for a value such as \<open>00\<close>, which the overlay shows as on.\<close>

lemma switch_disagrees:
  "ConfigSwitch ''00'' d = True" and "ConfigFlag (Some (config_text [(''bsd_mitm'', ''00'')])) ''bsd_mitm'' d = False"
proof -
  show "ConfigSwitch ''00'' d = True" by (simp add: ConfigSwitch_def)
  have "file_lines (config_text [(''bsd_mitm'', ''00'')]) = [''[sys-zerotier]'', assign ''bsd_mitm'' ''00'']"
    unfolding config_text_def by (subst file_lines_concat) (auto simp: assign_def)
  moreover have "key_line ''bsd_mitm'' ''[sys-zerotier]'' = None"
    by (simp add: key_line_def skip_blank_id is_blank_def comment_mark_def starts_with_def Let_def)
  moreover have "key_ok ''bsd_mitm''" by (simp add: key_ok_def is_blank_def comment_mark_def)
  then have "key_line ''bsd_mitm'' (assign ''bsd_mitm'' ''00'') = Some ''00''"
    by (simp add: key_line_assign skip_blank_id is_blank_def)
  ultimately show "ConfigFlag (Some (config_text [(''bsd_mitm'', ''00'')])) ''bsd_mitm'' d = False"
    by (simp add: ConfigFlag_def scan_lines_fold)
qed

end
