(* ===== verification/Ipc.thy ===== *)
theory Ipc
  imports BsdMMsg
begin

text \<open>
  What the interposers send to the real services: \<^verbatim>\<open>serviceMitmDispatch\<close> with a command, its raw
  arguments and its input buffers, for a process of the game's choosing or none.
\<close>

datatype arg = ArgS32 int | ArgU8 u8 | ArgU32 u32 | ArgU64 u64 | ArgBytes "u8 list"

record ipc =
  i_cmd :: nat
  i_raw :: "arg list"
  i_in :: "u8 list list"
  i_pid :: "u64 option"

definition dispatch_in :: "u64 \<Rightarrow> nat \<Rightarrow> arg list \<Rightarrow> u8 list list \<Rightarrow> ipc" where
  "dispatch_in pid cmd raw bufs = \<lparr>i_cmd = cmd, i_raw = raw, i_in = bufs, i_pid = Some pid\<rparr>"

definition dispatch :: "u64 \<Rightarrow> nat \<Rightarrow> arg list \<Rightarrow> ipc" where
  "dispatch pid cmd raw = dispatch_in pid cmd raw []"

lemma dispatch_fields [simp]:
  "i_cmd (dispatch_in pid cmd raw bufs) = cmd" "i_pid (dispatch_in pid cmd raw bufs) = Some pid"
  "i_raw (dispatch_in pid cmd raw bufs) = raw" "i_in (dispatch_in pid cmd raw bufs) = bufs"
  by (simp_all add: dispatch_in_def)

section \<open>The raw arguments in memory\<close>

text \<open>
  A C struct of the arguments: each is aligned to its size, and the whole to the largest alignment.
\<close>

fun arg_bytes :: "arg \<Rightarrow> u8 list" where
  "arg_bytes (ArgS32 v) = le32_bytes (word_of_int v)"
| "arg_bytes (ArgU8 v) = [v]"
| "arg_bytes (ArgU32 v) = le32_bytes v"
| "arg_bytes (ArgU64 v) = le64_bytes v"
| "arg_bytes (ArgBytes b) = b"

fun arg_align :: "arg \<Rightarrow> nat" where
  "arg_align (ArgS32 v) = 4"
| "arg_align (ArgU8 v) = 1"
| "arg_align (ArgU32 v) = 4"
| "arg_align (ArgU64 v) = 8"
| "arg_align (ArgBytes b) = 1"

definition padding :: "nat \<Rightarrow> nat \<Rightarrow> u8 list" where
  "padding off align = replicate ((align - off mod align) mod align) 0"

fun pack :: "nat \<Rightarrow> nat \<Rightarrow> arg list \<Rightarrow> u8 list" where
  "pack whole off [] = padding off whole"
| "pack whole off (a # as) =
     padding off (arg_align a) @ arg_bytes a @
       pack whole (off + length (padding off (arg_align a)) + length (arg_bytes a)) as"

definition raw_layout :: "arg list \<Rightarrow> u8 list" where
  "raw_layout as = pack (fold max (map arg_align as) 1) 0 as"

end
