(* ===== verification/BsdForward.thy ===== *)
theory BsdForward
  imports Ipc
begin

text \<open>
  The requests of \<^verbatim>\<open>mitm/bsd_shim.cpp\<close> that have no counterpart on the virtual network and only go on to
  the real service.
\<close>

datatype plain_call =
    StartMonitoring u64
  | SocketExempt int int int
  | Open int "u8 list"
  | Sysctl "u8 list" "u8 list"
  | Accept int
  | GetSockOpt int int int
  | Listen int int
  | Ioctl int int u32 "u8 list" "u8 list"
  | Fcntl int int int
  | Shutdown int int
  | DuplicateSocket int u64
  | GetResourceStatistics u64
  | RecvMMsg int int int int
  | EventFd u64 int
  | RegisterResourceStatisticsName u64 "u8 list"

text \<open>The interface: the number of each command and its raw parameters in their order.\<close>

fun plain_id :: "plain_call \<Rightarrow> nat" where
  "plain_id (StartMonitoring _) = 1"
| "plain_id (SocketExempt _ _ _) = 3"
| "plain_id (Open _ _) = 4"
| "plain_id (Sysctl _ _) = 7"
| "plain_id (Accept _) = 12"
| "plain_id (GetSockOpt _ _ _) = 17"
| "plain_id (Listen _ _) = 18"
| "plain_id (Ioctl _ _ _ _ _) = 19"
| "plain_id (Fcntl _ _ _) = 20"
| "plain_id (Shutdown _ _) = 22"
| "plain_id (DuplicateSocket _ _) = 27"
| "plain_id (GetResourceStatistics _) = 28"
| "plain_id (RecvMMsg _ _ _ _) = 29"
| "plain_id (EventFd _ _) = 31"
| "plain_id (RegisterResourceStatisticsName _ _) = 32"

fun plain_params :: "plain_call \<Rightarrow> arg list" where
  "plain_params (StartMonitoring token) = [ArgU64 token]"
| "plain_params (SocketExempt domain kind protocol) = [ArgS32 domain, ArgS32 kind, ArgS32 protocol]"
| "plain_params (Open flags path) = [ArgS32 flags]"
| "plain_params (Sysctl name oldp) = []"
| "plain_params (Accept fd) = [ArgS32 fd]"
| "plain_params (GetSockOpt fd level optname) = [ArgS32 fd, ArgS32 level, ArgS32 optname]"
| "plain_params (Listen fd backlog) = [ArgS32 fd, ArgS32 backlog]"
| "plain_params (Ioctl fd request bufcount b1 b2) = [ArgS32 fd, ArgS32 request, ArgU32 bufcount]"
| "plain_params (Fcntl fd cmd v) = [ArgS32 fd, ArgS32 cmd, ArgS32 v]"
| "plain_params (Shutdown fd how) = [ArgS32 fd, ArgS32 how]"
| "plain_params (DuplicateSocket fd reserved) = [ArgS32 fd, ArgU64 reserved]"
| "plain_params (GetResourceStatistics pid) = [ArgU64 pid]"
| "plain_params (RecvMMsg fd vlen flags timeout) = [ArgS32 fd, ArgS32 vlen, ArgS32 flags, ArgS32 timeout]"
| "plain_params (EventFd initial flags) = [ArgU64 initial, ArgS32 flags]"
| "plain_params (RegisterResourceStatisticsName pid name) = [ArgU64 pid]"

fun plain_buffers :: "plain_call \<Rightarrow> u8 list list" where
  "plain_buffers (Open flags path) = [path]"
| "plain_buffers (Sysctl name oldp) = [name, oldp]"
| "plain_buffers (Ioctl fd request bufcount b1 b2) = [b1, b2]"
| "plain_buffers (RegisterResourceStatisticsName pid name) = [name]"
| "plain_buffers _ = []"

text \<open>What each method sends, with the struct as it spells it out.\<close>

definition bsd_StartMonitoring :: "u64 \<Rightarrow> ipc" where
  "bsd_StartMonitoring token = \<lparr>i_cmd = 1, i_raw = [ArgU64 token], i_in = [], i_pid = None\<rparr>"

definition bsd_SocketExempt :: "u64 \<Rightarrow> int \<Rightarrow> int \<Rightarrow> int \<Rightarrow> ipc" where
  "bsd_SocketExempt pid domain kind protocol = dispatch pid 3 [ArgS32 domain, ArgS32 kind, ArgS32 protocol]"

definition bsd_Open :: "u64 \<Rightarrow> int \<Rightarrow> u8 list \<Rightarrow> ipc" where
  "bsd_Open pid flags path = dispatch_in pid 4 [ArgS32 flags] [path]"

definition bsd_Sysctl :: "u64 \<Rightarrow> u8 list \<Rightarrow> u8 list \<Rightarrow> ipc" where
  "bsd_Sysctl pid name oldp = dispatch_in pid 7 [] [name, oldp]"

definition bsd_Accept :: "u64 \<Rightarrow> int \<Rightarrow> ipc" where
  "bsd_Accept pid fd = dispatch pid 12 [ArgS32 fd]"

definition bsd_GetSockOpt :: "u64 \<Rightarrow> int \<Rightarrow> int \<Rightarrow> int \<Rightarrow> ipc" where
  "bsd_GetSockOpt pid fd level optname = dispatch pid 17 [ArgS32 fd, ArgS32 level, ArgS32 optname]"

definition bsd_Listen :: "u64 \<Rightarrow> int \<Rightarrow> int \<Rightarrow> ipc" where
  "bsd_Listen pid fd backlog = dispatch pid 18 [ArgS32 fd, ArgS32 backlog]"

definition bsd_Ioctl :: "u64 \<Rightarrow> int \<Rightarrow> int \<Rightarrow> u32 \<Rightarrow> u8 list \<Rightarrow> u8 list \<Rightarrow> ipc" where
  "bsd_Ioctl pid fd request bufcount b1 b2 = dispatch_in pid 19 [ArgS32 fd, ArgS32 request, ArgU32 bufcount] [b1, b2]"

definition bsd_Fcntl :: "u64 \<Rightarrow> int \<Rightarrow> int \<Rightarrow> int \<Rightarrow> ipc" where
  "bsd_Fcntl pid fd cmd v = dispatch pid 20 [ArgS32 fd, ArgS32 cmd, ArgS32 v]"

definition bsd_Shutdown :: "u64 \<Rightarrow> int \<Rightarrow> int \<Rightarrow> ipc" where
  "bsd_Shutdown pid fd how = dispatch pid 22 [ArgS32 fd, ArgS32 how]"

definition bsd_DuplicateSocket :: "u64 \<Rightarrow> int \<Rightarrow> u64 \<Rightarrow> ipc" where
  "bsd_DuplicateSocket pid fd reserved = dispatch pid 27 [ArgS32 fd, ArgU32 0, ArgU64 reserved]"

definition bsd_GetResourceStatistics :: "u64 \<Rightarrow> u64 \<Rightarrow> ipc" where
  "bsd_GetResourceStatistics pid wanted = dispatch pid 28 [ArgU64 wanted]"

definition bsd_RecvMMsg :: "u64 \<Rightarrow> int \<Rightarrow> int \<Rightarrow> int \<Rightarrow> int \<Rightarrow> ipc" where
  "bsd_RecvMMsg pid fd vlen flags timeout = dispatch pid 29 [ArgS32 fd, ArgS32 vlen, ArgS32 flags, ArgS32 timeout]"

definition bsd_EventFd :: "u64 \<Rightarrow> u64 \<Rightarrow> int \<Rightarrow> ipc" where
  "bsd_EventFd pid initial flags = dispatch pid 31 [ArgU64 initial, ArgS32 flags, ArgU32 0]"

definition bsd_RegisterResourceStatisticsName :: "u64 \<Rightarrow> u64 \<Rightarrow> u8 list \<Rightarrow> ipc" where
  "bsd_RegisterResourceStatisticsName pid wanted name = dispatch_in pid 32 [ArgU64 wanted] [name]"

fun plain_forward :: "u64 \<Rightarrow> plain_call \<Rightarrow> ipc" where
  "plain_forward pid (StartMonitoring token) = bsd_StartMonitoring token"
| "plain_forward pid (SocketExempt domain kind protocol) = bsd_SocketExempt pid domain kind protocol"
| "plain_forward pid (Open flags path) = bsd_Open pid flags path"
| "plain_forward pid (Sysctl name oldp) = bsd_Sysctl pid name oldp"
| "plain_forward pid (Accept fd) = bsd_Accept pid fd"
| "plain_forward pid (GetSockOpt fd level optname) = bsd_GetSockOpt pid fd level optname"
| "plain_forward pid (Listen fd backlog) = bsd_Listen pid fd backlog"
| "plain_forward pid (Ioctl fd request bufcount b1 b2) = bsd_Ioctl pid fd request bufcount b1 b2"
| "plain_forward pid (Fcntl fd cmd v) = bsd_Fcntl pid fd cmd v"
| "plain_forward pid (Shutdown fd how) = bsd_Shutdown pid fd how"
| "plain_forward pid (DuplicateSocket fd reserved) = bsd_DuplicateSocket pid fd reserved"
| "plain_forward pid (GetResourceStatistics wanted) = bsd_GetResourceStatistics pid wanted"
| "plain_forward pid (RecvMMsg fd vlen flags timeout) = bsd_RecvMMsg pid fd vlen flags timeout"
| "plain_forward pid (EventFd initial flags) = bsd_EventFd pid initial flags"
| "plain_forward pid (RegisterResourceStatisticsName wanted name) = bsd_RegisterResourceStatisticsName pid wanted name"

lemmas plain_forward_defs =
  bsd_StartMonitoring_def bsd_SocketExempt_def bsd_Open_def bsd_Sysctl_def
  bsd_Accept_def bsd_GetSockOpt_def bsd_Listen_def bsd_Ioctl_def
  bsd_Fcntl_def bsd_Shutdown_def bsd_DuplicateSocket_def bsd_GetResourceStatistics_def
  bsd_RecvMMsg_def bsd_EventFd_def bsd_RegisterResourceStatisticsName_def

text \<open>An answer: result and error number, a length where the command has one, the output buffers.\<close>

record plain_reply =
  y_ret :: int
  y_err :: int
  y_len :: u32
  y_out :: "u8 list list"

definition plain_answer :: "plain_call \<Rightarrow> nat + plain_reply \<Rightarrow> nat + plain_reply" where
  "plain_answer c rep =
     (case c of
        Sysctl name oldp \<Rightarrow> (case rep of Inl rc \<Rightarrow> Inl rc | Inr r \<Rightarrow> Inr (r\<lparr>y_ret := 0, y_err := 0, y_len := 0\<rparr>))
      | _ \<Rightarrow> rep)"

lemma zero_word: "le32_bytes 0 = replicate 4 0"
  by (simp add: le32_bytes_def eval_nat_numeral)

lemma le32_bytes_length: "length (le32_bytes v) = 4"
  by (simp add: le32_bytes_def)

lemma le64_bytes_length: "length (le64_bytes v) = 8"
  by (simp add: le64_bytes_def le32_bytes_def)

lemma padding_values: "padding 0 n = []" "padding 4 8 = replicate 4 0" "padding 4 4 = []" "padding 8 4 = []" "padding 8 8 = []"
  "padding 12 4 = []" "padding 16 8 = []" "padding 12 8 = replicate 4 0"
  by (simp_all add: padding_def)

lemma padded_structs:
  "raw_layout [ArgS32 fd, ArgU32 0, ArgU64 r] = raw_layout [ArgS32 fd, ArgU64 r]"
  "raw_layout [ArgU64 i, ArgS32 f, ArgU32 0] = raw_layout [ArgU64 i, ArgS32 f]"
  by (simp_all add: raw_layout_def padding_values zero_word le32_bytes_length le64_bytes_length)

text \<open>
  Requests that only pass through: each goes on under its own number, with its parameters laid
  out in memory as the game's, its buffers, and (except for \<^verbatim>\<open>StartMonitoring\<close>) the game's process,
  and comes back as answered -- except \<^verbatim>\<open>Sysctl\<close>, whose every answer is success with length 0.  So a
  batch receive on a mirrored socket never sees the virtual network, whatever waits there.
\<close>

lemma passthrough_exact:
  "i_cmd (plain_forward pid c) = plain_id c \<and>
   raw_layout (i_raw (plain_forward pid c)) = raw_layout (plain_params c) \<and>
   i_in (plain_forward pid c) = plain_buffers c \<and>
   (i_pid (plain_forward pid c) = Some pid \<longleftrightarrow> (\<forall>token. c \<noteq> StartMonitoring token)) \<and>
   plain_answer c (Inl rc) = Inl rc \<and>
   plain_answer c (Inr r) = Inr (if plain_id c = 7 then r\<lparr>y_ret := 0, y_err := 0, y_len := 0\<rparr> else r)"
  by (cases c) (simp_all add: plain_forward_defs dispatch_def plain_answer_def padded_structs)

end
