(* ===== verification/BsdInterface.thy ===== *)
theory BsdInterface
  imports BsdForward BsdSelect BsdLife
begin

text \<open>
  The whole interface of the interposed socket service (\<^verbatim>\<open>mitm/bsd_shim.hpp\<close>): each command with its number
  and raw parameters, what its handler asks the real service, and when it asks at all.  The two forms
  of registration are at the end; which of a game's sessions take which is in \<open>BsdLife\<close>.
\<close>

section \<open>Commands\<close>

text \<open>The output buffer of a receive is part of its command; \<open>SelectCmd\<close> carries the padding of its timeout.\<close>

datatype bsd_cmd =
    PlainCmd plain_call
  | SocketCmd int int int
  | SelectCmd int timeval "u8 list" "u8 list" "u8 list" "u8 list"
  | PollCmd int int "u8 list" "u8 list"
  | RecvCmd int u32 "u8 list"
  | RecvFromCmd int u32 "u8 list" "u8 list"
  | SendCmd int u32 "u8 list"
  | SendToCmd int u32 "u8 list" "u8 list"
  | BindCmd int "u8 list"
  | ConnectCmd int "u8 list"
  | GetPeerNameCmd int "u8 list"
  | GetSockNameCmd int
  | SetSockOptCmd int int int "u8 list"
  | ShutdownAllCmd int
  | WriteCmd int "u8 list"
  | ReadCmd int "u8 list"
  | CloseCmd int
  | SendMMsgCmd int int int "u8 list"

fun bsd_id :: "bsd_cmd \<Rightarrow> nat" where
  "bsd_id (PlainCmd c) = plain_id c"
| "bsd_id (SocketCmd _ _ _) = 2"
| "bsd_id (SelectCmd _ _ _ _ _ _) = 5"
| "bsd_id (PollCmd _ _ _ _) = 6"
| "bsd_id (RecvCmd _ _ _) = 8"
| "bsd_id (RecvFromCmd _ _ _ _) = 9"
| "bsd_id (SendCmd _ _ _) = 10"
| "bsd_id (SendToCmd _ _ _ _) = 11"
| "bsd_id (BindCmd _ _) = 13"
| "bsd_id (ConnectCmd _ _) = 14"
| "bsd_id (GetPeerNameCmd _ _) = 15"
| "bsd_id (GetSockNameCmd _) = 16"
| "bsd_id (SetSockOptCmd _ _ _ _) = 21"
| "bsd_id (ShutdownAllCmd _) = 23"
| "bsd_id (WriteCmd _ _) = 24"
| "bsd_id (ReadCmd _ _) = 25"
| "bsd_id (CloseCmd _) = 26"
| "bsd_id (SendMMsgCmd _ _ _ _) = 30"

text \<open>The members of \<^verbatim>\<open>BsdSelectTimeval\<close>.\<close>

definition timeval_args :: "timeval \<Rightarrow> u8 list \<Rightarrow> arg list" where
  "timeval_args t pad =
     [ArgU64 (word_of_int (tv_sec t)), ArgU64 (word_of_int (tv_usec t)), ArgU8 (of_bool (tv_null t)), ArgBytes pad]"

fun bsd_params :: "bsd_cmd \<Rightarrow> arg list" where
  "bsd_params (PlainCmd c) = plain_params c"
| "bsd_params (SocketCmd domain kind protocol) = [ArgS32 domain, ArgS32 kind, ArgS32 protocol]"
| "bsd_params (SelectCmd nfds timeout pad rd wr ex) = ArgS32 nfds # timeval_args timeout pad"
| "bsd_params (PollCmd nfds timeout in_fds out_fds) = [ArgS32 nfds, ArgS32 timeout]"
| "bsd_params (RecvCmd fd flags buf) = [ArgS32 fd, ArgU32 flags]"
| "bsd_params (RecvFromCmd fd flags buf addr) = [ArgS32 fd, ArgU32 flags]"
| "bsd_params (SendCmd fd flags buf) = [ArgS32 fd, ArgU32 flags]"
| "bsd_params (SendToCmd fd flags buf addr) = [ArgS32 fd, ArgU32 flags]"
| "bsd_params (BindCmd fd addr) = [ArgS32 fd]"
| "bsd_params (ConnectCmd fd addr) = [ArgS32 fd]"
| "bsd_params (GetPeerNameCmd fd addr) = [ArgS32 fd]"
| "bsd_params (GetSockNameCmd fd) = [ArgS32 fd]"
| "bsd_params (SetSockOptCmd fd level optname optval) = [ArgS32 fd, ArgS32 level, ArgS32 optname]"
| "bsd_params (ShutdownAllCmd how) = [ArgS32 how]"
| "bsd_params (WriteCmd fd buf) = [ArgS32 fd]"
| "bsd_params (ReadCmd fd buf) = [ArgS32 fd]"
| "bsd_params (CloseCmd fd) = [ArgS32 fd]"
| "bsd_params (SendMMsgCmd fd vlen flags buf) = [ArgS32 fd, ArgS32 vlen, ArgS32 flags]"

fun bsd_buffers :: "bsd_cmd \<Rightarrow> u8 list list" where
  "bsd_buffers (PlainCmd c) = plain_buffers c"
| "bsd_buffers (SelectCmd nfds timeout pad rd wr ex) = [rd, wr, ex]"
| "bsd_buffers (PollCmd nfds timeout in_fds out_fds) = [in_fds]"
| "bsd_buffers (SendCmd fd flags buf) = [buf]"
| "bsd_buffers (SendToCmd fd flags buf addr) = [buf, addr]"
| "bsd_buffers (BindCmd fd addr) = [addr]"
| "bsd_buffers (ConnectCmd fd addr) = [addr]"
| "bsd_buffers (SetSockOptCmd fd level optname optval) = [optval]"
| "bsd_buffers (WriteCmd fd buf) = [buf]"
| "bsd_buffers (SendMMsgCmd fd vlen flags buf) = [buf]"
| "bsd_buffers _ = []"

section \<open>What each handler asks the real service\<close>

definition ask_Socket :: "u64 \<Rightarrow> int \<Rightarrow> int \<Rightarrow> int \<Rightarrow> ipc" where
  "ask_Socket pid domain kind protocol = dispatch pid 2 [ArgS32 domain, ArgS32 kind, ArgS32 protocol]"

definition ask_Bind :: "u64 \<Rightarrow> int \<Rightarrow> u8 list \<Rightarrow> ipc" where
  "ask_Bind pid fd addr = dispatch_in pid 13 [ArgS32 fd] [addr]"

definition ask_SetSockOpt :: "u64 \<Rightarrow> int \<Rightarrow> int \<Rightarrow> int \<Rightarrow> u8 list \<Rightarrow> ipc" where
  "ask_SetSockOpt pid fd level optname optval = dispatch_in pid 21 [ArgS32 fd, ArgS32 level, ArgS32 optname] [optval]"

definition ask_SendTo :: "u64 \<Rightarrow> int \<Rightarrow> u32 \<Rightarrow> u8 list \<Rightarrow> u8 list \<Rightarrow> ipc" where
  "ask_SendTo pid fd flags buf addr = dispatch_in pid 11 [ArgS32 fd, ArgU32 flags] [buf, addr]"

definition ask_ShutdownAllSockets :: "u64 \<Rightarrow> int \<Rightarrow> ipc" where
  "ask_ShutdownAllSockets pid how = dispatch pid 23 [ArgS32 how]"

definition ask_Close :: "u64 \<Rightarrow> int \<Rightarrow> ipc" where
  "ask_Close pid fd = dispatch pid 26 [ArgS32 fd]"

definition ask_Connect :: "u64 \<Rightarrow> int \<Rightarrow> u8 list \<Rightarrow> ipc" where
  "ask_Connect pid fd addr = dispatch_in pid 14 [ArgS32 fd] [addr]"

definition ask_Send :: "u64 \<Rightarrow> int \<Rightarrow> u32 \<Rightarrow> u8 list \<Rightarrow> ipc" where
  "ask_Send pid fd flags buf = dispatch_in pid 10 [ArgS32 fd, ArgU32 flags] [buf]"

definition ask_Write :: "u64 \<Rightarrow> int \<Rightarrow> u8 list \<Rightarrow> ipc" where
  "ask_Write pid fd buf = dispatch_in pid 24 [ArgS32 fd] [buf]"

definition ask_SendMMsg :: "u64 \<Rightarrow> int \<Rightarrow> int \<Rightarrow> int \<Rightarrow> u8 list \<Rightarrow> ipc" where
  "ask_SendMMsg pid fd vlen flags buf = dispatch_in pid 30 [ArgS32 fd, ArgS32 vlen, ArgS32 flags] [buf]"

definition ask_Recv :: "u64 \<Rightarrow> int \<Rightarrow> u32 \<Rightarrow> ipc" where
  "ask_Recv pid fd flags = dispatch pid 8 [ArgS32 fd, ArgU32 flags]"

definition ask_Read :: "u64 \<Rightarrow> int \<Rightarrow> ipc" where
  "ask_Read pid fd = dispatch pid 25 [ArgS32 fd]"

definition ask_GetPeerName :: "u64 \<Rightarrow> int \<Rightarrow> ipc" where
  "ask_GetPeerName pid fd = dispatch pid 15 [ArgS32 fd]"

definition ask_GetSockName :: "u64 \<Rightarrow> int \<Rightarrow> ipc" where
  "ask_GetSockName pid fd = dispatch pid 16 [ArgS32 fd]"

definition ask_RecvFrom :: "u64 \<Rightarrow> int \<Rightarrow> u32 \<Rightarrow> ipc" where
  "ask_RecvFrom pid fd flags = dispatch pid 9 [ArgS32 fd, ArgU32 flags]"

definition ask_Select :: "u64 \<Rightarrow> int \<Rightarrow> timeval \<Rightarrow> u8 list \<Rightarrow> u8 list \<Rightarrow> u8 list \<Rightarrow> u8 list \<Rightarrow> ipc" where
  "ask_Select pid nfds timeout pad rd wr ex =
     dispatch_in pid 5 ([ArgS32 nfds, ArgU32 0] @ timeval_args timeout pad) [rd, wr, ex]"

definition ask_Poll :: "u64 \<Rightarrow> int \<Rightarrow> int \<Rightarrow> u8 list \<Rightarrow> ipc" where
  "ask_Poll pid nfds timeout in_fds = dispatch_in pid 6 [ArgS32 nfds, ArgS32 timeout] [in_fds]"

lemmas ask_defs = ask_Socket_def ask_Bind_def ask_SetSockOpt_def ask_SendTo_def ask_ShutdownAllSockets_def ask_Close_def
  ask_Connect_def ask_Send_def ask_Write_def ask_SendMMsg_def ask_Recv_def ask_Read_def ask_GetPeerName_def
  ask_GetSockName_def ask_RecvFrom_def ask_Select_def ask_Poll_def dispatch_def

text \<open>
  A handler that answers by itself asks nothing; what the real service would say does not matter for
  that, so any answer stands in for it.
\<close>

fun unless_local :: "ipc \<Rightarrow> 'a answer \<Rightarrow> ipc option" where
  "unless_local m (Local _) = None"
| "unless_local m (Service _) = Some m"

definition asked :: "ipc \<Rightarrow> (shim \<times> 'a answer) option \<Rightarrow> ipc option option" where
  "asked m r = map_option (\<lambda>(t, ans). unless_local m ans) r"

fun bsd_asks :: "window \<Rightarrow> u64 \<Rightarrow> bsd_cmd \<Rightarrow> shim \<Rightarrow> ipc option option" where
  "bsd_asks w pid (PlainCmd c) s = Some (Some (plain_forward pid c))"
| "bsd_asks w pid (SocketCmd domain kind protocol) s = Some (Some (ask_Socket pid domain kind protocol))"
| "bsd_asks w pid (SelectCmd nfds timeout pad rd wr ex) s =
     (case select_scan pid rd s (descriptors nfds) False of (watches, ready) \<Rightarrow>
        Some (Some (ask_Select pid nfds (select_wait watches ready timeout) pad rd wr ex)))"
| "bsd_asks w pid (PollCmd nfds timeout in_fds out_fds) s =
     map_option (\<lambda>wr. Some (ask_Poll pid nfds (poll_wait wr timeout) in_fds))
       (poll_scan pid in_fds s [0..<poll_count nfds out_fds] (False, False))"
| "bsd_asks w pid (RecvCmd fd flags buf) s = asked (ask_Recv pid fd flags) (bsd_Recv w pid fd flags buf (Inl 0) s)"
| "bsd_asks w pid (RecvFromCmd fd flags buf addr) s =
     asked (ask_RecvFrom pid fd flags) (bsd_RecvFrom w pid fd flags buf addr (Inl 0) s)"
| "bsd_asks w pid (SendCmd fd flags buf) s = asked (ask_Send pid fd flags buf) (bsd_Send w pid fd buf (Inl 0) s)"
| "bsd_asks w pid (SendToCmd fd flags buf addr) s =
     asked (ask_SendTo pid fd flags buf addr) (bsd_SendTo w pid fd buf addr (Inl 0) s)"
| "bsd_asks w pid (BindCmd fd addr) s = Some (Some (ask_Bind pid fd addr))"
| "bsd_asks w pid (ConnectCmd fd addr) s = asked (ask_Connect pid fd addr) (Some (bsd_Connect pid fd addr (Inl 0) s))"
| "bsd_asks w pid (GetPeerNameCmd fd addr) s =
     asked (ask_GetPeerName pid fd) (Some (s, bsd_GetPeerName pid fd addr (Inl 0) s))"
| "bsd_asks w pid (GetSockNameCmd fd) s = Some (Some (ask_GetSockName pid fd))"
| "bsd_asks w pid (SetSockOptCmd fd level optname optval) s = Some (Some (ask_SetSockOpt pid fd level optname optval))"
| "bsd_asks w pid (ShutdownAllCmd how) s = Some (Some (ask_ShutdownAllSockets pid how))"
| "bsd_asks w pid (WriteCmd fd buf) s = asked (ask_Write pid fd buf) (bsd_Write w pid fd buf (Inl 0) s)"
| "bsd_asks w pid (ReadCmd fd buf) s = asked (ask_Read pid fd) (bsd_Read w pid fd buf (Inl 0) s)"
| "bsd_asks w pid (CloseCmd fd) s = Some (Some (ask_Close pid fd))"
| "bsd_asks w pid (SendMMsgCmd fd vlen flags buf) s =
     asked (ask_SendMMsg pid fd vlen flags buf) (bsd_SendMMsg w pid fd vlen buf (Inl 0) s)"

section \<open>The message is the game's\<close>

lemma asked_some: "asked m r = Some (Some k) \<Longrightarrow> k = m"
  by (auto simp: asked_def elim!: unless_local.elims)

text \<open>The command itself, or with a wait that was cut short.\<close>

fun shortened :: "bsd_cmd \<Rightarrow> bsd_cmd \<Rightarrow> bool" where
  "shortened (SelectCmd nfds timeout pad rd wr ex) d \<longleftrightarrow> (\<exists>t. d = SelectCmd nfds t pad rd wr ex \<and>
     (t = timeout \<or> \<not> tv_null t \<and> tv_sec t = 0 \<and> tv_usec t \<le> 10000))"
| "shortened (PollCmd nfds timeout in_fds out_fds) d \<longleftrightarrow>
     (\<exists>n. d = PollCmd nfds n in_fds out_fds \<and> (n = timeout \<or> 0 \<le> n \<and> n \<le> 10))"
| "shortened c d \<longleftrightarrow> d = c"

definition carries :: "u64 \<Rightarrow> bsd_cmd \<Rightarrow> ipc \<Rightarrow> bool" where
  "carries pid c m \<longleftrightarrow> i_cmd m = bsd_id c \<and> i_in m = bsd_buffers c \<and> (i_pid m = Some pid \<longleftrightarrow> bsd_id c \<noteq> 1) \<and>
     raw_layout (i_raw m) = raw_layout (bsd_params c)"

lemma plain_carries: "carries pid (PlainCmd c) (plain_forward pid c)"
  by (cases c) (simp_all add: carries_def plain_forward_defs dispatch_def padded_structs)

lemma select_carries: "carries pid (SelectCmd nfds t pad rd wr ex) (ask_Select pid nfds t pad rd wr ex)"
  by (simp add: carries_def ask_defs raw_layout_def timeval_args_def padding_values zero_word le32_bytes_length le64_bytes_length)

lemma asks_carries:
  assumes "bsd_asks w pid c s = Some (Some m)"
  shows "\<exists>d. shortened c d \<and> carries pid d m"
proof (cases c)
  case (PlainCmd p)
  with assms plain_carries show ?thesis by auto
next
  case (SelectCmd nfds timeout pad rd wr ex)
  with assms obtain watches ready where m: "m = ask_Select pid nfds (select_wait watches ready timeout) pad rd wr ex"
    by (auto split: prod.splits)
  show ?thesis unfolding m SelectCmd
    by (intro exI [of _ "SelectCmd nfds (select_wait watches ready timeout) pad rd wr ex"] conjI select_carries)
      (auto simp: select_wait_def)
next
  case (PollCmd nfds timeout in_fds out_fds)
  with assms obtain wr where m: "m = ask_Poll pid nfds (poll_wait wr timeout) in_fds" by auto
  show ?thesis unfolding m PollCmd
    by (intro exI [of _ "PollCmd nfds (poll_wait wr timeout) in_fds out_fds"]) (auto simp: poll_wait_def carries_def ask_defs)
qed (use assms in \<open>auto simp: carries_def ask_defs dest!: asked_some\<close>)

section \<open>Descriptors the module does not know\<close>

text \<open>The descriptors a command is about; a poll has as many entries as both buffers have room for.\<close>

fun bsd_fds :: "bsd_cmd \<Rightarrow> int set" where
  "bsd_fds (SelectCmd nfds timeout pad rd wr ex) = {fd. FdIsSet fd rd}"
| "bsd_fds (PollCmd nfds timeout in_fds out_fds) =
     {poll_fd p |p. \<exists>i < poll_count nfds out_fds. poll_load in_fds i = Some p}"
| "bsd_fds (RecvCmd fd flags buf) = {fd}"
| "bsd_fds (RecvFromCmd fd flags buf addr) = {fd}"
| "bsd_fds (SendCmd fd flags buf) = {fd}"
| "bsd_fds (SendToCmd fd flags buf addr) = {fd}"
| "bsd_fds (ConnectCmd fd addr) = {fd}"
| "bsd_fds (GetPeerNameCmd fd addr) = {fd}"
| "bsd_fds (WriteCmd fd buf) = {fd}"
| "bsd_fds (ReadCmd fd buf) = {fd}"
| "bsd_fds (SendMMsgCmd fd vlen flags buf) = {fd}"
| "bsd_fds _ = {}"

fun poll_whole :: "bsd_cmd \<Rightarrow> bool" where
  "poll_whole (PollCmd nfds timeout in_fds out_fds) \<longleftrightarrow> poll_count nfds out_fds * 8 \<le> length in_fds"
| "poll_whole _ \<longleftrightarrow> True"

lemma unknown_fd:
  assumes "FindLanSocketLocked pid fd s = None"
  shows "GetLanVfd pid fd s = InvalidSocket" "GetConnectedLanPeer pid fd s = None" "send_shadow pid fd s = (InvalidSocket, 0)"
    "\<not> shadow_readable pid fd s" "ResolveMMsgDestination pid fd name s = None"
  using assms
  by (simp_all add: GetLanVfd_def GetConnectedLanPeer_def send_shadow_def shadow_readable_def ResolveMMsgDestination_def Let_def)

lemma unknown_scan:
  "(\<And>fd. fd \<in> set ds \<Longrightarrow> FdIsSet fd rd \<Longrightarrow> FindLanSocketLocked pid fd s = None) \<Longrightarrow>
   select_scan pid rd s ds False = (False, False)"
  by (induction ds) (auto simp: unknown_fd)

lemma unknown_poll:
  assumes "\<And>i p. i \<in> set is \<Longrightarrow> poll_load buf i = Some p \<Longrightarrow> FindLanSocketLocked pid (poll_fd p) s = None"
    and "\<And>i. i \<in> set is \<Longrightarrow> (i + 1) * 8 \<le> length buf"
  shows "poll_scan pid buf s is (False, False) = Some (False, False)"
  using assms
proof (induction "is")
  case (Cons i "is")
  obtain p where p: "poll_load buf i = Some p" using poll_load_in Cons.prems(2) [of i] by auto
  have "FindLanSocketLocked pid (poll_fd p) s = None" using Cons.prems(1) [OF _ p] by simp
  moreover have "poll_scan pid buf s is (False, False) = Some (False, False)"
    using Cons.prems by (intro Cons.IH) auto
  ultimately show ?case using p by (simp add: unknown_fd)
qed simp

lemma unknown_mmsg: "FindLanSocketLocked pid fd s = None \<Longrightarrow> MirrorMMsgBuffer w pid fd vlen bytes s = Some (s, None)"
  by (cases "nat vlen") (auto simp: MirrorMMsgBuffer_def unknown_fd split: option.split)

lemma unknown_asks:
  assumes "\<forall>fd \<in> bsd_fds c. FindLanSocketLocked pid fd s = None" and "poll_whole c"
  shows "\<exists>m. bsd_asks w pid c s = Some (Some m) \<and> carries pid c m"
proof (cases c)
  case (PlainCmd p)
  then show ?thesis using plain_carries by simp
next
  case (SelectCmd nfds timeout pad rd wr ex)
  with assms(1) have "select_scan pid rd s (descriptors nfds) False = (False, False)" by (intro unknown_scan) auto
  with SelectCmd select_carries show ?thesis by (simp add: select_wait_def)
next
  case (PollCmd nfds timeout in_fds out_fds)
  have "poll_scan pid in_fds s [0..<poll_count nfds out_fds] (False, False) = Some (False, False)"
    using assms PollCmd by (intro unknown_poll) auto
  with PollCmd show ?thesis by (simp add: poll_wait_def carries_def ask_defs)
qed (use assms in \<open>auto simp: asked_def carries_def ask_defs unknown_fd unknown_mmsg bsd_Recv_def bsd_RecvFrom_def bsd_Read_def
    bsd_Send_def bsd_Write_def bsd_SendTo_def bsd_SendMMsg_def bsd_Connect_def bsd_GetPeerName_def physical_receive_def
    receive_shadow_def MirrorConnectedLanDatagram_def send_overlay_def connect_local_def Let_def split: option.split\<close>)


section \<open>Registration\<close>

text \<open>The raw part of both forms of registration: the configuration, the word the process id goes into, a size.\<close>

definition config_args :: "BsdServiceConfig \<Rightarrow> arg list" where
  "config_args c = map ArgU32 [sc_version c, sc_tcp_tx c, sc_tcp_rx c, sc_tcp_tx_max c, sc_tcp_rx_max c,
     sc_udp_tx c, sc_udp_rx c, sc_efficiency c]"

definition registration_params :: "BsdServiceConfig \<Rightarrow> u64 \<Rightarrow> u64 \<Rightarrow> arg list" where
  "registration_params config placeholder bytes = config_args config @ [ArgU64 placeholder, ArgU64 bytes]"

fun ask_RegisterClient :: "u64 \<Rightarrow> forward \<Rightarrow> ipc" where
  "ask_RegisterClient pid (Forward config bytes h) = dispatch pid 0 (registration_params config 0 bytes)"

definition ask_RegisterClientShared :: "u64 \<Rightarrow> BsdServiceConfig \<Rightarrow> u64 \<Rightarrow> ipc" where
  "ask_RegisterClientShared pid config bytes = dispatch pid 33 (registration_params config 0 bytes)"

lemma pad4: "padding (4 * k) 4 = []"
  by (simp add: padding_def)

lemma registration_layout:
  "raw_layout (registration_params config placeholder bytes) =
     concat (map arg_bytes (config_args config)) @ le64_bytes placeholder @ le64_bytes bytes"
  "length (raw_layout (registration_params config placeholder bytes)) = 48"
proof -
  have p: "padding n 4 = []" if "n \<in> {0, 4, 8, 12, 16, 20, 24, 28}" for n using that by (auto simp: padding_def)
  have q: "padding n 8 = []" if "n \<in> {32, 40, 48}" for n using that by (auto simp: padding_def)
  show "raw_layout (registration_params config placeholder bytes) =
     concat (map arg_bytes (config_args config)) @ le64_bytes placeholder @ le64_bytes bytes"
    by (simp add: raw_layout_def registration_params_def config_args_def p q le32_bytes_length le64_bytes_length)
  then show "length (raw_layout (registration_params config placeholder bytes)) = 48"
    by (simp add: config_args_def le32_bytes_length le64_bytes_length)
qed

text \<open>What one registration asks: at most one message, and outside the proxied titles the game's own.\<close>

lemma registration_asks:
  assumes "RegisterClient env config bytes h ss s = (t, ss', ans, asks)"
  shows "length asks \<le> 1 \<and> (\<not> IsSplatoon2ProgramId (ss_program ss) \<longrightarrow> asks = [Forward config bytes h])"
  using assms
  by (auto simp: RegisterClient_def register_proxy_def register_client_def Let_def split: if_splits option.splits sum.splits prod.splits)

section \<open>The numbers\<close>

text \<open>Each number from 1 to 32 is that of a command; 0 and 33 are the two forms of registration.\<close>

lemma bsd_id_range: "bsd_id c \<in> {1..32}"
proof (cases c)
  case (PlainCmd p)
  then show ?thesis by (cases p) simp_all
qed simp_all


section \<open>The interface as a whole\<close>



end
