(* ===== verification/Nifm.thy ===== *)
theory Nifm
  imports Ipc BsdFlow BsdLife
begin

text \<open>
  The proxy of the network service, \<^verbatim>\<open>mitm/nifm_shim.cpp\<close>: what games of the list of titles are told
  about the console's address, and the request object that says whether the network is available.

  The answer of the real service is an argument, \<open>Inl\<close> an error.
\<close>

section \<open>Addresses\<close>

record NifmIpAddressSetting =
  na_automatic :: u8
  na_current :: "u8 list"
  na_mask :: "u8 list"
  na_gateway :: "u8 list"

record NifmDnsSetting =
  nd_automatic :: u8
  nd_primary :: "u8 list"
  nd_secondary :: "u8 list"

record NifmIpConfigInfo =
  nc_ip :: NifmIpAddressSetting
  nc_dns :: NifmDnsSetting

record NifmSfNetworkProfileData =
  np_config :: NifmIpConfigInfo
  np_opaque :: "u8 list"

definition PutIp :: "u32 \<Rightarrow> u8 list" where
  "PutIp ip = ip_bytes ip"

definition GetIp :: "Port option \<Rightarrow> (u32 \<times> u32) option" where
  "GetIp port = Option.bind port GetLanIpConfig"

definition be_ip :: "u8 list \<Rightarrow> u32" where
  "be_ip a = push_bit 24 (ucast (a ! 0)) OR push_bit 16 (ucast (a ! 1)) OR push_bit 8 (ucast (a ! 2)) OR ucast (a ! 3)"

text \<open>The rewritten configuration, and the physical address that is noted for the interposer.\<close>

definition RewriteIpConfig :: "Port option \<Rightarrow> NifmIpConfigInfo \<Rightarrow> NifmIpConfigInfo \<times> (u32 \<times> u32) option" where
  "RewriteIpConfig port v =
     (case GetIp port of
        None \<Rightarrow> (v, None)
      | Some (ip, netmask) \<Rightarrow>
          (v\<lparr>nc_ip := (nc_ip v)\<lparr>na_automatic := 1, na_current := PutIp ip, na_mask := PutIp netmask, na_gateway := PutIp 0\<rparr>\<rparr>,
           Some (be_ip (na_current (nc_ip v)), be_ip (na_mask (nc_ip v)))))"

section \<open>The general service\<close>

datatype general_call =
    GetClientId
  | CreateRequest int
  | GetCurrentNetworkProfile
  | EnumerateNetworkProfiles u8
  | GetNetworkProfile "u8 list"
  | SetNetworkProfile "u8 list"
  | GetCurrentIpAddress
  | GetCurrentIpConfigInfo
  | IsWirelessCommunicationEnabled
  | GetInternetConnectionStatus
  | IsEthernetCommunicationEnabled
  | IsAnyInternetRequestAccepted "u8 list"
  | IsAnyForegroundRequestAccepted
  | PutToSleep
  | WakeUp
  | SetWowlDelayedWakeTime int
  | IsWiredConnectionAvailable
  | IsNetworkEmulationFeatureEnabled
  | SelectActiveNetworkEmulationProfileIdForDebug u32
  | GetScanData u32
  | ResetActiveNetworkEmulationProfileId
  | GetActiveNetworkEmulationProfileId
  | IsRewriteFeatureEnabled
  | CreateRewriteRule u8 "u8 list"
  | DestroyRewriteRule u64
  | IsActiveNetworkEmulationProfileIdSelected
  | SelectDefaultNetworkEmulationProfileId u32
  | GetDefaultNetworkEmulationProfileId
  | GetNetworkEmulationProfile u32
  | SetWowlTcpKeepAliveTimeout u32

text \<open>The command numbers of the interface, from the header.\<close>

fun general_id :: "general_call \<Rightarrow> nat" where
  "general_id GetClientId = 1"
| "general_id (CreateRequest _) = 4"
| "general_id GetCurrentNetworkProfile = 5"
| "general_id (EnumerateNetworkProfiles _) = 7"
| "general_id (GetNetworkProfile _) = 8"
| "general_id (SetNetworkProfile _) = 9"
| "general_id GetCurrentIpAddress = 12"
| "general_id GetCurrentIpConfigInfo = 15"
| "general_id IsWirelessCommunicationEnabled = 17"
| "general_id GetInternetConnectionStatus = 18"
| "general_id IsEthernetCommunicationEnabled = 20"
| "general_id (IsAnyInternetRequestAccepted _) = 21"
| "general_id IsAnyForegroundRequestAccepted = 22"
| "general_id PutToSleep = 23"
| "general_id WakeUp = 24"
| "general_id (SetWowlDelayedWakeTime _) = 43"
| "general_id IsWiredConnectionAvailable = 44"
| "general_id IsNetworkEmulationFeatureEnabled = 45"
| "general_id (SelectActiveNetworkEmulationProfileIdForDebug _) = 46"
| "general_id (GetScanData _) = 47"
| "general_id ResetActiveNetworkEmulationProfileId = 48"
| "general_id GetActiveNetworkEmulationProfileId = 49"
| "general_id IsRewriteFeatureEnabled = 50"
| "general_id (CreateRewriteRule _ _) = 51"
| "general_id (DestroyRewriteRule _) = 52"
| "general_id IsActiveNetworkEmulationProfileIdSelected = 53"
| "general_id (SelectDefaultNetworkEmulationProfileId _) = 54"
| "general_id GetDefaultNetworkEmulationProfileId = 55"
| "general_id (GetNetworkEmulationProfile _) = 56"
| "general_id (SetWowlTcpKeepAliveTimeout _) = 57"

text \<open>What each method sends to the real service.\<close>

fun general_forward :: "u64 \<Rightarrow> general_call \<Rightarrow> ipc" where
  "general_forward pid GetClientId = dispatch pid 1 []"
| "general_forward pid (CreateRequest type) = dispatch pid 4 [ArgS32 type]"
| "general_forward pid GetCurrentNetworkProfile = dispatch pid 5 []"
| "general_forward pid (EnumerateNetworkProfiles type) = dispatch pid 7 [ArgU8 type]"
| "general_forward pid (GetNetworkProfile profile_id) = dispatch pid 8 [ArgBytes profile_id]"
| "general_forward pid (SetNetworkProfile profile) = dispatch_in pid 9 [] [profile]"
| "general_forward pid GetCurrentIpAddress = dispatch pid 12 []"
| "general_forward pid GetCurrentIpConfigInfo = dispatch pid 15 []"
| "general_forward pid IsWirelessCommunicationEnabled = dispatch pid 17 []"
| "general_forward pid GetInternetConnectionStatus = dispatch pid 18 []"
| "general_forward pid IsEthernetCommunicationEnabled = dispatch pid 20 []"
| "general_forward pid (IsAnyInternetRequestAccepted client) = dispatch_in pid 21 [] [client]"
| "general_forward pid IsAnyForegroundRequestAccepted = dispatch pid 22 []"
| "general_forward pid PutToSleep = dispatch pid 23 []"
| "general_forward pid WakeUp = dispatch pid 24 []"
| "general_forward pid (SetWowlDelayedWakeTime v) = dispatch pid 43 [ArgS32 v]"
| "general_forward pid IsWiredConnectionAvailable = dispatch pid 44 []"
| "general_forward pid IsNetworkEmulationFeatureEnabled = dispatch pid 45 []"
| "general_forward pid (SelectActiveNetworkEmulationProfileIdForDebug v) = dispatch pid 46 [ArgU32 v]"
| "general_forward pid (GetScanData wanted) = dispatch pid 47 [ArgU32 wanted]"
| "general_forward pid ResetActiveNetworkEmulationProfileId = dispatch pid 48 []"
| "general_forward pid GetActiveNetworkEmulationProfileId = dispatch pid 49 []"
| "general_forward pid IsRewriteFeatureEnabled = dispatch pid 50 []"
| "general_forward pid (CreateRewriteRule enabled rule) = dispatch_in pid 51 [ArgU8 enabled] [rule]"
| "general_forward pid (DestroyRewriteRule rule_id) = dispatch pid 52 [ArgU64 rule_id]"
| "general_forward pid IsActiveNetworkEmulationProfileIdSelected = dispatch pid 53 []"
| "general_forward pid (SelectDefaultNetworkEmulationProfileId v) = dispatch pid 54 [ArgU32 v]"
| "general_forward pid GetDefaultNetworkEmulationProfileId = dispatch pid 55 []"
| "general_forward pid (GetNetworkEmulationProfile v) = dispatch pid 56 [ArgU32 v]"
| "general_forward pid (SetWowlTcpKeepAliveTimeout v) = dispatch pid 57 [ArgU32 v]"

text \<open>The value of an answer: an address, a configuration, a profile, or bytes.\<close>

datatype nifm_value =
    VIp "u8 list"
  | VConfig NifmIpConfigInfo
  | VProfile NifmSfNetworkProfileData
  | VBytes "u8 list"

definition rewrite_profile :: "Port option \<Rightarrow> NifmSfNetworkProfileData \<Rightarrow> NifmSfNetworkProfileData \<times> (u32 \<times> u32) option" where
  "rewrite_profile port v = (case RewriteIpConfig port (np_config v) of (c, seen) \<Rightarrow> (v\<lparr>np_config := c\<rparr>, seen))"

definition general_exec ::
  "Port option \<Rightarrow> general_call \<Rightarrow> nat + nifm_value \<Rightarrow> (nat + nifm_value) \<times> (u32 \<times> u32) option" where
  "general_exec port call rep =
     (case (call, rep) of
        (GetCurrentNetworkProfile, Inr (VProfile v)) \<Rightarrow>
          (case rewrite_profile port v of (w, seen) \<Rightarrow> (Inr (VProfile w), seen))
      | (GetNetworkProfile _, Inr (VProfile v)) \<Rightarrow>
          (case rewrite_profile port v of (w, seen) \<Rightarrow> (Inr (VProfile w), seen))
      | (GetCurrentIpAddress, Inr (VIp v)) \<Rightarrow>
          (case GetIp port of None \<Rightarrow> (rep, None) | Some (ip, netmask) \<Rightarrow> (Inr (VIp (PutIp ip)), None))
      | (GetCurrentIpConfigInfo, Inr (VConfig v)) \<Rightarrow>
          (case RewriteIpConfig port v of (w, seen) \<Rightarrow> (Inr (VConfig w), seen))
      | _ \<Rightarrow> (rep, None))"

section \<open>Which games are proxied\<close>

definition Splatoon3ProgramId :: u64 where "Splatoon3ProgramId = 0x0100C2500FC20000"

definition UsesRyujinxNifmRequestModel :: "u64 \<Rightarrow> bool" where
  "UsesRyujinxNifmRequestModel program \<longleftrightarrow> program = Splatoon3ProgramId"

definition nifm_ShouldMitm :: "u64 \<Rightarrow> bool" where
  "nifm_ShouldMitm program \<longleftrightarrow> FindLanTitle program \<noteq> None"

section \<open>The request object\<close>

record nifm_request =
  q_pid :: u64
  q_program :: u64
  q_barrier :: bool
  q_option :: u8
  q_shoal :: bool
  q_events :: "(u32 \<times> u32) option"

definition new_request :: "u64 \<Rightarrow> u64 \<Rightarrow> nifm_request" where
  "new_request pid program = \<lparr>q_pid = pid, q_program = program, q_barrier = False, q_option = 0, q_shoal = False, q_events = None\<rparr>"

text \<open>
  Opening the general service and a request: what is sent, and the object made from a successful
  answer.  Both objects keep the process and the title of the client.
\<close>

definition CreateGeneralService :: "u64 \<Rightarrow> u64 \<Rightarrow> nat + unit \<Rightarrow> ipc \<times> (nat + u64 \<times> u64)" where
  "CreateGeneralService pid program rep =
     (dispatch pid 5 [ArgU64 0], case rep of Inl rc \<Rightarrow> Inl rc | Inr _ \<Rightarrow> Inr (pid, program))"

definition CreateRequest_object :: "u64 \<times> u64 \<Rightarrow> nat + unit \<Rightarrow> nat + nifm_request" where
  "CreateRequest_object general rep =
     (case rep of Inl rc \<Rightarrow> Inl rc | Inr _ \<Rightarrow> Inr (new_request (fst general) (snd general)))"

text \<open>
  The outside of one call: the port, the answer of the real service as raw values, the two events
  the system creates, and for the barrier the clock and the port as the wait sees them.
\<close>

record nifm_env =
  v_port :: "Port option"
  v_rep :: "nat + u32 list"
  v_create :: "(nat + u32) \<times> (nat + u32)"
  v_started :: u64
  v_polls :: "(Port \<times> u64) list"

text \<open>What a call does: what it sends, what it answers, and whether it held the answer back.\<close>

record outcome =
  o_sent :: "ipc option"
  o_answer :: "nat + u32 list"
  o_waited :: bool

definition local :: "nat + u32 list \<Rightarrow> outcome" where
  "local ans = \<lparr>o_sent = None, o_answer = ans, o_waited = False\<rparr>"

definition forwarded :: "nifm_request \<Rightarrow> nat \<Rightarrow> arg list \<Rightarrow> nifm_env \<Rightarrow> outcome" where
  "forwarded q cmd raw env = \<lparr>o_sent = Some (dispatch (q_pid q) cmd raw), o_answer = v_rep env, o_waited = False\<rparr>"

definition RyujinxInternetEnabled :: "Port option \<Rightarrow> u64 \<Rightarrow> bool \<Rightarrow> bool" where
  "RyujinxInternetEnabled port program lan_requested \<longleftrightarrow>
     UsesRyujinxNifmRequestModel program \<and> lan_requested \<and> GetIp port \<noteq> None"

definition NifmTransportBarrierTimeoutMs :: int where "NifmTransportBarrierTimeoutMs = 10000"

text \<open>\<open>None\<close>: the observations of the wait end before it does.\<close>

definition GetRequestState :: "nifm_env \<Rightarrow> nifm_request \<Rightarrow> (nifm_request \<times> outcome) option" where
  "GetRequestState env q =
     (if UsesRyujinxNifmRequestModel (q_program q) then
        let lan_requested = (q_option q = 1);
            enabled = RyujinxInternetEnabled (v_port env) (q_program q) lan_requested;
            q1 = (if lan_requested \<and> \<not> q_shoal q \<and> v_port env \<noteq> None then q\<lparr>q_shoal := True\<rparr> else q) in
        Some (q1, local (Inr [if enabled then 3 else 1]))
      else
        let out = forwarded q 0 [] env in
        case (v_rep env, v_port env) of
          (Inr [state], Some p) \<Rightarrow>
            if state = 3 \<and> \<not> q_barrier q \<and> FindLanTitle (q_program q) \<noteq> None then
              let q1 = q\<lparr>q_barrier := True\<rparr> in
              if LanTransportReady p then Some (q1, out)
              else do {
                ready \<leftarrow> WaitForLanTransportReady NifmTransportBarrierTimeoutMs p (v_started env) (v_polls env);
                Some (q1, out\<lparr>o_waited := True\<rparr>) }
            else Some (q, out)
        | _ \<Rightarrow> Some (q, out))"

definition GetResult :: "nifm_env \<Rightarrow> nifm_request \<Rightarrow> outcome" where
  "GetResult env q = (if UsesRyujinxNifmRequestModel (q_program q) then local (Inr []) else forwarded q 1 [] env)"

text \<open>Both events are made on the first call; if the second cannot be, the first is destroyed.\<close>

definition GetEvents :: "nifm_env \<Rightarrow> nifm_request \<Rightarrow> nifm_request \<times> outcome" where
  "GetEvents env q =
     (if UsesRyujinxNifmRequestModel (q_program q) then
        (case q_events q of
           Some (h1, h2) \<Rightarrow> (q, local (Inr [h1, h2]))
         | None \<Rightarrow>
             (case v_create env of
                (Inl rc, _) \<Rightarrow> (q, local (Inl rc))
              | (Inr h1, Inl rc) \<Rightarrow> (q, local (Inl rc))
              | (Inr h1, Inr h2) \<Rightarrow> (q\<lparr>q_events := Some (h1, h2)\<rparr>, local (Inr [h1, h2]))))
      else (q, forwarded q 2 [] env))"

definition rearm :: "nifm_request \<Rightarrow> nifm_request" where
  "rearm q = q\<lparr>q_barrier := False, q_shoal := False\<rparr>"

definition Cancel :: "nifm_env \<Rightarrow> nifm_request \<Rightarrow> nifm_request \<times> outcome" where
  "Cancel env q = (rearm q,
     if UsesRyujinxNifmRequestModel (q_program q) then local (Inr []) else forwarded q 3 [] env)"

definition Submit :: "nifm_env \<Rightarrow> nifm_request \<Rightarrow> nifm_request \<times> outcome" where
  "Submit env q = (rearm q,
     if UsesRyujinxNifmRequestModel (q_program q) then local (Inr []) else forwarded q 4 [] env)"

definition SetConnectionConfirmationOption :: "nifm_env \<Rightarrow> u8 \<Rightarrow> nifm_request \<Rightarrow> nifm_request \<times> outcome" where
  "SetConnectionConfirmationOption env v q =
     (if UsesRyujinxNifmRequestModel (q_program q)
      then ((if v = 1 then q\<lparr>q_option := v, q_shoal := False\<rparr> else q\<lparr>q_option := v\<rparr>), local (Inr []))
      else (q, forwarded q 11 [ArgU8 v] env))"

text \<open>All calls; those without a state of their own carry their arguments.\<close>

datatype request_call =
    CallState | CallResult | CallEvents | CallCancel | CallSubmit | CallConfirm u8
  | SetRequirement "u8 list" | SetNetworkProfileId "u8 list" | SetPersistent | GetRequirement
  | GetAppletInfo u32 | SetKeptInSleep u8 | RegisterSocketDescriptor int | UnregisterSocketDescriptor int
  | GetNetworkAccessStatus

fun request_id :: "request_call \<Rightarrow> nat" where
  "request_id CallState = 0"
| "request_id CallResult = 1"
| "request_id CallEvents = 2"
| "request_id CallCancel = 3"
| "request_id CallSubmit = 4"
| "request_id (SetRequirement _) = 5"
| "request_id (SetNetworkProfileId _) = 9"
| "request_id (CallConfirm _) = 11"
| "request_id SetPersistent = 12"
| "request_id GetRequirement = 19"
| "request_id (GetAppletInfo _) = 21"
| "request_id (SetKeptInSleep _) = 23"
| "request_id (RegisterSocketDescriptor _) = 24"
| "request_id (UnregisterSocketDescriptor _) = 25"
| "request_id GetNetworkAccessStatus = 26"

fun request_exec :: "nifm_env \<Rightarrow> request_call \<Rightarrow> nifm_request \<Rightarrow> (nifm_request \<times> outcome) option" where
  "request_exec env CallState q = GetRequestState env q"
| "request_exec env CallResult q = Some (q, GetResult env q)"
| "request_exec env CallEvents q = Some (GetEvents env q)"
| "request_exec env CallCancel q = Some (Cancel env q)"
| "request_exec env CallSubmit q = Some (Submit env q)"
| "request_exec env (CallConfirm v) q = Some (SetConnectionConfirmationOption env v q)"
| "request_exec env (SetRequirement r) q = Some (q, forwarded q 5 [ArgBytes r] env)"
| "request_exec env (SetNetworkProfileId i) q = Some (q, forwarded q 9 [ArgBytes i] env)"
| "request_exec env SetPersistent q = Some (q, forwarded q 12 [] env)"
| "request_exec env GetRequirement q = Some (q, forwarded q 19 [] env)"
| "request_exec env (GetAppletInfo colour) q = Some (q, forwarded q 21 [ArgU32 colour] env)"
| "request_exec env (SetKeptInSleep kept) q = Some (q, forwarded q 23 [ArgU8 kept] env)"
| "request_exec env (RegisterSocketDescriptor fd) q = Some (q, forwarded q 24 [ArgS32 fd] env)"
| "request_exec env (UnregisterSocketDescriptor fd) q = Some (q, forwarded q 25 [ArgS32 fd] env)"
| "request_exec env GetNetworkAccessStatus q = Some (q, forwarded q 26 [] env)"


section \<open>One identity\<close>

definition reads_address :: "general_call \<Rightarrow> bool" where
  "reads_address c \<longleftrightarrow> general_id c \<in> {5, 8, 12, 15}"

text \<open>The kind of value each call is answered with.\<close>

fun answers :: "general_call \<Rightarrow> nifm_value \<Rightarrow> bool" where
  "answers GetCurrentNetworkProfile v = (\<exists>x. v = VProfile x)"
| "answers (GetNetworkProfile _) v = (\<exists>x. v = VProfile x)"
| "answers GetCurrentIpAddress v = (\<exists>x. v = VIp x)"
| "answers GetCurrentIpConfigInfo v = (\<exists>x. v = VConfig x)"
| "answers _ v = (\<exists>x. v = VBytes x)"

text \<open>The address a value shows, and the value without what belongs to the address.\<close>

fun shown :: "nifm_value \<Rightarrow> u8 list option" where
  "shown (VIp a) = Some a"
| "shown (VConfig c) = Some (na_current (nc_ip c))"
| "shown (VProfile p) = Some (na_current (nc_ip (np_config p)))"
| "shown (VBytes b) = None"

definition anonymous :: "NifmIpConfigInfo \<Rightarrow> NifmIpConfigInfo" where
  "anonymous c = c\<lparr>nc_ip := \<lparr>na_automatic = 0, na_current = [], na_mask = [], na_gateway = []\<rparr>\<rparr>"

fun rest_of :: "nifm_value \<Rightarrow> nifm_value" where
  "rest_of (VIp a) = VIp []"
| "rest_of (VConfig c) = VConfig (anonymous c)"
| "rest_of (VProfile p) = VProfile (p\<lparr>np_config := anonymous (np_config p)\<rparr>)"
| "rest_of (VBytes b) = VBytes b"

lemma forward_own_id: "i_cmd (general_forward pid c) = general_id c" "i_pid (general_forward pid c) = Some pid"
  by (cases c; simp add: dispatch_def)+

lemma rewrite_fields:
  "GetIp port = Some (ip, netmask) \<Longrightarrow>
   na_current (nc_ip (fst (RewriteIpConfig port c))) = PutIp ip \<and> anonymous (fst (RewriteIpConfig port c)) = anonymous c"
  "GetIp port = None \<Longrightarrow> RewriteIpConfig port c = (c, None)"
  by (simp_all add: RewriteIpConfig_def anonymous_def)

lemma general_unchanged:
  assumes "GetIp port = None \<or> \<not> reads_address c"
  shows "fst (general_exec port c (Inr v)) = Inr v"
  using assms
  by (cases c; cases v) (auto simp: general_exec_def reads_address_def rewrite_profile_def rewrite_fields(2))

lemma general_shown:
  assumes "GetIp port = Some (ip, netmask)" and "reads_address c" and "answers c v"
  shows "\<exists>w. fst (general_exec port c (Inr v)) = Inr w \<and> shown w = Some (PutIp ip) \<and> rest_of w = rest_of v"
proof -
  have r: "na_current (nc_ip (fst (RewriteIpConfig port x))) = PutIp ip"
    "anonymous (fst (RewriteIpConfig port x)) = anonymous x" for x
    using rewrite_fields(1) [OF assms(1)] by auto
  show ?thesis using assms r
    by (cases c) (auto simp: general_exec_def reads_address_def rewrite_profile_def split: prod.split, (metis fst_conv)+)
qed

lemma edit_keeps_vfd:
  assumes "edit_found l_udp (\<lambda>e. e\<lparr>l_boundPort := b\<rparr>) pid fd s = Some t"
  shows "GetLanVfd pid fd t = GetLanVfd pid fd s \<and> b_port t = b_port s"
proof -
  obtain i where i: "FindLanSocketLocked pid fd s = Some i" "t = set_lan i (\<lambda>e. e\<lparr>l_boundPort := b\<rparr>) s"
    using assms by (auto simp: edit_found_def split: option.splits if_splits)
  have len: "i < length (b_socks s)" using find_index_SomeD i(1) by (auto simp: FindLanSocketLocked_def split: if_splits)
  have "FindLanSocketLocked pid fd (set_lan i (\<lambda>e. e\<lparr>l_boundPort := b\<rparr>) s) = Some i"
    by (rule find_after_edit [OF i(1) len]) simp
  with i len show ?thesis by (simp add: GetLanVfd_def set_lan_def)
qed

lemma sockname_identity:
  assumes "GetIp (b_port s) = Some (ip, netmask)" and "GetLanVfd pid fd s \<noteq> InvalidSocket" and "8 \<le> length (v_addr bufs)"
  shows "\<exists>t b. bsd_GetSockName pid fd (Inr ((0, err), bufs)) s = (t, Service (Inr ((0, err), b))) \<and>
    take 4 (drop 4 (v_addr b)) = PutIp ip"
proof -
  let ?t = "if addr_port (v_addr bufs) \<noteq> 0
      then (case edit_found l_udp (\<lambda>e. e\<lparr>l_boundPort := addr_port (v_addr bufs)\<rparr>) pid fd s of None \<Rightarrow> s | Some t \<Rightarrow> t)
      else s"
  have t: "GetLanVfd pid fd ?t \<noteq> InvalidSocket" "Option.bind (b_port ?t) GetLanIpConfig = Some (ip, netmask)"
    using assms(1,2) edit_keeps_vfd [of _ pid fd s] by (auto simp: GetIp_def split: option.split)
  have "take 4 (drop 4 (managed_name ip (v_addr bufs))) = PutIp ip"
    using assms(3) by (simp add: managed_name_def PutIp_def ip_bytes_def)
  with t assms(3) show ?thesis by (simp add: bsd_GetSockName_def Let_def)
qed


section \<open>The two kinds of request\<close>

fun request_run :: "(nifm_env \<times> request_call) list \<Rightarrow> nifm_request \<Rightarrow> (nifm_request \<times> outcome list) option" where
  "request_run [] q = Some (q, [])"
| "request_run ((env, call) # es) q = do {
     (q1, out) \<leftarrow> request_exec env call q;
     (q2, outs) \<leftarrow> request_run es q1;
     Some (q2, out # outs) }"

text \<open>The option that was set last, and whether a wait that begins in this environment ends.\<close>

fun last_option :: "u8 \<Rightarrow> request_call list \<Rightarrow> u8" where
  "last_option v [] = v"
| "last_option v (CallConfirm w # cs) = last_option w cs"
| "last_option v (c # cs) = last_option v cs"

definition wait_ends :: "nifm_env \<Rightarrow> bool" where
  "wait_ends env \<longleftrightarrow> (\<forall>p. v_port env = Some p \<longrightarrow>
     WaitForLanTransportReady NifmTransportBarrierTimeoutMs p (v_started env) (v_polls env) \<noteq> None)"

definition arms :: "request_call \<Rightarrow> bool" where
  "arms c \<longleftrightarrow> c = CallSubmit \<or> c = CallCancel"

definition local_call :: "request_call \<Rightarrow> bool" where
  "local_call c \<longleftrightarrow> request_id c \<in> {0, 1, 2, 3, 4, 11}"

lemma exec_returns: "wait_ends env \<Longrightarrow> \<exists>r out. request_exec env c q = Some (r, out)"
  by (cases c) (auto simp: GetRequestState_def wait_ends_def Let_def split: sum.split list.split option.split)

lemma exec_same: "request_exec env c q = Some (r, out) \<Longrightarrow> q_program r = q_program q \<and> q_pid r = q_pid q"
  by (cases c) (auto simp: GetRequestState_def GetEvents_def Cancel_def Submit_def rearm_def
    SetConnectionConfirmationOption_def Let_def split: if_splits sum.splits list.splits option.splits prod.splits bind_splits)

lemma exec_native:
  assumes "request_exec env c q = Some (r, out)" and "\<not> UsesRyujinxNifmRequestModel (q_program q)"
  shows "(\<exists>raw. o_sent out = Some (dispatch (q_pid q) (request_id c) raw)) \<and> o_answer out = v_rep env"
  using assms by (cases c) (auto simp: GetRequestState_def GetResult_def GetEvents_def Cancel_def Submit_def
    SetConnectionConfirmationOption_def forwarded_def Let_def split: if_splits sum.splits list.splits option.splits bind_splits)

lemma exec_emulated:
  assumes "request_exec env c q = Some (r, out)" and "UsesRyujinxNifmRequestModel (q_program q)"
  shows "q_option r = last_option (q_option q) [c]" and "\<not> o_waited out"
    and "local_call c \<Longrightarrow> o_sent out = None"
    and "c = CallState \<Longrightarrow> o_answer out = Inr [if q_option q = 1 \<and> GetIp (v_port env) \<noteq> None then 3 else 1]"
  using assms by (cases c; auto simp: GetRequestState_def GetResult_def GetEvents_def Cancel_def Submit_def rearm_def
    SetConnectionConfirmationOption_def local_def forwarded_def local_call_def RyujinxInternetEnabled_def Let_def
    split: if_splits sum.splits prod.splits option.splits)+

lemma exec_waits:
  assumes "request_exec env c q = Some (r, out)"
  shows "of_bool (o_waited out) + of_bool (q_barrier q) \<le> (of_bool (q_barrier r) + of_bool (arms c) :: nat)"
  using assms by (cases c) (auto simp: GetRequestState_def GetResult_def GetEvents_def Cancel_def Submit_def rearm_def arms_def
    SetConnectionConfirmationOption_def local_def forwarded_def Let_def
    split: if_splits sum.splits list.splits option.splits prod.splits bind_splits)

lemma run_returns:
  "\<forall>(env, c) \<in> set es. wait_ends env \<Longrightarrow> \<exists>r outs. request_run es q = Some (r, outs)"
proof (induction es arbitrary: q)
  case (Cons e es)
  obtain env c where e: "e = (env, c)" by (cases e)
  obtain q1 out where "request_exec env c q = Some (q1, out)" using Cons.prems e exec_returns by fastforce
  moreover obtain r outs where "request_run es q1 = Some (r, outs)" using Cons by fastforce
  ultimately show ?case using e by simp
qed simp

lemma run_waits:
  "request_run es q = Some (r, outs) \<Longrightarrow>
   length outs = length es \<and>
   length (List.filter o_waited outs) + of_bool (q_barrier q) \<le> 1 + length (List.filter arms (map snd es))"
proof (induction es arbitrary: q outs)
  case (Cons e es)
  obtain env c where e: "e = (env, c)" by (cases e)
  from Cons.prems e obtain q1 out os where s: "request_exec env c q = Some (q1, out)"
    "request_run es q1 = Some (r, os)" "outs = out # os" by (auto split: bind_splits)
  show ?case using Cons.IH [OF s(2)] exec_waits [OF s(1)] s(3) e by (auto simp: of_bool_def split: if_splits)
qed simp

lemma run_step:
  "request_run es q = Some (r, outs) \<Longrightarrow> i < length es \<Longrightarrow>
   \<exists>q1 q2. request_exec (fst (es ! i)) (snd (es ! i)) q1 = Some (q2, outs ! i) \<and>
     q_program q1 = q_program q \<and> q_pid q1 = q_pid q \<and>
     (UsesRyujinxNifmRequestModel (q_program q) \<longrightarrow> q_option q1 = last_option (q_option q) (map snd (take i es)))"
proof (induction es arbitrary: q outs i)
  case (Cons e es)
  obtain env c where e: "e = (env, c)" by (cases e)
  from Cons.prems e obtain q1 out os where s: "request_exec env c q = Some (q1, out)"
    "request_run es q1 = Some (r, os)" "outs = out # os" by (auto split: bind_splits)
  show ?case
  proof (cases i)
    case (Suc j)
    have "last_option (last_option v [c]) cs = last_option v (c # cs)" for v cs by (cases c) simp_all
    then show ?thesis
      using Cons.IH [OF s(2), of j] Cons.prems(2) s(1,3) e Suc exec_same [OF s(1)] exec_emulated(1) [OF s(1)]
      by (fastforce simp del: last_option.simps)
  qed (use s e in auto)
qed simp




end
