(* ===== verification/Startup.thy ===== *)
theory Startup
  imports PortLoop StateStore
begin

text \<open>
  How the module comes up (\<^verbatim>\<open>source/main.cpp\<close>, \<^verbatim>\<open>MountState\<close> and the identity workspace of
  \<^verbatim>\<open>source/zt_port.cpp\<close>): the node thread from its first line to the run loop, as the list of what it
  does, given the answers of the system.
\<close>

section \<open>Sizes\<close>

record SocketInitConfig =
  tcp_tx_buf_size :: nat
  tcp_rx_buf_size :: nat
  tcp_tx_buf_max_size :: nat
  tcp_rx_buf_max_size :: nat
  udp_tx_buf_size :: nat
  udp_rx_buf_size :: nat
  sb_efficiency :: nat
  num_bsd_sessions :: nat

definition SocketConfig :: SocketInitConfig where
  "SocketConfig = \<lparr>tcp_tx_buf_size = 0x800, tcp_rx_buf_size = 0x800, tcp_tx_buf_max_size = 0x800,
     tcp_rx_buf_max_size = 0x800, udp_tx_buf_size = 0x2000, udp_rx_buf_size = 0x2000, sb_efficiency = 2, num_bsd_sessions = 2\<rparr>"

definition AlignUp :: "nat \<Rightarrow> nat \<Rightarrow> nat" where "AlignUp v a = (v + a - 1) div a * a"

definition GetBsdTransferMemorySize :: "SocketInitConfig \<Rightarrow> nat" where
  "GetBsdTransferMemorySize c =
     (let tcp_tx = (if tcp_tx_buf_max_size c \<noteq> 0 then tcp_tx_buf_max_size c else tcp_tx_buf_size c);
          tcp_rx = (if tcp_rx_buf_max_size c \<noteq> 0 then tcp_rx_buf_max_size c else tcp_rx_buf_size c) in
      sb_efficiency c * AlignUp (tcp_tx + tcp_rx + udp_tx_buf_size c + udp_rx_buf_size c) 0x1000)"

section \<open>Sampling the resource limits\<close>

definition ResourceNames :: "string list" where
  "ResourceNames = [''memory'', ''threads'', ''events'', ''tmem'', ''sessions'']"

text \<open>
  The answers: the two queries for the group's handle (\<open>None\<close> an error, \<open>Some None\<close> the invalid handle), the
  limits (\<open>None\<close> leaves 0) and for each sample the five current values.  The result is what is logged,
  per resource: peak, limit and free, in kilobytes for memory.
\<close>

definition raise_peak :: "int option \<Rightarrow> int \<Rightarrow> int" where
  "raise_peak v peak = (case v of Some x \<Rightarrow> if peak < x then x else peak | None \<Rightarrow> peak)"

definition peaks :: "int option list list \<Rightarrow> int list" where
  "peaks samples = fold (\<lambda>vs ps. map2 raise_peak vs ps) samples (replicate 5 0)"

definition ProbeResourceLimits ::
  "u32 option option \<times> u32 option option \<Rightarrow> int option list \<Rightarrow> int option list list \<Rightarrow> nat \<Rightarrow> (string \<times> int \<times> int \<times> int) list" where
  "ProbeResourceLimits found limits samples window =
     (case (case fst found of Some h \<Rightarrow> h | None \<Rightarrow> case snd found of Some h \<Rightarrow> h | None \<Rightarrow> None) of
        None \<Rightarrow> []
      | Some _ \<Rightarrow>
          (let ls = map (\<lambda>l. case l of Some x \<Rightarrow> x | None \<Rightarrow> 0) limits; ps = peaks (take (window div 250) samples) in
           map (\<lambda>i. let d = (if i = 0 then 1024 else 1) in
                  (ResourceNames ! i, trunc_div (ps ! i) d, trunc_div (ls ! i) d, trunc_div (ls ! i - ps ! i) d)) [0..<5]))"

section \<open>The card\<close>

definition ConfigDir :: string where "ConfigDir = ''sdmc:/config/sys-zerotier''"
definition SavedNetworksPath :: string where "SavedNetworksPath = ConfigDir @ ''/networks.ini''"

definition MountDirs :: "string list" where
  "MountDirs = [''sdmc:/atmosphere/contents/4200000000005A54'', StateRoot, StateRoot @ ''/networks.d'', StateRoot @ ''/peers.d'',
     ''sdmc:/config'', ConfigDir]"

text \<open>
  The answers of one attempt: mounting, each directory (made or already there), opening the list of saved
  networks, and making it (made or already there).
\<close>

record mount_env =
  me_mount :: bool
  me_dir :: "string \<Rightarrow> bool"
  me_open :: bool
  me_create :: bool

text \<open>\<^verbatim>\<open>MountState\<close>: its answer, and the directories and files it asked for.\<close>

definition MountState :: "mount_env \<Rightarrow> bool \<times> string list" where
  "MountState m =
     (if \<not> me_mount m then (False, [])
      else (list_all (me_dir m) MountDirs \<and> (me_open m \<or> me_create m),
            MountDirs @ (if me_open m then [] else [SavedNetworksPath])))"

section \<open>The workspace for identities\<close>

text \<open>
  The heap of the process while \<^verbatim>\<open>ztnx_genmem_alloc\<close> and \<^verbatim>\<open>ztnx_genmem_free\<close> use it: what the heap is set to,
  the block (0 for none) and the count of failures.  An attempt's answers are those of setting the
  heap and of the block, which is an address other than 0.
\<close>

definition GenMemSize :: nat where "GenMemSize = 2 * 1024 * 1024"

record genmem =
  gm_heap :: nat
  gm_addr :: u64
  gm_fails :: nat
  gm_slept :: nat

fun ztnx_genmem_alloc :: "(bool \<times> u64 option) list \<Rightarrow> genmem \<Rightarrow> genmem \<times> u64 option" where
  "ztnx_genmem_alloc [] g = (g, None)"
| "ztnx_genmem_alloc ((heap, block) # rs) g =
     (case (if heap then block else None) of
        Some a \<Rightarrow> (g\<lparr>gm_heap := GenMemSize, gm_addr := a\<rparr>, Some a)
      | None \<Rightarrow> ztnx_genmem_alloc rs (g\<lparr>gm_heap := 0, gm_addr := 0, gm_fails := gm_fails g + 1, gm_slept := gm_slept g + 3\<rparr>))"

definition ztnx_genmem_free :: "u64 \<Rightarrow> genmem \<Rightarrow> genmem" where
  "ztnx_genmem_free p g =
     (if gm_addr g = 0 \<or> p \<noteq> gm_addr g then g else g\<lparr>gm_heap := 0, gm_addr := 0\<rparr>)"

section \<open>What the node thread does\<close>

datatype boot_event =
    Sampled
  | MountTry bool
  | Slept nat
  | PscRegistered u32
  | PscStarted
  | PortSet
  | NifmPortSet
  | MitmRegistered string
  | MitmStarted string
  | TimeReady
  | CsrngReady
  | BsdReady
  | SocketReady
  | IdFound u64
  | PortInit u64 bool

text \<open>The results of the attempts of \<^verbatim>\<open>LateInitialize\<close>, and all answers of a start.\<close>

record late_env =
  le_time :: bool
  le_csrng :: bool
  le_bsd :: bool
  le_socket :: bool

record boot_env =
  be_mounts :: "mount_env list"
  be_config :: "string option"
  be_psc :: "bool \<times> bool"
  be_bsd :: "bool \<times> bool"
  be_nifm :: "bool \<times> bool"
  be_late :: "late_env list"
  be_files :: "(string option \<times> string option) list"
  be_inits :: "(open_env \<times> nat option \<times> bool) list"

text \<open>The thread runs the loop with a port, idles, or is still waiting when the answers end.\<close>

datatype boot_end = Entered Port | Idling | Waiting

fun mount_loop :: "nat \<Rightarrow> mount_env list \<Rightarrow> boot_event list \<times> bool" where
  "mount_loop attempt [] = ([], False)"
| "mount_loop attempt (m # ms) =
     (if fst (MountState m) then ([MountTry True], True)
      else if 30 \<le> attempt then ([MountTry False], True)
      else case mount_loop (attempt + 1) ms of (evs, go) \<Rightarrow> (MountTry False # Slept 2000 # evs, go))"

definition DefaultPscModuleId :: int where "DefaultPscModuleId = 126"

text \<open>\<open>None\<close>: the number of the module overflows an \<^verbatim>\<open>int\<close>.\<close>

definition StartPowerMonitor :: "string option \<Rightarrow> bool \<times> bool \<Rightarrow> boot_event list option" where
  "StartPowerMonitor config psc =
     (if \<not> ConfigFlag config ''psc_enable'' False then Some []
      else do {
        mid \<leftarrow> ConfigValue config ''psc_module_id'' DefaultPscModuleId;
        Some (if \<not> fst psc then []
              else PscRegistered (word_of_int mid) # (if snd psc then [PscStarted] else [])) })"

definition StartNifmMitm :: "string option \<Rightarrow> bool \<times> bool \<Rightarrow> boot_event list" where
  "StartNifmMitm config nifm =
     (if \<not> ConfigFlag config ''nifm_mitm'' True \<or> \<not> fst nifm then []
      else MitmRegistered ''nifm:u'' # (if snd nifm then [MitmStarted ''nifm:u''] else []))"

definition StartBsdMitm :: "string option \<Rightarrow> bool \<times> bool \<Rightarrow> bool \<times> bool \<Rightarrow> boot_event list" where
  "StartBsdMitm config bsd nifm =
     (if \<not> ConfigFlag config ''bsd_mitm'' True \<or> \<not> fst bsd then []
      else MitmRegistered ''bsd:u'' # (if snd bsd then MitmStarted ''bsd:u'' # StartNifmMitm config nifm else []))"

definition LateInitialize :: "bool \<Rightarrow> bool \<Rightarrow> bool \<Rightarrow> late_env \<Rightarrow> boot_event list \<times> bool" where
  "LateInitialize want_time want_csrng want_bsd l =
     (if want_time \<and> \<not> le_time l then ([], False)
      else let e1 = (if want_time then [TimeReady] else []) in
        if want_csrng \<and> \<not> le_csrng l then (e1, False)
        else let e2 = e1 @ (if want_csrng then [CsrngReady] else []) in
          if \<not> want_bsd then (e2, True)
          else if \<not> le_bsd l then (e2, False)
          else if \<not> le_socket l then (e2 @ [BsdReady], False)
          else (e2 @ [BsdReady, SocketReady], True))"

fun late_loop :: "bool \<Rightarrow> bool \<Rightarrow> bool \<Rightarrow> late_env list \<Rightarrow> boot_event list \<times> bool" where
  "late_loop t c b [] = ([], False)"
| "late_loop t c b (l # ls) =
     (case LateInitialize t c b l of
        (evs, True) \<Rightarrow> (evs, True)
      | (evs, False) \<Rightarrow> (case late_loop t c b ls of (rest, go) \<Rightarrow> (evs @ Slept 5000 # rest, go)))"

fun init_loop :: "core \<Rightarrow> u64 \<Rightarrow> (open_env \<times> nat option \<times> bool) list \<Rightarrow> Port \<Rightarrow> (boot_event list \<times> Port option) option" where
  "init_loop core nwid [] p = Some ([], None)"
| "init_loop core nwid ((e, arena, mapper) # es) p = do {
     (q, ok) \<leftarrow> Initialize core nwid e arena mapper p;
     if ok then Some ([PortInit nwid True], Some q)
     else do {
       (rest, r) \<leftarrow> init_loop core nwid es q;
       Some (PortInit nwid False # Slept 5000 # rest, r) } }"

definition run_node :: "core \<Rightarrow> boot_env \<Rightarrow> Port \<Rightarrow> (boot_event list \<times> boot_end) option" where
  "run_node core e p =
     (case snd (WaitForConfiguredNetworkId (be_files e)) of
        None \<Rightarrow> Some ([], Waiting)
      | Some nwid \<Rightarrow> do {
          (evs, r) \<leftarrow> init_loop core nwid (be_inits e) p;
          Some (IdFound nwid # evs, case r of Some q \<Rightarrow> Entered q | None \<Rightarrow> Waiting) })"

text \<open>The flags are read once, after the card is mounted.\<close>

definition NodeThreadMain :: "core \<Rightarrow> boot_env \<Rightarrow> (boot_event list \<times> boot_end) option" where
  "NodeThreadMain core e =
     (case mount_loop 0 (be_mounts e) of
        (mounts, False) \<Rightarrow> Some (Sampled # mounts, Waiting)
      | (mounts, True) \<Rightarrow>
          let flag = ConfigFlag (be_config e); t = flag ''init_time'' True; c = flag ''init_csrng'' True;
              b = flag ''init_bsd'' True; n = flag ''run_node'' True in
          do {
            psc \<leftarrow> StartPowerMonitor (be_config e) (be_psc e);
            let up = Sampled # mounts @ psc @ [PortSet, NifmPortSet] @ StartBsdMitm (be_config e) (be_bsd e) (be_nifm e);
            (case late_loop t c b (be_late e) of
               (late, False) \<Rightarrow> Some (up @ late, Waiting)
             | (late, True) \<Rightarrow>
                 if \<not> n \<or> \<not> b then Some (up @ late, Idling)
                 else do {
                   (evs, end) \<leftarrow> run_node core e port_fresh;
                   Some (up @ late @ evs, end) }) })"

section \<open>The order of the start\<close>

text \<open>What has to have happened before an event.\<close>

fun needs :: "boot_event \<Rightarrow> boot_event set \<Rightarrow> bool" where
  "needs (MitmRegistered s) S \<longleftrightarrow> (\<exists>b. MountTry b \<in> S) \<and> PortSet \<in> S \<and> NifmPortSet \<in> S \<and> (s = ''nifm:u'' \<longrightarrow> MitmStarted ''bsd:u'' \<in> S)"
| "needs (MitmStarted s) S \<longleftrightarrow> MitmRegistered s \<in> S"
| "needs (PscRegistered m) S \<longleftrightarrow> (\<exists>b. MountTry b \<in> S)"
| "needs PscStarted S \<longleftrightarrow> (\<exists>m. PscRegistered m \<in> S)"
| "needs SocketReady S \<longleftrightarrow> BsdReady \<in> S"
| "needs (IdFound n) S \<longleftrightarrow> SocketReady \<in> S"
| "needs (PortInit n ok) S \<longleftrightarrow> IdFound n \<in> S \<and> SocketReady \<in> S \<and> PortInit n True \<notin> S"
| "needs _ S \<longleftrightarrow> True"

fun ordered :: "boot_event set \<Rightarrow> boot_event list \<Rightarrow> bool" where
  "ordered S [] \<longleftrightarrow> True"
| "ordered S (x # xs) \<longleftrightarrow> needs x S \<and> ordered (insert x S) xs"

lemma ordered_append [simp]: "ordered S (xs @ ys) \<longleftrightarrow> ordered S xs \<and> ordered (S \<union> set xs) ys"
  by (induction xs arbitrary: S) auto

lemma ordered_split: "ordered S xs \<Longrightarrow> xs = a @ x # b \<Longrightarrow> needs x (S \<union> set a)"
  by (induction a arbitrary: S xs) auto

text \<open>The events of each part of the start, and that they are in order.\<close>

lemma mount_events:
  "mount_loop n ms = (evs, go) \<Longrightarrow> ordered S evs \<and> set evs \<subseteq> {MountTry True, MountTry False, Slept 2000} \<and>
     (go \<longrightarrow> (\<exists>b. MountTry b \<in> set evs))"
proof (induction n ms arbitrary: evs go S rule: mount_loop.induct)
  case (2 n m ms)
  show ?case
  proof (cases "fst (MountState m) \<or> 30 \<le> n")
    case False
    obtain evs' go' where r: "mount_loop (n + 1) ms = (evs', go')" by (cases "mount_loop (n + 1) ms")
    have "go = go'" "evs = MountTry False # Slept 2000 # evs'" using 2(2) False r by auto
    moreover have "ordered (insert (Slept 2000) (insert (MountTry False) S)) evs' \<and>
        set evs' \<subseteq> {MountTry True, MountTry False, Slept 2000} \<and> (go' \<longrightarrow> (\<exists>b. MountTry b \<in> set evs'))"
      by (rule 2(1)) (use False r in simp_all)
    ultimately show ?thesis by auto
  qed (use 2(2) in \<open>auto split: if_splits\<close>)
qed simp

definition tries :: "boot_event list \<Rightarrow> nat" where
  "tries evs = length (List.filter (\<lambda>x. x = MountTry True \<or> x = MountTry False) evs)"

lemma mount_tries: "mount_loop n ms = (evs, go) \<Longrightarrow> n \<le> 30 \<Longrightarrow> tries evs \<le> 31 - n"
proof (induction n ms arbitrary: evs go rule: mount_loop.induct)
  case (2 n m ms)
  show ?case
  proof (cases "fst (MountState m) \<or> 30 \<le> n")
    case False
    obtain evs' go' where r: "mount_loop (n + 1) ms = (evs', go')" by (cases "mount_loop (n + 1) ms")
    have "evs = MountTry False # Slept 2000 # evs'" using 2(2) False r by auto
    moreover have "tries evs' \<le> 31 - (n + 1)" by (rule 2(1) [OF _ _ r]) (use False in simp_all)
    ultimately show ?thesis using False by (simp add: tries_def) linarith
  qed (use 2 in \<open>auto simp: tries_def split: if_splits\<close>)
qed (simp add: tries_def)

lemma tries_append: "tries (xs @ ys) = tries xs + tries ys" "tries (x # xs) = (if x = MountTry True \<or> x = MountTry False then 1 else 0) + tries xs"
  by (simp_all add: tries_def)

lemma no_tries: "set evs \<inter> {MountTry True, MountTry False} = {} \<Longrightarrow> tries evs = 0"
  by (auto simp: tries_def filter_empty_conv)

lemma psc_events:
  "StartPowerMonitor c r = Some evs \<Longrightarrow> MountTry b \<in> S \<Longrightarrow> ordered S evs \<and> set evs \<subseteq> range PscRegistered \<union> {PscStarted}"
  by (auto simp: StartPowerMonitor_def split: if_splits bind_splits)

lemma mitm_events:
  "{PortSet, NifmPortSet, MountTry b} \<subseteq> S \<Longrightarrow> ordered S (StartBsdMitm c r q)"
  "set (StartBsdMitm c r q) \<subseteq> range MitmRegistered \<union> range MitmStarted"
  by (auto simp: StartBsdMitm_def StartNifmMitm_def)

lemma nifm_registered: "MitmRegistered ''nifm:u'' \<in> set (StartBsdMitm c r q) \<longleftrightarrow>
  ConfigFlag c ''bsd_mitm'' True \<and> ConfigFlag c ''nifm_mitm'' True \<and> fst r \<and> snd r \<and> fst q"
  by (auto simp: StartBsdMitm_def StartNifmMitm_def)

lemma late_events:
  "late_loop t c b ls = (evs, go) \<Longrightarrow> ordered S evs \<and> set evs \<subseteq> {TimeReady, CsrngReady, BsdReady, SocketReady, Slept 5000} \<and>
     (go \<and> b \<longrightarrow> SocketReady \<in> set evs)"
proof (induction ls arbitrary: evs go S)
  case (Cons l ls)
  obtain e1 g where l: "LateInitialize t c b l = (e1, g)" by (cases "LateInitialize t c b l")
  have e1: "ordered S e1 \<and> set e1 \<subseteq> {TimeReady, CsrngReady, BsdReady, SocketReady} \<and> (g \<and> b \<longrightarrow> SocketReady \<in> set e1)" for S
    using l by (auto simp: LateInitialize_def Let_def split: if_splits)
  show ?case
  proof (cases g)
    case True
    then show ?thesis using Cons.prems l e1 by auto
  next
    case False
    obtain rest g1 where r: "late_loop t c b ls = (rest, g1)" by (cases "late_loop t c b ls")
    then have "go = g1" "evs = e1 @ Slept 5000 # rest" using Cons.prems l False by simp_all
    with e1 [of S] Cons.IH [OF r, of "insert (Slept 5000) (S \<union> set e1)"] show ?thesis by (simp; blast)
  qed
qed simp

definition initialized :: "core \<Rightarrow> u64 \<Rightarrow> Port \<Rightarrow> bool" where
  "initialized core n q \<longleftrightarrow> (\<exists>e arena mapper p. Initialize core n e arena mapper p = Some (q, True))"

lemma init_events:
  "init_loop core n es p = Some (evs, r) \<Longrightarrow> {IdFound n, SocketReady} \<subseteq> S \<Longrightarrow> PortInit n True \<notin> S \<Longrightarrow>
   ordered S evs \<and> set evs \<subseteq> {PortInit n True, PortInit n False, Slept 5000} \<and>
   (\<forall>q. r = Some q \<longrightarrow> evs \<noteq> [] \<and> last evs = PortInit n True \<and> initialized core n q)"
proof (induction es arbitrary: p evs S)
  case (Cons x es)
  obtain e arena mapper where x: "x = (e, arena, mapper)" by (cases x)
  obtain q ok where q: "Initialize core n e arena mapper p = Some (q, ok)" using Cons.prems(1) x by (auto split: bind_splits)
  show ?case
  proof (cases ok)
    case True
    moreover from this have "initialized core n q" using q by (auto simp: initialized_def)
    ultimately show ?thesis using Cons.prems x q by auto
  next
    case False
    then obtain rest where r: "init_loop core n es q = Some (rest, r)" "evs = PortInit n False # Slept 5000 # rest"
      using Cons.prems(1) x q by (auto split: bind_splits)
    have "ordered (insert (Slept 5000) (insert (PortInit n False) S)) rest \<and> set rest \<subseteq> {PortInit n True, PortInit n False, Slept 5000} \<and>
      (\<forall>q. r = Some q \<longrightarrow> rest \<noteq> [] \<and> last rest = PortInit n True \<and> initialized core n q)"
      by (rule Cons.IH [OF r(1)]) (use Cons.prems(2,3) in auto)
    then show ?thesis using r(2) Cons.prems(2,3) by auto
  qed
qed auto

lemma run_node_events:
  assumes "run_node core e p = Some (evs, fin)" and "SocketReady \<in> S" and "range (\<lambda>n. PortInit n True) \<inter> S = {}"
  shows "ordered S evs \<and> set evs \<inter> (range MitmRegistered \<union> {MountTry True, MountTry False}) = {} \<and> fin \<noteq> Idling \<and>
    (\<forall>q. fin = Entered q \<longrightarrow> (\<exists>n. first_resolved (be_files e) = Some n \<and> evs \<noteq> [] \<and> last evs = PortInit n True \<and>
       initialized core n q))"
proof -
  have w: "snd (WaitForConfiguredNetworkId (be_files e)) = first_resolved (be_files e)" using wait_for_network by blast
  show ?thesis
  proof (cases "first_resolved (be_files e)")
    case None
    then show ?thesis using assms(1) w by (auto simp: run_node_def)
  next
    case (Some n)
    then obtain evs1 r where r: "init_loop core n (be_inits e) p = Some (evs1, r)" "evs = IdFound n # evs1"
      "fin = (case r of Some q \<Rightarrow> Entered q | None \<Rightarrow> Waiting)"
      using assms(1) w by (auto simp: run_node_def split: bind_splits)
    have "PortInit n True \<notin> insert (IdFound n) S" using assms(3) by auto
    with init_events [OF r(1), of "insert (IdFound n) S"] show ?thesis
      using r(2,3) assms(2) Some by (auto split: option.splits)
  qed
qed

text \<open>Everything up to the sockets.\<close>

lemma up_events:
  fixes bsd nifm
  assumes m: "mount_loop 0 ms = (mounts, True)" and psc: "StartPowerMonitor c r = Some psc"
  defines "up \<equiv> Sampled # mounts @ psc @ [PortSet, NifmPortSet] @ StartBsdMitm c bsd nifm"
  shows "ordered {} up \<and> tries up \<le> 31 \<and> range (\<lambda>n. PortInit n True) \<inter> set up = {} \<and>
    (MitmRegistered ''nifm:u'' \<in> set up \<longrightarrow> ConfigFlag c ''bsd_mitm'' True \<and> ConfigFlag c ''nifm_mitm'' True)"
proof -
  note mo = mount_events [OF m] mount_tries [OF m]
  obtain b where b: "MountTry b \<in> set mounts" using mo(1) by blast
  have psc_ok: "ordered S psc \<and> set psc \<subseteq> range PscRegistered \<union> {PscStarted}" if "set mounts \<subseteq> S" for S
    using psc_events [OF psc, of b S] b that by blast
  note mitm_set = mitm_events(2) [of c bsd nifm]
  have "ordered {} up" unfolding up_def
    using mo(1) psc_ok [of "insert Sampled (set mounts)"] mitm_events(1) [of b] b by (auto simp: subset_iff)
  moreover have "range (\<lambda>n. PortInit n True) \<inter> set up = {}"
    unfolding up_def using mo(1) psc_ok [OF subset_refl] mitm_set by auto
  moreover have "MitmRegistered ''nifm:u'' \<in> set up \<longrightarrow> ConfigFlag c ''bsd_mitm'' True \<and> ConfigFlag c ''nifm_mitm'' True"
    using mo(1) psc_ok [OF subset_refl] nifm_registered [of c bsd nifm] unfolding up_def by auto
  moreover have "tries psc = 0" "tries (StartBsdMitm c bsd nifm) = 0"
    using psc_ok [OF subset_refl] mitm_set by (auto intro!: no_tries)
  then have "tries up \<le> 31" using mo(2) by (simp add: up_def tries_append)
  ultimately show ?thesis by blast
qed


section \<open>The start succeeds\<close>

text \<open>A core that accepts everything and calls nothing back; a start that can succeed.\<close>

definition willing :: "core \<Rightarrow> bool" where
  "willing core \<longleftrightarrow> (\<forall>fx p. core fx p = ([], 0))"

definition good_init :: "open_env \<times> nat option \<times> bool \<Rightarrow> bool" where
  "good_init x \<longleftrightarrow> (case x of (e, arena, _) \<Rightarrow> 0 \<le> o_fd e \<and> o_bound e \<and> (\<forall>largest. arena = Some largest \<longrightarrow> NodeAllocLowWater \<le> largest))"

lemma willing_ask: "willing core \<Longrightarrow> ask core fx p = Some (logs [fx] p, 0)"
  by (simp add: ask_def willing_def Let_def)

lemma subscribe_willing:
  assumes "willing core"
  shows "\<exists>q. subscribeBroadcast core p = Some q \<and> p_node q = p_node p \<and> p_nwid q = p_nwid p"
  using willing_ask [OF assms] by (auto simp: subscribeBroadcast_def Let_def logs_def)

lemma openWireSocket_keeps: "openWireSocket e p = (q, ok) \<Longrightarrow> p_nwid q = p_nwid p \<and> p_node q = p_node p"
  by (auto simp: openWireSocket_def logs_def Let_def split: if_splits)

lemma initialize_willing:
  assumes "willing core"
  shows "\<exists>q ok. Initialize core n e arena mapper p = Some (q, ok) \<and> (good_init (e, arena, mapper) \<longrightarrow> ok) \<and>
    (ok \<longrightarrow> p_node q \<and> p_nwid q = n)"
proof -
  let ?p = "p\<lparr>p_nwid := n, p_vnet := setEmit True (reset (p_vnet p))\<rparr>"
  obtain q ok where o: "openWireSocket e ?p = (q, ok)" by (cases "openWireSocket e ?p")
  have "0 \<le> o_fd e \<and> o_bound e \<longrightarrow> ok" using o by (auto simp: openWireSocket_def Let_def split: if_splits)
  moreover have "p_nwid q = n" using openWireSocket_keeps [OF o] by simp
  ultimately show ?thesis
    using o willing_ask [OF assms] subscribe_willing [OF assms, of "(logs [FxJoin n] (logs [FxNewNode] q\<lparr>p_node := True\<rparr>))\<lparr>p_natEnabled := mapper\<rparr>"]
    by (cases ok) (auto simp: Initialize_def good_init_def logs_def Let_def split: option.splits)
qed

lemma init_loop_succeeds:
  assumes "willing core" and "\<exists>x \<in> set es. good_init x"
  shows "\<exists>evs q. init_loop core n es p = Some (evs, Some q) \<and> p_node q \<and> p_nwid q = n"
  using assms(2)
proof (induction es arbitrary: p)
  case (Cons x es)
  obtain e arena mapper where x: "x = (e, arena, mapper)" by (cases x)
  obtain q ok where q: "Initialize core n e arena mapper p = Some (q, ok)" "good_init x \<longrightarrow> ok" "ok \<longrightarrow> p_node q \<and> p_nwid q = n"
    using initialize_willing [OF assms(1), of n e arena mapper p] x by auto
  show ?case
  proof (cases ok)
    case False
    then have "\<exists>x \<in> set es. good_init x" using Cons.prems q(2) by auto
    then obtain evs r where "init_loop core n es q = Some (evs, Some r) \<and> p_node r \<and> p_nwid r = n"
      using Cons.IH [of q] by blast
    then show ?thesis using x q(1) False by simp
  qed (use x q in simp)
qed simp

lemma mount_loop_ends: "(\<exists>m \<in> set ms. fst (MountState m)) \<or> 31 \<le> length ms + n \<and> ms \<noteq> [] \<Longrightarrow> snd (mount_loop n ms)"
proof (induction n ms rule: mount_loop.induct)
  case (2 n m ms)
  show ?case
  proof (cases "fst (MountState m) \<or> 30 \<le> n")
    case False
    then have "snd (mount_loop (n + 1) ms)" using 2 by (intro "2.IH") auto
    then show ?thesis using False by (simp add: case_prod_beta)
  qed auto
qed simp

definition late_ok :: "late_env \<Rightarrow> bool" where
  "late_ok l \<longleftrightarrow> le_time l \<and> le_csrng l \<and> le_bsd l \<and> le_socket l"

lemma late_loop_ends: "\<exists>l \<in> set ls. late_ok l \<Longrightarrow> snd (late_loop t c b ls)"
proof (induction ls)
  case (Cons l ls)
  have "snd (LateInitialize t c b l) \<or> \<not> late_ok l" by (auto simp: LateInitialize_def Let_def late_ok_def)
  moreover have "late_ok l \<or> snd (late_loop t c b ls)" using Cons by (cases "late_ok l") auto
  ultimately show ?case by (cases "LateInitialize t c b l") (auto split: prod.splits bool.splits)
qed simp


text \<open>A start at the first attempt is where the runs of the port begin.\<close>

lemma first_start_runs:
  assumes "Initialize core n e arena mapper port_fresh = Some (p, True)"
  shows "port_run core p"
proof -
  have "reset (reset vnet_fresh) = reset vnet_fresh"
    by (simp add: reset_def o_def)
  then have "Initialize core n e arena mapper port_fresh = Initialize core n e arena mapper (port_fresh\<lparr>p_vnet := reset vnet_fresh\<rparr>)"
    by (simp add: Initialize_def port_fresh_def)
  with assms show ?thesis by (auto intro: port_run.start)
qed

section \<open>The card and the workspace\<close>

definition parent :: "string \<Rightarrow> string" where
  "parent path = rev (drop 1 (dropWhile (\<lambda>c. c \<noteq> CHR ''/'') (rev path)))"

lemma parent_append: "CHR ''/'' \<notin> set b \<Longrightarrow> parent (a @ CHR ''/'' # b) = a"
proof -
  assume "CHR ''/'' \<notin> set b"
  then have "dropWhile (\<lambda>c. c \<noteq> CHR ''/'') (rev b @ CHR ''/'' # rev a) = CHR ''/'' # rev a"
    by (subst dropWhile_append2) auto
  then show ?thesis by (simp add: parent_def)
qed

lemma hex_no_slash: "CHR ''/'' \<notin> set (hex_fmt k v)"
proof
  assume "CHR ''/'' \<in> set (hex_fmt k v)"
  then obtain d where "d < 16" "CHR ''/'' = hex_char d" unfolding hex_fmt_def by (blast dest: set_hex_digits)
  then have "hex_digit (CHR ''/'') = Some d" by simp
  then show False by (simp add: hex_digit_def)
qed

text \<open>
  Every object of the core has a directory: a mounted card has made the directory of each path that
  objects are stored under, so creating a file there does not fail for want of one; and every directory
  is asked for after its parent.
\<close>

theorem state_has_directory:
  "(\<forall>t i path. StatePath t i = Some path \<longrightarrow> parent path \<in> set MountDirs) \<and>
   (fst (MountState m) \<longrightarrow> (\<forall>d \<in> set MountDirs. me_dir m d) \<and> (me_open m \<or> me_create m)) \<and>
   parent SavedNetworksPath \<in> set MountDirs \<and>
   (\<forall>i < length MountDirs. \<forall>j < length MountDirs. MountDirs ! j = parent (MountDirs ! i) \<longrightarrow> j < i)"
proof (intro conjI allI impI)
  fix t i path assume p: "StatePath t i = Some path"
  have n: "parent (StateRoot @ ''/networks.d/'' @ hex_fmt 16 i @ ''.conf'') = StateRoot @ ''/networks.d''"
    using parent_append [of "hex_fmt 16 i @ ''.conf''" "StateRoot @ ''/networks.d''"] hex_no_slash by simp
  have e: "parent (StateRoot @ ''/peers.d/'' @ hex_fmt 10 i @ ''.peer'') = StateRoot @ ''/peers.d''"
    using parent_append [of "hex_fmt 10 i @ ''.peer''" "StateRoot @ ''/peers.d''"] hex_no_slash by simp
  show "parent path \<in> set MountDirs" using p n e by (cases t) (auto simp: StatePath_def MountDirs_def parent_append)
next
  assume "fst (MountState m)"
  then show "\<forall>d \<in> set MountDirs. me_dir m d" "me_open m \<or> me_create m" by (auto simp: MountState_def list_all_iff split: if_splits)
next
  show "parent SavedNetworksPath \<in> set MountDirs" by (simp add: SavedNetworksPath_def MountDirs_def parent_append)
next
  have "list_all (\<lambda>i. list_all (\<lambda>j. MountDirs ! j = parent (MountDirs ! i) \<longrightarrow> j < i) [0..<length MountDirs]) [0..<length MountDirs]"
    by code_simp
  then show "\<And>i j. i < length MountDirs \<Longrightarrow> j < length MountDirs \<Longrightarrow> MountDirs ! j = parent (MountDirs ! i) \<Longrightarrow> j < i"
    by (simp add: list_all_iff)
qed

text \<open>
  The workspace: asking for it goes on until both steps succeed at the same attempt, three seconds after
  each failure, and giving it back leaves the heap empty; a block that is not the current one is
  not given back.
\<close>

lemma genmem_cycle:
  assumes "\<forall>(h, b) \<in> set before. \<not> h \<or> b = None" and "a \<noteq> 0"
  shows "\<exists>g1. ztnx_genmem_alloc (before @ (True, Some a) # rest) g = (g1, Some a) \<and> gm_heap g1 = GenMemSize \<and>
    gm_slept g1 = gm_slept g + 3 * length before \<and> gm_heap (ztnx_genmem_free a g1) = 0 \<and> gm_addr (ztnx_genmem_free a g1) = 0 \<and>
    (\<forall>p. p \<noteq> a \<longrightarrow> ztnx_genmem_free p g1 = g1)"
  using assms
proof (induction before arbitrary: g)
  case (Cons x xs)
  obtain h b where x: "x = (h, b)" by (cases x)
  then show ?case using Cons.IH [of "g\<lparr>gm_heap := 0, gm_addr := 0, gm_fails := gm_fails g + 1, gm_slept := gm_slept g + 3\<rparr>"] Cons.prems
    by (auto split: option.splits)
qed (simp add: ztnx_genmem_free_def)

lemma transfer_memory: "GetBsdTransferMemorySize SocketConfig = 0xA000"
  by (simp add: GetBsdTransferMemorySize_def SocketConfig_def AlignUp_def)

section \<open>Instances\<close>

definition demo_boot :: boot_env where
  "demo_boot = \<lparr>be_mounts = [\<lparr>me_mount = False, me_dir = (\<lambda>_. True), me_open = True, me_create = True\<rparr>,
       \<lparr>me_mount = True, me_dir = (\<lambda>_. True), me_open = False, me_create = True\<rparr>],
     be_config = None, be_psc = (True, True), be_bsd = (True, True), be_nifm = (True, True),
     be_late = [\<lparr>le_time = True, le_csrng = True, le_bsd = False, le_socket = True\<rparr>,
       \<lparr>le_time = True, le_csrng = True, le_bsd = True, le_socket = True\<rparr>],
     be_files = [(Some (assign ''nwid'' (hex16 0x8056C2E21C000001) @ [newline]), None)],
     be_inits = [(demo_open, Some 1, True), (demo_open, Some (512 * 1024), True)]\<rparr>"

lemma demo_files: "first_resolved (be_files demo_boot) = Some 0x8056C2E21C000001"
proof -
  define cfg where "cfg = assign ''nwid'' (hex16 0x8056C2E21C000001) @ [newline]"
  have "file_lines cfg = [assign ''nwid'' (hex16 0x8056C2E21C000001)]"
    unfolding cfg_def by (rule file_lines_line [of _ "[]", simplified]) (simp add: assign_def)
  then have "ParseNwid False cfg = Some 0x8056C2E21C000001"
    by (simp add: ParseNwid_last nwid_line_hex16 Let_def List.map_filter_def)
  then have "ResolveConfiguredNetworkId (Some cfg) None = Some 0x8056C2E21C000001"
    by (simp add: ResolveConfiguredNetworkId_def split: option.split)
  then show ?thesis by (simp add: demo_boot_def resolve_env_def cfg_def)
qed



lemma state_has_directory_witness:
  "parent (StateRoot @ ''/identity.secret'') \<in> set MountDirs \<and>
   me_dir \<lparr>me_mount = True, me_dir = (\<lambda>d. d \<in> set MountDirs), me_open = True, me_create = False\<rparr> StateRoot"
proof -
  let ?m = "\<lparr>me_mount = True, me_dir = (\<lambda>d. d \<in> set MountDirs), me_open = True, me_create = False\<rparr>"
  have "fst (MountState ?m)" by (simp add: MountState_def list_all_iff)
  moreover have "StatePath IdentitySecret 0 = Some (StateRoot @ ''/identity.secret'')" by (simp add: StatePath_def)
  moreover have "StateRoot \<in> set MountDirs" by (simp add: MountDirs_def)
  ultimately show ?thesis using state_has_directory [of ?m] by blast
qed

end
