(* ===== verification/NatQuiesce.thy ===== *)
theory NatQuiesce
  imports NatMapper
begin

text \<open>
  The port-mapping worker and the node thread side by side (\<^verbatim>\<open>source/nat_mapper.cpp\<close>): \<^verbatim>\<open>Main\<close> and
  \<^verbatim>\<open>QuiesceNatMapper\<close> as steps between their accesses to the two atomics.  Atomic accesses are taken to be
  sequentially consistent.
\<close>

section \<open>The two threads\<close>

text \<open>
  The worker, by what it does next: announce that it is idle, read the request, announce that it is
  busy, take the request, look up the route, decide whether the time has come, wait for the answer of
  the router, announce idle again, rest.
\<close>

datatype worker_pc = WIdle | WRead | WBusy | WTake | WRoute | WDecide | WCall | WDone | WRest

text \<open>The node thread works, waits in \<^verbatim>\<open>QuiesceNatMapper\<close>, or has got its answer.\<close>

datatype quiesce_pc = NRun | NWait | NQuiet

record nat_threads =
  t_map :: mapper
  t_idle :: bool
  t_request :: u64
  t_worker :: worker_pc
  t_node :: quiesce_pc
  t_started :: bool

definition threads_start :: nat_threads where
  "threads_start = \<lparr>t_map = mapper_start, t_idle = True, t_request = 0, t_worker = WIdle, t_node = NRun, t_started = False\<rparr>"

text \<open>What the worker finds: the time, whether the console is to sleep, the route, the router's answer.\<close>

record worker_finds =
  f_now :: int
  f_sleeping :: bool
  f_route :: "(u32 \<times> u32) option"
  f_answer :: "((u32 \<times> u16) \<times> nat) option"

definition wants_port :: "u64 \<Rightarrow> bool" where
  "wants_port request \<longleftrightarrow> request AND 0xFFFF \<noteq> 0"

definition worker_step :: "worker_finds \<Rightarrow> nat_threads \<Rightarrow> nat_threads option" where
  "worker_step f t =
     (if \<not> t_started t then None
      else let m = t_map t; goto = (\<lambda>pc. t\<lparr>t_worker := pc\<rparr>) in
      case t_worker t of
        WIdle \<Rightarrow> Some (t\<lparr>t_idle := True, t_worker := WRead\<rparr>)
      | WRead \<Rightarrow>
          (let request = n_desired m in
           if \<not> wants_port request \<or> f_sleeping f then Some (goto WIdle)
           else Some (t\<lparr>t_request := request, t_worker := WBusy\<rparr>))
      | WBusy \<Rightarrow> Some (t\<lparr>t_idle := False, t_worker := WTake\<rparr>)
      | WTake \<Rightarrow>
          (let m1 = m\<lparr>n_active := t_request t, n_deadline := f_now f + 15000\<rparr> in
           Some (t\<lparr>t_map := m1, t_worker := (if nat_cancelled (f_now f) (f_sleeping f) m1 then WIdle else WRoute)\<rparr>))
      | WRoute \<Rightarrow>
          (case worker_route (f_route f) m of
             None \<Rightarrow> Some (t\<lparr>t_map := worker_no_route m, t_worker := WIdle\<rparr>)
           | Some m1 \<Rightarrow> Some (t\<lparr>t_map := m1, t_worker := WDecide\<rparr>))
      | WDecide \<Rightarrow>
          Some (goto (if n_retry_at m \<le> f_now f \<and> \<not> nat_cancelled (f_now f) (f_sleeping f) m then WCall else WDone))
      | WCall \<Rightarrow> Some (t\<lparr>t_map := worker_result (f_now f) (f_sleeping f) (f_answer f) m, t_worker := WDone\<rparr>)
      | WDone \<Rightarrow> Some (t\<lparr>t_idle := True, t_worker := WRest\<rparr>)
      | WRest \<Rightarrow> Some (goto WIdle))"

text \<open>
  The calls of the node thread.  Of \<^verbatim>\<open>QuiesceNatMapper\<close> the request, one turn of its loop or its end,
  with what it returned: \<open>GiveUp\<close> is the end of the two seconds.
\<close>

datatype node_call = StartMapper bool bool | AskPort u16 | Quiesce | Poll | GiveUp | Resume

definition StartNatMapper :: "bool \<Rightarrow> bool \<Rightarrow> nat_threads \<Rightarrow> nat_threads \<times> bool" where
  "StartNatMapper port_mapping thread t =
     (if t_started t then (t, True)
      else if \<not> port_mapping then (t, False)
      else if \<not> thread then (t, False)
      else (t\<lparr>t_started := True\<rparr>, True))"

fun node_call_step :: "node_call \<Rightarrow> nat_threads \<Rightarrow> nat_threads option" where
  "node_call_step (StartMapper port_mapping thread) t =
     (if t_node t = NRun then Some (fst (StartNatMapper port_mapping thread t)) else None)"
| "node_call_step (AskPort port) t =
     (if t_node t = NRun then Some (t\<lparr>t_map := ConfigureNatMapper port (t_map t)\<rparr>) else None)"
| "node_call_step Quiesce t =
     (if t_node t = NRun then Some (t\<lparr>t_map := ConfigureNatMapper 0 (t_map t), t_node := NWait\<rparr>) else None)"
| "node_call_step Poll t =
     (if t_node t = NWait then Some (if \<not> t_started t \<or> t_idle t then t\<lparr>t_node := NQuiet\<rparr> else t) else None)"
| "node_call_step GiveUp t =
     (if t_node t = NWait then Some (t\<lparr>t_node := (if \<not> t_started t \<or> t_idle t then NQuiet else NRun)\<rparr>) else None)"
| "node_call_step Resume t = (if t_node t = NQuiet then Some (t\<lparr>t_node := NRun\<rparr>) else None)"

datatype nat_move = Worker worker_finds | Node node_call

fun nat_do :: "nat_move \<Rightarrow> nat_threads \<Rightarrow> nat_threads option" where
  "nat_do (Worker f) t = worker_step f t"
| "nat_do (Node c) t = node_call_step c t"

inductive nat_reach :: "nat_threads \<Rightarrow> bool" where
  start: "nat_reach threads_start"
| move: "nat_reach t \<Longrightarrow> nat_do v t = Some u \<Longrightarrow> nat_reach u"

inductive_cases nat_reachE: "nat_reach t"

section \<open>A quiet worker makes no call\<close>

text \<open>Asking the system or the router; and all between taking a request and being idle again.\<close>

fun calls :: "worker_pc \<Rightarrow> bool" where
  "calls WRoute = True"
| "calls WDecide = True"
| "calls WCall = True"
| "calls _ = False"

fun in_request :: "worker_pc \<Rightarrow> bool" where
  "in_request WTake = True"
| "in_request WDone = True"
| "in_request pc = calls pc"

definition threads_inv :: "nat_threads \<Rightarrow> bool" where
  "threads_inv t \<longleftrightarrow>
     (in_request (t_worker t) \<longrightarrow> \<not> t_idle t) \<and>
     (t_worker t = WBusy \<or> t_worker t = WTake \<longrightarrow> wants_port (t_request t)) \<and>
     (\<not> t_started t \<longrightarrow> t_worker t = WIdle) \<and>
     (t_node t \<noteq> NRun \<longrightarrow> \<not> wants_port (n_desired (t_map t))) \<and>
     (t_node t = NQuiet \<longrightarrow> \<not> calls (t_worker t))"

lemma in_request_calls: "calls pc \<Longrightarrow> in_request pc"
  by (cases pc) simp_all

lemma no_port: "\<not> wants_port (n_desired (ConfigureNatMapper 0 m))"
proof -
  have low: "(w :: u64) AND 0xFFFF = take_bit 16 w" for w by (simp add: take_bit_eq_mask mask_eq_exp_minus_1)
  have "take_bit 16 w = 0" if "(ucast w :: u16) = 0" for w :: u64
  proof -
    have "take_bit 16 w = ucast (ucast w :: u16)" by (rule bit_eqI) (auto simp: bit_simps)
    then show ?thesis using that by simp
  qed
  moreover have "take_bit 16 (push_bit 16 (w :: u64)) = 0" for w by (rule bit_eqI) (auto simp: bit_simps)
  ultimately show ?thesis by (simp add: wants_port_def low configure_desired)
qed

lemma route_desired: "worker_route route m = Some m1 \<Longrightarrow> n_desired m1 = n_desired m"
  by (auto simp: worker_route_def Publish_def Let_def split: option.splits if_splits)

lemma other_desired:
  "n_desired (worker_no_route m) = n_desired m" "n_desired (worker_result now sleeping a m) = n_desired m"
  by (auto simp: worker_no_route_def worker_result_def Publish_def Let_def split: option.splits)

text \<open>Where each step of the worker leads.\<close>

lemma worker_steps:
  assumes "worker_step f t = Some u"
  shows "t_started t" and "t_node u = t_node t" and "t_started u = t_started t" and "n_desired (t_map u) = n_desired (t_map t)"
    and "case t_worker t of
        WIdle \<Rightarrow> t_idle u \<and> t_worker u = WRead
      | WRead \<Rightarrow> t_idle u = t_idle t \<and> (t_worker u = WIdle \<or> t_worker u = WBusy \<and> wants_port (t_request u))
      | WBusy \<Rightarrow> \<not> t_idle u \<and> t_worker u = WTake \<and> t_request u = t_request t
      | WTake \<Rightarrow> t_idle u = t_idle t \<and> (t_worker u = WIdle \<or> t_worker u = WRoute \<and> n_desired (t_map t) = t_request t)
      | WRoute \<Rightarrow> t_idle u = t_idle t \<and> (t_worker u = WIdle \<or> t_worker u = WDecide)
      | WDecide \<Rightarrow> t_idle u = t_idle t \<and> (t_worker u = WCall \<or> t_worker u = WDone)
      | WCall \<Rightarrow> t_idle u = t_idle t \<and> t_worker u = WDone
      | WDone \<Rightarrow> t_idle u \<and> t_worker u = WRest
      | WRest \<Rightarrow> t_idle u = t_idle t \<and> t_worker u = WIdle"
proof -
  show st: "t_started t" using assms by (cases "t_started t") (simp_all add: worker_step_def)
  note w = assms [unfolded worker_step_def Let_def, simplified st not_True_eq_False if_False]
  show "t_node u = t_node t" "t_started u = t_started t" "n_desired (t_map u) = n_desired (t_map t)"
    using w by (cases "t_worker t"; auto simp: other_desired dest: route_desired split: if_splits option.splits)+
  show "case t_worker t of
        WIdle \<Rightarrow> t_idle u \<and> t_worker u = WRead
      | WRead \<Rightarrow> t_idle u = t_idle t \<and> (t_worker u = WIdle \<or> t_worker u = WBusy \<and> wants_port (t_request u))
      | WBusy \<Rightarrow> \<not> t_idle u \<and> t_worker u = WTake \<and> t_request u = t_request t
      | WTake \<Rightarrow> t_idle u = t_idle t \<and> (t_worker u = WIdle \<or> t_worker u = WRoute \<and> n_desired (t_map t) = t_request t)
      | WRoute \<Rightarrow> t_idle u = t_idle t \<and> (t_worker u = WIdle \<or> t_worker u = WDecide)
      | WDecide \<Rightarrow> t_idle u = t_idle t \<and> (t_worker u = WCall \<or> t_worker u = WDone)
      | WCall \<Rightarrow> t_idle u = t_idle t \<and> t_worker u = WDone
      | WDone \<Rightarrow> t_idle u \<and> t_worker u = WRest
      | WRest \<Rightarrow> t_idle u = t_idle t \<and> t_worker u = WIdle"
    using w by (cases "t_worker t") (auto simp: nat_cancelled_def split: if_splits option.splits)
qed

lemma worker_step_inv:
  assumes "threads_inv t" and "worker_step f t = Some u"
  shows "threads_inv u"
proof -
  note i = assms(1) [unfolded threads_inv_def] and s = worker_steps [OF assms(2)]
  have busy: "in_request (t_worker u) \<longrightarrow> \<not> t_idle u" using i s(5) by (cases "t_worker t") auto
  have port: "t_worker u = WBusy \<or> t_worker u = WTake \<longrightarrow> wants_port (t_request u)" using i s(5) by (cases "t_worker t") auto
  have "\<not> calls (t_worker u)" if "t_node t = NQuiet" using i s(5) that by (cases "t_worker t") auto
  then show ?thesis using busy port i s(1-4) by (simp add: threads_inv_def)
qed

lemma node_step_inv:
  assumes "threads_inv t" and "node_call_step c t = Some u"
  shows "threads_inv u"
proof -
  have calm: "\<not> calls (t_worker t)" if "\<not> t_started t \<or> t_idle t"
  proof
    assume "calls (t_worker t)"
    with in_request_calls [OF this] that assms(1) show False by (cases "t_started t") (simp_all add: threads_inv_def)
  qed
  note i = assms(1) [unfolded threads_inv_def]
  show ?thesis
  proof (cases c)
    case (StartMapper port_mapping thread)
    then have "u = t \<or> u = t\<lparr>t_started := True\<rparr>" using assms(2) by (auto simp: StartNatMapper_def split: if_splits)
    moreover have "threads_inv (t\<lparr>t_started := True\<rparr>)" using i by (simp add: threads_inv_def)
    ultimately show ?thesis using assms(1) by blast
  next
    case (AskPort port)
    then have "t_node t = NRun" "u = t\<lparr>t_map := ConfigureNatMapper port (t_map t)\<rparr>" using assms(2) by (auto split: if_splits)
    then show ?thesis using assms(1) by (simp add: threads_inv_def)
  next
    case Quiesce
    then have "u = t\<lparr>t_map := ConfigureNatMapper 0 (t_map t), t_node := NWait\<rparr>" using assms(2) by (auto split: if_splits)
    then show ?thesis using assms(1) by (simp add: threads_inv_def no_port)
  next
    case Poll
    then have "t_node t = NWait" "u = (if \<not> t_started t \<or> t_idle t then t\<lparr>t_node := NQuiet\<rparr> else t)" using assms(2) by (auto split: if_splits)
    then show ?thesis using assms(1) calm by (simp add: threads_inv_def)
  next
    case GiveUp
    then have "t_node t = NWait" "u = t\<lparr>t_node := (if \<not> t_started t \<or> t_idle t then NQuiet else NRun)\<rparr>" using assms(2) by (auto split: if_splits)
    then show ?thesis using assms(1) calm by (simp add: threads_inv_def)
  next
    case Resume
    then have "u = t\<lparr>t_node := NRun\<rparr>" using assms(2) by (auto split: if_splits)
    then show ?thesis using assms(1) by (simp add: threads_inv_def)
  qed
qed

lemma nat_reach_inv: "nat_reach t \<Longrightarrow> threads_inv t"
proof (induction rule: nat_reach.induct)
  case start
  then show ?case by (simp add: threads_inv_def threads_start_def mapper_start_def)
next
  case (move t v u)
  then show ?case by (cases v) (auto intro: worker_step_inv node_step_inv)
qed

text \<open>
  C38. When \<^verbatim>\<open>QuiesceNatMapper\<close> reports quiescence, it holds: in no interleaving of the node thread and the
  worker is a request to the router or to the network service in progress after it has returned
  true, and none is started, wherever the worker stood -- even when it had read the old request and
  not yet announced that it was busy --, until the node thread goes on.
\<close>

theorem nat_quiesce_holds:
  assumes "nat_reach t" and "t_node t = NQuiet"
  shows "\<not> calls (t_worker t) \<and>
    (\<forall>f u. worker_step f t = Some u \<longrightarrow> \<not> calls (t_worker u) \<and> t_node u = NQuiet \<and> nat_reach u)"
proof -
  have "\<not> calls (t_worker u) \<and> t_node u = NQuiet \<and> nat_reach u" if "worker_step f t = Some u" for f u
  proof -
    have u: "nat_reach u" using nat_reach.move [OF assms(1), of "Worker f"] that by simp
    moreover have "t_node u = NQuiet" using worker_steps(2) [OF that] assms(2) by simp
    ultimately show ?thesis using nat_reach_inv [OF u] by (simp add: threads_inv_def)
  qed
  then show ?thesis using nat_reach_inv [OF assms(1)] assms(2) by (simp add: threads_inv_def)
qed

definition demo_finds :: worker_finds where
  "demo_finds = \<lparr>f_now = 0, f_sleeping = False, f_route = Some (1, 2), f_answer = None\<rparr>"

text \<open>The worker has read the request but is not yet busy when the node thread asks and polls.\<close>

definition demo_race :: "nat_move list" where
  "demo_race = [Node (StartMapper True True), Node (AskPort 20001), Worker demo_finds, Worker demo_finds, Node Quiesce, Node Poll]"

fun nat_moves :: "nat_move list \<Rightarrow> nat_threads \<Rightarrow> nat_threads option" where
  "nat_moves [] t = Some t"
| "nat_moves (v # vs) t = Option.bind (nat_do v t) (nat_moves vs)"

lemma nat_moves_reach: "nat_reach t \<Longrightarrow> nat_moves vs t = Some u \<Longrightarrow> nat_reach u"
  by (induction vs arbitrary: t) (auto intro: nat_reach.move split: bind_splits)

lemma nat_quiesce_holds_witness:
  "\<exists>t. nat_moves demo_race threads_start = Some t \<and> t_node t = NQuiet \<and> t_worker t = WBusy \<and> t_request t AND 0xFFFF = 20001 \<and>
     \<not> calls (t_worker t)"
proof -
  obtain t where t: "nat_moves demo_race threads_start = Some t" "t_node t = NQuiet" "t_worker t = WBusy" "t_request t AND 0xFFFF = 20001"
    by (simp add: demo_race_def threads_start_def mapper_start_def StartNatMapper_def worker_step_def ConfigureNatMapper_def wants_port_def Let_def demo_finds_def)
  have "nat_reach t" using nat_moves_reach [OF nat_reach.start t(1)] .
  from nat_quiesce_holds [OF this t(2)] t show ?thesis by blast
qed

text \<open>
  The order of the worker's two accesses matters: were the request read only once, before the worker
  says that it is busy, and not compared again, the race of the example would end in a call.  As it
  is, the worker turns back at its next check.
\<close>

lemma race_turns_back:
  assumes "nat_reach t" and "t_node t = NQuiet" and "t_worker t = WTake" and "worker_step f t = Some u"
  shows "t_worker u = WIdle"
proof -
  have "\<not> wants_port (n_desired (t_map t))" "wants_port (t_request t)"
    using nat_reach_inv [OF assms(1)] assms(2,3) by (auto simp: threads_inv_def)
  then have "n_desired (t_map t) \<noteq> t_request t" by auto
  then show ?thesis using worker_steps(5) [OF assms(4)] assms(3) by simp
qed

section \<open>Answers of the router\<close>

text \<open>
  \<^verbatim>\<open>ReadPmp\<close>: each turn finds whether the request is cancelled, the time, and what the library reads; the
  turns it takes are 50 ms apart.
\<close>

datatype pmp_read = PmpAnswer u16 | PmpTryAgain | PmpError

fun ReadPmp :: "u16 \<Rightarrow> int \<Rightarrow> (bool \<times> int \<times> pmp_read) list \<Rightarrow> bool option" where
  "ReadPmp kind until [] = None"
| "ReadPmp kind until ((cancelled, now, answer) # turns) =
     (if cancelled \<or> until \<le> now then Some False
      else case answer of
        PmpAnswer k \<Rightarrow> Some (k = kind)
      | PmpError \<Rightarrow> Some False
      | PmpTryAgain \<Rightarrow> ReadPmp kind until turns)"

text \<open>It ends after 44 turns at the latest, since each takes at least 50 ms of the 2200.\<close>

lemma read_pmp_ends:
  assumes "\<forall>i < length turns. now + 50 * int i \<le> fst (snd (turns ! i))" and "44 < length turns"
  shows "ReadPmp kind (now + 2200) turns \<noteq> None"
proof -
  have "k < length turns \<Longrightarrow> now + 2200 \<le> fst (snd (turns ! k)) \<Longrightarrow> ReadPmp kind (now + 2200) turns \<noteq> None" for k
  proof (induction turns arbitrary: k)
    case (Cons e turns)
    obtain c n a where e: "e = (c, n, a)" by (metis surj_pair)
    show ?case
    proof (cases k)
      case 0
      then show ?thesis using Cons.prems e by simp
    next
      case (Suc j)
      then show ?thesis using Cons.IH [of j] Cons.prems e by (auto split: pmp_read.split)
    qed
  qed simp
  then show ?thesis using assms(1) [rule_format, of 44] assms(2) by simp
qed

end
