(* ===== verification/Report.thy ===== *)
theory Report
  imports PortLoop StateStore Logs Overlay
begin

text \<open>
  What the module reports of itself (\<^verbatim>\<open>source/zt_port.cpp\<close>): the clock all times are read from, the status
  file the overlay shows, the heartbeat, the list of peers and the watermarks of memory.  Numbers of
  errors and of the states of a network are those of libraries outside the repository, a parameter.
\<close>

section \<open>The clock\<close>

record clock =
  s_anchorMs :: int
  s_anchorTick :: u64

definition clock_start :: clock where "clock_start = \<lparr>s_anchorMs = 0, s_anchorTick = 0\<rparr>"

text \<open>One reading: the tick, and the seconds of the wall clock unless the service fails.\<close>

definition NowMs :: "u64 \<Rightarrow> u64 option \<Rightarrow> clock \<Rightarrow> int \<times> clock" where
  "NowMs ticks wall c =
     (if s_anchorMs c = 0 then
        (case wall of
           None \<Rightarrow> (0, c)
         | Some seconds \<Rightarrow> (let ms = int (unat seconds) * 1000 in (ms, \<lparr>s_anchorMs = ms, s_anchorTick = ticks\<rparr>)))
      else (s_anchorMs c + int (unat ((ticks - s_anchorTick c) div 19200)), c))"

fun readings :: "(u64 \<times> u64 option) list \<Rightarrow> clock \<Rightarrow> int list" where
  "readings [] c = []"
| "readings ((ticks, wall) # rs) c = (case NowMs ticks wall c of (t, d) \<Rightarrow> t # readings rs d)"

section \<open>Printing\<close>

text \<open>\<^verbatim>\<open>%u\<close> and \<^verbatim>\<open>%llu\<close>, \<^verbatim>\<open>%d\<close>, and an address in dots.\<close>

fun dec :: "nat \<Rightarrow> string" where
  "dec n = (if n < 10 then [char_of (48 + n)] else dec (n div 10) @ [char_of (48 + n mod 10)])"

declare dec.simps [simp del]

definition udec :: "'a::len word \<Rightarrow> string" where "udec w = dec (unat w)"

definition sdec :: "int \<Rightarrow> string" where
  "sdec v = (if v < 0 then CHR ''-'' # dec (nat (- v)) else dec (nat v))"

definition octet :: "nat \<Rightarrow> u32 \<Rightarrow> u32" where "octet k ip = drop_bit k ip AND 0xFF"

definition dotted :: "u32 \<Rightarrow> string" where
  "dotted ip = udec (octet 24 ip) @ ''.'' @ udec (octet 16 ip) @ ''.'' @ udec (octet 8 ip) @ ''.'' @ udec (octet 0 ip)"

definition popcount :: "u32 \<Rightarrow> nat" where
  "popcount w = length (List.filter (bit w) [0..<32])"

datatype net_status =
  RequestingConfiguration | NetOk | AccessDenied | NotFound | PortError | ClientTooOld | AuthenticationRequired

record names =
  n_errno :: "string \<Rightarrow> int"
  n_status :: "net_status \<Rightarrow> int"

definition ErrnoNames :: "string list" where
  "ErrnoNames = [''EACCES'', ''EAGAIN'', ''EBADF'', ''EINVAL'', ''EIO'', ''EMSGSIZE'', ''ENOBUFS'', ''ENOTSOCK'', ''EPERM'',
     ''EPIPE'', ''ETIMEDOUT'', ''ECONNREFUSED'', ''ECONNRESET'', ''ECONNABORTED'', ''ENETDOWN'', ''ENETUNREACH'', ''ENOTCONN'',
     ''EALREADY'', ''EINPROGRESS'', ''EHOSTUNREACH'', ''EDESTADDRREQ'', ''ENETRESET'', ''EHOSTDOWN'']"

definition ErrnoName :: "names \<Rightarrow> int \<Rightarrow> string" where
  "ErrnoName ns e = (if e = 0 then ''ok'' else case List.find (\<lambda>n. n_errno ns n = e) ErrnoNames of Some n \<Rightarrow> n | None \<Rightarrow> ''?'')"

fun status_name :: "net_status \<Rightarrow> string" where
  "status_name RequestingConfiguration = ''requesting-configuration''"
| "status_name NetOk = ''ok''"
| "status_name AccessDenied = ''access-denied (authorise this node in ZeroTier Central)''"
| "status_name NotFound = ''not-found (check the network id in config.ini)''"
| "status_name PortError = ''port-error''"
| "status_name ClientTooOld = ''client-too-old''"
| "status_name AuthenticationRequired = ''authentication-required''"

definition NetStatusName :: "names \<Rightarrow> int \<Rightarrow> string" where
  "NetStatusName ns st =
     (case List.find (\<lambda>s. n_status ns s = st)
        [RequestingConfiguration, NetOk, AccessDenied, NotFound, PortError, ClientTooOld, AuthenticationRequired] of
        Some s \<Rightarrow> status_name s | None \<Rightarrow> ''no-config-yet'')"

section \<open>The status file\<close>

text \<open>The members of \<^verbatim>\<open>class Port\<close> that only the reports use.\<close>

record report =
  r_lastStatusMs :: int
  r_lastStatusOnline :: bool
  r_lastStatusIp :: u32
  r_lastStatusNetStatus :: int
  r_beatLastTx :: u32
  r_beatLastRx :: u32
  r_lastPeersMs :: int
  r_startedMs :: int

definition report_start :: report where
  "report_start = \<lparr>r_lastStatusMs = 0, r_lastStatusOnline = False, r_lastStatusIp = 0, r_lastStatusNetStatus = -2,
     r_beatLastTx = 0, r_beatLastRx = 0, r_lastPeersMs = 0, r_startedMs = 0\<rparr>"

definition StatusPath :: string where "StatusPath = ''sdmc:/config/sys-zerotier/status.txt''"

definition wire_word :: "Port \<Rightarrow> string" where
  "wire_word p = (if p_wireRecovering p then ''paused'' else ''running'')"

text \<open>The lines of the format string, each its label of ten characters and the rest.\<close>

definition status_fields :: "names \<Rightarrow> u64 \<Rightarrow> nat \<Rightarrow> Port \<Rightarrow> (string \<times> string) list" where
  "status_fields ns ticks fails p =
     (let v = p_vnet p; s = m_stats v; ip = m_ip v; nat_ip = ntoh32 (p_natAddress p) in
      [(''uptime    '', udec (ticks div (19200 * 1000)) @ '' s   loops '' @ udec (p_loops p)),
       (''wire      '', ''fd '' @ sdec (p_wireFd p) @ ''  '' @ wire_word p @ ''  local '' @ udec (p_wireLocalPort p) @ '' ('' @
          (if p_wireEphemeral p then ''adaptive'' else ''primary'') @ '')  tx '' @ udec (p_wireTx p) @ ''  rx '' @ udec (p_wireRx p) @
          ''  fail '' @ udec (p_wireTxFail p) @ ''  v6skip '' @ udec (p_wireSkipV6 p) @ ''  errno '' @ sdec (p_wireErrno p) @ '' '' @
          ErrnoName ns (p_wireErrno p)),
       (''wirelast  '', ''dst '' @ dotted (p_wireLastDstIp p) @ '':'' @ udec (p_wireLastDstPort p)),
       (''nat       '', (if p_natEnabled p then ''enabled'' else ''disabled'') @ '' local '' @ udec (p_mappedPort p) @ '' public '' @
          dotted nat_ip @ '':'' @ udec (p_natPublicPort p)),
       (''poll      '', ''err '' @ udec (p_pollErr p) @ '' ('' @ ErrnoName ns (p_pollErrno p) @ '')  timeout '' @ udec (p_pollZero p) @
          ''  hup '' @ udec (p_pollBad p)),
       (''writefail '', dec (fails mod 2 ^ 32)),
       (''network   '', hex_fmt 16 (p_nwid p)),
       (''online    '', if p_online p then ''yes'' else ''no''),
       (''netstatus '', NetStatusName ns (p_netStatus p)),
       (''lasterror '', sdec (p_lastError p)),
       (''address   '', dotted ip @ ''/'' @ dec (popcount (m_netmask v))),
       (''mac       '', hex_fmt 12 (m_mac v)),
       (''rx        '', ''frames '' @ udec (rxFrames s) @ ''  ip '' @ udec (rxIp s) @ ''  udp '' @ udec (rxUdp s) @ ''  arp '' @
          udec (rxArp s) @ ''  icmp '' @ udec (rxIcmp s)),
       (''tx        '', ''frames '' @ udec (txFrames s) @ ''  udp '' @ udec (txUdp s) @ ''  arp '' @ udec (txArp s) @ ''  icmp '' @
          udec (txIcmp s)),
       (''drops     '', ''nosock '' @ udec (dropNoSocket s) @ ''  nobuf '' @ udec (dropNoBuffer s) @ ''  csum '' @
          udec (dropBadChecksum s) @ ''  malformed '' @ udec (dropMalformed s)),
       (''nosock    '', ''last '' @ dotted (lastNoSocketSrcIp s) @ '':'' @ udec (lastNoSocketSrcPort s) @ '' -> port '' @
          udec (lastNoSocketDstPort s) @ '' len '' @ udec (lastNoSocketLen s))])"

definition print_fields :: "(string \<times> string) list \<Rightarrow> string" where
  "print_fields fs = concat (map (\<lambda>(l, b). l @ b @ [newline]) fs)"

text \<open>\<^verbatim>\<open>snprintf\<close> into an array of 768 characters keeps 767 of them.\<close>

definition status_text :: "names \<Rightarrow> u64 \<Rightarrow> nat \<Rightarrow> Port \<Rightarrow> string" where
  "status_text ns ticks fails p = take 767 (print_fields (status_fields ns ticks fails p))"

definition writeStatus ::
  "bool \<Rightarrow> names \<Rightarrow> int \<Rightarrow> u64 \<Rightarrow> fs_result \<Rightarrow> string \<Rightarrow> Port \<Rightarrow> report \<times> char card \<times> nat \<Rightarrow> report \<times> char card \<times> nat" where
  "writeStatus force ns now ticks x blank p = (\<lambda>(r, card).
     let ip = m_ip (p_vnet p);
         changed = (p_online p \<noteq> r_lastStatusOnline r \<or> ip \<noteq> r_lastStatusIp r \<or> p_netStatus p \<noteq> r_lastStatusNetStatus r) in
     if \<not> force \<and> \<not> changed \<and> now - r_lastStatusMs r < 10000 then (r, card)
     else (r\<lparr>r_lastStatusMs := now, r_lastStatusOnline := p_online p, r_lastStatusIp := ip, r_lastStatusNetStatus := p_netStatus p\<rparr>,
           fst (WriteWholeFile x blank StatusPath (status_text ns ticks (snd card) p) card)))"

section \<open>The heartbeat\<close>

definition heartbeat :: "names \<Rightarrow> int \<Rightarrow> string \<Rightarrow> Port \<times> report \<times> event_log \<Rightarrow> (Port \<times> report \<times> event_log) \<times> string option" where
  "heartbeat ns now stamp = (\<lambda>(p, r, l).
     let interval = (if p_wireFd p < 0 \<or> p_wireRecovering p then 5000 else 30000) in
     if p_lastBeatMs p \<noteq> 0 \<and> now - p_lastBeatMs p < interval then ((p, r, l), None)
     else
       let line = ''beat '' @ (if p_online p then ''ONLINE '' else ''offline'') @ '' '' @ NetStatusName ns (p_netStatus p) @ '' '' @
             (if p_wireRecovering p then ''PAUSED '' else ''running'') @ '' tx +'' @ udec (p_wireTx p - r_beatLastTx r) @
             '' rx +'' @ udec (p_wireRx p - r_beatLastRx r) @ '' fail '' @ udec (p_wireTxFail p) @ '' errno '' @ sdec (p_wireErrno p) @ '' '' @
             ErrnoName ns (p_wireErrno p) @ '' v6skip '' @ udec (p_wireSkipV6 p) in
       case Event stamp line l of (l1, file) \<Rightarrow>
         ((p\<lparr>p_lastBeatMs := now\<rparr>, r\<lparr>r_beatLastTx := p_wireTx p, r_beatLastRx := p_wireRx p\<rparr>, l1), Some file))"

section \<open>The list of peers\<close>

record path_info =
  pp_ip :: u32
  pp_port :: u16
  pp_expired :: int
  pp_preferred :: int
  pp_lastSend :: u64
  pp_lastReceive :: u64

record peer_info =
  pe_address :: u64
  pe_role :: int
  pe_latency :: int
  pe_version :: "int \<times> int \<times> int"
  pe_paths :: "path_info list"

definition PeersPath :: string where "PeersPath = ''sdmc:/config/sys-zerotier/peers.txt''"

text \<open>
  The buffer of 1536 characters as it is written: its contents and the offset, which grows by the length
  of the whole text whether or not it fitted.
\<close>

type_synonym printer = "string \<times> nat"

definition PeersSize :: nat where "PeersSize = 1536"

definition put :: "string \<Rightarrow> printer \<Rightarrow> printer option" where
  "put text = (\<lambda>(buf, off). if PeersSize < off then None else map_option (\<lambda>b. (b, off + length text)) (snprintf buf off (PeersSize - off) text))"

definition since :: "int \<Rightarrow> u64 \<Rightarrow> string" where
  "since now t = sdec (if t \<noteq> 0 then now - sint t else -1)"

definition path_line :: "int \<Rightarrow> path_info \<Rightarrow> string" where
  "path_line now q = ''    '' @ dotted (pp_ip q) @ '':'' @ udec (pp_port q) @ ''  expired '' @ sdec (pp_expired q) @ '' preferred '' @
     sdec (pp_preferred q) @ ''  lastSend '' @ since now (pp_lastSend q) @ '' ms  lastRecv '' @ since now (pp_lastReceive q) @ '' ms'' @ [newline]"

definition peer_line :: "peer_info \<Rightarrow> string" where
  "peer_line e = hex_fmt 10 (pe_address e) @ '' role '' @ sdec (pe_role e) @ ''  latency '' @ sdec (pe_latency e) @ ''  paths '' @
     dec (length (pe_paths e)) @ ''  v'' @ sdec (fst (pe_version e)) @ ''.'' @ sdec (fst (snd (pe_version e))) @ ''.'' @
     sdec (snd (snd (pe_version e))) @ [newline]"

fun put_paths :: "int \<Rightarrow> path_info list \<Rightarrow> printer \<Rightarrow> printer option" where
  "put_paths now [] t = Some t"
| "put_paths now (q # qs) t = (if snd t + 128 < PeersSize then Option.bind (put (path_line now q) t) (put_paths now qs) else Some t)"

fun put_peers :: "int \<Rightarrow> peer_info list \<Rightarrow> printer \<Rightarrow> printer option" where
  "put_peers now [] t = Some t"
| "put_peers now (e # es) t =
     (if snd t + 256 < PeersSize
      then Option.bind (put (peer_line e) t) (\<lambda>t1. Option.bind (put_paths now (pe_paths e) t1) (put_peers now es))
      else Some t)"

definition peers_text :: "int \<Rightarrow> int \<Rightarrow> peer_info list \<Rightarrow> printer \<Rightarrow> printer option" where
  "peers_text now started ps t = do {
     t1 \<leftarrow> put (''peers '' @ dec (length ps) @ ''   (uptime '' @ udec (word_of_int (now - started) div (1000 :: u64)) @ '' s)'' @ [newline]) t;
     t2 \<leftarrow> put_peers now ps t1;
     b \<leftarrow> aset (fst t2) (int (snd t2)) nul;
     Some (b, snd t2) }"

definition writePeers ::
  "int \<Rightarrow> peer_info list option \<Rightarrow> string \<Rightarrow> fs_result \<Rightarrow> string \<Rightarrow> Port \<Rightarrow> report \<times> char card \<times> nat \<Rightarrow> (report \<times> char card \<times> nat) option" where
  "writePeers now peers stack x blank p = (\<lambda>(r, card).
     if \<not> p_node p \<or> (r_lastPeersMs r \<noteq> 0 \<and> now - r_lastPeersMs r < 30000) then Some (r, card)
     else let r1 = r\<lparr>r_lastPeersMs := now\<rparr> in
       case peers of
         None \<Rightarrow> Some (r1, card)
       | Some ps \<Rightarrow> do {
           (buf, off) \<leftarrow> peers_text now (r_startedMs r) ps (stack, 0);
           Some (r1, fst (WriteWholeFile x blank PeersPath (take off buf) card)) })"

section \<open>Memory\<close>

text \<open>
  The free memory of the system group.  \<open>found\<close> is what the two queries for the group yield (\<open>None\<close> an
  error, \<open>Some None\<close> the invalid handle), \<open>limit\<close> and \<open>used\<close> the two values the kernel has for it (a
  limit that cannot be read stays 0).
\<close>

record watch =
  w_rl :: "u32 option"
  w_tried :: bool
  w_limit :: int
  w_reported :: int
  w_nextMs :: int

definition watch_start :: watch where
  "watch_start = \<lparr>w_rl = None, w_tried = False, w_limit = 0, w_reported = 2 ^ 63 - 1, w_nextMs = 0\<rparr>"

definition watchSystemMemory ::
  "int \<Rightarrow> u32 option option \<times> u32 option option \<Rightarrow> int \<Rightarrow> int option \<Rightarrow> watch \<Rightarrow> watch \<times> int option" where
  "watchSystemMemory now found limit used w =
     (if now < w_nextMs w then (w, None)
      else
        let w1 = w\<lparr>w_nextMs := now + 5000\<rparr>;
            w2 = (if w_tried w1 then w1
                  else case (case fst found of Some h \<Rightarrow> Some h | None \<Rightarrow> snd found) of
                    None \<Rightarrow> w1\<lparr>w_tried := True\<rparr>
                  | Some h \<Rightarrow> w1\<lparr>w_tried := True, w_rl := h, w_limit := limit\<rparr>) in
        if w_rl w2 = None \<or> w_limit w2 = 0 then (w2, None)
        else case used of
          None \<Rightarrow> (w2, None)
        | Some cur \<Rightarrow>
            (let free_kb = trunc_div (w_limit w2 - cur) 1024 in
             if w_reported w2 < free_kb + 256 then (w2, None)
             else (w2\<lparr>w_reported := free_kb\<rparr>, Some free_kb)))"

text \<open>The low-water mark of the arena: the free and the largest size, traced in kilobytes.\<close>

definition TraceArenaWatermark :: "(u64 \<times> u64) option \<Rightarrow> u64 \<Rightarrow> u64 \<times> (nat \<times> nat) option" where
  "TraceArenaWatermark arena low =
     (case arena of
        None \<Rightarrow> (low, None)
      | Some (free_now, largest) \<Rightarrow>
          if low < free_now + 256 * 1024 then (low, None)
          else (free_now, Some (unat free_now div 1024, unat largest div 1024)))"

section \<open>What the overlay reads\<close>

lemma digit_char: "d < 10 \<Longrightarrow> char_of (48 + d) = ''0123456789'' ! d"
proof -
  have "map (\<lambda>d. char_of (48 + d)) [0..<10] = ''0123456789''"
    by (simp add: upt_rec char_of_def bit_numeral_rec bit_0)
  then show "d < 10 \<Longrightarrow> char_of (48 + d) = ''0123456789'' ! d" using nth_map [of d "[0..<10]" "\<lambda>d. char_of (48 + d)"] by simp
qed

lemma dec_set: "set (dec n) \<subseteq> set ''0123456789''"
proof (induction n rule: dec.induct)
  case (1 n)
  have d: "char_of (48 + d) \<in> set ''0123456789''" if "d < 10" for d :: nat
    unfolding digit_char [OF that] by (rule nth_mem) (use that in simp)
  have "n mod 10 < 10" by simp
  note e = d [OF this]
  show ?case
  proof (cases "n < 10")
    case True
    then show ?thesis using d [of n] by (subst dec.simps) simp
  next
    case False
    then show ?thesis using e 1 by (subst dec.simps) simp
  qed
qed

lemma dec_ne [simp]: "dec n \<noteq> []"
  by (subst dec.simps) simp

lemma dec_length: "0 < k \<Longrightarrow> n < 10 ^ k \<Longrightarrow> length (dec n) \<le> k"
proof (induction n arbitrary: k rule: dec.induct)
  case (1 n)
  show ?case
  proof (cases "n < 10")
    case False
    then obtain j where j: "k = Suc j" "0 < j" using 1(2,3) by (cases k; cases "k = 1") auto
    have "n div 10 < 10 ^ j" using 1(3) j(1) by (simp add: less_mult_imp_div_less mult.commute)
    then have "length (dec (n div 10)) \<le> j" using 1(1) False j(2) by simp
    then show ?thesis using False j(1) by (subst dec.simps) simp
  qed (use 1(2) in \<open>subst dec.simps; simp\<close>)
qed

lemma dec_digits: "c \<in> set (dec n) \<Longrightarrow> \<not> status_end c \<and> \<not> is_blank c \<and> c \<noteq> newline"
  using dec_set [of n] by (auto simp: status_end_def is_blank_def)

lemma dec_no_newline [simp]: "newline \<notin> set (dec n)" "newline \<notin> set (udec w)"
  using dec_digits [of newline] by (auto simp: udec_def)

lemma sdec_no_newline [simp]: "newline \<notin> set (sdec v)"
  by (simp add: sdec_def)

lemma dotted_no_newline [simp]: "newline \<notin> set (dotted ip)"
  by (simp add: dotted_def)

lemma hd_zero: "hd (dec n) = CHR ''0'' \<longleftrightarrow> n = 0"
proof (induction n rule: dec.induct)
  case (1 n)
  have "char_of (48 + d) = CHR ''0'' \<longleftrightarrow> d = 0" if "d < 10" for d :: nat
    unfolding digit_char [OF that] using nth_eq_iff_index_eq [of "''0123456789''" d 0] that by simp
  then show ?case using 1 by (subst dec.simps) (auto simp: hd_append)
qed

lemma udec_length: "0 < k \<Longrightarrow> 2 ^ LENGTH('a) \<le> (10 :: nat) ^ k \<Longrightarrow> length (udec (w :: 'a::len word)) \<le> k"
  unfolding udec_def using unsigned_less [of w, where 'a = nat] by (intro dec_length) linarith+

lemma udec_lengths: "length (udec (a :: u16)) \<le> 5" "length (udec (b :: u32)) \<le> 10" "length (udec (c :: u64)) \<le> 20"
  by (rule udec_length; simp)+

lemma octet_less: "unat (octet k ip) < 256"
proof -
  have "octet k ip \<le> 0xFF" by (simp add: octet_def word_and_le1)
  then have "unat (octet k ip) \<le> unat (0xFF :: u32)" by (simp only: word_le_nat_alt)
  then show ?thesis by simp
qed

lemma octet_length: "length (udec (octet k ip)) \<le> 3"
  using dec_length [of 3 "unat (octet k ip)"] octet_less [of k ip] by (simp add: udec_def)

lemma dotted_length: "length (dotted ip) \<le> 15"
  using octet_length [of 24 ip] octet_length [of 16 ip] octet_length [of 8 ip] octet_length [of 0 ip] by (simp add: dotted_def)

definition int32 :: "int \<Rightarrow> bool" where "int32 v \<longleftrightarrow> - (2 ^ 31) \<le> v \<and> v < 2 ^ 31"

lemma sdec_length: "- (10 ^ k) < v \<Longrightarrow> v < 10 ^ k \<Longrightarrow> 0 < k \<Longrightarrow> length (sdec v) \<le> Suc k"
  using dec_length [of k "nat (- v)"] dec_length [of k "nat v"] by (auto simp: sdec_def nat_less_iff)

lemma int32_length: "int32 v \<Longrightarrow> length (sdec v) \<le> 11"
  using sdec_length [of 10 v] by (simp add: int32_def)

lemma find_in: "List.find P xs = Some x \<Longrightarrow> x \<in> set xs"
  by (auto simp: find_Some_iff)

lemma errno_name: "length (ErrnoName ns e) \<le> 12 \<and> newline \<notin> set (ErrnoName ns e)"
proof -
  have "list_all (\<lambda>n. length n \<le> 12 \<and> newline \<notin> set n) ErrnoNames" by (simp add: ErrnoNames_def)
  then show ?thesis by (auto simp: ErrnoName_def list_all_iff split: option.split dest: find_in)
qed

lemma errno_length: "length (ErrnoName ns e) \<le> 12"
  using errno_name by blast

lemma errno_no_newline [simp]: "newline \<notin> set (ErrnoName ns e)"
  using errno_name by blast

definition readable :: "string \<Rightarrow> bool" where
  "readable s \<longleftrightarrow> s \<noteq> [] \<and> length s \<le> 60 \<and> newline \<notin> set s \<and> \<not> is_blank (hd s) \<and> \<not> status_end (last s)"

lemma net_status_name: "readable (NetStatusName ns st)"
proof -
  have "readable (status_name x)" for x by (cases x) (simp_all add: readable_def is_blank_def status_end_def)
  moreover have "readable ''no-config-yet''" by (simp add: readable_def is_blank_def status_end_def)
  ultimately show ?thesis by (simp add: NetStatusName_def split: option.split del: status_name.simps find.simps)
qed

lemma hex_fmt16: "hex_fmt 16 n = hex16 n"
  by (simp add: hex_fmt_def hex16_def)

text \<open>A line of a label and a text: the scan finds the text when the label is the key, and goes on otherwise.\<close>

definition plain_field :: "string \<times> string \<Rightarrow> bool" where
  "plain_field f \<longleftrightarrow> newline \<notin> set (fst f) \<and> newline \<notin> set (snd f) \<and> length (fst f) = 10 \<and> length (snd f) < 500 \<and>
     \<not> is_blank (hd (fst f))"

definition field_line :: "string \<times> string \<Rightarrow> string" where "field_line f = fst f @ snd f @ [newline]"

lemma fgets_field: "plain_field f \<Longrightarrow> fgets 511 (field_line f @ rest) = (field_line f, rest)"
proof -
  assume f: "plain_field f"
  let ?l = "fst f @ snd f"
  have l: "newline \<notin> set ?l" "length ?l < 511" using f by (auto simp: plain_field_def)
  then have t: "take 511 (?l @ newline # rest) = ?l @ newline # take (510 - length ?l) rest"
    by (simp add: take_Cons')
  have "takeWhile (\<lambda>c. c \<noteq> newline) (take 511 (?l @ newline # rest)) = ?l"
    unfolding t using l(1) by (subst takeWhile_append2) auto
  then have "fgets 511 (?l @ newline # rest) = (take (Suc (length ?l)) (?l @ newline # rest), drop (Suc (length ?l)) (?l @ newline # rest))"
    using l(2) unfolding fgets_def by (simp add: t Let_def del: take_append drop_append)
  then show ?thesis by (simp add: field_line_def)
qed

lemma scan_other:
  assumes "plain_field f" and "length w \<le> 10" and "\<not> starts_with w (fst f)"
  shows "status_scan w (field_line f @ rest) = status_scan w rest"
proof -
  have ne: "field_line f \<noteq> []" by (simp add: field_line_def)
  obtain c l where c: "fst f = c # l" "\<not> is_blank c" using assms(1) by (cases "fst f") (auto simp: plain_field_def)
  then have "skip_blank (field_line f) = field_line f" by (simp add: skip_blank_def field_line_def)
  moreover have "\<not> starts_with w (field_line f)" using assms by (auto simp: starts_with_def field_line_def plain_field_def)
  ultimately have "status_line w (field_line f) = None" by (simp add: status_line_def Let_def)
  then show ?thesis using ne assms(1) by (subst status_scan.simps) (simp add: fgets_field)
qed

lemma scan_hit:
  assumes "plain_field f" and "fst f = w @ CHR '' '' # replicate k (CHR '' '')" and "snd f \<noteq> []"
    and "\<not> is_blank (hd (snd f))" and "\<not> status_end (last (snd f))"
  shows "status_scan w (field_line f @ rest) = snd f"
proof -
  have ne: "field_line f \<noteq> []" by (simp add: field_line_def)
  have "\<not> is_blank (hd (field_line f))" using assms(1) by (auto simp: plain_field_def field_line_def hd_append)
  then have "skip_blank (field_line f) = field_line f" using ne by (cases "field_line f") (simp_all add: skip_blank_def)
  moreover have "starts_with w (field_line f)" by (simp add: starts_with_def field_line_def assms(2))
  moreover have d: "drop (length w) (field_line f) = CHR '' '' # replicate k (CHR '' '') @ snd f @ [newline]"
    by (simp add: field_line_def assms(2))
  moreover have "skip_blank (replicate k (CHR '' '') @ snd f @ [newline]) = snd f @ [newline]"
    using assms(3,4) by (induction k) (simp_all add: skip_blank_id hd_append)
  moreover have "rev (dropWhile status_end (rev (snd f @ [newline]))) = snd f"
    using assms(3,5) by (cases "snd f" rule: rev_cases) (simp_all add: status_end_def)
  moreover have "drop (length w) (field_line f) \<noteq> []" unfolding d by simp
  ultimately have "status_line w (field_line f) = Some (snd f)" unfolding status_line_def Let_def by (simp only: d) (simp add: is_blank_def)
  then show ?thesis using ne assms(1) by (subst status_scan.simps) (simp add: fgets_field)
qed

lemma print_fields_simps [simp]: "print_fields [] = []" "print_fields (f # fs) = field_line f @ print_fields fs"
  by (simp_all add: print_fields_def field_line_def case_prod_beta)

lemma print_fields_append: "print_fields (fs @ gs) = print_fields fs @ print_fields gs"
  by (induction fs) simp_all

text \<open>The whole scan: the first field with the key, if the fields before it do not start with it.\<close>

lemma scan_fields:
  assumes "list_all plain_field (fs @ [f])" and "length w \<le> 10" and "list_all (\<lambda>g. \<not> starts_with w (fst g)) fs"
    and "fst f = w @ CHR '' '' # replicate k (CHR '' '')" and "snd f \<noteq> []" and "\<not> is_blank (hd (snd f))" and "\<not> status_end (last (snd f))"
  shows "status_scan w (print_fields (fs @ f # gs) @ rest) = snd f"
  using assms(1,3)
proof (induction fs)
  case Nil
  then show ?case using scan_hit [OF _ assms(4-7)] by simp
next
  case (Cons g fs)
  then show ?case using scan_other [of g w] assms(2) by simp
qed

lemma popcount_length: "length (dec (popcount m)) \<le> 2"
proof -
  have "popcount m \<le> 32" using length_filter_le [of "bit m" "[0..<32]"] by (simp add: popcount_def)
  then show ?thesis by (intro dec_length) simp_all
qed

lemma fails_length: "length (dec (n mod 2 ^ 32)) \<le> 10"
proof (rule dec_length)
  have "n mod 2 ^ 32 < 2 ^ 32" by simp
  then show "n mod 2 ^ 32 < 10 ^ 10" by simp
qed simp

lemma status_plain:
  assumes "int32 (p_wireFd p)" and "int32 (p_wireErrno p)" and "int32 (p_lastError p)"
  shows "list_all plain_field (take 11 (status_fields ns ticks fails p))"
    and "length (print_fields (take 11 (status_fields ns ticks fails p))) \<le> 767"
proof -
  note u = udec_lengths(3) [of "ticks div (19200 * 1000)"] udec_lengths(3) [of "p_loops p"] int32_length [OF assms(1)]
    udec_lengths(1) [of "p_wireLocalPort p"] udec_lengths(2) [of "p_wireTx p"] udec_lengths(2) [of "p_wireRx p"]
    udec_lengths(2) [of "p_wireTxFail p"] udec_lengths(2) [of "p_wireSkipV6 p"] int32_length [OF assms(2)]
    errno_length [of ns "p_wireErrno p"] dotted_length [of "p_wireLastDstIp p"] udec_lengths(1) [of "p_wireLastDstPort p"]
    udec_lengths(1) [of "p_mappedPort p"] dotted_length [of "ntoh32 (p_natAddress p)"] udec_lengths(1) [of "p_natPublicPort p"]
    udec_lengths(2) [of "p_pollErr p"] errno_length [of ns "p_pollErrno p"] udec_lengths(2) [of "p_pollZero p"]
    udec_lengths(2) [of "p_pollBad p"] fails_length [of fails] int32_length [OF assms(3)] dotted_length [of "m_ip (p_vnet p)"]
    popcount_length [of "m_netmask (p_vnet p)"]
  have ns: "length (NetStatusName ns (p_netStatus p)) \<le> 60" "newline \<notin> set (NetStatusName ns (p_netStatus p))"
    using net_status_name [of ns "p_netStatus p"] by (simp_all add: readable_def)
  show "list_all plain_field (take 11 (status_fields ns ticks fails p))"
    using u ns by (simp add: status_fields_def Let_def plain_field_def wire_word_def hex_fmt16 hex16_def is_blank_def)
  show "length (print_fields (take 11 (status_fields ns ticks fails p))) \<le> 767"
    using u ns by (simp add: status_fields_def Let_def field_line_def wire_word_def hex_fmt16 hex16_def)
qed

lemma scan_prefix:
  assumes "list_all plain_field fs" and "i < length fs" and "list_all (\<lambda>l. \<not> starts_with w l) (take i (map fst fs))"
    and "fst (fs ! i) = w @ CHR '' '' # replicate k (CHR '' '')" and "readable (snd (fs ! i))"
  shows "status_scan w (print_fields fs @ rest) = snd (fs ! i)"
proof -
  note split = id_take_nth_drop [OF assms(2)]
  have p: "list_all plain_field (take i fs @ [fs ! i])" using assms(1) by (subst (asm) split) simp
  then have "length w \<le> 10" using assms(4) by (simp add: plain_field_def)
  moreover have "list_all (\<lambda>g. \<not> starts_with w (fst g)) (take i fs)" using assms(3) by (simp add: list_all_iff take_map)
  ultimately show ?thesis using scan_fields [OF p _ _ assms(4)] assms(5) by (subst split) (simp add: readable_def)
qed

lemma status_scan_text:
  assumes "int32 (p_wireFd p)" and "int32 (p_wireErrno p)" and "int32 (p_lastError p)"
  shows "status_scan ''network'' (status_text ns ticks fails p) = hex16 (p_nwid p)"
    and "status_scan ''online'' (status_text ns ticks fails p) = (if p_online p then ''yes'' else ''no'')"
    and "status_scan ''netstatus'' (status_text ns ticks fails p) = NetStatusName ns (p_netStatus p)"
    and "status_scan ''address'' (status_text ns ticks fails p) = dotted (m_ip (p_vnet p)) @ ''/'' @ dec (popcount (m_netmask (p_vnet p)))"
proof -
  let ?fs = "status_fields ns ticks fails p"
  note plain = status_plain(1) [OF assms, of ns ticks fails] and fits = status_plain(2) [OF assms, of ns ticks fails]
  have t: "status_text ns ticks fails p = print_fields (take 11 ?fs) @ take (767 - length (print_fields (take 11 ?fs))) (print_fields (drop 11 ?fs))"
    unfolding status_text_def using fits by (metis append_take_drop_id print_fields_append take_all_iff take_append)
  have scan: "status_scan w (status_text ns ticks fails p) = snd (?fs ! i)"
    if "i < 11" "list_all (\<lambda>l. \<not> starts_with w l) (take i (map fst ?fs))" "fst (?fs ! i) = w @ CHR '' '' # replicate k (CHR '' '')"
      "readable (snd (?fs ! i))" for i w k
  proof -
    have "i < length (take 11 ?fs)" using that(1) by (simp add: status_fields_def Let_def)
    then show ?thesis using scan_prefix [OF plain] that unfolding t by (simp add: take_map min_def)
  qed
  have first: "\<not> is_blank (hd (dec n))" "\<not> status_end (last (dec n))" for n
    using dec_digits [OF hd_in_set [OF dec_ne]] dec_digits [OF last_in_set [OF dec_ne]] by auto
  have hexes: "newline \<notin> set (hex16 n)" "\<not> is_blank (hd (hex16 n))" "\<not> status_end (last (hex16 n))" "hex16 n \<noteq> []" for n
  proof -
    have "hex_digit c \<noteq> None \<Longrightarrow> \<not> is_blank c \<and> \<not> status_end c" for c
      by (auto simp: hex_digit_def is_blank_def status_end_def)
    moreover have "length (hex16 n) = 16" by (simp add: hex16_def)
    then show ne: "hex16 n \<noteq> []" by auto
    ultimately show "\<not> is_blank (hd (hex16 n))" "\<not> status_end (last (hex16 n))"
      using hex16_no_brackets [OF hd_in_set [OF ne]] hex16_no_brackets [OF last_in_set [OF ne]] by blast+
  qed simp
  have at: "?fs ! 6 = (''network   '', hex16 (p_nwid p))" "?fs ! 7 = (''online    '', if p_online p then ''yes'' else ''no'')"
    "?fs ! 8 = (''netstatus '', NetStatusName ns (p_netStatus p))"
    "?fs ! 10 = (''address   '', dotted (m_ip (p_vnet p)) @ ''/'' @ dec (popcount (m_netmask (p_vnet p))))"
    by (simp_all add: status_fields_def Let_def hex_fmt16)
  have labels: "take 10 (map fst ?fs) = [''uptime    '', ''wire      '', ''wirelast  '', ''nat       '', ''poll      '', ''writefail '',
      ''network   '', ''online    '', ''netstatus '', ''lasterror '']" by (simp add: status_fields_def Let_def)
  have blanks: "replicate 2 x = [x, x]" "replicate 3 x = [x, x, x]" for x :: char by (simp_all add: eval_nat_numeral)
  have take: "take i (map fst ?fs) = take i (take 10 (map fst ?fs))" if "i \<le> 10" for i using that by simp
  have "readable (hex16 (p_nwid p))" using hexes [of "p_nwid p"] by (simp add: readable_def) (simp add: hex16_def)
  then show "status_scan ''network'' (status_text ns ticks fails p) = hex16 (p_nwid p)"
    using scan [of 6 "''network''" 2, unfolded at take labels] by (simp add: take labels starts_with_def blanks)
  have "readable (if p_online p then ''yes'' else ''no'')" by (simp add: readable_def is_blank_def status_end_def)
  then show "status_scan ''online'' (status_text ns ticks fails p) = (if p_online p then ''yes'' else ''no'')"
    using scan [of 7 "''online''" 3, unfolded at take labels] by (simp add: take labels starts_with_def blanks)
  show "status_scan ''netstatus'' (status_text ns ticks fails p) = NetStatusName ns (p_netStatus p)"
    using scan [of 8 "''netstatus''" 0, unfolded at take labels] net_status_name [of ns "p_netStatus p"] by (simp add: take labels starts_with_def blanks)
  have "readable (dotted ip @ ''/'' @ dec (popcount m))" for ip m
    using first dotted_length [of ip] popcount_length [of m] by (simp add: readable_def dotted_def udec_def)
  then show "status_scan ''address'' (status_text ns ticks fails p) = dotted (m_ip (p_vnet p)) @ ''/'' @ dec (popcount (m_netmask (p_vnet p)))"
    using scan [of 10 "''address''" 2, unfolded at take labels] by (simp add: take labels starts_with_def blanks)
qed

lemma starts_dec: "starts_with (CHR ''0'' # s) (dec n @ r) \<longleftrightarrow> n = 0 \<and> starts_with s r"
proof (cases "n = 0")
  case True
  then have "dec n = ''0''" by (subst dec.simps) (simp add: char_of_def bit_numeral_rec bit_0)
  then show ?thesis using True by (simp add: starts_with_def)
next
  case False
  then have "hd (dec n) \<noteq> CHR ''0''" by (simp add: hd_zero)
  then show ?thesis using False by (cases "dec n") (auto simp: starts_with_def)
qed

lemma no_address: "starts_with ''0.0.0.0'' (dotted ip @ r) \<longleftrightarrow> ip = 0"
proof -
  have "ip = 0" if "octet 24 ip = 0" "octet 16 ip = 0" "octet 8 ip = 0" "octet 0 ip = 0"
  proof (rule bit_word_eqI)
    fix n assume n: "n < LENGTH(32)"
    have "\<not> bit ip (k + m)" if "octet k ip = 0" "m < 8" "m < 32" for k m
    proof -
      have "bit (octet k ip) m = (bit (drop_bit k ip) m \<and> bit (0xFF :: u32) m)" by (simp add: octet_def bit_and_iff)
      moreover have "bit (0xFF :: u32) m" using that bit_mask_iff [of 8 m, where 'a = u32] by (auto simp: mask_eq_exp_minus_1)
      ultimately show ?thesis using that(1) by (simp add: bit_drop_bit_eq)
    qed
    note b = this
    have "n = 24 + (n - 24) \<and> n - 24 < 8 \<or> n = 16 + (n - 16) \<and> n - 16 < 8 \<or> n = 8 + (n - 8) \<and> n - 8 < 8 \<or> n < 8" using n by simp linarith
    then have "\<not> bit ip n"
      using b [OF that(1), of "n - 24"] b [OF that(2), of "n - 16"] b [OF that(3), of "n - 8"] b [OF that(4), of n] by fastforce
    then show "bit ip n = bit 0 n" by simp
  qed
  moreover have "octet k 0 = 0" for k by (simp add: octet_def)
  moreover have "starts_with [] x" "starts_with (c # s) (c # x) = starts_with s x" for c s x by (simp_all add: starts_with_def)
  ultimately show ?thesis by (auto simp: dotted_def udec_def starts_dec unat_eq_zero)
qed

lemma hex16_id: "IsHexNetworkId (hex16 n) \<longleftrightarrow> n \<noteq> 0"
proof -
  have "list_all is_hex (hex16 n)"
  proof -
    have "list_all (\<lambda>d. is_hex (hex_char d)) [0..<16]" by (simp add: upt_rec hex_char_def is_hex_def code_def)
    then show ?thesis using set_hex_digits [of _ 16 n] by (fastforce simp: list_all_iff hex16_def)
  qed
  moreover have zero: "hex16 0 = replicate 16 (CHR ''0'')"
  proof -
    have "hex_digits k 0 = replicate k (hex_char 0)" for k by (induction k) (simp_all add: nibble_def)
    moreover have "hex_char 0 = CHR ''0''" by (simp add: hex_char_def char_of_def bit_numeral_rec bit_0)
    ultimately show ?thesis by (simp add: hex16_def)
  qed
  have "list_ex (\<lambda>c. c \<noteq> CHR ''0'') (hex16 n) \<longleftrightarrow> hex16 n \<noteq> replicate 16 (CHR ''0'')"
  proof -
    have "(\<forall>c \<in> set s. c = d) \<longleftrightarrow> s = replicate (length s) d" for s :: string and d
      using replicate_length_same [of s d] by (auto simp: in_set_conv_nth) (metis nth_mem nth_replicate)
    from this [of "hex16 n" "CHR ''0''"] show ?thesis by (auto simp: list_ex_iff hex16_def)
  qed
  then have "list_ex (\<lambda>c. c \<noteq> CHR ''0'') (hex16 n) \<longleftrightarrow> n \<noteq> 0"
    using hex_fmt_eq [of 16 n 0] unfolding hex_fmt16 zero by simp
  ultimately show ?thesis by (simp add: IsHexNetworkId_def hex16_def)
qed

text \<open>What the overlay is to show of a port.\<close>

definition shown_status :: "names \<Rightarrow> Port \<Rightarrow> string \<times> string \<times> string" where
  "shown_status ns p =
     (if p_online p then NetStatusName ns (p_netStatus p) else ''Connecting'',
      if m_ip (p_vnet p) = 0 then ''Not assigned'' else dotted (m_ip (p_vnet p)) @ ''/'' @ dec (popcount (m_netmask (p_vnet p))),
      if p_nwid p = 0 then ''None'' else UpperHex (hex16 (p_nwid p)))"

definition status_due :: "bool \<Rightarrow> int \<Rightarrow> Port \<Rightarrow> report \<Rightarrow> bool" where
  "status_due force now p r \<longleftrightarrow> force \<or> p_online p \<noteq> r_lastStatusOnline r \<or> m_ip (p_vnet p) \<noteq> r_lastStatusIp r \<or>
     p_netStatus p \<noteq> r_lastStatusNetStatus r \<or> 10000 \<le> now - r_lastStatusMs r"


section \<open>The clock never goes back\<close>

text \<open>
  Whatever the wall clock says and however often it fails, the times the module works with never go
  back while the tick of the processor does not, and once set never fall to zero again.
\<close>

theorem now_monotone:
  assumes "sorted (map fst rs)"
  shows "sorted (readings rs clock_start)"
proof -
  define since :: "clock \<Rightarrow> u64 \<Rightarrow> int" where "since c k = s_anchorMs c + int (unat ((k - s_anchorTick c) div 19200))" for c k
  have since_mono: "since c k \<le> since c l" if "s_anchorTick c \<le> k" "k \<le> l" for c k l
  proof -
    have "unat (k - s_anchorTick c) \<le> unat (l - s_anchorTick c)" using that by (simp add: unat_sub order_trans word_le_nat_alt diff_le_mono)
    then show ?thesis by (simp add: since_def unat_div div_le_mono)
  qed
  have anchored: "sorted (readings rs c) \<and> (\<forall>t \<in> set (readings rs c). since c k \<le> t)"
    if "s_anchorMs c \<noteq> 0" "s_anchorTick c \<le> k" "\<forall>r \<in> set rs. k \<le> fst r" "sorted (map fst rs)" for rs c k
    using that
  proof (induction rs arbitrary: k)
    case (Cons r rs)
    obtain ticks wall where r: "r = (ticks, wall)" by (cases r)
    have k: "k \<le> ticks" "s_anchorTick c \<le> ticks" using Cons.prems r by (auto intro: order_trans)
    have "sorted (readings rs c) \<and> (\<forall>t \<in> set (readings rs c). since c ticks \<le> t)"
      using Cons.IH [of ticks] Cons.prems k r by simp
    then show ?case using r Cons.prems(1) since_mono [OF Cons.prems(2) k(1)] by (auto simp: NowMs_def since_def)
  qed simp
  have "sorted (readings rs c) \<and> (\<forall>t \<in> set (readings rs c). 0 \<le> t)" if "s_anchorMs c = 0" "sorted (map fst rs)" for c
    using that
  proof (induction rs arbitrary: c)
    case (Cons r rs)
    obtain ticks wall where r: "r = (ticks, wall)" by (cases r)
    have s: "sorted (map fst rs)" "\<forall>r \<in> set rs. ticks \<le> fst r" using Cons.prems(2) r by auto
    show ?case
    proof (cases wall)
      case None
      then show ?thesis using r Cons.IH [OF Cons.prems(1) s(1)] Cons.prems(1) by (simp add: NowMs_def)
    next
      case (Some sec)
      let ?c = "\<lparr>s_anchorMs = int (unat sec) * 1000, s_anchorTick = ticks\<rparr>"
      have "since ?c ticks = int (unat sec) * 1000" by (simp add: since_def)
      moreover have "0 \<le> x" if "int (unat sec) * 1000 \<le> x" for x
        by (rule order_trans [OF _ that]) simp
      ultimately show ?thesis using r Some Cons.IH [of ?c] anchored [of ?c ticks rs] Cons.prems(1) s
        by (cases "s_anchorMs ?c = 0") (auto simp: NowMs_def Let_def)
    qed
  qed simp
  then show ?thesis using assms by (simp add: clock_start_def)
qed

section \<open>The list of peers fits\<close>

definition peer_sane :: "int \<Rightarrow> peer_info \<Rightarrow> bool" where
  "peer_sane now e \<longleftrightarrow> int32 (pe_role e) \<and> int32 (pe_latency e) \<and> int32 (fst (pe_version e)) \<and> int32 (fst (snd (pe_version e))) \<and>
     int32 (snd (snd (pe_version e))) \<and> length (pe_paths e) < 2 ^ 32 \<and>
     (\<forall>q \<in> set (pe_paths e). pp_expired q \<in> {0, 1} \<and> pp_preferred q \<in> {0, 1} \<and> 0 \<le> sint (pp_lastSend q) \<and> 0 \<le> sint (pp_lastReceive q))"

definition peer_lines :: "int \<Rightarrow> peer_info \<Rightarrow> string list" where
  "peer_lines now e = peer_line e # map (path_line now) (pe_paths e)"

definition head_line :: "int \<Rightarrow> int \<Rightarrow> peer_info list \<Rightarrow> string" where
  "head_line now started ps =
     ''peers '' @ dec (length ps) @ ''   (uptime '' @ udec (word_of_int (now - started) div (1000 :: u64)) @ '' s)'' @ [newline]"

definition printer_ok :: "printer \<Rightarrow> bool" where
  "printer_ok t \<longleftrightarrow> length (fst t) = PeersSize \<and> snd t < PeersSize"

definition printed :: "printer \<Rightarrow> string" where "printed t = take (snd t) (fst t)"

lemma put_fits:
  assumes "printer_ok t" and "snd t + length x < PeersSize"
  shows "\<exists>u. put x t = Some u \<and> printer_ok u \<and> snd u = snd t + length x \<and> printed u = printed t @ x"
  using assms snprintf_fits [of "snd t" x "fst t" "PeersSize - snd t"]
  by (cases t) (auto simp: put_def printer_ok_def printed_def)

lemma since_length:
  assumes "0 \<le> sint t" and "0 \<le> now" and "now < 2 ^ 63"
  shows "length (since now t) \<le> 20"
proof -
  have "sint t < 2 ^ 63" using sint_lt [of t] by simp
  then have "- (10 ^ 19) < (if t \<noteq> 0 then now - sint t else - 1)" "(if t \<noteq> 0 then now - sint t else - 1) < 10 ^ 19"
    using assms by simp_all
  from sdec_length [OF this] show ?thesis unfolding since_def by simp
qed

lemma flag_length: "v \<in> {0, 1} \<Longrightarrow> length (sdec v) \<le> 1"
  using dec_length [of 1 0] dec_length [of 1 1] by (auto simp: sdec_def)

lemma path_line_length:
  assumes "peer_sane now e" and "q \<in> set (pe_paths e)" and "0 \<le> now" and "now < 2 ^ 63"
  shows "length (path_line now q) < 128"
proof -
  have q: "pp_expired q \<in> {0, 1}" "pp_preferred q \<in> {0, 1}" "0 \<le> sint (pp_lastSend q)" "0 \<le> sint (pp_lastReceive q)"
    using assms(1,2) by (auto simp: peer_sane_def)
  show ?thesis
    using dotted_length [of "pp_ip q"] udec_lengths(1) [of "pp_port q"] flag_length [OF q(1)] flag_length [OF q(2)]
      since_length [OF q(3) assms(3,4)] since_length [OF q(4) assms(3,4)] by (simp add: path_line_def)
qed

lemma digits_for_bound: "digits_for n k v \<le> n + k"
  by (induction n arbitrary: k) (auto simp: le_SucI, metis add_Suc_right)

lemma peer_line_length: "peer_sane now e \<Longrightarrow> length (peer_line e) < 256"
proof -
  assume e: "peer_sane now e"
  have "length (hex_fmt 10 (pe_address e)) \<le> 16" using digits_for_bound [of 6 10 "pe_address e"] by (simp add: hex_fmt_def)
  moreover have "length (dec (length (pe_paths e))) \<le> 10" by (rule dec_length) (use e in \<open>simp_all add: peer_sane_def\<close>)
  moreover have "int32 (pe_role e)" "int32 (pe_latency e)" "int32 (fst (pe_version e))" "int32 (fst (snd (pe_version e)))"
    "int32 (snd (snd (pe_version e)))" using e by (simp_all add: peer_sane_def)
  note this [THEN int32_length]
  ultimately show ?thesis by (simp add: peer_line_def)
qed

lemma put_paths_fits:
  assumes "\<forall>q \<in> set qs. length (path_line now q) < 128" and "printer_ok t"
  shows "\<exists>u k. put_paths now qs t = Some u \<and> printer_ok u \<and> printed u = printed t @ concat (take k (map (path_line now) qs)) \<and>
    (k < length qs \<longrightarrow> PeersSize \<le> snd u + 128)"
  using assms
proof (induction qs arbitrary: t)
  case (Cons q qs)
  show ?case
  proof (cases "snd t + 128 < PeersSize")
    case True
    then obtain u where u: "put (path_line now q) t = Some u" "printer_ok u" "printed u = printed t @ path_line now q"
      using put_fits [OF Cons.prems(2), of "path_line now q"] Cons.prems(1) by fastforce
    then obtain w k where w: "put_paths now qs u = Some w" "printer_ok w" "printed w = printed u @ concat (take k (map (path_line now) qs))"
      "k < length qs \<longrightarrow> PeersSize \<le> snd w + 128" using Cons.IH [of u] Cons.prems(1) by auto
    then show ?thesis using True u by (intro exI [of _ w] exI [of _ "Suc k"]) simp
  next
    case False
    then show ?thesis using Cons.prems(2) by (intro exI [of _ t] exI [of _ 0]) simp
  qed
qed simp

lemma put_peers_fits:
  assumes "\<forall>e \<in> set es. peer_sane now e" and "0 \<le> now" and "now < 2 ^ 63" and "printer_ok t"
  shows "\<exists>u k. put_peers now es t = Some u \<and> printer_ok u \<and> printed u = printed t @ concat (take k (concat (map (peer_lines now) es))) \<and>
    (k < length (concat (map (peer_lines now) es)) \<longrightarrow> PeersSize \<le> snd u + 256)"
  using assms(1,4)
proof (induction es arbitrary: t)
  case (Cons e es)
  show ?case
  proof (cases "snd t + 256 < PeersSize")
    case True
    have e: "peer_sane now e" using Cons.prems(1) by simp
    obtain u where u: "put (peer_line e) t = Some u" "printer_ok u" "printed u = printed t @ peer_line e"
      using put_fits [OF Cons.prems(2), of "peer_line e"] peer_line_length [OF e] True by fastforce
    obtain w k where w: "put_paths now (pe_paths e) u = Some w" "printer_ok w"
      "printed w = printed u @ concat (take k (map (path_line now) (pe_paths e)))" "k < length (pe_paths e) \<longrightarrow> PeersSize \<le> snd w + 128"
      using put_paths_fits [of "pe_paths e" now u] path_line_length [OF e _ assms(2,3)] u(2) by blast
    obtain x j where x: "put_peers now es w = Some x" "printer_ok x" "printed x = printed w @ concat (take j (concat (map (peer_lines now) es)))"
      "j < length (concat (map (peer_lines now) es)) \<longrightarrow> PeersSize \<le> snd x + 256" using Cons.IH [of w] Cons.prems(1) w(2) by auto
    have run: "put_peers now (e # es) t = Some x" using True u(1) w(1) x(1) by simp
    show ?thesis
    proof (cases "k < length (pe_paths e)")
      case True
      then have "x = w" using w(4) x(1) by (cases es) auto
      then show ?thesis using run u w x True
        by (intro exI [of _ w] exI [of _ "Suc k"]) (simp add: peer_lines_def)
    next
      case False
      then have "printed x = printed t @ concat (take (Suc (length (pe_paths e) + j)) (concat (map (peer_lines now) (e # es))))"
        using u(3) w(3) x(3) by (simp add: peer_lines_def)
      then show ?thesis using run x(2,4)
        by (intro exI [of _ x] exI [of _ "Suc (length (pe_paths e) + j)"]) (simp add: peer_lines_def [of now e] del: put_peers.simps)
    qed
  next
    case False
    then show ?thesis using Cons.prems(2) by (intro exI [of _ t] exI [of _ 0]) simp
  qed
qed simp

text \<open>
  C39. The list of peers stays in its buffer of 1536 characters, whatever peers and paths there are: writing
  it always returns, and the file is the heading and the first lines of the list, each one whole.  The
  guards of 256 and 128 characters leave room for the longest line of a peer and of a path.
\<close>

theorem peers_fit:
  assumes "\<forall>e \<in> set ps. peer_sane now e" and "length ps < 2 ^ 32" and "0 \<le> now" and "now < 2 ^ 63" and "length stack = PeersSize"
  shows "\<exists>r1 sd1. writePeers now (Some ps) stack fs_fine blank p (r, sd) = Some (r1, sd1) \<and>
    (if \<not> p_node p \<or> (r_lastPeersMs r \<noteq> 0 \<and> now - r_lastPeersMs r < 30000) then r1 = r \<and> sd1 = sd
     else r_lastPeersMs r1 = now \<and>
       (\<exists>k. fst sd1 PeersPath = Some (head_line now (r_startedMs r) ps @ concat (take k (concat (map (peer_lines now) ps))))))"
proof (cases "\<not> p_node p \<or> (r_lastPeersMs r \<noteq> 0 \<and> now - r_lastPeersMs r < 30000)")
  case True
  then show ?thesis by (auto simp: writePeers_def)
next
  case False
  let ?h = "head_line now (r_startedMs r) ps"
  have "length (dec (length ps)) \<le> 10" by (rule dec_length) (use assms(2) in simp_all)
  then have "length ?h < PeersSize" using udec_lengths(3) [of "word_of_int (now - r_startedMs r) div (1000 :: u64)"]
    by (simp add: head_line_def PeersSize_def)
  moreover have "printer_ok (stack, 0)" using assms(5) by (simp add: printer_ok_def PeersSize_def)
  ultimately obtain t where t: "put ?h (stack, 0) = Some t" "printer_ok t" "printed t = ?h"
    using put_fits [of "(stack, 0)" ?h] by (auto simp: printed_def)
  obtain u k where u: "put_peers now ps t = Some u" "printer_ok u" "printed u = ?h @ concat (take k (concat (map (peer_lines now) ps)))"
    using put_peers_fits [OF assms(1,3,4) t(2)] t(3) by auto
  have "peers_text now (r_startedMs r) ps (stack, 0) = Some ((fst u)[snd u := nul], snd u)"
    using t(1) u(1,2) unfolding peers_text_def head_line_def [symmetric] by (simp add: printer_ok_def)
  moreover have "take (snd u) ((fst u)[snd u := nul]) = printed u" by (simp add: printed_def)
  ultimately show ?thesis using False u(3)
    by (auto simp: writePeers_def WriteWholeFile_def replace_file_def fs_fine_def Let_def)
qed

section \<open>Watermarks\<close>

fun watermarks :: "(u64 \<times> u64) option list \<Rightarrow> u64 \<Rightarrow> (nat \<times> nat) list" where
  "watermarks [] low = []"
| "watermarks (a # as) low =
     (case TraceArenaWatermark a low of (low1, line) \<Rightarrow> (case line of None \<Rightarrow> [] | Some l \<Rightarrow> [l]) @ watermarks as low1)"

lemma watermark_step:
  assumes "TraceArenaWatermark (Some (f, largest)) low = (low1, Some l)" and "unat f \<le> 2 ^ 63"
  shows "low1 = f \<and> unat f + 256 * 1024 \<le> unat low"
proof -
  have n: "\<not> low < f + 256 * 1024" "low1 = f" using assms(1) by (auto simp: TraceArenaWatermark_def split: if_splits)
  have "unat (f + 256 * 1024) = unat f + 256 * 1024"
  proof -
    have "unat f + unat (256 * 1024 :: u64) < 2 ^ LENGTH(64)" using assms(2) by simp
    then have "unat (f + 256 * 1024) = unat f + unat (256 * 1024 :: u64)" by (rule unat_add_lem [THEN iffD1])
    then show ?thesis by simp
  qed
  then show ?thesis using n by (simp add: word_less_nat_alt)
qed

lemma watermarks_bound:
  assumes "\<forall>a \<in> set as. case a of None \<Rightarrow> True | Some (f, _) \<Rightarrow> unat f \<le> 2 ^ 63"
  shows "length (watermarks as low) * (256 * 1024) \<le> unat low"
  using assms
proof (induction as arbitrary: low)
  case (Cons a as)
  obtain low1 line where s: "TraceArenaWatermark a low = (low1, line)" by (cases "TraceArenaWatermark a low")
  have ih: "length (watermarks as low1) * (256 * 1024) \<le> unat low1" using Cons by simp
  show ?case
  proof (cases line)
    case None
    then have "low1 = low" using s by (auto simp: TraceArenaWatermark_def split: option.splits prod.splits if_splits)
    then show ?thesis using ih s None by simp
  next
    case (Some l)
    then obtain f largest where a: "a = Some (f, largest)" using s by (cases a) (auto simp: TraceArenaWatermark_def)
    have "low1 = f \<and> unat f + 256 * 1024 \<le> unat low" by (rule watermark_step) (use s a Some Cons.prems in auto)
    then show ?thesis using ih s Some by simp
  qed
qed simp

text \<open>
  The watermark of an arena of that many bytes is traced at most once per 256 KB of it and once more, however
  long the module runs.
\<close>

lemma watermarks_few:
  assumes "\<forall>a \<in> set as. case a of None \<Rightarrow> True | Some (f, _) \<Rightarrow> unat f \<le> arena" and "arena \<le> 2 ^ 63"
  shows "length (watermarks as low) \<le> arena div (256 * 1024) + 1"
  using assms(1)
proof (induction as arbitrary: low)
  case (Cons a as)
  obtain low1 line where s: "TraceArenaWatermark a low = (low1, line)" by (cases "TraceArenaWatermark a low")
  show ?case
  proof (cases line)
    case None
    then show ?thesis using s Cons by simp
  next
    case (Some l)
    then obtain f largest where a: "a = Some (f, largest)" using s by (cases a) (auto simp: TraceArenaWatermark_def)
    have f: "unat f \<le> arena" using Cons.prems a by simp
    have "low1 = f" using watermark_step [of f largest low low1 l] s a Some f assms(2) by simp
    moreover have "length (watermarks as f) * (256 * 1024) \<le> unat f"
      by (rule watermarks_bound) (use Cons.prems assms(2) in \<open>fastforce split: option.splits\<close>)
    then have "length (watermarks as f) \<le> arena div (256 * 1024)" using f by (simp add: less_eq_div_iff_mult_less_eq)
    ultimately show ?thesis using s Some by simp
  qed
qed simp

section \<open>Instances\<close>

definition demo_names :: names where
  "demo_names = \<lparr>n_errno = (\<lambda>n. if n = ''EPIPE'' then 32 else - 1),
     n_status = (\<lambda>s. case s of RequestingConfiguration \<Rightarrow> 0 | NetOk \<Rightarrow> 1 | AccessDenied \<Rightarrow> 2 | NotFound \<Rightarrow> 3 | PortError \<Rightarrow> 4 |
       ClientTooOld \<Rightarrow> 5 | AuthenticationRequired \<Rightarrow> 6)\<rparr>"

definition demo_online :: Port where
  "demo_online = port_fresh\<lparr>p_online := True, p_netStatus := 1, p_nwid := 0x8056C2E21C000001, p_vnet := reset vnet_fresh\<rparr>"


lemma now_monotone_witness: "sorted (readings [(5, None), (19205, Some 7), (38405, None)] clock_start)"
  by (rule now_monotone) simp

lemma peers_fit_witness:
  "\<exists>r1 sd1. writePeers 40000 (Some [\<lparr>pe_address = 1, pe_role = 0, pe_latency = -1, pe_version = (1, 14, 2), pe_paths = []\<rparr>])
     (replicate PeersSize nul) fs_fine [] demo_port (report_start, (\<lambda>_. None), 0) = Some (r1, sd1)"
proof -
  let ?p = "\<lparr>pe_address = 1, pe_role = 0, pe_latency = -1, pe_version = (1, 14, 2), pe_paths = []\<rparr> :: peer_info"
  have "\<forall>e \<in> set [?p]. peer_sane 40000 e" by (simp add: peer_sane_def int32_def)
  from peers_fit [OF this, where stack = "replicate PeersSize nul" and blank = "[]" and p = demo_port and r = report_start
      and sd = "(\<lambda>_. None, 0)"] show ?thesis by auto
qed

end
