(* ===== verification/BsdTrace.thy ===== *)
theory BsdTrace
  imports BsdFlow Logs
begin

text \<open>
  What the interposers record of the traffic (\<^verbatim>\<open>mitm/bsd_shim.cpp\<close>): two rings of lines, the counters of
  flows, and the exchanges of the browsing protocol, with the reading of packets of other machines
  that this takes.  \<open>diag\<close> is \<^verbatim>\<open>DiagnosticsEnabled\<close>; whether an allocation succeeds is an argument.
\<close>

section \<open>The two rings\<close>

definition LogLines :: nat where "LogLines = 96"
definition LogLineLen :: nat where "LogLineLen = 112"
definition NifmLogLines :: nat where "NifmLogLines = 24"
definition NifmLogLineLen :: nat where "NifmLogLineLen = 112"

record note_log =
  lg_ring :: "string list option"
  lg_count :: nat
  lg_dirty :: bool

definition note_log_start :: note_log where
  "note_log_start = \<lparr>lg_ring = None, lg_count = 0, lg_dirty = False\<rparr>"

text \<open>Both buffers are allocated or none is; a line is cut to its slot.\<close>

definition ensure_ring :: "nat \<Rightarrow> bool \<Rightarrow> note_log \<Rightarrow> note_log" where
  "ensure_ring n alloc l = (if lg_ring l = None \<and> alloc then l\<lparr>lg_ring := Some (replicate n [])\<rparr> else l)"

definition append_note :: "nat \<Rightarrow> nat \<Rightarrow> bool \<Rightarrow> bool \<Rightarrow> string \<Rightarrow> note_log \<Rightarrow> note_log" where
  "append_note n w diag alloc line l =
     (if \<not> diag then l
      else let l1 = ensure_ring n alloc l in
        case lg_ring l1 of
          None \<Rightarrow> l1
        | Some ring \<Rightarrow> l1\<lparr>lg_ring := Some (ring[lg_count l1 mod n := take (w - 1) line]), lg_count := lg_count l1 + 1, lg_dirty := True\<rparr>)"

text \<open>The text to be written, if any.\<close>

definition flush_notes :: "nat \<Rightarrow> nat \<Rightarrow> note_log \<Rightarrow> note_log \<times> string option" where
  "flush_notes n w l =
     (case lg_ring l of
        Some ring \<Rightarrow>
          (if lg_dirty l
           then (l\<lparr>lg_dirty := False\<rparr>,
                 Some (gather n w ring (if n < lg_count l then lg_count l - n else 0) (lg_count l) []))
           else (l, None))
      | None \<Rightarrow> (l, None))"

definition Note :: "bool \<Rightarrow> bool \<Rightarrow> string \<Rightarrow> note_log \<Rightarrow> note_log" where
  "Note = append_note LogLines LogLineLen"

definition NoteNifm :: "bool \<Rightarrow> bool \<Rightarrow> string \<Rightarrow> note_log \<Rightarrow> note_log" where
  "NoteNifm = append_note NifmLogLines NifmLogLineLen"

definition FlushBsdTrace :: "note_log \<Rightarrow> note_log \<times> string option" where
  "FlushBsdTrace = flush_notes LogLines LogLineLen"

definition FlushNifmTrace :: "note_log \<Rightarrow> note_log \<times> string option" where
  "FlushNifmTrace = flush_notes NifmLogLines NifmLogLineLen"

text \<open>Noting and writing at once; with diagnostics off, or no buffers, nothing is written.\<close>

definition NoteNifmSync :: "bool \<Rightarrow> bool \<Rightarrow> string \<Rightarrow> note_log \<Rightarrow> note_log \<times> string option" where
  "NoteNifmSync diag alloc line l =
     (let l1 = NoteNifm diag alloc line l in
      if \<not> diag \<or> lg_ring l1 = None then (l1, None) else FlushNifmTrace l1)"

section \<open>Flows\<close>

type_synonym flow_key = "u8 \<times> int \<times> u32 \<times> u16 \<times> u16"

record FlowCounter =
  f_key :: flow_key
  f_count :: u32
  f_used :: bool

definition FlowSlots :: nat where "FlowSlots = 24"

definition flows_start :: "FlowCounter list" where
  "flows_start = replicate FlowSlots \<lparr>f_key = (0, 0, 0, 0, 0), f_count = 0, f_used = False\<rparr>"

text \<open>The slot of the key if there is one, else the first free one.\<close>

fun flow_slot :: "flow_key \<Rightarrow> nat \<Rightarrow> FlowCounter list \<Rightarrow> nat option \<Rightarrow> nat option" where
  "flow_slot k i [] free = free"
| "flow_slot k i (f # fs) free =
     (if f_used f \<and> f_key f = k then Some i
      else flow_slot k (i + 1) fs (if \<not> f_used f \<and> free = None then Some i else free))"

definition power_test :: "u32 \<Rightarrow> bool" where "power_test c \<longleftrightarrow> c AND (c - 1) = 0"

text \<open>\<^verbatim>\<open>SampleFlow\<close>: the new table, and the count if it is to be logged.\<close>

definition SampleFlow :: "bool \<Rightarrow> flow_key \<Rightarrow> FlowCounter list \<Rightarrow> FlowCounter list \<times> u32 option" where
  "SampleFlow diag k fs =
     (if \<not> diag then (fs, None)
      else case flow_slot k 0 fs None of
        None \<Rightarrow> (fs, None)
      | Some i \<Rightarrow>
          (let f = (if f_used (fs ! i) then fs ! i else \<lparr>f_key = k, f_count = 0, f_used = True\<rparr>);
               c = f_count f + 1 in
           (fs[i := f\<lparr>f_count := c\<rparr>], if power_test c then Some c else None)))"

section \<open>Reading packets\<close>

definition ReadBe32 :: "u8 list \<Rightarrow> nat \<Rightarrow> u32 option" where
  "ReadBe32 p off = do { b \<leftarrow> slice p off 4; Some (be32 (b ! 0) (b ! 1) (b ! 2) (b ! 3)) }"

definition ReadBe64 :: "u8 list \<Rightarrow> nat \<Rightarrow> u64 option" where
  "ReadBe64 p off = do {
     hi \<leftarrow> ReadBe32 p off; lo \<leftarrow> ReadBe32 p (off + 4);
     Some (push_bit 32 (ucast hi) OR ucast lo) }"

definition ReadBe16 :: "u8 list \<Rightarrow> nat \<Rightarrow> u16 option" where
  "ReadBe16 p off = do { b \<leftarrow> slice p off 2; Some (push_bit 8 (ucast (b ! 0)) OR ucast (b ! 1)) }"

definition Fingerprint32 :: "u8 list \<Rightarrow> nat \<Rightarrow> nat \<Rightarrow> u32 option" where
  "Fingerprint32 p off len = map_option (foldl (\<lambda>hash b. (hash XOR ucast b) * 16777619) 2166136261) (slice p off len)"

fun find_bytes :: "u8 list \<Rightarrow> nat \<Rightarrow> u8 list \<Rightarrow> int" where
  "find_bytes b i d = (if length d < 4 then -1 else if take 4 d = b then int i else find_bytes b (i + 1) (tl d))"

declare find_bytes.simps [simp del]

text \<open>On a body given as the list of its bytes.\<close>

definition FindIpOffset :: "u8 list \<Rightarrow> u32 \<Rightarrow> int" where
  "FindIpOffset d ip = (if length d < 4 \<or> ip = 0 then -1 else find_bytes (ip_bytes ip) 0 d)"

section \<open>The browsing protocol\<close>

record browse =
  bo_pid :: u64
  bo_fd :: int
  bo_srcIp :: u32
  bo_counter :: u64
  bo_keyHash :: u32
  bo_count :: u32

definition PiaPacketMax :: nat where "PiaPacketMax = 1364"

text \<open>
  The last request and the captured packets: of the five that are kept only the part that is in use, of
  the two copies for writing the whole arrays.
\<close>

record capture =
  ca_last :: browse
  ca_ready :: bool
  ca_latest :: "u8 list"
  ca_first :: "u8 list \<times> u8 list"
  ca_pair :: "u8 list \<times> u8 list"
  ca_pid :: u64
  ca_network :: u32
  ca_first_dirty :: bool
  ca_dirty :: bool
  ca_flush :: "u8 list \<times> u8 list"

definition capture_start :: capture where
  "capture_start = \<lparr>ca_last = \<lparr>bo_pid = 0, bo_fd = 0, bo_srcIp = 0, bo_counter = 0, bo_keyHash = 0, bo_count = 0\<rparr>,
     ca_ready = False, ca_latest = [], ca_first = ([], []), ca_pair = ([], []), ca_pid = 0, ca_network = 0,
     ca_first_dirty = False, ca_dirty = False, ca_flush = (replicate PiaPacketMax 0, replicate PiaPacketMax 0)\<rparr>"

definition EnsurePiaCaptureBuffersLocked :: "bool \<Rightarrow> capture \<Rightarrow> capture" where
  "EnsurePiaCaptureBuffersLocked alloc c = (if ca_ready c then c else c\<lparr>ca_ready := alloc\<rparr>)"

text \<open>A copy into a buffer of \<open>PiaPacketMax\<close> bytes.\<close>

definition fill :: "u8 list \<Rightarrow> u8 list option" where
  "fill d = (if length d \<le> PiaPacketMax then Some d else None)"

text \<open>\<^verbatim>\<open>ObserveBrowseRequest\<close>, with what is logged: version, encryption, counter, key and count.\<close>

definition ObserveBrowseRequest ::
  "bool \<Rightarrow> bool \<Rightarrow> u64 \<Rightarrow> int \<Rightarrow> u8 list \<Rightarrow> u32 \<Rightarrow> u16 \<Rightarrow> capture \<Rightarrow> (capture \<times> (u8 \<times> u8 \<times> u64 \<times> u32 \<times> u32) option) option" where
  "ObserveBrowseRequest diag alloc pid fd data src_ip src_port c =
     (if \<not> diag \<or> length data < 5 then Some (c, None)
      else do {
        kind \<leftarrow> aget data 0;
        if kind \<noteq> 0 \<or> src_port \<noteq> 30000 then Some (c, None)
        else do {
          criteria_size \<leftarrow> ReadBe32 data 1;
          let off = 5 + unat criteria_size;
          if length data < off \<or> length data - off < 42 then Some (c, None)
          else do {
            counter \<leftarrow> ReadBe64 data (off + 2);
            key_hash \<leftarrow> Fingerprint32 data (off + 10) 16;
            let count = bo_count (ca_last c) + 1;
            let c1 = c\<lparr>ca_last := \<lparr>bo_pid = pid, bo_fd = fd, bo_srcIp = src_ip, bo_counter = counter, bo_keyHash = key_hash, bo_count = count\<rparr>\<rparr>;
            let c2 = EnsurePiaCaptureBuffersLocked alloc c1;
            c3 \<leftarrow> (if length data \<le> PiaPacketMax
                  then if ca_ready c2 then map_option (\<lambda>d. c2\<lparr>ca_latest := d\<rparr>) (fill data) else Some c2
                  else Some c1);
            version \<leftarrow> aget data (int off);
            enc \<leftarrow> aget data (int off + 1);
            Some (c3, if power_test count then Some (version, enc, counter, key_hash, count) else None) } } })"

text \<open>The snapshot of a request and the reply to it.\<close>

definition snapshot_pair :: "bool \<Rightarrow> u64 \<Rightarrow> u32 \<Rightarrow> u32 \<Rightarrow> u8 list \<Rightarrow> capture \<Rightarrow> capture option" where
  "snapshot_pair alloc pid dst_ip network_id data c =
     (if length data \<le> PiaPacketMax \<and> ca_latest c \<noteq> [] \<and> bo_pid (ca_last c) = pid \<and> bo_srcIp (ca_last c) = dst_ip then
        let c1 = EnsurePiaCaptureBuffersLocked alloc c in
        if \<not> ca_ready c1 then Some c1
        else do {
          request \<leftarrow> fill (ca_latest c1);
          reply \<leftarrow> fill data;
          let c2 = c1\<lparr>ca_pair := (request, reply), ca_dirty := True\<rparr>;
          Some (if fst (ca_first c2) = [] \<or> ca_pid c2 \<noteq> pid \<or> ca_network c2 \<noteq> network_id
                then c2\<lparr>ca_first := (request, reply), ca_pid := pid, ca_network := network_id, ca_first_dirty := True\<rparr>
                else c2) }
      else Some c)"

text \<open>What is logged of a reply; \<open>again\<close> is the last request when it is looked at a second time.\<close>

record crypto_note =
  cn_response :: "u8 \<times> u8 \<times> u64"
  cn_request_counter :: u64
  cn_keys :: "u32 \<times> u32 \<times> u32"
  cn_same :: bool

record reply_note =
  rn_network :: u32
  rn_opened :: u8
  rn_players :: u16
  rn_maximum :: u16
  rn_system :: u8
  rn_managed_at :: int
  rn_physical_at :: int
  rn_host :: u32
  rn_crypto :: "crypto_note option"

definition body_size_of :: "u8 list \<Rightarrow> u32 \<Rightarrow> nat" where
  "body_size_of data session_size = min (length data - 5) (unat session_size)"

definition note_crypto :: "u64 \<Rightarrow> u32 \<Rightarrow> u8 list \<Rightarrow> nat \<Rightarrow> browse \<Rightarrow> crypto_note option option" where
  "note_crypto pid dst_ip data body_size again =
     (let response = 5 + body_size in
      if 0x4F2 + 32 \<le> body_size \<and> response \<le> length data \<and> 58 \<le> length data - response then do {
        reply_key \<leftarrow> Fingerprint32 data (5 + 0x4F2) 16;
        request_key \<leftarrow> Fingerprint32 data (5 + 0x4F2 + 16) 16;
        response_key \<leftarrow> Fingerprint32 data (response + 10) 16;
        r0 \<leftarrow> aget data (int response); r1 \<leftarrow> aget data (int response + 1);
        counter \<leftarrow> ReadBe64 data (response + 2);
        let mine = (bo_pid again = pid \<and> bo_srcIp again = dst_ip);
        Some (Some \<lparr>cn_response = (r0, r1, counter), cn_request_counter = (if mine then bo_counter again else 0),
          cn_keys = (reply_key, request_key, response_key), cn_same = (mine \<and> request_key = bo_keyHash again)\<rparr>) }
      else Some None)"

definition note_reply :: "u64 \<Rightarrow> u32 \<Rightarrow> u32 \<Rightarrow> u32 \<Rightarrow> u8 list \<Rightarrow> nat \<Rightarrow> u32 \<Rightarrow> u16 \<Rightarrow> browse \<Rightarrow> reply_note option" where
  "note_reply pid dst_ip physical_ip managed_ip data body_size network_id players again = do {
     system \<leftarrow> (if 0x26 < body_size then aget data (5 + 0x26) else Some 0xff);
     maximum \<leftarrow> (if 0x25 < body_size then ReadBe16 data (5 + 0x24) else Some 0xffff);
     opened \<leftarrow> (if 0x1AE < body_size then aget data (5 + 0x1AE) else Some 0xff);
     body \<leftarrow> slice data 5 body_size;
     host \<leftarrow> (if 0x1AF + 35 \<le> body_size then Fingerprint32 data (5 + 0x1AF) 35 else Some 0);
     crypto \<leftarrow> note_crypto pid dst_ip data body_size again;
     Some \<lparr>rn_network = network_id, rn_opened = opened, rn_players = players, rn_maximum = maximum, rn_system = system,
       rn_managed_at = FindIpOffset body managed_ip, rn_physical_at = FindIpOffset body physical_ip, rn_host = host, rn_crypto = crypto\<rparr> }"

text \<open>The part of \<^verbatim>\<open>MirrorLanPayload\<close> before a reply is sent; the caller has checked that it is one.\<close>

definition ObserveBrowseReply ::
  "bool \<Rightarrow> bool \<Rightarrow> u64 \<Rightarrow> int \<Rightarrow> u32 \<Rightarrow> u16 \<Rightarrow> u8 list \<Rightarrow> u32 \<Rightarrow> u32 \<Rightarrow> browse \<Rightarrow> capture \<times> FlowCounter list \<Rightarrow>
   ((capture \<times> FlowCounter list) \<times> reply_note option) option" where
  "ObserveBrowseReply diag alloc pid fd dst_ip dst_port data physical_ip managed_ip again = (\<lambda>(c, flows). do {
     session_size \<leftarrow> ReadBe32 data 1;
     let body_size = body_size_of data session_size;
     network_id \<leftarrow> (if 8 \<le> body_size then ReadBe32 data (5 + 4) else Some 0);
     players \<leftarrow> (if 0x21 < body_size then ReadBe16 data (5 + 0x20) else Some 0xffff);
     c1 \<leftarrow> snapshot_pair alloc pid dst_ip network_id data c;
     (case SampleFlow diag (8, fd, physical_ip, dst_port, 0) flows of
        (flows1, None) \<Rightarrow> Some ((c1, flows1), None)
      | (flows1, Some n) \<Rightarrow> do {
          r \<leftarrow> note_reply pid dst_ip physical_ip managed_ip data body_size network_id players again;
          Some ((c1, flows1), Some r) }) })"

section \<open>Writing the captures\<close>

text \<open>
  A capture is copied under the lock and written after it is released, so another thread that flushes or
  observes may come between: \<open>w1\<close> and \<open>w2\<close>.  The two copies are shared by all threads.
\<close>

definition flush_copy :: "u8 list \<times> u8 list \<Rightarrow> capture \<Rightarrow> capture option" where
  "flush_copy pair c = do {
     q \<leftarrow> memcpy (fst (ca_flush c)) 0 (fst pair);
     r \<leftarrow> memcpy (snd (ca_flush c)) 0 (snd pair);
     Some (c\<lparr>ca_flush := (q, r)\<rparr>) }"

definition written :: "nat \<times> nat \<Rightarrow> capture \<Rightarrow> u8 list \<times> u8 list" where
  "written lens c = (take (fst lens) (fst (ca_flush c)), take (snd lens) (snd (ca_flush c)))"

definition lengths :: "u8 list \<times> u8 list \<Rightarrow> nat \<times> nat" where
  "lengths pair = (length (fst pair), length (snd pair))"

text \<open>The state and the two pairs of files, each if it is written.\<close>

definition FlushPiaCapture ::
  "bool \<Rightarrow> (capture \<Rightarrow> capture) \<Rightarrow> (capture \<Rightarrow> capture) \<Rightarrow> capture \<Rightarrow>
   (capture \<times> (u8 list \<times> u8 list) option \<times> (u8 list \<times> u8 list) option) option" where
  "FlushPiaCapture alloc w1 w2 c0 =
     (if \<not> ca_first_dirty c0 \<and> \<not> ca_dirty c0 then Some (c0, None, None)
      else let c = EnsurePiaCaptureBuffersLocked alloc c0 in
      if \<not> ca_ready c then Some (c, None, None)
      else do {
        c1 \<leftarrow> (if ca_first_dirty c then map_option (\<lambda>d. d\<lparr>ca_first_dirty := False\<rparr>) (flush_copy (ca_first c) c) else Some c);
        let c2 = w1 c1;
        let first = (if ca_first_dirty c then Some (written (lengths (ca_first c)) c2) else None);
        if \<not> ca_dirty c2 then Some (c2, first, None)
        else let c3 = EnsurePiaCaptureBuffersLocked alloc c2 in
        if \<not> ca_ready c3 then Some (c3, first, None)
        else do {
          c4 \<leftarrow> flush_copy (ca_pair c3) c3;
          let c5 = w2 (c4\<lparr>ca_dirty := False\<rparr>);
          Some (c5, first, Some (written (lengths (ca_pair c3)) c5)) } })"


text \<open>Everything that is due: the text of the log and the two pairs of files.\<close>

type_synonym observations = "string option \<times> (u8 list \<times> u8 list) option \<times> (u8 list \<times> u8 list) option"

definition FlushObservations ::
  "bool \<Rightarrow> (capture \<Rightarrow> capture) \<Rightarrow> (capture \<Rightarrow> capture) \<Rightarrow> note_log \<times> capture \<Rightarrow> ((note_log \<times> capture) \<times> observations) option" where
  "FlushObservations alloc w1 w2 = (\<lambda>(l, c). case FlushBsdTrace l of (l1, report) \<Rightarrow> do {
     (c1, first, last) \<leftarrow> FlushPiaCapture alloc w1 w2 c;
     Some ((l1, c1), report, first, last) })"

definition NoteSync ::
  "bool \<Rightarrow> bool \<times> bool \<Rightarrow> (capture \<Rightarrow> capture) \<Rightarrow> (capture \<Rightarrow> capture) \<Rightarrow> string \<Rightarrow> note_log \<times> capture \<Rightarrow>
   ((note_log \<times> capture) \<times> observations) option" where
  "NoteSync diag alloc w1 w2 line = (\<lambda>(l, c).
     let l1 = Note diag (fst alloc) line l in
     if \<not> diag \<or> lg_ring l1 = None then Some ((l1, c), None, None, None) else FlushObservations (snd alloc) w1 w2 (l1, c))"

section \<open>Receiving and closing\<close>

text \<open>
  What \<^verbatim>\<open>ReceiveLanDatagram\<close> records of a datagram: for a look at it only the flow, else the request and
  the flow with its first four bytes.
\<close>

definition ObserveReceive ::
  "bool \<Rightarrow> bool \<Rightarrow> u64 \<Rightarrow> int \<Rightarrow> u8 list \<Rightarrow> u32 \<Rightarrow> u16 \<Rightarrow> bool \<Rightarrow> capture \<times> FlowCounter list \<Rightarrow>
   ((capture \<times> FlowCounter list) \<times> (u8 list \<times> u32) option) option" where
  "ObserveReceive diag alloc pid fd data src_ip src_port peek = (\<lambda>(c, flows).
     if peek then (case SampleFlow diag (9, fd, src_ip, src_port, of_nat (length data)) flows of
                     (flows1, n) \<Rightarrow> Some ((c, flows1), map_option (\<lambda>k. ([], k)) n))
     else do {
       (c1, _) \<leftarrow> ObserveBrowseRequest diag alloc pid fd data src_ip src_port c;
       (case SampleFlow diag (2, fd, src_ip, src_port, of_nat (length data)) flows of
          (flows1, n) \<Rightarrow> Some ((c1, flows1),
            map_option (\<lambda>k. (map (\<lambda>i. if i < length data then data ! i else 0) [0..<4], k)) n)) })"

text \<open>The end of \<^verbatim>\<open>ForgetLanSocket\<close>: the last request goes with the socket it came to.\<close>

definition ForgetBrowse :: "u64 \<Rightarrow> int \<Rightarrow> u16 \<Rightarrow> capture \<Rightarrow> capture" where
  "ForgetBrowse pid fd bound_port c =
     (if bound_port = 30000 \<and> bo_pid (ca_last c) = pid \<and> bo_fd (ca_last c) = fd
      then c\<lparr>ca_last := \<lparr>bo_pid = 0, bo_fd = 0, bo_srcIp = 0, bo_counter = 0, bo_keyHash = 0, bo_count = 0\<rparr>, ca_latest := []\<rparr>
      else c)"

section \<open>The rings hold the latest lines\<close>

datatype note_event = Say bool bool string | Write

fun note_step :: "nat \<Rightarrow> nat \<Rightarrow> note_event \<Rightarrow> note_log \<Rightarrow> note_log" where
  "note_step n w (Say diag alloc line) l = append_note n w diag alloc line l"
| "note_step n w Write l = fst (flush_notes n w l)"

text \<open>The lines that are taken: with diagnostics on, from the first one that finds memory.\<close>

fun taken :: "nat \<Rightarrow> bool \<Rightarrow> note_event list \<Rightarrow> string list" where
  "taken w ready [] = []"
| "taken w ready (Write # es) = taken w ready es"
| "taken w ready (Say diag alloc line # es) =
     (if diag \<and> (ready \<or> alloc) then take (w - 1) line # taken w True es else taken w ready es)"

definition notes_hold :: "nat \<Rightarrow> string list \<Rightarrow> note_log \<Rightarrow> bool" where
  "notes_hold n h l \<longleftrightarrow> lg_count l = length h \<and>
     (case lg_ring l of None \<Rightarrow> h = [] | Some ring \<Rightarrow> ring_holds n h ring)"

lemma append_holds:
  assumes "notes_hold n h l" and "0 < n"
  shows "if diag \<and> (lg_ring l \<noteq> None \<or> alloc)
    then notes_hold n (h @ [take (w - 1) line]) (append_note n w diag alloc line l) \<and> lg_ring (append_note n w diag alloc line l) \<noteq> None \<and>
      lg_dirty (append_note n w diag alloc line l)
    else append_note n w diag alloc line l = l"
proof (cases "diag \<and> (lg_ring l \<noteq> None \<or> alloc)")
  case True
  obtain ring where r: "lg_ring (ensure_ring n alloc l) = Some ring" "ring_holds n h ring" "lg_count (ensure_ring n alloc l) = length h"
    using assms(1) True by (cases "lg_ring l") (auto simp: ensure_ring_def notes_hold_def ring_holds_def)
  then show ?thesis using True ring_holds_add [OF r(2) assms(2)] by (simp add: append_note_def notes_hold_def Let_def)
next
  case False
  then show ?thesis by (auto simp: append_note_def ensure_ring_def Let_def split: option.split)
qed

lemma run_holds:
  assumes "0 < n"
  shows "notes_hold n h l \<Longrightarrow> notes_hold n (h @ taken w (lg_ring l \<noteq> None) es) (fold (note_step n w) es l)"
proof (induction es arbitrary: h l)
  case (Cons e es)
  show ?case
  proof (cases e)
    case (Say diag alloc line)
    show ?thesis
      using append_holds [OF Cons.prems assms, of diag alloc w line] Say
        Cons.IH [of "h @ [take (w - 1) line]" "append_note n w diag alloc line l"] Cons.IH [OF Cons.prems]
      by (auto split: if_splits)
  next
    case Write
    have "notes_hold n h (fst (flush_notes n w l))" "lg_ring (fst (flush_notes n w l)) = lg_ring l"
      using Cons.prems by (auto simp: flush_notes_def notes_hold_def split: option.splits)
    then show ?thesis using Write Cons.IH [of h "fst (flush_notes n w l)"] by simp
  qed
qed simp

lemma taken_short: "0 < w \<Longrightarrow> \<forall>x \<in> set (taken w r es). length x < w"
  by (induction w r es rule: taken.induct) auto

lemma notes_tail:
  assumes "0 < n" and "0 < w"
  shows "snd (flush_notes n w (append_note n w True True line (fold (note_step n w) es note_log_start))) =
    Some (file_of (drop (Suc (length (taken w False es)) - n) (taken w False es @ [take (w - 1) line])))"
proof -
  let ?l = "fold (note_step n w) es note_log_start" and ?h = "taken w False es @ [take (w - 1) line]"
  have "notes_hold n (taken w False es) ?l"
    using run_holds [OF assms(1), of "[]" note_log_start w es] by (simp add: notes_hold_def note_log_start_def)
  from append_holds [OF this assms(1), of True True w line]
  have a: "notes_hold n ?h (append_note n w True True line ?l)" "lg_dirty (append_note n w True True line ?l)"
    "lg_ring (append_note n w True True line ?l) \<noteq> None" by simp_all
  then obtain ring where r: "lg_ring (append_note n w True True line ?l) = Some ring" "ring_holds n ?h ring" by (auto simp: notes_hold_def)
  have "\<forall>x \<in> set ?h. length x < w" using taken_short [OF assms(2)] assms(2) by auto
  from gather_ring [OF r(2) this, unfolded first_line] show ?thesis using a(1,2) r(1)
    unfolding flush_notes_def first_line by (simp add: notes_hold_def)
qed

text \<open>
  The logs of the interposers are the end of what was noted: whatever was noted, written and refused
  before, writing at once leaves in the file the last 96 lines (24 for the network service), oldest
  first, each cut at 111 characters; the guard of the loop never drops a line.
\<close>

theorem interposer_logs:
  "snd (FlushBsdTrace (Note True True line (fold (note_step LogLines LogLineLen) es note_log_start))) =
     Some (file_of (drop (Suc (length (taken LogLineLen False es)) - 96) (taken LogLineLen False es @ [take 111 line]))) \<and>
   snd (NoteNifmSync True True line (fold (note_step NifmLogLines NifmLogLineLen) es note_log_start)) =
     Some (file_of (drop (Suc (length (taken NifmLogLineLen False es)) - 24) (taken NifmLogLineLen False es @ [take 111 line])))"
proof -
  have "lg_ring (append_note n w True True line l) \<noteq> None" for n w l
    by (auto simp: append_note_def ensure_ring_def Let_def split: option.split)
  then show ?thesis
    using notes_tail [of LogLines LogLineLen line es] notes_tail [of NifmLogLines NifmLogLineLen line es]
    by (simp add: NoteNifmSync_def Note_def NoteNifm_def FlushBsdTrace_def FlushNifmTrace_def LogLines_def LogLineLen_def
        NifmLogLines_def NifmLogLineLen_def Let_def)
qed

section \<open>Flows are logged at powers of two\<close>

lemma and_pred_double: "0 < m \<Longrightarrow> (2 * m) AND (2 * m - 1) = 2 * (m AND (m - 1 :: nat))"
proof -
  assume "0 < m"
  then have "(2 * m - 1) div 2 = m - 1" by simp
  then show ?thesis by (subst and_rec) simp
qed

lemma and_pred: "0 < n \<Longrightarrow> n AND (n - 1 :: nat) = 0 \<longleftrightarrow> (\<exists>k. n = 2 ^ k)"
proof (induction n rule: nat_bit_induct)
  case (even m)
  have "(\<exists>k. 2 * m = 2 ^ k) \<longleftrightarrow> (\<exists>k. m = 2 ^ k)"
  proof
    assume "\<exists>k. 2 * m = 2 ^ k"
    then obtain k where k: "2 * m = 2 ^ k" by blast
    then have "k \<noteq> 0" by (cases k) auto
    then obtain j where "k = Suc j" by (cases k) auto
    with k show "\<exists>k. m = 2 ^ k" by auto
  qed (metis power_Suc)
  with even show ?case by (simp add: and_pred_double [simplified])
next
  case (odd m)
  have "(Suc (2 * m)) AND (2 * m) = 2 * m" by (subst and_rec) simp
  moreover have "(\<exists>k. Suc (2 * m) = 2 ^ k) \<longleftrightarrow> m = 0"
  proof
    assume "\<exists>k. Suc (2 * m) = 2 ^ k"
    then obtain k where k: "Suc (2 * m) = 2 ^ k" by blast
    then show "m = 0" by (cases k) (simp_all, presburger)
  qed (metis One_nat_def mult_0_right power_0)
  ultimately show ?case by simp
qed simp

lemma power_test_iff: "c \<noteq> 0 \<Longrightarrow> power_test c \<longleftrightarrow> (\<exists>k. unat c = 2 ^ k)"
proof -
  assume "c \<noteq> 0"
  then have "0 < unat c" by (simp add: unat_gt_0)
  moreover have "unat (c - 1) = unat c - 1" using \<open>c \<noteq> 0\<close> by (simp add: unat_minus_one)
  moreover have "unat (c AND (c - 1)) = unat c AND unat (c - 1)" by (simp add: unsigned_and_eq)
  ultimately show ?thesis using and_pred [of "unat c"] by (simp add: power_test_def unat_eq_zero [symmetric] del: unat_eq_zero)
qed

text \<open>The flows that got a slot, in their order, and the table that counts them.\<close>

definition admit :: "flow_key \<Rightarrow> flow_key list \<Rightarrow> flow_key list" where
  "admit k ds = (if k \<in> set ds \<or> FlowSlots \<le> length ds then ds else ds @ [k])"

definition admitted :: "flow_key list \<Rightarrow> flow_key list" where
  "admitted ks = fold admit ks []"

definition flow_table :: "flow_key list \<Rightarrow> FlowCounter list" where
  "flow_table ks =
     map (\<lambda>d. \<lparr>f_key = d, f_count = of_nat (count_list ks d), f_used = True\<rparr>) (admitted ks) @
       replicate (FlowSlots - length (admitted ks)) \<lparr>f_key = (0, 0, 0, 0, 0), f_count = 0, f_used = False\<rparr>"

lemma admitted_snoc: "admitted (ks @ [k]) = admit k (admitted ks)"
  by (simp add: admitted_def)

lemma admitted_facts:
  "distinct (admitted ks) \<and> length (admitted ks) \<le> FlowSlots \<and> set (admitted ks) \<subseteq> set ks \<and>
   (length (admitted ks) < FlowSlots \<longrightarrow> set (admitted ks) = set ks)"
proof (induction ks rule: rev_induct)
  case (snoc k ks)
  then show ?case unfolding admitted_snoc admit_def by auto
qed (simp add: admitted_def FlowSlots_def)

lemma slot_hit:
  "\<forall>f \<in> set fs. f_used f \<Longrightarrow> j < length fs \<Longrightarrow> f_key (fs ! j) = k \<Longrightarrow> \<forall>l < j. f_key (fs ! l) \<noteq> k \<Longrightarrow>
   flow_slot k i (fs @ gs) None = Some (i + j)"
proof (induction fs arbitrary: i j)
  case (Cons f fs)
  show ?case
  proof (cases j)
    case (Suc l)
    have "f_key f \<noteq> k" "\<forall>m < l. f_key (fs ! m) \<noteq> k" using Cons.prems(4) Suc by fastforce+
    then show ?thesis using Cons.IH [of l "i + 1"] Cons.prems Suc by simp
  qed (use Cons.prems in simp)
qed simp

lemma slot_miss:
  "\<forall>f \<in> set fs. f_used f \<and> f_key f \<noteq> k \<Longrightarrow> flow_slot k i (fs @ gs) None = flow_slot k (i + length fs) gs None"
  by (induction fs arbitrary: i) auto

lemma slot_free: "flow_slot k i (replicate m \<lparr>f_key = x, f_count = 0, f_used = False\<rparr>) (Some j) = Some j"
  by (induction m arbitrary: i) auto

lemma map_update:
  "distinct ds \<Longrightarrow> j < length ds \<Longrightarrow> \<forall>d \<in> set ds. d \<noteq> ds ! j \<longrightarrow> f d = g d \<Longrightarrow> (map f ds)[j := g (ds ! j)] = map g ds"
  by (intro nth_equalityI) (auto simp: nth_list_update nth_eq_iff_index_eq)

lemma flow_step:
  "SampleFlow True k (flow_table ks) =
     (flow_table (ks @ [k]),
      if k \<in> set (admitted (ks @ [k])) \<and> power_test (of_nat (count_list (ks @ [k]) k)) then Some (of_nat (count_list (ks @ [k]) k)) else None)"
proof -
  define ds where "ds = admitted ks"
  define z where "z = \<lparr>f_key = (0, 0, 0, 0, 0), f_count = 0, f_used = False\<rparr>"
  define row where "row xs d = \<lparr>f_key = d, f_count = of_nat (count_list xs d), f_used = True\<rparr>" for xs d
  have t: "flow_table ks = map (row ks) ds @ replicate (FlowSlots - length ds) z" by (simp add: flow_table_def ds_def row_def z_def)
  note facts = admitted_facts [of ks, folded ds_def]
  have row: "row (ks @ [k]) d = (if d = k then \<lparr>f_key = k, f_count = of_nat (count_list ks k) + 1, f_used = True\<rparr> else row ks d)" for d
    by (simp add: row_def)
  show ?thesis
  proof (cases "k \<in> set ds")
    case True
    then obtain j where j: "j < length ds" "ds ! j = k" by (auto simp: in_set_conv_nth)
    have first: "\<forall>l < j. f_key (map (row ks) ds ! l) \<noteq> k" using j facts by (auto simp: row_def nth_eq_iff_index_eq)
    have "flow_slot k 0 (flow_table ks) None = Some j"
      using slot_hit [of "map (row ks) ds" j k 0] j first unfolding t by (simp add: row_def)
    moreover have new: "admitted (ks @ [k]) = ds" using True by (simp add: admitted_snoc admit_def ds_def [symmetric])
    moreover have "flow_table (ks @ [k]) = map (row (ks @ [k])) ds @ replicate (FlowSlots - length ds) z"
      by (simp add: flow_table_def new row_def z_def)
    moreover have "(map (row ks) ds)[j := row (ks @ [k]) (ds ! j)] = map (row (ks @ [k])) ds"
      by (rule map_update) (use j facts in \<open>auto simp: row\<close>)
    ultimately show ?thesis using j True unfolding SampleFlow_def t by (simp add: nth_append list_update_append row_def Let_def add.commute)
  next
    case False
    have miss: "flow_slot k 0 (flow_table ks) None = flow_slot k (length ds) (replicate (FlowSlots - length ds) z) None"
      using slot_miss [of "map (row ks) ds" k 0] False unfolding t by (auto simp: row_def)
    show ?thesis
    proof (cases "length ds < FlowSlots")
      case True
      then obtain m where m: "FlowSlots - length ds = Suc m" by (metis Suc_diff_Suc)
      have slot: "flow_slot k 0 (flow_table ks) None = Some (length ds)"
        unfolding miss m using slot_free [of k _ m "(0, 0, 0, 0, 0)"] by (simp add: z_def)
      have new: "admitted (ks @ [k]) = ds @ [k]" using True False by (simp add: admitted_snoc admit_def ds_def [symmetric])
      have "k \<notin> set ks" using False True facts by simp
      then have c: "count_list ks k = 0" by (simp add: count_list_0_iff)
      have "FlowSlots - Suc (length ds) = m" using m by simp
      then have "flow_table (ks @ [k]) = map (row (ks @ [k])) ds @ row (ks @ [k]) k # replicate m z"
        by (simp add: flow_table_def new row_def z_def)
      moreover have "map (row (ks @ [k])) ds = map (row ks) ds" using False by (auto simp: row)
      ultimately show ?thesis using slot new c m unfolding SampleFlow_def t
        by (simp add: nth_append list_update_append row_def z_def Let_def)
    next
      case full: False
      then have "length ds = FlowSlots" using facts by simp
      then have "flow_slot k 0 (flow_table ks) None = None" unfolding miss by simp
      moreover have new: "admitted (ks @ [k]) = ds" using full False by (simp add: admitted_snoc admit_def ds_def [symmetric])
      moreover have "flow_table (ks @ [k]) = flow_table ks"
        using False unfolding flow_table_def new ds_def [symmetric] by (auto intro!: map_cong)
      ultimately show ?thesis using False by (simp add: SampleFlow_def)
    qed
  qed
qed

fun sample_all :: "flow_key list \<Rightarrow> FlowCounter list \<Rightarrow> FlowCounter list" where
  "sample_all [] fs = fs"
| "sample_all (k # ks) fs = sample_all ks (fst (SampleFlow True k fs))"

lemma sample_table: "sample_all ks (flow_table hs) = flow_table (hs @ ks)"
  by (induction ks arbitrary: hs) (simp_all add: flow_step)

lemma flow_table_start: "flow_table [] = flows_start"
  by (simp add: flow_table_def admitted_def flows_start_def)

text \<open>
  A flow that repeats is logged at its first, second, fourth, eighth, ... packet and otherwise not: after
  any samples, a sample of one of the first 24 flows, up to 2^32 - 1 of it, is logged exactly when its
  number is a power of two, and with that number; any other flow never is.
\<close>

theorem flows_at_powers:
  assumes "count_list ks k + 1 < 2 ^ 32"
  shows "snd (SampleFlow True k (sample_all ks flows_start)) =
    (if k \<in> set (admitted (ks @ [k])) \<and> (\<exists>n. count_list ks k + 1 = 2 ^ n) then Some (of_nat (count_list ks k + 1)) else None)"
proof -
  have u: "unat (of_nat (count_list ks k + 1) :: u32) = count_list ks k + 1" using assms by (simp only: unsigned_of_nat) (simp add: take_bit_nat_eq_self)
  then have "(of_nat (count_list ks k + 1) :: u32) \<noteq> 0" by (metis add_is_0 one_neq_zero unat_0)
  from power_test_iff [OF this] u have "power_test (of_nat (count_list ks k + 1)) \<longleftrightarrow> (\<exists>n. count_list ks k + 1 = 2 ^ n)" by simp
  then show ?thesis
    unfolding flow_table_start [symmetric] sample_table flow_step by (simp add: add.commute)
qed

lemma flows_at_powers_witness:
  "snd (SampleFlow True (1, 4, 0, 30000, 60) (sample_all [(1, 4, 0, 30000, 60)] flows_start)) = Some 2"
proof -
  have "\<exists>n. Suc (Suc 0) = 2 ^ n" by (rule exI [of _ 1]) simp
  moreover have "(1, 4, 0, 30000, 60) \<in> set (admitted ([(1, 4, 0, 30000, 60)] @ [(1, 4, 0, 30000, 60)]))"
    by (simp add: admitted_def admit_def FlowSlots_def)
  ultimately show ?thesis using flows_at_powers [of "[(1, 4, 0, 30000, 60)]" "(1, 4, 0, 30000, 60)"] by simp
qed



section \<open>Packets of other machines are read within their bounds\<close>

text \<open>Everything that is kept fits its buffer.\<close>

definition capture_ok :: "capture \<Rightarrow> bool" where
  "capture_ok c \<longleftrightarrow> length (ca_latest c) \<le> PiaPacketMax \<and> length (fst (ca_first c)) \<le> PiaPacketMax \<and>
     length (snd (ca_first c)) \<le> PiaPacketMax \<and> length (fst (ca_pair c)) \<le> PiaPacketMax \<and> length (snd (ca_pair c)) \<le> PiaPacketMax \<and>
     length (fst (ca_flush c)) = PiaPacketMax \<and> length (snd (ca_flush c)) = PiaPacketMax \<and>
     (ca_first_dirty c \<or> ca_dirty c \<longrightarrow> ca_ready c)"

lemma ReadBe_in:
  "off + 4 \<le> length p \<Longrightarrow> ReadBe32 p off \<noteq> None" "off + 8 \<le> length p \<Longrightarrow> ReadBe64 p off \<noteq> None"
  "off + 2 \<le> length p \<Longrightarrow> ReadBe16 p off \<noteq> None" "off + n \<le> length p \<Longrightarrow> Fingerprint32 p off n \<noteq> None"
  by (simp_all add: ReadBe32_def ReadBe64_def ReadBe16_def Fingerprint32_def)

lemma ensure_ok: "capture_ok c \<Longrightarrow> capture_ok (EnsurePiaCaptureBuffersLocked alloc c)"
  by (auto simp: EnsurePiaCaptureBuffersLocked_def capture_ok_def)

lemma capture_latest: "capture_ok c \<Longrightarrow> length x \<le> PiaPacketMax \<Longrightarrow> capture_ok (c\<lparr>ca_latest := x\<rparr>)"
  by (simp add: capture_ok_def)

lemma request_safe:
  assumes "capture_ok c"
  shows "\<exists>c1 r. ObserveBrowseRequest diag alloc pid fd data src_ip src_port c = Some (c1, r) \<and> capture_ok c1"
proof (cases "\<not> diag \<or> length data < 5")
  case False
  then have five: "5 \<le> length data" by simp
  obtain crit where crit: "ReadBe32 data 1 = Some crit" using ReadBe_in(1) [of 1 data] five by auto
  let ?off = "5 + unat crit"
  show ?thesis
  proof (cases "data ! 0 \<noteq> 0 \<or> src_port \<noteq> 30000 \<or> length data < ?off \<or> length data - ?off < 42")
    case True
    then show ?thesis using assms False crit five by (auto simp: ObserveBrowseRequest_def aget_def)
  next
    case in_bounds: False
    then have off: "?off + 42 \<le> length data" by linarith
    obtain counter key where ck: "ReadBe64 data (?off + 2) = Some counter" "Fingerprint32 data (?off + 10) 16 = Some key"
      using ReadBe_in(2) [of "?off + 2" data] ReadBe_in(4) [of "?off + 10" 16 data] off by auto
    have a: "aget data (int ?off) = Some (data ! ?off)" "aget data (int ?off + 1) = Some (data ! (?off + 1))"
      using aget_int [of ?off data] aget_int [of "?off + 1" data] off by (simp_all add: add.commute)
    let ?c1 = "c\<lparr>ca_last := \<lparr>bo_pid = pid, bo_fd = fd, bo_srcIp = src_ip, bo_counter = counter, bo_keyHash = key,
        bo_count = bo_count (ca_last c) + 1\<rparr>\<rparr>"
    have ok: "capture_ok ?c1" using assms by (simp add: capture_ok_def)
    have ens: "capture_ok (EnsurePiaCaptureBuffersLocked alloc ?c1)" using ok by (rule ensure_ok)
    have lat: "length data \<le> PiaPacketMax \<Longrightarrow> capture_ok (EnsurePiaCaptureBuffersLocked alloc ?c1\<lparr>ca_latest := data\<rparr>)"
      using ens by (rule capture_latest)
    have "data \<noteq> []" using five by auto
    then have a0: "aget data 0 = Some 0" using in_bounds by (simp add: aget_def)
    show ?thesis using False in_bounds crit ck a a0 ok ens lat five
      by (simp add: ObserveBrowseRequest_def Let_def fill_def)
  qed
qed (use assms in \<open>simp add: ObserveBrowseRequest_def\<close>)

lemma snapshot_safe:
  "capture_ok c \<Longrightarrow> \<exists>c1. snapshot_pair alloc pid dst_ip net data c = Some c1 \<and> capture_ok c1"
  using ensure_ok [of c alloc] by (auto simp: snapshot_pair_def fill_def capture_ok_def Let_def)

lemma crypto_safe:
  "body_size \<le> length data - 5 \<Longrightarrow> note_crypto pid dst_ip data body_size again \<noteq> None"
proof (cases "0x4F2 + 32 \<le> body_size \<and> 5 + body_size \<le> length data \<and> 58 \<le> length data - (5 + body_size)")
  case True
  then have len: "5 + body_size + 58 \<le> length data" "0x4F2 + 32 \<le> body_size" by linarith+
  obtain k1 k2 k3 n where k: "Fingerprint32 data (5 + 0x4F2) 16 = Some k1" "Fingerprint32 data (5 + 0x4F2 + 16) 16 = Some k2"
    "Fingerprint32 data (5 + body_size + 10) 16 = Some k3" "ReadBe64 data (5 + body_size + 2) = Some n"
    using ReadBe_in(4) [of "5 + 0x4F2" 16 data] ReadBe_in(4) [of "5 + 0x4F2 + 16" 16 data] ReadBe_in(4) [of "5 + body_size + 10" 16 data]
      ReadBe_in(2) [of "5 + body_size + 2" data] len by auto
  have "aget data (int (5 + body_size)) \<noteq> None" "aget data (int (5 + body_size) + 1) \<noteq> None" using len by (simp_all add: aget_def)
  then show ?thesis using True k by (auto simp: note_crypto_def Let_def)
next
  case False
  then show ?thesis unfolding note_crypto_def Let_def by (subst if_not_P) auto
qed

lemma note_safe:
  assumes "5 \<le> length data" and "body_size \<le> length data - 5"
  shows "note_reply pid dst_ip physical_ip managed_ip data body_size net players again \<noteq> None"
proof -
  have a: "i < body_size \<Longrightarrow> aget data (5 + int i) \<noteq> None" for i using assms by (simp add: aget_def)
  have "(if 0x26 < body_size then aget data (5 + 0x26) else Some 0xff) \<noteq> None" "(if 0x1AE < body_size then aget data (5 + 0x1AE) else Some 0xff) \<noteq> None"
    using a [of "0x26"] a [of "0x1AE"] by simp_all
  moreover have "(if 0x25 < body_size then ReadBe16 data (5 + 0x24) else Some 0xffff) \<noteq> None"
    using ReadBe_in(3) [of "5 + 0x24" data] assms by simp
  moreover have "(if 0x1AF + 35 \<le> body_size then Fingerprint32 data (5 + 0x1AF) 35 else Some 0) \<noteq> None"
    using ReadBe_in(4) [of "5 + 0x1AF" 35 data] assms by simp
  moreover have "slice data 5 body_size \<noteq> None" using assms by (simp add: slice_def)
  moreover have "note_crypto pid dst_ip data body_size again \<noteq> None" by (rule crypto_safe [OF assms(2)])
  ultimately show ?thesis unfolding note_reply_def by (elim not_None_eq [THEN iffD1, elim_format] exE) simp
qed

text \<open>
  C25. Whatever another machine sends and whatever the game replies, the diagnostics read only bytes of the
  packet and write only inside their buffers: both observers return for packets of any length and
  content, with every size the packet itself claims, and keep what is captured within 1364 bytes.
\<close>

theorem browse_safe:
  assumes "capture_ok c"
  shows "(\<exists>c1 fs1 r. ObserveReceive diag alloc pid fd data ip port peek (c, fs) = Some ((c1, fs1), r) \<and> capture_ok c1) \<and>
    (browse_reply port data \<longrightarrow> (\<exists>c1 fs1 r. ObserveBrowseReply diag alloc pid fd ip port data physical managed again (c, fs) =
       Some ((c1, fs1), r) \<and> capture_ok c1))"
proof (intro conjI impI)
  show "\<exists>c1 fs1 r. ObserveReceive diag alloc pid fd data ip port peek (c, fs) = Some ((c1, fs1), r) \<and> capture_ok c1"
    using assms request_safe [OF assms, of diag alloc pid fd data ip port] by (auto simp: ObserveReceive_def split: prod.split)
next
  assume "browse_reply port data"
  then have five: "5 \<le> length data" by (simp add: browse_reply_def)
  obtain n where n: "ReadBe32 data 1 = Some n" using ReadBe_in(1) [of 1 data] five by auto
  let ?b = "body_size_of data n"
  have b: "?b \<le> length data - 5" by (simp add: body_size_of_def)
  have "(if 8 \<le> ?b then ReadBe32 data (5 + 4) else Some 0) \<noteq> None" using ReadBe_in(1) [of "5 + 4" data] b five by simp
  then obtain net where net: "(if 8 \<le> ?b then ReadBe32 data (5 + 4) else Some 0) = Some net" by blast
  have "(if 0x21 < ?b then ReadBe16 data (5 + 0x20) else Some 0xffff) \<noteq> None" using ReadBe_in(3) [of "5 + 0x20" data] b five by simp
  then obtain players where players: "(if 0x21 < ?b then ReadBe16 data (5 + 0x20) else Some 0xffff) = Some players" by blast
  obtain c1 where c1: "snapshot_pair alloc pid ip net data c = Some c1" "capture_ok c1" using snapshot_safe [OF assms] by blast
  obtain r where r: "note_reply pid ip physical managed data ?b net players again = Some r" using note_safe [OF five b] by blast
  show "\<exists>c1 fs1 r. ObserveBrowseReply diag alloc pid fd ip port data physical managed again (c, fs) = Some ((c1, fs1), r) \<and> capture_ok c1"
    using n net players c1 r
    by (cases "SampleFlow diag (8, fd, physical, port, 0) fs"; cases "snd (SampleFlow diag (8, fd, physical, port, 0) fs)")
      (simp_all add: ObserveBrowseReply_def Let_def)
qed

section \<open>A captured reply goes with the request it answers\<close>

datatype browse_event =
    Request bool u64 int "u8 list" u32 u16
  | Reply bool u64 u32 u32 "u8 list"
  | Closed u64 int u16

fun browse_step :: "browse_event \<Rightarrow> capture \<Rightarrow> capture option" where
  "browse_step (Request alloc pid fd data ip port) c = map_option fst (ObserveBrowseRequest True alloc pid fd data ip port c)"
| "browse_step (Reply alloc pid ip net data) c = snapshot_pair alloc pid ip net data c"
| "browse_step (Closed pid fd port) c = Some (ForgetBrowse pid fd port c)"

fun browse_run :: "browse_event list \<Rightarrow> capture \<Rightarrow> capture option" where
  "browse_run [] c = Some c"
| "browse_run (e # es) c = Option.bind (browse_step e c) (browse_run es)"

text \<open>The requests that count: those that parse.\<close>

fun is_request :: "browse_event \<Rightarrow> bool" where
  "is_request (Request alloc pid fd data ip port) \<longleftrightarrow>
     5 \<le> length data \<and> data ! 0 = 0 \<and> port = 30000 \<and> (case ReadBe32 data 1 of None \<Rightarrow> False | Some n \<Rightarrow> 5 + unat n + 42 \<le> length data)"
| "is_request _ \<longleftrightarrow> False"

definition requests :: "browse_event list \<Rightarrow> browse_event list" where
  "requests es = List.filter is_request es"

definition small :: "browse_event \<Rightarrow> bool" where
  "small e \<longleftrightarrow> (case e of Request _ _ _ data _ _ \<Rightarrow> length data \<le> PiaPacketMax | _ \<Rightarrow> True)"

text \<open>The packet that is kept is that of the last request.\<close>

definition follows :: "browse_event list \<Rightarrow> capture \<Rightarrow> bool" where
  "follows es c \<longleftrightarrow> capture_ok c \<and> (\<not> ca_ready c \<longrightarrow> ca_latest c = []) \<and>
     (ca_latest c \<noteq> [] \<longrightarrow> (\<exists>alloc fd port. requests es \<noteq> [] \<and>
        last (requests es) = Request alloc (bo_pid (ca_last c)) fd (ca_latest c) (bo_srcIp (ca_last c)) port))"

lemma observe_cases:
  assumes "ObserveBrowseRequest True alloc pid fd data ip port c = Some (c1, r)"
  shows "if is_request (Request alloc pid fd data ip port)
    then bo_pid (ca_last c1) = pid \<and> bo_srcIp (ca_last c1) = ip \<and>
      (length data \<le> PiaPacketMax \<longrightarrow> ca_ready c1 = (ca_ready c \<or> alloc) \<and> ca_latest c1 = (if ca_ready c1 then data else ca_latest c))
    else c1 = c"
proof -
  have "ReadBe32 data 1 \<noteq> None" if "5 \<le> length data" using ReadBe_in(1) [of 1 data] that by simp
  then show ?thesis using assms
    by (auto simp: ObserveBrowseRequest_def EnsurePiaCaptureBuffersLocked_def fill_def aget_def Let_def not_le not_less
        split: if_splits bind_splits option.splits)
qed

lemma follows_step:
  assumes "follows es c" and "browse_step e c = Some c1" and "small e"
  shows "follows (es @ [e]) c1"
proof (cases e)
  case (Request alloc pid fd data ip port)
  then obtain r where r: "ObserveBrowseRequest True alloc pid fd data ip port c = Some (c1, r)" using assms(2) by auto
  have ok: "capture_ok c1" using request_safe [of c True alloc pid fd data ip port] assms(1) r by (auto simp: follows_def)
  show ?thesis
  proof (cases "is_request e")
    case True
    then have "last (requests (es @ [e])) = e" "requests (es @ [e]) \<noteq> []" by (simp_all add: requests_def)
    then show ?thesis using observe_cases [OF r] True assms ok Request
      by (auto simp: follows_def small_def split: if_splits)
  next
    case False
    then have "c1 = c" using observe_cases [OF r] Request by (simp del: is_request.simps)
    moreover have "requests (es @ [e]) = requests es" using False by (simp add: requests_def)
    ultimately show ?thesis using assms(1) by (simp add: follows_def)
  qed
next
  case (Reply alloc pid ip net data)
  then have s: "snapshot_pair alloc pid ip net data c = Some c1" using assms(2) by simp
  have "capture_ok c1" using snapshot_safe [of c alloc pid ip net data] assms(1) s by (auto simp: follows_def)
  moreover have "ca_latest c1 = ca_latest c" "ca_last c1 = ca_last c" "ca_ready c \<longrightarrow> ca_ready c1"
    using s by (auto simp: snapshot_pair_def EnsurePiaCaptureBuffersLocked_def Let_def split: if_splits bind_splits)
  moreover have "requests (es @ [e]) = requests es" using Reply by (simp add: requests_def)
  ultimately show ?thesis using assms(1) by (auto simp: follows_def)
next
  case (Closed pid fd port)
  then have "c1 = ForgetBrowse pid fd port c" "requests (es @ [e]) = requests es" using assms(2) by (simp_all add: requests_def)
  then show ?thesis using assms(1) by (auto simp: follows_def ForgetBrowse_def capture_ok_def)
qed


lemma follows_run:
  assumes "follows es c" and "browse_run es' c = Some c1" and "list_all small es'"
  shows "follows (es @ es') c1"
  using assms
proof (induction es' arbitrary: es c)
  case (Cons e es')
  then obtain c2 where "browse_step e c = Some c2" "browse_run es' c2 = Some c1" by (auto split: bind_splits)
  then show ?case using Cons.IH [of "es @ [e]" c2] follows_step [of es c e c2] Cons.prems by simp
qed simp

lemma follows_start: "follows [] capture_start"
  by (simp add: follows_def capture_start_def capture_ok_def)

text \<open>
  A captured pair is an exchange: however requests, replies and closings of sockets by several
  processes follow each other, each request being at most 1364 bytes, the pair that a reply captures consists of that reply and of
  the last request that was seen, and that request came from the machine the reply goes to and was
  received by the process that replies.
\<close>

theorem captured_pairs:
  assumes "list_all small es" and "browse_run es capture_start = Some c" and "snapshot_pair alloc pid ip net data c = Some c1"
    and "ca_pair c1 \<noteq> ca_pair c"
  shows "\<exists>request ok fd port. ca_pair c1 = (request, data) \<and> requests es \<noteq> [] \<and> last (requests es) = Request ok pid fd request ip port"
proof -
  have f: "follows es c" using follows_run [OF follows_start assms(2,1)] by simp
  have "ca_latest c \<noteq> []" "bo_pid (ca_last c) = pid" "bo_srcIp (ca_last c) = ip" "ca_pair c1 = (ca_latest c, data)"
    using assms(3,4)
    by (auto simp: snapshot_pair_def EnsurePiaCaptureBuffersLocked_def fill_def Let_def split: if_splits bind_splits)
  then show ?thesis using f by (auto simp: follows_def)
qed

definition demo_query :: "u8 list" where "demo_query = replicate 47 0"

lemma demo_query_seen:
  "\<exists>c. browse_run [Request True 7 3 demo_query 5 30000] capture_start = Some c \<and> bo_pid (ca_last c) = 7 \<and> bo_srcIp (ca_last c) = 5 \<and>
     ca_latest c = demo_query \<and> ca_ready c \<and> ca_pair c = ([], [])"
proof -
  have r: "ReadBe32 demo_query 1 = Some 0"
    by (simp add: ReadBe32_def slice_def demo_query_def be32_def)
  obtain k h where "ReadBe64 demo_query 7 = Some k" "Fingerprint32 demo_query 15 16 = Some h"
    using ReadBe_in(2) [of 7 demo_query] ReadBe_in(4) [of 15 16 demo_query] by (auto simp: demo_query_def)
  then show ?thesis using r
    by (simp add: ObserveBrowseRequest_def Let_def aget_def fill_def EnsurePiaCaptureBuffersLocked_def capture_start_def PiaPacketMax_def)
      (simp add: demo_query_def)
qed

lemma captured_pairs_witness:
  "\<exists>c c1. browse_run [Request True 7 3 demo_query 5 30000] capture_start = Some c \<and>
     snapshot_pair True 7 5 9 [1, 0, 0, 0, 0] c = Some c1 \<and>
     (\<exists>request ok fd port. ca_pair c1 = (request, [1, 0, 0, 0, 0]) \<and> requests [Request True 7 3 demo_query 5 30000] \<noteq> [] \<and>
        last (requests [Request True 7 3 demo_query 5 30000]) = Request ok 7 fd request 5 port)"
proof -
  obtain c where c: "browse_run [Request True 7 3 demo_query 5 30000] capture_start = Some c" "bo_pid (ca_last c) = 7"
    "bo_srcIp (ca_last c) = 5" "ca_latest c = demo_query" "ca_ready c" "ca_pair c = ([], [])" using demo_query_seen by blast
  then obtain c1 where c1: "snapshot_pair True 7 5 9 [1, 0, 0, 0, 0] c = Some c1" "ca_pair c1 = (demo_query, [1, 0, 0, 0, 0])"
    by (auto simp: snapshot_pair_def EnsurePiaCaptureBuffersLocked_def fill_def PiaPacketMax_def demo_query_def Let_def)
  have "list_all small [Request True 7 3 demo_query 5 30000]" by (simp add: small_def demo_query_def PiaPacketMax_def)
  from captured_pairs [OF this c(1) c1(1)] c c1 show ?thesis by auto
qed

lemma browse_safe_witness:
  "(\<exists>c1 fs1 r. ObserveReceive True True 7 3 demo_query 5 30000 False (capture_start, flows_start) = Some ((c1, fs1), r) \<and> capture_ok c1) \<and>
    (\<exists>c1 fs1 r. ObserveBrowseReply True True 7 3 5 30000 [1, 0, 0, 0, 0] 5 6 (ca_last capture_start) (capture_start, flows_start) =
       Some ((c1, fs1), r) \<and> capture_ok c1)"
proof -
  have "capture_ok capture_start" using follows_start by (simp add: follows_def)
  moreover have "browse_reply 30000 [1, 0, 0, 0, 0]" by (simp add: browse_reply_def)
  ultimately show ?thesis
    using browse_safe [of capture_start True True 7 3 demo_query 5 30000 False flows_start]
      browse_safe [of capture_start True True 7 3 "[1, 0, 0, 0, 0]" 5 30000 False flows_start]
    by blast
qed

text \<open>A request that is too long to be kept leaves the older one in place.\<close>

lemma stale_pair:
  assumes "is_request (Request alloc pid fd data ip port)" and "PiaPacketMax < length data"
    and "ObserveBrowseRequest True alloc pid fd data ip port c = Some (c1, r)"
  shows "bo_pid (ca_last c1) = pid \<and> bo_srcIp (ca_last c1) = ip \<and> ca_latest c1 = ca_latest c"
proof (intro conjI)
  show "ca_latest c1 = ca_latest c" using assms(2,3)
    by (auto simp: ObserveBrowseRequest_def Let_def split: if_splits bind_splits)
qed (use observe_cases [OF assms(3)] assms(1) in \<open>simp_all del: is_request.simps\<close>)

text \<open>A flush that nothing interrupts writes the pairs themselves.\<close>

lemma copied_out:
  assumes "capture_ok c" and "length q \<le> PiaPacketMax" and "length d \<le> PiaPacketMax"
  shows "\<exists>fl. flush_copy (q, d) c = Some (c\<lparr>ca_flush := fl\<rparr>) \<and> capture_ok (c\<lparr>ca_flush := fl\<rparr>) \<and>
    written (lengths (q, d)) (c\<lparr>ca_flush := fl\<rparr>) = (q, d)"
  using assms
  by (intro exI [of _ "(q @ drop (length q) (fst (ca_flush c)), d @ drop (length d) (snd (ca_flush c)))"])
    (simp add: flush_copy_def memcpy_def written_def lengths_def capture_ok_def)

lemma flush_exact:
  assumes "capture_ok c"
  shows "\<exists>c1. FlushPiaCapture alloc id id c = Some (c1, if ca_first_dirty c then Some (ca_first c) else None,
    if ca_dirty c then Some (ca_pair c) else None) \<and> \<not> ca_first_dirty c1 \<and> \<not> ca_dirty c1 \<and> capture_ok c1"
proof -
  obtain q d q0 d0 where p: "ca_pair c = (q, d)" "ca_first c = (q0, d0)" by (metis surj_pair)
  show ?thesis
  proof (cases "ca_first_dirty c \<or> ca_dirty c")
    case True
    then have ready: "ca_ready c" using assms by (simp add: capture_ok_def)
    have len: "length q0 \<le> PiaPacketMax" "length d0 \<le> PiaPacketMax" "length q \<le> PiaPacketMax" "length d \<le> PiaPacketMax"
      using assms p by (auto simp: capture_ok_def)
    show ?thesis
    proof (cases "ca_first_dirty c")
      case first: True
      obtain fl where fl: "flush_copy (q0, d0) c = Some (c\<lparr>ca_flush := fl\<rparr>)" "capture_ok (c\<lparr>ca_flush := fl\<rparr>)"
        "written (lengths (q0, d0)) (c\<lparr>ca_flush := fl\<rparr>) = (q0, d0)" using copied_out [OF assms len(1,2)] by blast
      let ?c1 = "c\<lparr>ca_flush := fl, ca_first_dirty := False\<rparr>"
      have ok: "capture_ok ?c1" using fl(2) by (simp add: capture_ok_def)
      obtain fl2 where "flush_copy (q, d) ?c1 = Some (?c1\<lparr>ca_flush := fl2\<rparr>)" "capture_ok (?c1\<lparr>ca_flush := fl2\<rparr>)"
        "written (lengths (q, d)) (?c1\<lparr>ca_flush := fl2\<rparr>) = (q, d)" using copied_out [OF ok len(3,4)] by blast
      then show ?thesis using fl ok first ready p by (simp add: FlushPiaCapture_def EnsurePiaCaptureBuffersLocked_def Let_def written_def capture_ok_def)
    next
      case False
      obtain fl where "flush_copy (q, d) c = Some (c\<lparr>ca_flush := fl\<rparr>)" "capture_ok (c\<lparr>ca_flush := fl\<rparr>)"
        "written (lengths (q, d)) (c\<lparr>ca_flush := fl\<rparr>) = (q, d)" using copied_out [OF assms len(3,4)] by blast
      then show ?thesis using False True ready p by (simp add: FlushPiaCapture_def EnsurePiaCaptureBuffersLocked_def Let_def written_def capture_ok_def)
    qed
  qed (use assms in \<open>simp add: FlushPiaCapture_def\<close>)
qed

text \<open>
  Two flushes at once: the other one writes over the shared copies after this one has let go of the lock,
  and this one writes the other's bytes to the files of the first exchange.
\<close>

lemma flush_torn:
  assumes "capture_ok c" and "ca_first_dirty c" and "\<not> ca_dirty c" and "lengths pair = lengths (ca_first c)"
    and "length (fst pair) \<le> PiaPacketMax" and "length (snd pair) \<le> PiaPacketMax"
  shows "\<exists>c1. FlushPiaCapture alloc (\<lambda>d. the (flush_copy pair d)) id c = Some (c1, Some pair, None)"
proof -
  obtain q0 d0 where p: "ca_first c = (q0, d0)" by (metis surj_pair)
  have len: "length q0 \<le> PiaPacketMax" "length d0 \<le> PiaPacketMax" "ca_ready c" using assms(1,2) p by (auto simp: capture_ok_def)
  obtain fl where fl: "flush_copy (q0, d0) c = Some (c\<lparr>ca_flush := fl\<rparr>)" "capture_ok (c\<lparr>ca_flush := fl\<rparr>)"
    using copied_out [OF assms(1) len(1,2)] by blast
  let ?c1 = "c\<lparr>ca_flush := fl, ca_first_dirty := False\<rparr>"
  have ok: "capture_ok ?c1" using fl(2) by (simp add: capture_ok_def)
  obtain fl2 where fl2: "flush_copy pair ?c1 = Some (?c1\<lparr>ca_flush := fl2\<rparr>)" "written (lengths pair) (?c1\<lparr>ca_flush := fl2\<rparr>) = pair"
    using copied_out [OF ok assms(5,6)] by (metis surjective_pairing)
  have "written (lengths (q0, d0)) (?c1\<lparr>ca_flush := fl2\<rparr>) = pair" using fl2(2) assms(4) p by simp
  then show ?thesis using assms(2,3) fl(1) fl2 p len
    by (simp add: FlushPiaCapture_def EnsurePiaCaptureBuffersLocked_def Let_def)
qed

end
