(* ===== verification/HipcHooks.thy ===== *)
theory HipcHooks
  imports BsdTrace Report
begin

text \<open>
  The two functions the patched session manager of libstratosphere calls (\<^verbatim>\<open>mitm/bsd_shim.cpp\<close>): whether a
  request that fails validation is passed on, and what is logged before and after each request.  How
  a result code splits into module and description is that library's, a parameter.
\<close>

definition ztnxShouldForwardInvalidMitmCmifRequest :: "u32 \<Rightarrow> u32 \<Rightarrow> u32 \<Rightarrow> string option \<times> bool" where
  "ztnxShouldForwardInvalidMitmCmifRequest interface_id command_id result =
     (if interface_id \<noteq> 0x5A54B5D0 then (None, False)
      else (Some (''cmif fallback   interface '' @ hex_fmt 8 (ucast interface_id) @ '' cmd '' @ udec command_id @
              '' result 0x'' @ hex_fmt 1 (ucast result) @ '' -> raw forward''), True))"

record hipc =
  h_event :: u32
  h_session :: u32
  h_sequence :: u32
  h_type :: u32
  h_magic :: u32
  h_version :: u32
  h_command :: u32
  h_token :: u32
  h_raw :: u32
  h_pid :: u32
  h_buffers :: u32
  h_handles :: u32
  h_statics :: u32
  h_pointer_buffer :: u32
  h_is_mitm :: u32
  h_result :: u32

text \<open>\<^verbatim>\<open>(2%03d-%04d)\<close> of the two parts of a result.\<close>

definition padded :: "nat \<Rightarrow> nat \<Rightarrow> string" where
  "padded k n = replicate (k - length (dec n)) CHR ''0'' @ dec n"

definition result_parts :: "(u32 \<Rightarrow> nat \<times> nat) \<Rightarrow> u32 \<Rightarrow> string" where
  "result_parts parts rc = (case parts rc of (m, d) \<Rightarrow> ''(2'' @ padded 3 m @ ''-'' @ padded 4 d @ '')'')"

definition hex :: "u32 \<Rightarrow> string" where "hex w = hex_fmt 1 (ucast w)"

definition session_part :: "hipc \<Rightarrow> string" where
  "session_part h = '' h'' @ hex (h_session h) @ '' n'' @ udec (h_sequence h)"

definition command_part :: "hipc \<Rightarrow> string" where
  "command_part h = '' t'' @ udec (h_type h) @ '' cmd'' @ hex_fmt 8 (ucast (h_command h))"

definition close_line :: "string \<Rightarrow> hipc \<Rightarrow> string" where
  "close_line what h = what @ '' close h'' @ hex (h_session h) @ '' after '' @ udec (h_sequence h) @ '' request(s)''"

text \<open>The lines for the ring of the sockets, kept or written at once, and those for the network service.\<close>

datatype hook_call = Keep string | WriteBsd string | WriteNifm string

definition nifm_lines :: "(u32 \<Rightarrow> nat \<times> nat) \<Rightarrow> hipc \<Rightarrow> hook_call list" where
  "nifm_lines parts h =
     (if h_event h = 1 then
        [WriteNifm (''ok'' @ session_part h @ command_part h @ '' v'' @ udec (h_version h) @ '' out 0x'' @ hex (h_result h) @
           '' raw'' @ udec (h_raw h) @ '' pid'' @ udec (h_pid h) @ '' b'' @ hex (h_buffers h) @ '' h'' @ hex (h_handles h) @
           '' s'' @ hex (h_statics h))]
      else if h_event h = 2 then
        [WriteNifm (''FAIL'' @ session_part h @ command_part h @ '' v'' @ udec (h_version h) @ '' framework 0x'' @ hex (h_result h) @
           '' '' @ result_parts parts (h_result h))]
      else if h_event h = 3 then [WriteNifm (close_line ''peer'' h)]
      else if h_event h = 4 then [WriteNifm (close_line ''cmif'' h)]
      else [])"

definition counts :: "u32 \<Rightarrow> nat \<Rightarrow> string" where
  "counts w k = udec (drop_bit k w AND 0xFF)"

definition bsd_lines :: "(u32 \<Rightarrow> nat \<times> nat) \<Rightarrow> hipc \<Rightarrow> hook_call list" where
  "bsd_lines parts h =
     (if h_event h = 0 then
        [Keep (''bsd hipc enter '' @ session_part h @ command_part h @ '' m'' @ hex_fmt 8 (ucast (h_magic h)) @ '' v'' @ udec (h_version h) @
           '' tok'' @ hex_fmt 8 (ucast (h_token h))),
         Keep (''bsd hipc meta  '' @ session_part h @ '' raw'' @ udec (h_raw h) @ '' pid'' @ udec (h_pid h) @
           '' b'' @ counts (h_buffers h) 0 @ ''/'' @ counts (h_buffers h) 8 @ ''/'' @ counts (h_buffers h) 16 @
           '' h'' @ counts (h_handles h) 0 @ ''/'' @ counts (h_handles h) 8 @
           '' s'' @ counts (h_statics h) 0 @ ''/'' @ counts (h_statics h) 8)]
      else if h_event h = 1 then
        [WriteBsd (''bsd hipc ok    '' @ session_part h @ command_part h @ '' v'' @ udec (h_version h))]
      else if h_event h = 2 then
        [WriteBsd (''bsd hipc FAIL  '' @ session_part h @ command_part h @ '' v'' @ udec (h_version h) @ '' rc 0x'' @ hex (h_result h) @
           '' '' @ result_parts parts (h_result h))]
      else if h_event h = 3 then [WriteBsd (close_line ''bsd hipc peer'' h)]
      else if h_event h = 4 then [WriteBsd (close_line ''bsd hipc cmif'' h)]
      else [])"

definition hook_calls :: "(u32 \<Rightarrow> nat \<times> nat) \<Rightarrow> hipc \<Rightarrow> hook_call list" where
  "hook_calls parts h =
     (let is_bsd = (h_is_mitm h \<noteq> 0); is_nifm = (\<not> is_bsd \<and> h_pointer_buffer h = 0x1F4) in
      if \<not> is_bsd \<and> \<not> is_nifm then []
      else if is_nifm then nifm_lines parts h
      else bsd_lines parts h)"

text \<open>
  A call with the state of both logs and of the captures; the files it writes.  \<open>diag\<close> and whether memory is to be had are
  arguments; no other thread comes between copying a capture and writing it.
\<close>

type_synonym logs_state = "(note_log \<times> capture) \<times> note_log"

datatype hook_file = BsdFile string | NifmFile string | PairFile "u8 list \<times> u8 list"

definition observed :: "observations \<Rightarrow> hook_file list" where
  "observed = (\<lambda>(report, first, last). (case report of Some x \<Rightarrow> [BsdFile x] | None \<Rightarrow> []) @
     (case first of Some x \<Rightarrow> [PairFile x] | None \<Rightarrow> []) @ (case last of Some x \<Rightarrow> [PairFile x] | None \<Rightarrow> []))"

fun hook_call_exec :: "bool \<Rightarrow> bool \<times> bool \<Rightarrow> hook_call \<Rightarrow> logs_state \<Rightarrow> (logs_state \<times> hook_file list) option" where
  "hook_call_exec diag alloc (Keep line) ((l, c), n) = Some (((Note diag (fst alloc) line l, c), n), [])"
| "hook_call_exec diag alloc (WriteBsd line) ((l, c), n) =
     map_option (\<lambda>(s, out). ((s, n), observed out)) (NoteSync diag alloc id id line (l, c))"
| "hook_call_exec diag alloc (WriteNifm line) (s, n) =
     (case NoteNifmSync diag (fst alloc) line n of (n1, report) \<Rightarrow>
        Some ((s, n1), (case report of Some x \<Rightarrow> [NifmFile x] | None \<Rightarrow> [])))"

fun hook_calls_exec :: "bool \<Rightarrow> bool \<times> bool \<Rightarrow> hook_call list \<Rightarrow> logs_state \<Rightarrow> (logs_state \<times> hook_file list) option" where
  "hook_calls_exec diag alloc [] s = Some (s, [])"
| "hook_calls_exec diag alloc (c # cs) s = do {
     (s1, f1) \<leftarrow> hook_call_exec diag alloc c s;
     (s2, f2) \<leftarrow> hook_calls_exec diag alloc cs s1;
     Some (s2, f1 @ f2) }"

definition ztnxTraceMitmHipcRequest ::
  "(u32 \<Rightarrow> nat \<times> nat) \<Rightarrow> bool \<Rightarrow> bool \<times> bool \<Rightarrow> hipc \<Rightarrow> logs_state \<Rightarrow> (logs_state \<times> hook_file list) option" where
  "ztnxTraceMitmHipcRequest parts diag alloc h = hook_calls_exec diag alloc (hook_calls parts h)"

section \<open>Nothing is written while a request waits in the message buffer\<close>

text \<open>All calls of the hook, one after the other, with the files each writes.\<close>

fun hook_run :: "(u32 \<Rightarrow> nat \<times> nat) \<Rightarrow> (bool \<times> (bool \<times> bool) \<times> hipc) list \<Rightarrow> logs_state \<Rightarrow> (logs_state \<times> hook_file list list) option" where
  "hook_run parts [] s = Some (s, [])"
| "hook_run parts ((diag, alloc, h) # es) s = do {
     (s1, f) \<leftarrow> ztnxTraceMitmHipcRequest parts diag alloc h s;
     (s2, fs) \<leftarrow> hook_run parts es s1;
     Some (s2, f # fs) }"

definition logs_ok :: "logs_state \<Rightarrow> bool" where
  "logs_ok s \<longleftrightarrow> capture_ok (snd (fst s))"

lemma flush_ok: "capture_ok c \<Longrightarrow> \<exists>c1 first last. FlushPiaCapture alloc id id c = Some (c1, first, last) \<and> capture_ok c1"
  using flush_exact [of c alloc] by blast

lemma note_sync_ok:
  assumes "capture_ok c"
  shows "\<exists>l1 c1 out. NoteSync diag alloc id id line (l, c) = Some ((l1, c1), out) \<and> capture_ok c1 \<and> (\<not> diag \<longrightarrow> observed out = [])"
proof -
  obtain c1 first last where "FlushPiaCapture (snd alloc) id id c = Some (c1, first, last)" "capture_ok c1"
    using flush_ok [OF assms] by blast
  then show ?thesis using assms
    by (cases "FlushBsdTrace (Note diag (fst alloc) line l)") (auto simp: NoteSync_def FlushObservations_def observed_def Let_def)
qed

lemma call_ok:
  assumes "logs_ok s"
  shows "\<exists>s1 f. hook_call_exec diag alloc c s = Some (s1, f) \<and> logs_ok s1 \<and> (\<not> diag \<or> (\<exists>line. c = Keep line) \<longrightarrow> f = [])"
proof -
  obtain l ca n where s: "s = ((l, ca), n)" by (metis surj_pair)
  then have ok: "capture_ok ca" using assms by (simp add: logs_ok_def)
  show ?thesis
  proof (cases c)
    case (WriteBsd line)
    obtain l1 c1 out where "NoteSync diag alloc id id line (l, ca) = Some ((l1, c1), out)" "capture_ok c1" "\<not> diag \<longrightarrow> observed out = []"
      using note_sync_ok [OF ok] by blast
    then show ?thesis using WriteBsd s by (simp add: logs_ok_def)
  next
    case (WriteNifm line)
    then show ?thesis using s ok
      by (cases "NoteNifmSync diag (fst alloc) line n") (auto simp: logs_ok_def NoteNifmSync_def Let_def split: if_splits)
  qed (use s ok in \<open>simp add: logs_ok_def\<close>)
qed

lemma calls_ok:
  "logs_ok s \<Longrightarrow> \<exists>s1 f. hook_calls_exec diag alloc cs s = Some (s1, f) \<and> logs_ok s1 \<and>
     (\<not> diag \<or> (\<forall>c \<in> set cs. \<exists>line. c = Keep line) \<longrightarrow> f = [])"
proof (induction cs arbitrary: s)
  case (Cons c cs)
  obtain s1 f1 where 1: "hook_call_exec diag alloc c s = Some (s1, f1)" "logs_ok s1" "\<not> diag \<or> (\<exists>line. c = Keep line) \<longrightarrow> f1 = []"
    using call_ok [OF Cons.prems] by blast
  obtain s2 f2 where "hook_calls_exec diag alloc cs s1 = Some (s2, f2)" "logs_ok s2"
    "\<not> diag \<or> (\<forall>c \<in> set cs. \<exists>line. c = Keep line) \<longrightarrow> f2 = []" using Cons.IH [OF 1(2)] by blast
  with 1 show ?case by auto
qed simp

text \<open>
  The hook that runs before a request is dispatched leaves the request in its message buffer alone: in
  any sequence of hook calls, on any sessions, with diagnostics and memory coming and going, every call
  returns, and the calls before dispatch write no file -- writing is an exchange of messages that uses
  the same buffer --, nor do the calls for sessions of other services, nor any call with diagnostics off.
\<close>

theorem hook_keeps_request:
  assumes "logs_ok s"
  shows "\<exists>s1 fs. hook_run parts es s = Some (s1, fs) \<and> logs_ok s1 \<and> length fs = length es \<and>
    (\<forall>i < length es. case es ! i of (diag, alloc, h) \<Rightarrow>
       h_event h = 0 \<or> \<not> diag \<or> h_is_mitm h = 0 \<and> h_pointer_buffer h \<noteq> 0x1F4 \<longrightarrow> fs ! i = [])"
  using assms
proof (induction es arbitrary: s)
  case (Cons e es)
  obtain diag alloc h where e: "e = (diag, alloc, h)" by (metis surj_pair)
  have "\<forall>c \<in> set (hook_calls parts h). \<exists>line. c = Keep line" if "h_event h = 0 \<or> h_is_mitm h = 0 \<and> h_pointer_buffer h \<noteq> 0x1F4"
    using that by (auto simp: hook_calls_def nifm_lines_def bsd_lines_def Let_def)
  then obtain s1 f where 1: "ztnxTraceMitmHipcRequest parts diag alloc h s = Some (s1, f)" "logs_ok s1"
    "h_event h = 0 \<or> \<not> diag \<or> h_is_mitm h = 0 \<and> h_pointer_buffer h \<noteq> 0x1F4 \<longrightarrow> f = []"
    using calls_ok [OF Cons.prems, of diag alloc "hook_calls parts h"] unfolding ztnxTraceMitmHipcRequest_def by blast
  obtain s2 fs where 2: "hook_run parts es s1 = Some (s2, fs)" "logs_ok s2" "length fs = length es"
    "\<forall>i < length es. case es ! i of (diag, alloc, h) \<Rightarrow>
       h_event h = 0 \<or> \<not> diag \<or> h_is_mitm h = 0 \<and> h_pointer_buffer h \<noteq> 0x1F4 \<longrightarrow> fs ! i = []"
    using Cons.IH [OF 1(2)] by blast
  have "case (e # es) ! i of (diag, alloc, h) \<Rightarrow>
       h_event h = 0 \<or> \<not> diag \<or> h_is_mitm h = 0 \<and> h_pointer_buffer h \<noteq> 0x1F4 \<longrightarrow> (f # fs) ! i = []" if "i < Suc (length es)" for i
    using 1(3) 2(4) that e by (cases i) auto
  then show ?case using 1 2 e by (intro exI [of _ s2] exI [of _ "f # fs"]) simp
qed simp

definition demo_request :: hipc where
  "demo_request = \<lparr>h_event = 0, h_session = 7, h_sequence = 1, h_type = 4, h_magic = 0x49434653, h_version = 1, h_command = 10,
     h_token = 0, h_raw = 8, h_pid = 1, h_buffers = 1, h_handles = 0, h_statics = 0, h_pointer_buffer = 0x1000, h_is_mitm = 1, h_result = 0\<rparr>"

lemma hook_keeps_request_witness:
  "\<exists>s1 f2. hook_run (\<lambda>rc. (2, 1)) [(True, (True, True), demo_request), (True, (True, True), demo_request\<lparr>h_event := 1\<rparr>)]
     ((note_log_start, capture_start), note_log_start) = Some (s1, [[], f2])"
proof -
  have "logs_ok ((note_log_start, capture_start), note_log_start)" using follows_start by (simp add: logs_ok_def follows_def)
  from hook_keeps_request [OF this, of "\<lambda>rc. (2, 1)" "[(True, (True, True), demo_request), (True, (True, True), demo_request\<lparr>h_event := 1\<rparr>)]"]
  obtain s1 fs where r: "hook_run (\<lambda>rc. (2, 1)) [(True, (True, True), demo_request), (True, (True, True), demo_request\<lparr>h_event := 1\<rparr>)]
     ((note_log_start, capture_start), note_log_start) = Some (s1, fs)" "length fs = 2" "fs ! 0 = []"
    by (auto simp: demo_request_def)
  then obtain f1 f2 where "fs = [f1, f2]" by (auto simp: length_Suc_conv numeral_2_eq_2)
  with r show ?thesis by auto
qed

text \<open>A request of a game leaves three lines, so the ring holds the last 32 requests.\<close>

lemma request_lines:
  assumes "h_is_mitm h \<noteq> 0" and "rc = 1 \<or> rc = 2"
  shows "length (hook_calls parts (h\<lparr>h_event := 0\<rparr>)) + length (hook_calls parts (h\<lparr>h_event := rc\<rparr>)) = 3" and "3 * 32 = LogLines"
  using assms by (auto simp: hook_calls_def bsd_lines_def Let_def LogLines_def)

end
