(* ===== verification/Compat.thy ===== *)
theory Compat
  imports Report HipcHooks
begin

text \<open>
  Small pieces: the three functions ZeroTier's core needs of the operating system
  (\<^verbatim>\<open>compat/ZtOSUtilsSwitch.cpp\<close>), the files of logs and captures (\<^verbatim>\<open>source/zt_port.cpp\<close>), and addresses in
  the log of the interposer.
\<close>

section \<open>Formatting for the core\<close>

text \<open>
  \<^verbatim>\<open>ztsnprintf\<close> into a buffer of \<open>len\<close> characters: \<open>out\<close> is the formatted text, \<open>None\<close> when the C library
  reports an error.  The result is the buffer and the returned length.
\<close>

definition ztsnprintf :: "string option \<Rightarrow> string \<Rightarrow> nat \<Rightarrow> (string \<times> nat) option" where
  "ztsnprintf out buf len =
     (case out of
        None \<Rightarrow> map_option (\<lambda>b. (b, 0)) (if len \<noteq> 0 then aset buf 0 nul else Some buf)
      | Some t \<Rightarrow> do {
          b \<leftarrow> snprintf buf 0 len t;
          if len \<le> length t
          then do {
            b1 \<leftarrow> (if len \<noteq> 0 then aset b (int (len - 1)) nul else Some b);
            Some (b1, if len \<noteq> 0 then len - 1 else 0) }
          else Some (b, length t) })"

definition c_string :: "string \<Rightarrow> string" where
  "c_string buf = takeWhile (\<lambda>c. c \<noteq> nul) buf"

definition networkIDStr :: "u64 \<Rightarrow> string option" where
  "networkIDStr nwid = map_option (\<lambda>(b, _). c_string b) (ztsnprintf (Some (hex_fmt 16 nwid)) (replicate 32 nul) 32)"

definition nodeIDStr :: "u64 \<Rightarrow> string option" where
  "nodeIDStr nid = map_option (\<lambda>(b, _). c_string b) (ztsnprintf (Some (hex_fmt 10 nid)) (replicate 32 nul) 32)"

lemma hex_no_nul: "nul \<notin> set (hex_digits k v)"
proof
  assume "nul \<in> set (hex_digits k v)"
  then obtain d where "d < 16" "nul = hex_char d" using set_hex_digits by blast
  moreover have "hex_digit nul = None" by (simp add: hex_digit_def)
  ultimately show False using hex_digit_hex_char [of d] by simp
qed

text \<open>
  The text the core asks for always fits: for every formatted text and every buffer that has its size,
  \<^verbatim>\<open>ztsnprintf\<close> writes inside the buffer, what it leaves is the text cut to the size and terminated, the
  returned length is that of the cut text and below the size; a failed format leaves an empty text.
\<close>

theorem ztsnprintf_fits:
  assumes "length buf = len" and "0 < len"
  shows "\<exists>b n. ztsnprintf out buf len = Some (b, n) \<and> length b = len \<and> n < len \<and> b ! n = nul \<and>
    take n b = (case out of None \<Rightarrow> [] | Some t \<Rightarrow> take (len - 1) t)"
proof (cases out)
  case None
  then show ?thesis using assms by (cases buf) (auto simp: ztsnprintf_def aset_def)
next
  case (Some t)
  have "snprintf buf 0 len t = Some (take (len - 1) t @ [nul] @ drop (Suc (min (len - 1) (length t))) buf)"
    using assms by (cases len) (auto simp: snprintf_def memcpy_def min_def)
  then show ?thesis using assms Some by (cases len) (auto simp: ztsnprintf_def aset_def min_def nth_append list_update_append)
qed

lemma ztsnprintf_fits_witness:
  "\<exists>b n. ztsnprintf (Some ''abcdef'') (replicate 4 nul) 4 = Some (b, n) \<and> length b = 4 \<and> n < 4 \<and> b ! n = nul \<and> take n b = ''abc''"
  using ztsnprintf_fits [of "replicate 4 nul" 4 "Some ''abcdef''"] by simp

lemma print_id:
  assumes "length t < 32" and "nul \<notin> set t"
  shows "map_option (\<lambda>(b, _). c_string b) (ztsnprintf (Some t) (replicate 32 nul) 32) = Some t"
proof -
  obtain b n where b: "ztsnprintf (Some t) (replicate 32 nul) 32 = Some (b, n)" "length b = 32" "n < 32" "b ! n = nul" "take n b = take 31 t"
    using ztsnprintf_fits [of "replicate 32 nul" 32 "Some t"] by auto
  then have t: "take n b = t" using assms(1) by simp
  have "b = t @ nul # drop (Suc n) b" using id_take_nth_drop [of n b] b(2-4) t by simp
  moreover have "takeWhile (\<lambda>c. c \<noteq> nul) (t @ nul # r) = t" for r
    using assms(2) by (subst takeWhile_append2) auto
  ultimately have "c_string b = t" unfolding c_string_def by metis
  then show ?thesis using b(1) by simp
qed

text \<open>The names the core uses for a network and a node are the digits of the id, as the other readers read them.\<close>

lemma id_strings:
  shows "networkIDStr n = Some (hex16 n)" and "n \<noteq> 0 \<Longrightarrow> hex_id (the (networkIDStr n)) = Some n"
    and "nodeIDStr n = Some (hex_fmt 10 n)" and "nodeIDStr n = nodeIDStr m \<Longrightarrow> n = m"
proof -
  have len: "length (hex_fmt k n) < 32" if "k \<le> 16" for k n
    using digits_for_le [OF that, of n] by (simp add: hex_fmt_def length_hex_digits)
  have nn: "nul \<notin> set (hex_fmt k n)" for k n by (simp add: hex_fmt_def hex_no_nul)
  show net: "networkIDStr n = Some (hex16 n)" using print_id [OF len [of 16] nn] by (simp add: networkIDStr_def hex_fmt16)
  show "n \<noteq> 0 \<Longrightarrow> hex_id (the (networkIDStr n)) = Some n" by (simp add: net)
  have node: "nodeIDStr n = Some (hex_fmt 10 n)" for n using print_id [OF len [of 10] nn] by (simp add: nodeIDStr_def)
  show "nodeIDStr n = Some (hex_fmt 10 n)" by (rule node)
  show "nodeIDStr n = nodeIDStr m \<Longrightarrow> n = m" using hex_fmt_inj [of 10 n m] by (simp add: node)
qed

section \<open>Files of logs and captures\<close>

definition BootLogPath :: string where "BootLogPath = ''sdmc:/config/sys-zerotier/boot.log''"

definition FlushTrace :: "fs_result \<Rightarrow> string \<Rightarrow> trace \<Rightarrow> char card \<times> nat \<Rightarrow> char card \<times> nat" where
  "FlushTrace x blank t s = fst (WriteWholeFile x blank BootLogPath (trace_text t) s)"

text \<open>\<^verbatim>\<open>WriteBinaryFile\<close>; a path or data of \<open>None\<close> is a null pointer.\<close>

definition WriteBinaryFile ::
  "fs_result \<Rightarrow> u8 list \<Rightarrow> string option \<Rightarrow> u8 list option \<Rightarrow> u8 card \<times> nat \<Rightarrow> (u8 card \<times> nat) \<times> bool" where
  "WriteBinaryFile x blank path data s =
     (case path of
        None \<Rightarrow> (s, False)
      | Some p \<Rightarrow>
          (case replace_file x blank p (case data of Some d \<Rightarrow> d | None \<Rightarrow> []) (fst s) of
             (fs, ok) \<Rightarrow> ((fs, if ok then snd s else snd s + 1), ok)))"

section \<open>Addresses in the log\<close>

text \<open>\<^verbatim>\<open>FormatAddr\<close> before it is cut to its buffer.\<close>

definition FormatAddr :: "u8 list option \<Rightarrow> string" where
  "FormatAddr addr =
     (case addr of
        None \<Rightarrow> ''?''
      | Some p \<Rightarrow>
          if length p < 8 then ''?''
          else udec (p ! 4) @ ''.'' @ udec (p ! 5) @ ''.'' @ udec (p ! 6) @ ''.'' @ udec (p ! 7) @ '':'' @
            udec (push_bit 8 (ucast (p ! 2)) OR ucast (p ! 3) :: u32))"

end
