(* ===== verification/LanEndToEnd.thy ===== *)
theory LanEndToEnd
  imports BsdFlow VNetPeer
begin

text \<open>
  The composition: the interposer of one console, its virtual interface, its outbound ring and its
  node thread, the network between two consoles, and the same parts of the other console in reverse.
  Each stage has its theorem in its own theory; here they meet in one about two games.
\<close>

section \<open>Frames in the ring\<close>

lemma emit_all_queue:
  "ring_inv g \<Longrightarrow> list_all frame_fits fs \<Longrightarrow> length (ring_queue g) + length fs \<le> 31 \<Longrightarrow>
   \<exists>h. emit_all fs g = Some h \<and> ring_inv h \<and> ring_queue h = ring_queue g @ fs"
proof (induction fs arbitrary: g)
  case (Cons f fs)
  from ring_put [OF Cons.prems(1), of f] Cons.prems(2,3) obtain h where
    h: "cbEmit f g = Some h" "ring_inv h" "ring_queue h = ring_queue g @ [f]" by auto
  from h(3) have "length (ring_queue h) = length (ring_queue g @ [f])" by (rule arg_cong)
  with Cons.IH [OF h(2)] Cons.prems(2,3) h(1,3) show ?case by auto
qed simp

lemma fragments_count: "0 < c \<Longrightarrow> c * length (fragments c off p) < length p + c"
proof (induction c off p rule: fragments.induct)
  case (1 c off p)
  show ?case
  proof (cases "p = []")
    case False
    with "1.prems" have "c * length (fragments c (off + c) (drop c p)) < length (drop c p) + c"
      using "1.IH" by simp
    moreover have "fragments c (off + c) (drop c p) = []" if "length p \<le> c"
      using that by (simp add: fragments.simps)
    ultimately show ?thesis
      using False "1.prems" by (cases "length p \<le> c") (simp_all add: fragments.simps [of c off p])
  qed (use "1.prems" in \<open>simp add: fragments.simps\<close>)
qed

lemma fragment_bytes: "f \<in> set (fragments c off p) \<Longrightarrow> length (snd (snd f)) \<le> c"
proof (induction c off p rule: fragments.induct)
  case (1 c off p)
  then show ?case by (auto simp: fragments.simps [of c off p] split: if_splits)
qed

text \<open>A datagram takes at most four frames, and each fits a slot of the ring.\<close>

lemma datagram_frames:
  assumes "mtu_ok v" and "length p \<le> 8 + MaxDatagram" and "lookupMac v dst \<noteq> 0"
  shows "length (ip_frames v dst proto p) \<le> 4" and "list_all frame_fits (ip_frames v dst proto p)"
proof -
  note b = max_payload_bounds [OF assms(1)]
  let ?c = "max_payload v div 8 * 8"
  have c: "552 \<le> ?c" "?c \<le> 1486" using b by auto
  have "length (fragments ?c 0 p) < 5"
  proof (rule ccontr)
    assume "\<not> ?thesis"
    then have "?c * 5 \<le> ?c * length (fragments ?c 0 p)" by simp
    also have "\<dots> < length p + ?c" using c by (intro fragments_count) simp
    finally show False using assms(2) c by (simp add: MaxDatagram_def)
  qed
  then have "length (ip_fragments v p) \<le> 4" by (simp add: ip_fragments_def)
  moreover have "length (snd (snd f)) \<le> 1486" if "f \<in> set (ip_fragments v p)" for f
    using that b c fragment_bytes [of f ?c 0 p] by (auto simp: ip_fragments_def split: if_splits)
  ultimately show "length (ip_frames v dst proto p) \<le> 4" "list_all frame_fits (ip_frames v dst proto p)"
    using assms(3)
    by (fastforce simp: ip_frames_def frame_fits_def frag_frame_def ip_packet_def MaxFrameLen_def MaxFrame_def list_all_iff
        split: prod.splits)+
qed

section \<open>Frames that are not answered\<close>

text \<open>Receiving a frame with UDP in it emits nothing, so that frames can follow one another at a port.\<close>

definition quiet :: "frame \<Rightarrow> bool" where
  "quiet f \<longleftrightarrow> fst (snd f) = EtherType_IPv4 \<and> rd8 (snd (snd f)) 9 = Some IpProto_UDP"

definition silent :: "frame list \<Rightarrow> VNet option \<Rightarrow> bool" where
  "silent fs r \<longleftrightarrow> (\<forall>w. r = Some w \<longrightarrow> m_emitted w = fs)"

lemma silent_simps [simp]:
  "silent fs (Some w) \<longleftrightarrow> m_emitted w = fs" "silent fs None"
  "silent fs (if b then r else s) \<longleftrightarrow> (if b then silent fs r else silent fs s)"
  "m_emitted (bump f v) = m_emitted v" "m_emitted (learnMac ip mac v) = m_emitted v"
  by (simp_all add: silent_def bump_def frame_simps)

lemma silent_bind: "(\<And>x. r = Some x \<Longrightarrow> silent fs (f x)) \<Longrightarrow> silent fs (Option.bind r f)"
  by (cases r) (simp_all add: silent_def)

lemma silent_then: "silent fs r \<Longrightarrow> (\<And>w. m_emitted w = fs \<Longrightarrow> silent fs (f w)) \<Longrightarrow> silent fs (Option.bind r f)"
  unfolding silent_def Option.bind_eq_Some_conv by blast

lemma alloc_quiet: "silent (m_emitted v) (map_option fst (allocPkt v))"
proof (cases "aget (m_pool v) (m_freeList v)")
  case (Some pk)
  then show ?thesis
    by (cases "aset (m_pool v) (m_freeList v) (pk\<lparr>pk_next := -1\<rparr>)")
      (simp_all add: allocPkt_def Let_def del: aget_in aset_in)
qed (simp add: allocPkt_def Let_def)

lemma push_quiet: "silent (m_emitted v) (pushToSocket i ip port data v)"
proof (cases "allocPkt v")
  case (Some a)
  obtain v1 idx where a: "a = (v1, idx)" by (cases a)
  have e: "m_emitted v1 = m_emitted v" using alloc_quiet [of v] Some by (simp add: a)
  have "silent (m_emitted v) (if s_qTail s < 0 then do {
        socks \<leftarrow> aset (m_socks v1) j x; Some (v1\<lparr>m_pool := pool, m_socks := socks\<rparr>) }
      else do { tl \<leftarrow> aget pool k; pool2 \<leftarrow> aset pool k (g tl); socks \<leftarrow> aset (m_socks v1) j y;
        Some (v1\<lparr>m_pool := pool2, m_socks := socks\<rparr>) })" for s pool j x y k g
    by (auto intro!: silent_bind simp: e simp del: aget_in aset_in)
  then show ?thesis
    unfolding pushToSocket_def Some a
    by (auto intro!: silent_bind simp: e simp del: aget_in aset_in memcpy_in)
qed (simp add: pushToSocket_def)

lemma deliver_quiet:
  "silent (m_emitted v) (map_option fst (udp_deliver src sp dst dp data is v d))"
proof (induction "is" arbitrary: v d)
  case (Cons i "is")
  have bind: "map_option fst (Option.bind r f) = Option.bind r (\<lambda>x. map_option fst (f x))"
    for r :: "'a option" and f :: "'a \<Rightarrow> (VNet \<times> bool) option" by (cases r) simp_all
  show ?case
  proof (cases "aget (m_socks v) (int i)")
    case (Some s)
    have "silent (m_emitted v) (Option.bind (pushToSocket i src sp data v)
        (\<lambda>w. map_option fst (udp_deliver src sp dst dp data is w True)))"
      using Cons.IH by (intro silent_then [OF push_quiet]) metis
    with Some Cons.IH show ?thesis by (simp add: bind del: aget_in)
  qed simp
qed simp

lemma udp_quiet: "silent (m_emitted v) (onUdp src dst p v)"
proof -
  have "m_emitted w = m_emitted v"
    if "udp_deliver src sp dst dp data is (bump f v) d = Some (w, e)" for sp dp data "is" f d w e
    using deliver_quiet [of "bump f v" src sp dst dp data "is" d] that by (simp add: silent_def)
  then show ?thesis unfolding onUdp_def
    by (auto simp: Let_def intro!: silent_bind simp del: rd16_in slice_in)
qed


lemma reasm_quiet: "silent (m_emitted v) (reasm_frag src dst IpProto_UDP ident off mf p v)"
proof -
  have "silent (m_emitted v) (onUdp src dst q (v\<lparr>m_reasm := rs, m_tick := t\<rparr>))" for q rs t
    using udp_quiet [of "v\<lparr>m_reasm := rs, m_tick := t\<rparr>" src dst q] by simp
  then show ?thesis unfolding reasm_frag_def
    by (auto simp: Let_def deliverIpv4_def intro!: silent_bind simp del: aget_in memcpy_in slice_in
        split: sum.split prod.split)
qed

lemma ipv4_quiet: "rd8 p 9 = Some IpProto_UDP \<Longrightarrow> silent (m_emitted v) (onIpv4 smac p v)"
proof -
  assume p: "rd8 p 9 = Some IpProto_UDP"
  have "silent (m_emitted v) (reasm_frag src dst IpProto_UDP ident off mf q (learnMac ip mac (bump f v)))"
    "silent (m_emitted v) (onUdp src dst q (learnMac ip mac (bump f v)))" for src dst ident off mf q ip mac f
    using reasm_quiet [of "learnMac ip mac (bump f v)" src dst ident off mf q]
      udp_quiet [of "learnMac ip mac (bump f v)" src dst q] by simp_all
  with p show ?thesis unfolding onIpv4_def
    by (auto simp: Let_def deliverIpv4_def intro!: silent_bind simp del: rd8_in rd16_in rd32_in slice_in)
qed

lemma frame_quiet:
  assumes "quiet f"
  shows "silent (m_emitted v) (onFrame smac (fst f) (fst (snd f)) (Some (snd (snd f))) v)"
  using assms ipv4_quiet [of "snd (snd f)" "bump (rxFrames_update ((+) 1)) v" smac]
  by (auto simp: onFrame_def Let_def quiet_def EtherType_ARP_def EtherType_IPv4_def)

lemma ip_frames_quiet:
  assumes "lookupMac v dst \<noteq> 0"
  shows "list_all quiet (ip_frames v dst IpProto_UDP p)"
proof -
  have "rd8 (ip_packet src d proto ident ff q) 9 = Some proto" for src d proto ident ff q
    by (simp add: ip_packet_def Let_def ip_header_loads(5) del: rd8_in)
  with assms show ?thesis
    by (auto simp: ip_frames_def list_all_iff quiet_def frag_frame_def simp del: rd8_in)
qed

section \<open>The wire\<close>

text \<open>Frames that the core of a console delivers to its port, as the core of another was given them.\<close>

fun arrive :: "(u64 \<times> u64 \<times> frame) list \<Rightarrow> shim \<Rightarrow> shim option" where
  "arrive [] s = Some s"
| "arrive ((nwid, smac, dmac, et, payload) # fs) s =
     do { t \<leftarrow> bsd_exec Some 1 (InFrame nwid smac dmac et (Some payload)) s; arrive fs t }"

lemma arrive_reach: "shim_reach s \<Longrightarrow> arrive fs s = Some t \<Longrightarrow> shim_reach t"
proof (induction fs s rule: arrive.induct)
  case (2 nwid smac dmac et payload fs s)
  then obtain u where u: "bsd_exec Some 1 (InFrame nwid smac dmac et (Some payload)) s = Some u" "arrive fs u = Some t"
    by (auto simp: Option.bind_eq_Some_conv simp del: bsd_exec.simps)
  have "shim_reach u" by (rule shim_reach.request [OF "2.prems"(1) shim_window.idle _ u(1)]) simp
  with "2.IH" u show ?case by blast
qed simp

lemma arrive_quiet:
  assumes "b_port s = Some p" and "m_emitted (p_vnet p) = []" and "list_all quiet fs"
    and "recv_frames smac fs (p_vnet p) = Some w"
  shows "arrive (map (\<lambda>f. (p_nwid p, smac, f)) fs) s = Some (s\<lparr>b_port := Some (p\<lparr>p_vnet := w\<rparr>)\<rparr>)"
  using assms
proof (induction fs arbitrary: s p)
  case (Cons f fs)
  obtain dmac et payload where f: "f = (dmac, et, payload)" by (cases f)
  from Cons.prems(4) obtain v where
    v: "onFrame smac dmac et (Some payload) (p_vnet p) = Some v" "recv_frames smac fs v = Some w"
    by (auto simp: f Option.bind_eq_Some_conv)
  have "m_emitted v = []"
    using frame_quiet [of f "p_vnet p" smac] Cons.prems(2,3) v(1) by (simp add: f silent_def)
  moreover have "p_vnet p\<lparr>m_emitted := []\<rparr> = p_vnet p" using Cons.prems(2) by simp
  ultimately have "bsd_exec Some 1 (InFrame (p_nwid p) smac dmac et (Some payload)) s =
      Some (s\<lparr>b_port := Some (p\<lparr>p_vnet := v\<rparr>)\<rparr>)"
    using v(1) Cons.prems(1) by (simp add: on_port_def cbVirtualFrame_def on_vnet_def)
  with Cons.IH [of "s\<lparr>b_port := Some (p\<lparr>p_vnet := v\<rparr>)\<rparr>" "p\<lparr>p_vnet := v\<rparr>"] Cons.prems(3) v(2) \<open>m_emitted v = []\<close>
  show ?case by (simp add: f)
qed simp


section \<open>From a game to the ring\<close>

text \<open>The address a datagram goes to: a broadcast address of any network becomes that of the virtual one.\<close>

definition lan_dest :: "VNet \<Rightarrow> u8 list \<Rightarrow> u8 list \<Rightarrow> u32" where
  "lan_dest v buf addr =
     (if addr ! 7 = 0xFF \<and> \<not> browse_reply (addr_port addr) buf then broadcastIp v else addr_ip addr)"

lemma payload_sends:
  assumes "b_port s = Some p" and "port_inv p" and "vfd_ok (p_vnet p) vfd" and "overlay_takes (p_vnet p) buf addr"
    and "m_emit (p_vnet p)" and "lookupMac (p_vnet p) (lan_dest (p_vnet p) buf addr) \<noteq> 0"
    and "length (ring_queue (p_ring p)) \<le> 27"
  shows "\<exists>q. MirrorLanPayload vfd (addr_ip addr) (addr_port addr) (addr ! 7 = 0xFF) buf s = Some (s\<lparr>b_port := Some q\<rparr>, True) \<and>
    port_inv q \<and> wire_part q = wire_part p \<and> p_nwid q = p_nwid p \<and> m_mac (p_vnet q) = m_mac (p_vnet p) \<and> handed q = handed p \<and>
    ring_queue (p_ring q) = ring_queue (p_ring p) @ ip_frames (p_vnet p) (lan_dest (p_vnet p) buf addr) IpProto_UDP
      (udp_datagram (m_ip (p_vnet p)) (lan_dest (p_vnet p) buf addr) (udpLocalPort vfd (p_vnet q)) (addr_port addr) buf)"
proof -
  let ?v = "p_vnet p"
  let ?dst = "lan_dest ?v buf addr"
  have v: "vnet_inv ?v" "?v\<lparr>m_emitted := []\<rparr> = ?v" "m_emitted ?v = []" "ring_inv (p_ring p)"
    using assms(2) by (auto simp: port_inv_def)
  have o: "m_configured ?v" "length buf \<le> MaxDatagram" using assms(4) by (simp_all add: overlay_takes_def)
  from udp_sends [OF v(1) assms(3) o(1) assms(5) o(2) order_refl assms(6), of "addr_port addr"] obtain w where
    w: "udpSendTo vfd ?dst (addr_port addr) (Some buf) (length buf) ?v = Some (w, int (length buf))" "m_mac w = m_mac ?v"
      "m_emitted w = ip_frames ?v ?dst IpProto_UDP (udp_datagram (m_ip ?v) ?dst (udpLocalPort vfd w) (addr_port addr) buf)"
    using v(3) by auto
  let ?p = "udp_datagram (m_ip ?v) ?dst (udpLocalPort vfd w) (addr_port addr) buf"
  have "mtu_ok ?v" "length ?p \<le> 8 + MaxDatagram" using v(1) o(2) by (simp_all add: vnet_inv_def udp_datagram_def)
  note fits = datagram_frames [OF this assms(6), of IpProto_UDP]
  from emit_all_queue [OF v(4) fits(2)] fits(1) assms(7) obtain g where
    g: "emit_all (m_emitted w) (p_ring p) = Some g" "ring_inv g" "ring_queue g = ring_queue (p_ring p) @ m_emitted w"
    unfolding w(3) by auto
  have wi: "vnet_inv w"
    using send_fst_inv [OF v(1), of vfd ?dst "addr_port addr" buf] w(1) by simp
  let ?q = "p\<lparr>p_vnet := w\<lparr>m_emitted := []\<rparr>, p_ring := g\<rparr>"
  have run: "MirrorLanPayload vfd (addr_ip addr) (addr_port addr) (addr ! 7 = 0xFF) buf s = Some (s\<lparr>b_port := Some ?q\<rparr>, True)"
    using assms(1,4) o(1) v(2) w(1) g(1)
    by (auto simp: MirrorLanPayload_def mirror_broadcast_def mirror_datagram_def MirrorLanBroadcast_def MirrorLanDatagram_def
        on_port_def on_vnet_def lan_dest_def overlay_takes_def Let_def)
  have "udpLocalPort vfd (w\<lparr>m_emitted := []\<rparr>) = udpLocalPort vfd w" by (simp add: udpLocalPort_def vfd_ok_def)
  with run w(2,3) wi g(2,3) show ?thesis
    by (intro exI [of _ ?q]) (simp add: port_inv_def wire_part_def handed_def)
qed


text \<open>What a game sends is handed to the core behind what was waiting in the ring.\<close>

lemma game_sends:
  assumes A: "shim_reach s" "b_port s = Some p" "wire_inv p" "m_emit (p_vnet p)" "0 \<le> p_wireFd p" "\<not> p_wireRecovering p"
      "length (ring_queue (p_ring p)) \<le> 27"
    and sock: "FindLanSocketLocked pid fd s = Some i" "l_udp (b_socks s ! i)" "l_mirrored (b_socks s ! i)"
    and addr: "8 \<le> length addr" "overlay_takes (p_vnet p) buf addr" "dst = lan_dest (p_vnet p) buf addr"
      "lookupMac (p_vnet p) dst \<noteq> 0"
    and core: "core_ok core" "frames_only_send core"
  obtains s1 p1 p2 where
    "bsd_SendTo Some pid fd buf addr rep s = Some (s1, Local (int (length buf), 0))" "b_port s1 = Some p1"
    "drainOutbound core p1 = Some p2"
    "handed p2 = handed p @ map (\<lambda>f. (p_nwid p, m_mac (p_vnet p), f)) (ring_queue (p_ring p) @
       ip_frames (p_vnet p) dst IpProto_UDP (udp_datagram (m_ip (p_vnet p)) dst
         (udpLocalPort (l_vnetFd (b_socks s ! i)) (p_vnet p1)) (addr_port addr) buf))"
proof -
  have inv: "port_inv p" using owned_safe [OF reach_owned [OF A(1)]] A(2) by (auto simp: safe_def)
  note send = send_mirrored [OF A(1,2) addr(1) sock]
  from payload_sends [OF A(2) inv send(1) addr(2) A(4) addr(4) [unfolded addr(3)] A(7)] obtain p1 where
    p1: "MirrorLanPayload (l_vnetFd (b_socks s ! i)) (addr_ip addr) (addr_port addr) (addr ! 7 = 0xFF) buf s =
        Some (s\<lparr>b_port := Some p1\<rparr>, True)"
      "port_inv p1" "wire_part p1 = wire_part p" "p_nwid p1 = p_nwid p" "m_mac (p_vnet p1) = m_mac (p_vnet p)"
      "handed p1 = handed p"
      "ring_queue (p_ring p1) = ring_queue (p_ring p) @ ip_frames (p_vnet p) dst IpProto_UDP (udp_datagram (m_ip (p_vnet p)) dst
         (udpLocalPort (l_vnetFd (b_socks s ! i)) (p_vnet p1)) (addr_port addr) buf)"
    unfolding addr(3) by blast
  have ok: "port_ok p1" using p1(2) A(3) wire_part_keeps [OF p1(3)] by (simp add: port_ok_def)
  obtain p2 where p2: "drain_loop core False p1 = Some p2"
      "handed p2 = handed p1 @ map (\<lambda>f. (p_nwid p1, m_mac (p_vnet p1), f)) (ring_queue (p_ring p1))"
    by (rule drain_loop_ok [OF core ok, of False]) simp
  have "\<not> (p_wireFd p1 < 0 \<or> p_wireRecovering p1)" using p1(3) A(5,6) by (simp add: wire_part_def)
  then have "drainOutbound core p1 = Some p2" using p2(1) by (simp add: drainOutbound_def)
  then show thesis using p1(4-7) p2(2)
    by (intro that [of "s\<lparr>b_port := Some p1\<rparr>" p1 p2]) (simp_all add: bsd_SendTo_def send(2) p1(1))
qed

text \<open>What the core delivers of it is what the next receive returns.\<close>

lemma game_hears:
  assumes B: "shim_reach u" "b_port u = Some q" "accepts (p_vnet q) (lookupMac v dst) dst"
      "\<forall>r \<in> set (m_reasm (p_vnet q)). \<not> reasm_match (m_ipId v) (m_ip v) dst IpProto_UDP r"
    and peer: "FindLanSocketLocked pid fd u = Some j" "l_mirrored (b_socks u ! j)" "n = nat (l_vnetFd (b_socks u ! j))"
      "n \<in> set (take (pool_room (p_vnet q)) (listeners (p_vnet q) dst port))" "queue_of (p_vnet q) n = []"
    and room: "length buf \<le> length out" "16 \<le> length from_addr"
    and v: "mtu_ok v" "lookupMac v dst \<noteq> 0" "length buf \<le> MaxDatagram"
  obtains u1 u2 a where
    "arrive (map (\<lambda>f. (p_nwid q, smac, f)) (ip_frames v dst IpProto_UDP (udp_datagram (m_ip v) dst sp port buf))) u = Some u1"
    "bsd_RecvFrom Some pid fd flags out from_addr rep u1 = Some (u2, Local ((int (length buf), 0),
      \<lparr>v_data = buf @ drop (length buf) out, v_addr = a, v_addrlen = 16\<rparr>))"
    "addr_ip a = m_ip v" "addr_port a = sp"
proof -
  let ?fs = "ip_frames v dst IpProto_UDP (udp_datagram (m_ip v) dst sp port buf)"
  have "port_inv q" using owned_safe [OF reach_owned [OF B(1)]] B(2) by (auto simp: safe_def)
  then have inv: "vnet_inv (p_vnet q)" "m_emitted (p_vnet q) = []" by (simp_all add: port_inv_def)
  from link_hears [OF v(1) refl v(2,3) inv(1) B(3,4), of smac sp port] obtain w where
    w: "recv_frames smac ?fs (p_vnet q) = Some w" "queue_of w = heard (p_vnet q) dst port (m_ip v, sp, buf)"
    by blast
  let ?q = "q\<lparr>p_vnet := w\<rparr>" and ?u = "u\<lparr>b_port := Some (q\<lparr>p_vnet := w\<rparr>)\<rparr>"
  have here: "arrive (map (\<lambda>f. (p_nwid q, smac, f)) ?fs) u = Some ?u"
    by (rule arrive_quiet [OF B(2) inv(2) ip_frames_quiet [OF v(2)] w(1)])
  have "queue_of w n = [(m_ip v, sp, buf)]" using w(2) peer(4,5) by (simp add: heard_def)
  moreover have "FindLanSocketLocked pid fd ?u = FindLanSocketLocked pid fd u"
    by (auto simp: FindLanSocketLocked_def)
  ultimately show thesis
    using receive_head [OF arrive_reach [OF B(1) here], of ?q from_addr pid fd j "m_ip v" sp buf "[]" flags out rep]
      peer(1-3) room that [OF here] by auto
qed

section \<open>From one game to another\<close>

text \<open>
  C1. From one game to another: what a game sends to the virtual network from a mirrored socket is,
  once the node thread has drained the ring and the core has carried the frames, in order, to a
  console on the same network, what the next receive of the game there returns -- whole, in however
  many frames it went, and with the address and the port of the sender's socket, so that it can
  answer.  Its own real service is not asked on either console.
\<close>

theorem game_to_game:
  assumes A: "shim_reach s" "b_port s = Some p" "wire_inv p" "m_emit (p_vnet p)" "0 \<le> p_wireFd p" "\<not> p_wireRecovering p"
      "length (ring_queue (p_ring p)) \<le> 27"
    and sock: "FindLanSocketLocked pid fd s = Some i" "l_udp (b_socks s ! i)" "l_mirrored (b_socks s ! i)"
    and addr: "8 \<le> length addr" "overlay_takes (p_vnet p) buf addr" "dst = lan_dest (p_vnet p) buf addr"
      "lookupMac (p_vnet p) dst \<noteq> 0"
    and core: "core_ok core" "frames_only_send core"
    and B: "shim_reach u" "b_port u = Some q" "p_nwid q = p_nwid p" "accepts (p_vnet q) (lookupMac (p_vnet p) dst) dst"
      "\<forall>r \<in> set (m_reasm (p_vnet q)). \<not> reasm_match (m_ipId (p_vnet p)) (m_ip (p_vnet p)) dst IpProto_UDP r"
    and peer: "FindLanSocketLocked pid2 fd2 u = Some j" "l_mirrored (b_socks u ! j)" "n = nat (l_vnetFd (b_socks u ! j))"
      "n \<in> set (take (pool_room (p_vnet q)) (listeners (p_vnet q) dst (addr_port addr)))" "queue_of (p_vnet q) n = []"
    and room: "length buf \<le> length out" "16 \<le> length from_addr"
  shows "\<exists>s1 p1 p2 old new u1 u2 a.
    bsd_SendTo Some pid fd buf addr rep s = Some (s1, Local (int (length buf), 0)) \<and> b_port s1 = Some p1 \<and>
    drainOutbound core p1 = Some p2 \<and> handed p2 = handed p @ old @ new \<and> length old = length (ring_queue (p_ring p)) \<and>
    arrive new u = Some u1 \<and>
    bsd_RecvFrom Some pid2 fd2 flags out from_addr rep2 u1 = Some (u2, Local ((int (length buf), 0),
      \<lparr>v_data = buf @ drop (length buf) out, v_addr = a, v_addrlen = 16\<rparr>)) \<and>
    addr_ip a = m_ip (p_vnet p) \<and> addr_port a = udpLocalPort (l_vnetFd (b_socks s ! i)) (p_vnet p1)"
proof -
  let ?v = "p_vnet p"
  have v: "mtu_ok ?v" "length buf \<le> MaxDatagram"
    using owned_safe [OF reach_owned [OF A(1)]] A(2) addr(2)
    by (auto simp: safe_def port_inv_def vnet_inv_def overlay_takes_def)
  obtain s1 p1 p2 where sent: "bsd_SendTo Some pid fd buf addr rep s = Some (s1, Local (int (length buf), 0))" "b_port s1 = Some p1"
    "drainOutbound core p1 = Some p2"
    "handed p2 = handed p @ map (\<lambda>f. (p_nwid p, m_mac ?v, f)) (ring_queue (p_ring p) @
       ip_frames ?v dst IpProto_UDP (udp_datagram (m_ip ?v) dst
         (udpLocalPort (l_vnetFd (b_socks s ! i)) (p_vnet p1)) (addr_port addr) buf))"
    by (rule game_sends [OF A sock addr core])
  let ?fs = "ip_frames ?v dst IpProto_UDP (udp_datagram (m_ip ?v) dst
    (udpLocalPort (l_vnetFd (b_socks s ! i)) (p_vnet p1)) (addr_port addr) buf)"
  obtain u1 u2 a where "arrive (map (\<lambda>f. (p_nwid q, m_mac ?v, f)) ?fs) u = Some u1"
    "bsd_RecvFrom Some pid2 fd2 flags out from_addr rep2 u1 = Some (u2, Local ((int (length buf), 0),
      \<lparr>v_data = buf @ drop (length buf) out, v_addr = a, v_addrlen = 16\<rparr>))"
    "addr_ip a = m_ip ?v" "addr_port a = udpLocalPort (l_vnetFd (b_socks s ! i)) (p_vnet p1)"
    by (rule game_hears [OF B(1,2,4,5) peer room v(1) addr(4) v(2)])
  with sent B(3) show ?thesis
    by (intro exI [of _ s1] exI [of _ p1] exI [of _ p2] exI [of _ u1] exI [of _ u2] exI [of _ a]
        exI [of _ "map (\<lambda>f. (p_nwid p, m_mac ?v, f)) (ring_queue (p_ring p))"]
        exI [of _ "map (\<lambda>f. (p_nwid p, m_mac ?v, f)) ?fs"]) simp
qed


text \<open>A game with a bound socket on a console whose wire is up; it hears its own broadcast, too.\<close>

definition demo_on :: Port where
  "demo_on = demo_net\<lparr>p_wireFd := 5, p_vnet := setEmit True (p_vnet demo_net)\<rparr>"

definition demo_heard :: VNet where
  "demo_heard = (p_vnet demo_on)\<lparr>m_socks := (m_socks (p_vnet demo_on))[0 := empty_sock\<lparr>s_used := True, s_localPort := 30000\<rparr>]\<rparr>"

definition demo_bound :: shim where
  "demo_bound = shim_start\<lparr>b_port := Some (demo_on\<lparr>p_vnet := demo_heard\<rparr>), b_socks := (replicate MaxLanSockets lan_zero)
     [0 := lan_zero\<lparr>l_pid := 7, l_bsdFd := 3, l_vnetFd := 0, l_boundPort := 30000, l_udp := True, l_mirrored := True\<rparr>]\<rparr>"

lemma demo_bound_run:
  "bsd_exec Some 7 (ReqBind 3 (sockaddr 0 30000) (Inr (0, 0))) (track 7 3 (SetPort (Some demo_on) shim_start)) = Some demo_bound"
proof -
  have "replicate 8 x = [x, x, x, x, x, x, x, x]" for x :: Socket by (simp add: eval_nat_numeral)
  then show ?thesis
    using sockaddr_fields(1) [of 0 30000 "[]"] sockaddr_fields(3) [of 0 30000]
    by (simp add: bsd_Bind_def track_def SetPort_def shim_start_def two_entries zero_fields set_lan_def
        FindLanSocketLocked_def InvalidSocket_def IsPiaLanPort_def EnsureLanMirror_def open_bound_def install_mirror_def
        on_port_def OpenLanSocket_def BindLanSocket_def on_vnet_def demo_on_def demo_net_def demo_bound_def demo_heard_def
        configure_def reset_def vnet_fresh_def setEmit_def udpOpen_def udpBind_def vfd_ok_def MaxSockets_def zero_sock_def
        empty_sock_def Let_def)
qed

lemma demo_bound_reach: "shim_reach demo_bound"
proof -
  have "port_inv (port_fresh\<lparr>p_vnet := reset vnet_fresh\<rparr>)" using port_ok_fresh by (simp only: port_ok_def)
  then have "vnet_inv (p_vnet demo_net)" by (simp add: port_inv_def demo_net_def vnet_inv_configure)
  moreover have "vnet_inv (setEmit b v) = vnet_inv v" for b v
    by (simp add: setEmit_def vnet_inv_def pool_inv_def layout_def sizes_ok_def arp_inv_def mtu_ok_def)
  ultimately have "vnet_inv (setEmit True (p_vnet demo_net))" by simp
  then have "port_inv demo_on"
    by (simp add: demo_on_def port_inv_def) (simp add: demo_net_def port_fresh_def setEmit_def configure_def reset_def vnet_fresh_def)
  moreover have "\<not> vfd_ok (p_vnet demo_on) k" for k
    by (auto simp: demo_on_def demo_net_def vfd_ok_def configure_def reset_def setEmit_def MaxSockets_def vnet_fresh_def zero_sock_def)
  ultimately have "shim_reach (SetPort (Some demo_on) shim_start)" by (rule shim_reach.start)
  then have "shim_reach (track 7 3 (SetPort (Some demo_on) shim_start))"
    by (rule shim_reach.request [OF _ shim_window.idle, of _ 7 "ReqSocket 2 2 0 (Inr (3, 0))"])
      (simp_all add: bsd_Socket_def)
  from shim_reach.request [OF this shim_window.idle _ demo_bound_run] show ?thesis by simp
qed

lemma demo_heard_fields:
  "m_socks demo_heard = (replicate MaxSockets empty_sock)[0 := empty_sock\<lparr>s_used := True, s_localPort := 30000\<rparr>]"
  "m_emit demo_heard" "m_configured demo_heard" "m_ip demo_heard = 0x0A000001" "m_netmask demo_heard = 0xFFFFFF00"
  "\<forall>r \<in> set (m_reasm demo_heard). \<not> r_used r" "m_freeList demo_heard = 0"
  by (simp_all add: demo_heard_def demo_on_def demo_net_def configure_def reset_def setEmit_def vnet_fresh_def
      empty_sock_def zero_sock_def map_replicate_const)

lemma demo_heard_pool: "0 < pool_room demo_heard" "queue_of demo_heard 0 = []"
  by (simp_all add: pool_room_def free_idx_def queue_of_def sock_queue_def queue_idx_def demo_heard_fields MaxSockets_def
      PoolPackets_def numeral_nat empty_sock_def)

theorem game_to_game_witness:
  "\<exists>s1 p1 p2 old new u1 u2 a.
    bsd_SendTo Some 7 3 [1, 2, 3] (sockaddr IpBroadcast 30000) (Inl 1) demo_bound = Some (s1, Local (3, 0)) \<and> b_port s1 = Some p1 \<and>
    drainOutbound idle_core p1 = Some p2 \<and> handed p2 = old @ new \<and>
    arrive new demo_bound = Some u1 \<and>
    bsd_RecvFrom Some 7 3 0 [0, 0, 0, 0] (replicate 16 0) (Inl 1) u1 = Some (u2, Local ((3, 0),
      \<lparr>v_data = [1, 2, 3, 0], v_addr = a, v_addrlen = 16\<rparr>)) \<and> addr_ip a = 0x0A000001"
proof -
  let ?a = "sockaddr IpBroadcast 30000" and ?p = "demo_on\<lparr>p_vnet := demo_heard\<rparr>"
  have s: "b_port demo_bound = Some ?p" "FindLanSocketLocked 7 3 demo_bound = Some 0" "l_udp (b_socks demo_bound ! 0)"
    "l_mirrored (b_socks demo_bound ! 0)" "l_vnetFd (b_socks demo_bound ! 0) = 0"
    by (simp_all add: demo_bound_def shim_start_def FindLanSocketLocked_def InvalidSocket_def two_entries)
  have a: "addr_port ?a = 30000" "length ?a = 16" "?a ! 7 = 0xFF"
    using sockaddr_fields(1) [of IpBroadcast 30000 "[]"] sockaddr_fields(3) [of IpBroadcast 30000]
    by (simp_all add: sockaddr_def port_bytes_def ip_bytes_def IpBroadcast_def)
  have d: "lan_dest demo_heard [1, 2, 3] ?a = 0x0A0000FF"
    by (simp add: lan_dest_def a browse_reply_def broadcastIp_def demo_heard_fields)
  have m: "lookupMac demo_heard 0x0A0000FF = MacBroadcast"
    by (simp add: lookupMac_def isBroadcast_def demo_heard_fields)
  have l: "listeners demo_heard 0x0A0000FF 30000 = [0]"
    by (simp add: listeners_def udp_match_def demo_heard_fields MaxSockets_def upt_rec empty_sock_def zero_sock_def
        isBroadcast_def nth_list_update)
  have p: "wire_inv ?p" "0 \<le> p_wireFd ?p" "\<not> p_wireRecovering ?p" "ring_len (p_ring ?p) = 0" "handed ?p = []"
    by (simp_all add: demo_on_def demo_net_def port_fresh_def wire_inv_def handed_def List.map_filter_def ring_len_def frame_queue_fresh_def FrameQueueDepth_def)
  show ?thesis
    using game_to_game [OF demo_bound_reach s(1) p(1) _ p(2,3) _ s(2-4), of ?a "[1, 2, 3]" "0x0A0000FF" idle_core
        demo_bound ?p 7 3 0 0 "[0, 0, 0, 0]" "replicate 16 0" "Inl 1" 0 "Inl 1"]
      demo_bound_reach s a d m l p(4,5) demo_heard_fields demo_heard_pool
    by (simp add: overlay_takes_def MaxDatagram_def browse_reply_def accepts_def isForUs_def isBroadcast_def reasm_match_def
        MacBroadcast_def) blast
qed

end
