(* ===== verification/Servers.thy ===== *)
theory Servers
  imports Prelude
begin

text \<open>
  What \<^verbatim>\<open>source/main.cpp\<close> sets up around the node thread: the heap of the file system service, which is
  made by whichever thread needs it first, the acceptance of a session by the two server managers, and
  the start of the process up to the node thread.
\<close>

section \<open>The heap of the file system\<close>

text \<open>
  Where a thread stands in \<^verbatim>\<open>GetFsHeapHandle\<close>: before it, after the first look at the flag, with the
  mutex held, between its two stores, about to let the mutex go, about to read the handle, and after
  it with what it returned.
\<close>

datatype heap_pc = Outside | Checked | Locked | Creating | Publishing | Unlocking | Reading | Got "nat option"

text \<open>
  The shared variables and the position of every thread.  \<open>fh_made\<close> counts the calls of
  \<^verbatim>\<open>CreateExpHeap\<close>, each of which lays out the same memory anew; a handle is the number of its call, and
  \<open>None\<close> the null handle of the start.
\<close>

record fs_heap =
  fh_handle :: "nat option"
  fh_flag :: bool
  fh_owner :: "nat option"
  fh_made :: nat
  fh_pc :: "nat \<Rightarrow> heap_pc"

definition fs_heap_start :: fs_heap where
  "fs_heap_start = \<lparr>fh_handle = None, fh_flag = False, fh_owner = None, fh_made = 0, fh_pc = (\<lambda>_. Outside)\<rparr>"

definition go :: "nat \<Rightarrow> heap_pc \<Rightarrow> fs_heap \<Rightarrow> fs_heap" where
  "go t pc s = s\<lparr>fh_pc := (fh_pc s)(t := pc)\<rparr>"

text \<open>
  One step of thread \<open>t\<close>; \<open>None\<close> when it waits for the mutex.  The flag and the handle are plain variables,
  so the order in which another thread sees the two stores is not fixed by the language: \<open>swapped\<close> is
  the order in which the flag is seen first.
\<close>

fun GetFsHeapHandle :: "bool \<Rightarrow> nat \<Rightarrow> fs_heap \<Rightarrow> fs_heap option" where
  "GetFsHeapHandle swapped t s =
     (case fh_pc s t of
        Outside \<Rightarrow> Some (go t (if \<not> fh_flag s then Checked else Reading) s)
      | Checked \<Rightarrow> if fh_owner s = None then Some (go t Locked (s\<lparr>fh_owner := Some t\<rparr>)) else None
      | Locked \<Rightarrow> Some (if \<not> fh_flag s then go t Creating s else go t Unlocking s)
      | Creating \<Rightarrow>
          if swapped then Some (go t Publishing (s\<lparr>fh_flag := True\<rparr>))
          else Some (go t Publishing (s\<lparr>fh_handle := Some (fh_made s), fh_made := fh_made s + 1\<rparr>))
      | Publishing \<Rightarrow>
          if swapped then Some (go t Unlocking (s\<lparr>fh_handle := Some (fh_made s), fh_made := fh_made s + 1\<rparr>))
          else Some (go t Unlocking (s\<lparr>fh_flag := True\<rparr>))
      | Unlocking \<Rightarrow> Some (go t Reading (s\<lparr>fh_owner := None\<rparr>))
      | Reading \<Rightarrow> Some (go t (Got (fh_handle s)) s)
      | Got h \<Rightarrow> Some (go t Outside s))"

declare GetFsHeapHandle.simps [simp del]

lemmas heap_step = GetFsHeapHandle.simps

text \<open>A schedule names the thread that moves next; one that has to wait stays where it is.\<close>

primrec heap_run :: "bool \<Rightarrow> nat list \<Rightarrow> fs_heap \<Rightarrow> fs_heap" where
  "heap_run swapped [] s = s"
| "heap_run swapped (t # ts) s =
     heap_run swapped ts (case GetFsHeapHandle swapped t s of Some u \<Rightarrow> u | None \<Rightarrow> s)"

section \<open>The heap is made once\<close>

text \<open>Where the mutex is held, and what is known at each place, when the stores are seen in their order.\<close>

definition holds :: "heap_pc \<Rightarrow> bool" where
  "holds pc \<longleftrightarrow> pc \<in> {Locked, Creating, Publishing, Unlocking}"

fun place_ok :: "fs_heap \<Rightarrow> heap_pc \<Rightarrow> bool" where
  "place_ok s Locked \<longleftrightarrow> fh_made s = 1 \<longrightarrow> fh_flag s"
| "place_ok s Creating \<longleftrightarrow> fh_made s = 0"
| "place_ok s Publishing \<longleftrightarrow> fh_made s = 1"
| "place_ok s Unlocking \<longleftrightarrow> fh_flag s"
| "place_ok s Reading \<longleftrightarrow> fh_flag s"
| "place_ok s (Got h) \<longleftrightarrow> h = Some 0 \<and> fh_flag s"
| "place_ok s _ \<longleftrightarrow> True"

definition fs_heap_inv :: "fs_heap \<Rightarrow> bool" where
  "fs_heap_inv s \<longleftrightarrow>
     (\<forall>t. holds (fh_pc s t) \<longleftrightarrow> fh_owner s = Some t) \<and> (\<forall>t. place_ok s (fh_pc s t)) \<and>
     fh_made s \<le> 1 \<and> fh_handle s = (if fh_made s = 0 then None else Some 0) \<and> (fh_flag s \<longrightarrow> fh_made s = 1) \<and>
     (fh_owner s = None \<and> fh_made s = 1 \<longrightarrow> fh_flag s)"

lemma fs_heap_start_inv: "fs_heap_inv fs_heap_start"
  by (simp add: fs_heap_inv_def fs_heap_start_def holds_def)

lemma go_fields [simp]:
  "fh_handle (go t pc s) = fh_handle s" "fh_flag (go t pc s) = fh_flag s" "fh_owner (go t pc s) = fh_owner s"
  "fh_made (go t pc s) = fh_made s" "fh_pc (go t pc s) = (fh_pc s)(t := pc)"
  by (simp_all add: go_def)

lemma place_other:
  assumes "place_ok s pc" and "\<not> holds pc" and "fh_flag s \<longrightarrow> fh_flag u"
  shows "place_ok u pc"
  using assms by (cases pc) (simp_all add: holds_def)

text \<open>A step that keeps the invariant at its own thread keeps it everywhere: the others do not hold the mutex.\<close>

lemma step_inv:
  assumes s: "fs_heap_inv s" and v: "fh_pc v = fh_pc s" "place_ok v pc" "fh_flag s \<longrightarrow> fh_flag v"
    and mutex: "holds pc \<longleftrightarrow> fh_owner v = Some t"
      "fh_owner s = Some t \<or> fh_owner s = None \<or>
        fh_owner v = fh_owner s \<and> fh_made v = fh_made s \<and> fh_flag v = fh_flag s"
      "fh_owner v = fh_owner s \<or> fh_owner v = Some t \<or> fh_owner v = None \<and> fh_owner s = Some t"
    and store: "fh_made v \<le> 1" "fh_handle v = (if fh_made v = 0 then None else Some 0)" "fh_flag v \<longrightarrow> fh_made v = 1"
      "fh_owner v = None \<and> fh_made v = 1 \<longrightarrow> fh_flag v"
  shows "fs_heap_inv (go t pc v)"
proof -
  have held: "holds (fh_pc s x) \<longleftrightarrow> fh_owner s = Some x" and ok: "place_ok s (fh_pc s x)" for x
    using s by (simp_all add: fs_heap_inv_def)
  have go_ok: "place_ok (go t pc v) y = place_ok v y" for y by (cases y) simp_all
  have "holds (fh_pc (go t pc v) x) \<longleftrightarrow> fh_owner v = Some x" for x
    using held [of x] v(1) mutex by (cases "x = t") auto
  moreover have "place_ok (go t pc v) (fh_pc (go t pc v) x)" for x
  proof (cases "x = t \<or> holds (fh_pc s x)")
    case True
    have same: "place_ok v y = place_ok s y" if "fh_made v = fh_made s" "fh_flag v = fh_flag s" for y
      using that by (cases y) simp_all
    from True show ?thesis using held [of x] ok [of x] v(1,2) mutex(2) same by (auto simp: go_ok)
  next
    case False
    with place_other [OF ok _ v(3), of x] v(1) show ?thesis by (simp add: go_ok)
  qed
  ultimately show ?thesis using store by (simp add: fs_heap_inv_def)
qed

lemma GetFsHeapHandle_inv:
  assumes "fs_heap_inv s"
  shows "pred_option fs_heap_inv (GetFsHeapHandle False t s)"
proof -
  have facts: "holds (fh_pc s t) \<longleftrightarrow> fh_owner s = Some t" "place_ok s (fh_pc s t)" "fh_made s \<le> 1"
    "fh_handle s = (if fh_made s = 0 then None else Some 0)" "fh_flag s \<longrightarrow> fh_made s = 1"
    "fh_owner s = None \<and> fh_made s = 1 \<longrightarrow> fh_flag s"
    using assms by (simp_all add: fs_heap_inv_def)
  show ?thesis
  proof (cases "fh_pc s t")
    case Outside
    with facts show ?thesis
      by (cases "fh_flag s") (simp add: heap_step, rule step_inv [OF assms]; simp add: holds_def)+
  next
    case Checked
    with facts show ?thesis
      by (cases "fh_owner s") (simp_all add: heap_step holds_def step_inv [OF assms])
  next
    case Locked
    with facts show ?thesis
      by (cases "fh_flag s") (simp_all add: heap_step holds_def step_inv [OF assms])
  qed (use facts in \<open>simp_all add: heap_step holds_def step_inv [OF assms]\<close>)
qed

lemma heap_run_inv: "fs_heap_inv s \<Longrightarrow> fs_heap_inv (heap_run False ts s)"
proof (induction ts arbitrary: s)
  case (Cons t ts)
  with GetFsHeapHandle_inv [OF Cons.prems, of t] show ?case by (auto split: option.split)
qed simp

text \<open>Somebody can always go on: only the mutex makes a thread wait, and who holds it does not.\<close>

lemma heap_progress:
  assumes "fs_heap_inv s"
  shows "GetFsHeapHandle False t s \<noteq> None \<or> (\<exists>k. fh_owner s = Some k \<and> GetFsHeapHandle False k s \<noteq> None)"
proof (cases "fh_owner s")
  case (Some o')
  then have "holds (fh_pc s o')" using assms by (simp add: fs_heap_inv_def)
  then show ?thesis using Some by (auto simp: heap_step holds_def)
qed (auto simp: heap_step split: heap_pc.split)

text \<open>
  C33. The heap of the file system is made at most once, whatever threads ask for it and however their
  steps interleave; every call that returns gives the handle of that heap, never the null handle; and
  no state is stuck: the thread that is to move can move, or the holder of the mutex can.  The two
  stores are seen here in the order in which they are written, which the mutex alone does not give to a
  thread that reads the flag outside it.
\<close>

theorem fs_heap_once:
  assumes "s = heap_run False ts fs_heap_start"
  shows "fh_made s \<le> 1 \<and> (\<forall>t h. fh_pc s t = Got h \<longrightarrow> fh_made s = 1 \<and> h = Some 0) \<and>
    (\<forall>t. GetFsHeapHandle False t s \<noteq> None \<or> (\<exists>k. fh_owner s = Some k \<and> GetFsHeapHandle False k s \<noteq> None))"
proof (intro conjI allI impI)
  have i: "fs_heap_inv s" unfolding assms by (intro heap_run_inv fs_heap_start_inv)
  show "fh_made s \<le> 1" using i by (simp add: fs_heap_inv_def)
  show "fh_made s = 1" and "h = Some 0" if "fh_pc s t = Got h" for t h
    using i that unfolding fs_heap_inv_def by (metis place_ok.simps(6))+
  show "GetFsHeapHandle False t s \<noteq> None \<or> (\<exists>k. fh_owner s = Some k \<and> GetFsHeapHandle False k s \<noteq> None)" for t
    using heap_progress [OF i] .
qed

text \<open>Two threads at once: both see the flag unset, the second waits for the first, and both get the one heap.\<close>

theorem fs_heap_once_witness:
  "fh_pc (heap_run False [0, 1, 0, 1, 0, 0, 0, 0, 0, 1, 1, 1, 1] fs_heap_start) 1 = Got (Some 0) \<and>
   fh_made (heap_run False [0, 1, 0, 1, 0, 0, 0, 0, 0, 1, 1, 1, 1] fs_heap_start) = 1"
proof -
  let ?s = "heap_run False [0, 1, 0, 1, 0, 0, 0, 0, 0, 1, 1, 1, 1] fs_heap_start"
  have "fh_pc ?s 1 = Got (Some 0)" by (simp add: heap_step fs_heap_start_def)
  with fs_heap_once [OF refl, of "[0, 1, 0, 1, 0, 0, 0, 0, 0, 1, 1, 1, 1]"] show ?thesis by blast
qed

text \<open>
  What the file system service calls: an allocation or a release of the thread that has just got the
  handle, on the heap of that handle; the size of a release is not used.
\<close>

definition FsAllocate :: "(nat option \<Rightarrow> nat \<Rightarrow> 'p) \<Rightarrow> nat \<Rightarrow> nat \<Rightarrow> fs_heap \<Rightarrow> 'p option" where
  "FsAllocate AllocateFromExpHeap t len s =
     (case fh_pc s t of Got h \<Rightarrow> Some (AllocateFromExpHeap h len) | _ \<Rightarrow> None)"

definition FsDeallocate :: "(nat option \<Rightarrow> 'p \<Rightarrow> 'q) \<Rightarrow> nat \<Rightarrow> 'p \<Rightarrow> nat \<Rightarrow> fs_heap \<Rightarrow> 'q option" where
  "FsDeallocate FreeToExpHeap t p len s =
     (case fh_pc s t of Got h \<Rightarrow> Some (FreeToExpHeap h p) | _ \<Rightarrow> None)"

text \<open>All of them are on one heap.\<close>

lemma fs_calls_one_heap:
  assumes "s = heap_run False ts fs_heap_start"
  shows "FsAllocate alloc t len s = Some x \<Longrightarrow> x = alloc (Some 0) len"
    and "FsDeallocate free t p len s = Some y \<Longrightarrow> y = free (Some 0) p"
proof -
  have "h = Some 0" if "fh_pc s t = Got h" for h
    using heap_run_inv [OF fs_heap_start_inv, of ts] that unfolding assms fs_heap_inv_def by (metis place_ok.simps(6))
  then show "FsAllocate alloc t len s = Some x \<Longrightarrow> x = alloc (Some 0) len"
    "FsDeallocate free t p len s = Some y \<Longrightarrow> y = free (Some 0) p"
    by (auto simp: FsAllocate_def FsDeallocate_def split: heap_pc.splits)
qed

text \<open>When the store of the flag is seen before that of the handle, a call can return the null handle.\<close>

lemma null_heap_handle: "fh_pc (heap_run True [0, 0, 0, 0, 1, 1] fs_heap_start) 1 = Got None"
  by (simp add: heap_step fs_heap_start_def)

section \<open>Sessions\<close>

text \<open>The options of the two server managers, and how many sessions and ports each has.\<close>

record server_options =
  PointerBufferSize :: nat
  MaxDomains :: nat
  MaxDomainObjects :: nat
  CanManageMitmServers :: bool
  so_sessions :: nat
  so_ports :: nat

definition MitmSessions :: nat where "MitmSessions = 24"
definition NifmMitmSessions :: nat where "NifmMitmSessions = 4"

definition MitmServerOptions :: server_options where
  "MitmServerOptions = \<lparr>PointerBufferSize = 0x1000, MaxDomains = MitmSessions, MaxDomainObjects = 0x100,
     CanManageMitmServers = True, so_sessions = MitmSessions, so_ports = 1\<rparr>"

definition NifmMitmServerOptions :: server_options where
  "NifmMitmServerOptions = \<lparr>PointerBufferSize = 0x1F4, MaxDomains = 4, MaxDomainObjects = 0x10,
     CanManageMitmServers = True, so_sessions = NifmMitmSessions, so_ports = 1\<rparr>"

text \<open>
  A session to accept: the program of its process and the size of the pointer buffer of the real
  service's session.
\<close>

record mitm_session =
  ms_program :: u64
  ms_pointer_buffer :: nat

datatype accept_line =
    Accept nat u64 nat nat
  | NifmAccept nat nat
  | NifmResult u32

text \<open>
  Accepting a session: the library makes the object's session from the session of the process
  (\<open>Some\<close> its result, \<open>None\<close> the process ends in an assertion of the library); with the real service's
  session as a part of it for \<^verbatim>\<open>AcceptMitmImpl\<close>, without for \<^verbatim>\<open>AcceptImpl\<close>.  The results are the lines on
  the card, and the result; the first component counts the sessions of the socket service so far.
\<close>

definition OnNeedsToAccept :: "(mitm_session \<Rightarrow> u32 option) \<Rightarrow> mitm_session \<Rightarrow> nat \<Rightarrow> nat \<times> accept_line list \<times> u32 option" where
  "OnNeedsToAccept AcceptMitmImpl fsrv s_accepts =
     (s_accepts + 1, [Accept (s_accepts + 1) (ms_program fsrv) (ms_pointer_buffer fsrv) (PointerBufferSize MitmServerOptions)],
      AcceptMitmImpl fsrv)"

definition nifm_OnNeedsToAccept :: "(u64 \<Rightarrow> u32 option) \<Rightarrow> mitm_session \<Rightarrow> accept_line list \<times> u32 option" where
  "nifm_OnNeedsToAccept AcceptImpl fsrv =
     (let first = NifmAccept (ms_pointer_buffer fsrv) (PointerBufferSize NifmMitmServerOptions) in
      case AcceptImpl (ms_program fsrv) of
        None \<Rightarrow> ([first], None)
      | Some accept_result \<Rightarrow> ([first, NifmResult accept_result], Some accept_result))"

text \<open>
  What the library asserts of \<^verbatim>\<open>AcceptMitmImpl\<close>: the manager's pointer buffer is no smaller than the real
  service's.  Then the last line on the card names both sizes, whichever of the sessions ended it.
\<close>

primrec accept_all :: "(mitm_session \<Rightarrow> u32 option) \<Rightarrow> mitm_session list \<Rightarrow> nat \<Rightarrow> accept_line list \<times> bool" where
  "accept_all impl [] n = ([], True)"
| "accept_all impl (x # xs) n =
     (case OnNeedsToAccept impl x n of (m, ls, r) \<Rightarrow>
        (case r of None \<Rightarrow> (ls, False) | Some rc \<Rightarrow> (case accept_all impl xs m of (ks, go_on) \<Rightarrow> (ls @ ks, go_on))))"

lemma accept_names_sizes:
  assumes "\<And>x. impl x = None \<longleftrightarrow> PointerBufferSize MitmServerOptions < ms_pointer_buffer x"
  shows "accept_all impl xs n = (ls, False) \<Longrightarrow>
    \<exists>k program fwd. ls \<noteq> [] \<and> last ls = Accept k program fwd 0x1000 \<and> 0x1000 < fwd \<and> k = n + length ls"
proof (induction xs arbitrary: n ls)
  case (Cons x xs)
  show ?case
  proof (cases "impl x")
    case None
    with Cons.prems assms [of x] show ?thesis by (auto simp: OnNeedsToAccept_def MitmServerOptions_def)
  next
    case (Some rc)
    with Cons.prems obtain ks where ks: "accept_all impl xs (Suc n) = (ks, False)"
      "ls = Accept (Suc n) (ms_program x) (ms_pointer_buffer x) (PointerBufferSize MitmServerOptions) # ks"
      by (auto simp: OnNeedsToAccept_def split: prod.splits)
    from Cons.IH [OF ks(1)] ks(2) show ?thesis by auto
  qed
qed simp

section \<open>The start of the process\<close>

datatype init_event = AllocatorReady nat | SmReady | FsReady | FsAllocatorSet | AutoAbortOff | NodeThreadStarted | NodeThreadJoined

definition InitializeSystemModuleBeforeConstructors :: "nat \<Rightarrow> init_event list" where
  "InitializeSystemModuleBeforeConstructors malloc_size = [AllocatorReady malloc_size]"

text \<open>\<open>False\<close>: the process is aborted.\<close>

definition InitializeSystemModule :: "bool \<Rightarrow> init_event list \<times> bool" where
  "InitializeSystemModule sm = (if \<not> sm then ([], False) else ([SmReady, FsReady, FsAllocatorSet, AutoAbortOff], True))"

definition module_Main :: "bool \<Rightarrow> bool \<Rightarrow> init_event list \<times> bool" where
  "module_Main thread_made thread_ends =
     (if \<not> thread_made then ([], False) else (NodeThreadStarted # (if thread_ends then [NodeThreadJoined] else []), True))"

end
