(* ===== verification/Metrics.thy ===== *)
theory Metrics
  imports Prelude
begin

text \<open>
  The metrics of the core (\<^verbatim>\<open>compat/prometheus/simpleapi.h\<close>), which replace a library that exports them:
  counters and gauges in memory.  The operators return the metric, or the one before for the postfix
  forms.
\<close>

section \<open>Counters\<close>

type_synonym counter_metric_t = u64

definition counter_new :: counter_metric_t where "counter_new = 0"

text \<open>Each operation of a counter: the new value and what the expression is worth.\<close>

datatype counter_op = CounterPreInc | CounterPostInc | CounterAdd u64 | CounterAssign (assigned: counter_metric_t)

fun counter_do :: "counter_op \<Rightarrow> counter_metric_t \<Rightarrow> counter_metric_t \<times> counter_metric_t" where
  "counter_do CounterPreInc m = (m + 1, m + 1)"
| "counter_do CounterPostInc m = (m + 1, m)"
| "counter_do (CounterAdd n) m = (m + n, m + n)"
| "counter_do (CounterAssign c) m = (c, c)"

section \<open>Gauges\<close>

text \<open>A gauge holds an \<^verbatim>\<open>int64_t\<close>: \<open>None\<close> when it overflows, which is undefined.\<close>

definition s64_range :: "int \<Rightarrow> bool" where "s64_range x \<longleftrightarrow> - (2 ^ 63) \<le> x \<and> x < 2 ^ 63"

definition s64_result :: "int \<Rightarrow> int option" where
  "s64_result x = (if s64_range x then Some x else None)"

definition gauge_new :: int where "gauge_new = 0"

datatype gauge_op = GaugePreInc | GaugePostInc | GaugePreDec | GaugePostDec | GaugeAdd int | GaugeSub int | GaugeSet int

fun gauge_do :: "gauge_op \<Rightarrow> int \<Rightarrow> (int \<times> int) option" where
  "gauge_do GaugePreInc m = map_option (\<lambda>x. (x, x)) (s64_result (m + 1))"
| "gauge_do GaugePostInc m = map_option (\<lambda>x. (x, m)) (s64_result (m + 1))"
| "gauge_do GaugePreDec m = map_option (\<lambda>x. (x, x)) (s64_result (m - 1))"
| "gauge_do GaugePostDec m = map_option (\<lambda>x. (x, m)) (s64_result (m - 1))"
| "gauge_do (GaugeAdd n) m = map_option (\<lambda>x. (x, x)) (s64_result (m + n))"
| "gauge_do (GaugeSub n) m = map_option (\<lambda>x. (x, x)) (s64_result (m - n))"
| "gauge_do (GaugeSet n) m = Some (n, n)"

section \<open>Families\<close>

text \<open>\<^verbatim>\<open>Add\<close> ignores its labels: every metric of a family starts anew, two with the same labels included.\<close>

definition family_Add :: "'m \<Rightarrow> (string \<times> string) list \<Rightarrow> 'm" where "family_Add fresh labels = fresh"

section \<open>What they count\<close>

fun counter_by :: "counter_op \<Rightarrow> nat" where
  "counter_by CounterPreInc = 1"
| "counter_by CounterPostInc = 1"
| "counter_by (CounterAdd n) = unat n"
| "counter_by (CounterAssign c) = 0"

definition counter_run :: "counter_op list \<Rightarrow> counter_metric_t \<Rightarrow> counter_metric_t" where
  "counter_run xs m = fold (\<lambda>x m. fst (counter_do x m)) xs m"

fun gauge_run :: "gauge_op list \<Rightarrow> int \<Rightarrow> int option" where
  "gauge_run [] m = Some m"
| "gauge_run (x # xs) m = do { (k, _) \<leftarrow> gauge_do x m; gauge_run xs k }"

fun gauge_move :: "gauge_op \<Rightarrow> int \<Rightarrow> int" where
  "gauge_move GaugePreInc m = m + 1"
| "gauge_move GaugePostInc m = m + 1"
| "gauge_move GaugePreDec m = m - 1"
| "gauge_move GaugePostDec m = m - 1"
| "gauge_move (GaugeAdd n) m = m + n"
| "gauge_move (GaugeSub n) m = m - n"
| "gauge_move (GaugeSet n) m = n"

text \<open>The exact values on the way.\<close>

primrec gauge_values :: "gauge_op list \<Rightarrow> int \<Rightarrow> int list" where
  "gauge_values [] m = []"
| "gauge_values (x # xs) m = gauge_move x m # gauge_values xs (gauge_move x m)"

text \<open>A counter that is not assigned counts modulo 2^64, whatever was counted.\<close>

lemma counter_step:
  "(\<forall>c. x \<noteq> CounterAssign c) \<Longrightarrow> fst (counter_do x m) = m + of_nat (counter_by x)"
  by (cases x) simp_all

lemma counter_sums:
  assumes "\<forall>c. CounterAssign c \<notin> set xs"
  shows "unat (counter_run xs m) = (unat m + sum_list (map counter_by xs)) mod 2 ^ 64"
proof -
  have "counter_run xs m = m + of_nat (sum_list (map counter_by xs))"
    using assms
  proof (induction xs arbitrary: m)
    case (Cons x xs)
    then have "fst (counter_do x m) = m + of_nat (counter_by x)" by (intro counter_step) auto
    with Cons show ?case by (simp add: counter_run_def add.assoc)
  qed (simp add: counter_run_def)
  then show ?thesis by (simp add: unat_word_ariths unat_of_nat mod_add_right_eq)
qed

text \<open>A gauge is the exact value as long as every value on the way is an \<^verbatim>\<open>int64_t\<close>, and overflows otherwise.\<close>

lemma gauge_exact:
  assumes "\<forall>n. GaugeSet n \<in> set xs \<longrightarrow> s64_range n"
  shows "gauge_run xs m = (if list_all s64_range (gauge_values xs m) then Some (fold gauge_move xs m) else None)"
  using assms
proof (induction xs arbitrary: m)
  case (Cons x xs)
  have "gauge_do x m = None" if "\<not> s64_range (gauge_move x m)"
    using that Cons.prems by (cases x) (auto simp: s64_result_def)
  moreover have "\<exists>v. gauge_do x m = Some (gauge_move x m, v)" if "s64_range (gauge_move x m)"
    using that by (cases x) (auto simp: s64_result_def)
  ultimately show ?case
    using Cons.IH [of "gauge_move x m"] Cons.prems by (cases "s64_range (gauge_move x m)") auto
qed simp

end
